(* ===== verification/Prelude.thy ===== *)
theory Prelude
  imports Main "HOL-Library.Word"
begin

text \<open>
  Shared vocabulary of the development: machine integers and byte strings as the Go code has
  them, the error monad \<open>'e + 'a\<close> (\<open>Inl\<close> is the error a Go function returns), little- and
  big-endian conversions of \<open>encoding/binary\<close>, and the interface every encoder/decoder pair of
  the wire package satisfies, stated once as the locale \<open>codec\<close> with the lemmas its clients use.
\<close>

unbundle bit_operations_syntax

section \<open>Types\<close>

type_synonym u8 = "8 word"
type_synonym u16 = "16 word"
type_synonym u32 = "32 word"
type_synonym u64 = "64 word"
type_synonym i32 = "32 word"
type_synonym i64 = "64 word"
type_synonym bytes = "u8 list"

named_theorems bind_simps \<open>rewrite rules of the error monad\<close>
named_theorems codec_defs \<open>definitions of encoders and decoders\<close>

section \<open>The error monad\<close>

definition bindE :: "'e + 'a \<Rightarrow> ('a \<Rightarrow> 'e + 'b) \<Rightarrow> 'e + 'b" where
  "bindE m f = (case m of Inl e \<Rightarrow> Inl e | Inr x \<Rightarrow> f x)"

lemma bindE_Inl [simp, bind_simps]: "bindE (Inl e) f = Inl e"
  by (simp add: bindE_def)

lemma bindE_Inr [simp, bind_simps]: "bindE (Inr x) f = f x"
  by (simp add: bindE_def)

lemma bindE_eq_Inr: "bindE m f = Inr y \<longleftrightarrow> (\<exists>x. m = Inr x \<and> f x = Inr y)"
  by (cases m) auto

lemma bindE_eq_Inl: "bindE m f = Inl e \<longleftrightarrow> m = Inl e \<or> (\<exists>x. m = Inr x \<and> f x = Inl e)"
  by (cases m) auto

lemma bindE_assoc [bind_simps]: "bindE (bindE m f) g = bindE m (\<lambda>x. bindE (f x) g)"
  by (cases m) auto

lemma bindE_cong [fundef_cong]:
  "m = m' \<Longrightarrow> (\<And>x. m' = Inr x \<Longrightarrow> f x = f' x) \<Longrightarrow> bindE m f = bindE m' f'"
  by (cases m') auto

text \<open>A guard that returns an error: \<open>if bad \{ return err \}\<close>.\<close>

definition failIf :: "bool \<Rightarrow> 'e \<Rightarrow> 'e + unit" where
  "failIf b e = (if b then Inl e else Inr ())"

lemma failIf_simps [simp]: "failIf True e = Inl e" "failIf False e = Inr ()"
  by (simp_all add: failIf_def)

lemma failIf_eq_Inr [simp]: "failIf b e = Inr u \<longleftrightarrow> \<not> b"
  by (simp add: failIf_def)

lemma failIf_eq_Inl [simp]: "failIf b e = Inl e' \<longleftrightarrow> b \<and> e = e'"
  by (simp add: failIf_def)

text \<open>A loop over a slice that stops at the first error.\<close>

fun foldE :: "('s \<Rightarrow> 'a \<Rightarrow> 'e + 's) \<Rightarrow> 's \<Rightarrow> 'a list \<Rightarrow> 'e + 's" where
  "foldE f s [] = Inr s"
| "foldE f s (x # xs) = bindE (f s x) (\<lambda>s'. foldE f s' xs)"

lemma foldE_append: "foldE f s (xs @ ys) = bindE (foldE f s xs) (\<lambda>s'. foldE f s' ys)"
  by (induction xs arbitrary: s) (auto simp: bindE_assoc)

lemma foldE_invariant:
  assumes "foldE f s xs = Inr s'" and "P s"
    and "\<And>s x t. x \<in> set xs \<Longrightarrow> P s \<Longrightarrow> f s x = Inr t \<Longrightarrow> P t"
  shows "P s'"
  using assms
proof (induction xs arbitrary: s)
  case Nil
  then show ?case by simp
next
  case (Cons x xs)
  from Cons.prems(1) obtain t where t: "f s x = Inr t" "foldE f t xs = Inr s'"
    by (auto simp: bindE_eq_Inr)
  with Cons.prems have "P t" by (meson list.set_intros(1))
  with t(2) Cons.prems(3) show ?case
    by (meson Cons.IH list.set_intros(2))
qed

section \<open>Readers\<close>

text \<open>
  An \<open>io.Reader\<close> over a byte buffer: the bytes that remain are the state, a read returns its
  value with what is left, or the error. \<open>io.ReadFull\<close> distinguishes an exhausted reader
  (\<open>io.EOF\<close>) from one that ends in the middle (\<open>io.ErrUnexpectedEOF\<close>).
  \<open>MessageError f\<close> is the \<open>*wire.MessageError\<close> whose \<open>Func\<close> field is \<open>f\<close>.
\<close>

datatype werror = EOF | UnexpectedEOF | MessageError string

type_synonym 'a reader = "bytes \<Rightarrow> werror + ('a \<times> bytes)"

definition retR :: "'a \<Rightarrow> 'a reader" where
  "retR x bs = Inr (x, bs)"

definition failR :: "werror \<Rightarrow> 'a reader" where
  "failR e bs = Inl e"

definition bindR :: "'a reader \<Rightarrow> ('a \<Rightarrow> 'b reader) \<Rightarrow> 'b reader" where
  "bindR p f bs = bindE (p bs) (\<lambda>(x, rest). f x rest)"

definition guardR :: "bool \<Rightarrow> werror \<Rightarrow> unit reader" where
  "guardR ok e = (if ok then retR () else failR e)"

definition readFull :: "nat \<Rightarrow> bytes reader" where
  "readFull n bs =
     (if n \<le> length bs then Inr (take n bs, drop n bs)
      else if bs = [] then Inl EOF else Inl UnexpectedEOF)"

fun readN :: "nat \<Rightarrow> 'a reader \<Rightarrow> 'a list reader" where
  "readN 0 p = retR []"
| "readN (Suc n) p = bindR p (\<lambda>x. bindR (readN n p) (\<lambda>xs. retR (x # xs)))"

lemma retR_apply [simp]: "retR x bs = Inr (x, bs)"
  by (simp add: retR_def)

lemma failR_apply [simp]: "failR e bs = Inl e"
  by (simp add: failR_def)

lemma guardR_apply [simp]: "guardR ok e bs = (if ok then Inr ((), bs) else Inl e)"
  by (simp add: guardR_def)

lemma guardR_eq_Inr: "guardR ok e bs = Inr (u, rest) \<longleftrightarrow> ok \<and> rest = bs"
  by auto

lemma bindR_Inr [simp, bind_simps]: "p bs = Inr (x, rest) \<Longrightarrow> bindR p f bs = f x rest"
  by (simp add: bindR_def)

lemma bindR_Inl [simp, bind_simps]: "p bs = Inl e \<Longrightarrow> bindR p f bs = Inl e"
  by (simp add: bindR_def)

lemma bindR_eq_Inr:
  "bindR p f bs = Inr (y, rest) \<longleftrightarrow> (\<exists>x r. p bs = Inr (x, r) \<and> f x r = Inr (y, rest))"
  by (auto simp: bindR_def bindE_eq_Inr)

lemma readFull_append [simp]: "n = length xs \<Longrightarrow> readFull n (xs @ rest) = Inr (xs, rest)"
  by (simp add: readFull_def)

lemma readFull_eq_Inr:
  "readFull n bs = Inr (xs, rest) \<longleftrightarrow> length xs = n \<and> bs = xs @ rest"
  by (auto simp: readFull_def min_def)

lemma readN_length: "readN n p bs = Inr (xs, rest) \<Longrightarrow> length xs = n"
  by (induction n arbitrary: bs xs rest) (auto simp: bindR_eq_Inr)

text \<open>
  Every reader of the wire package is local: what it returns is determined by the bytes it
  consumed, whatever follows them.
\<close>

named_theorems local_intros \<open>locality of readers\<close>

definition local_reader :: "'a reader \<Rightarrow> bool" where
  "local_reader p \<longleftrightarrow> (\<forall>bs x rest. p bs = Inr (x, rest) \<longrightarrow>
     (\<exists>pre. bs = pre @ rest \<and> (\<forall>r. p (pre @ r) = Inr (x, r))))"

lemma local_readerD:
  assumes "local_reader p" and "p bs = Inr (x, rest)"
  obtains pre where "bs = pre @ rest" and "\<And>r. p (pre @ r) = Inr (x, r)"
  using assms unfolding local_reader_def by blast

lemma local_retR [local_intros]: "local_reader (retR x)"
  by (simp add: local_reader_def)

lemma local_failR [local_intros]: "local_reader (failR e)"
  by (simp add: local_reader_def)

lemma local_guardR [local_intros]: "local_reader (guardR ok e)"
  by (simp add: local_reader_def)

lemma local_readFull [local_intros]: "local_reader (readFull n)"
  by (auto simp: local_reader_def readFull_eq_Inr)

lemma local_bindR [local_intros]:
  assumes p: "local_reader p" and f: "\<And>x. local_reader (f x)"
  shows "local_reader (bindR p f)"
  unfolding local_reader_def
proof (intro allI impI)
  fix bs y rest assume "bindR p f bs = Inr (y, rest)"
  then obtain x r where x: "p bs = Inr (x, r)" and y: "f x r = Inr (y, rest)"
    by (auto simp: bindR_eq_Inr)
  from p x obtain a where a: "bs = a @ r" "\<And>s. p (a @ s) = Inr (x, s)"
    by (blast elim: local_readerD)
  from f y obtain b where b: "r = b @ rest" "\<And>s. f x (b @ s) = Inr (y, s)"
    by (blast elim: local_readerD)
  have "bindR p f ((a @ b) @ s) = Inr (y, s)" for s
    using a(2) [of "b @ s"] b(2) by simp
  with a(1) b(1) show "\<exists>pre. bs = pre @ rest \<and> (\<forall>s. bindR p f (pre @ s) = Inr (y, s))"
    by (intro exI [of _ "a @ b"]) simp
qed

lemma local_if [local_intros]:
  "(c \<Longrightarrow> local_reader p) \<Longrightarrow> (\<not> c \<Longrightarrow> local_reader q) \<Longrightarrow> local_reader (if c then p else q)"
  by simp

lemma local_readN [local_intros]: "local_reader p \<Longrightarrow> local_reader (readN n p)"
  by (induction n) (auto intro: local_intros)

section \<open>Bytes and words\<close>

text \<open>\<open>binary.LittleEndian\<close> and \<open>binary.BigEndian\<close> on words of \<open>n\<close> bytes.\<close>

definition le_bytes :: "nat \<Rightarrow> 'a::len word \<Rightarrow> bytes" where
  "le_bytes n w = map (\<lambda>i. ucast (drop_bit (8 * i) w)) [0..<n]"

fun le_word :: "bytes \<Rightarrow> 'a::len word" where
  "le_word [] = 0"
| "le_word (b # bs) = ucast b OR push_bit 8 (le_word bs)"

lemma length_le_bytes [simp]: "length (le_bytes n w) = n"
  by (simp add: le_bytes_def)

lemma bit_le_word:
  "bit (le_word bs :: 'a::len word) i \<longleftrightarrow>
     i < LENGTH('a) \<and> i div 8 < length bs \<and> bit (bs ! (i div 8)) (i mod 8)"
proof (induction bs arbitrary: i)
  case Nil
  then show ?case by simp
next
  case (Cons b bs)
  show ?case
  proof (cases "i < 8")
    case True
    then show ?thesis
      by (auto simp: bit_or_iff bit_push_bit_iff bit_ucast_iff)
  next
    case False
    then obtain j where j: "i = j + 8" by (metis add.commute le_Suc_ex linorder_not_less)
    have small: "\<not> bit b (j + 8)" by (auto dest: bit_imp_le_length)
    have dm: "(j + 8) div 8 = Suc (j div 8)" by simp
    show ?thesis
      by (auto simp: j bit_or_iff bit_push_bit_iff bit_ucast_iff Cons.IH small dm)
  qed
qed

lemma le_word_le_bytes [simp]:
  fixes w :: "'a::len word"
  assumes "8 * n = LENGTH('a)"
  shows "le_word (le_bytes n w) = w"
proof (rule bit_word_eqI)
  fix i assume i: "i < LENGTH('a)"
  with assms have d: "i div 8 < n" by linarith
  have "8 * (i div 8) + i mod 8 = i" by simp
  with d i show "bit (le_word (le_bytes n w) :: 'a word) i = bit w i"
    by (simp add: bit_le_word le_bytes_def bit_ucast_iff bit_drop_bit_eq)
qed

lemma le_bytes_le_word [simp]:
  assumes "length bs = n" and "8 * n = LENGTH('a::len)"
  shows "le_bytes n (le_word bs :: 'a word) = bs"
proof (rule nth_equalityI)
  show "length (le_bytes n (le_word bs :: 'a word)) = length bs"
    using assms by simp
next
  fix k assume "k < length (le_bytes n (le_word bs :: 'a word))"
  then have k: "k < n" by simp
  show "le_bytes n (le_word bs :: 'a word) ! k = bs ! k"
  proof (rule bit_word_eqI)
    fix i assume i: "i < LENGTH(8)"
    then have i8: "i < 8" by simp
    have "8 * k + i < LENGTH('a)" using assms(2) k i8 by linarith
    moreover have "(8 * k + i) div 8 = k" "(8 * k + i) mod 8 = i" using i8 by simp_all
    ultimately show "bit (le_bytes n (le_word bs :: 'a word) ! k) i = bit (bs ! k) i"
      using k i8 assms(1) by (simp add: le_bytes_def bit_ucast_iff bit_drop_bit_eq bit_le_word)
  qed
qed

lemma unat_lt: "unat (x :: 'a::len word) < 2 ^ LENGTH('a)"
  by simp

lemma unat_ucast_small:
  "unat v < 2 ^ LENGTH('b::len) \<Longrightarrow> unat (ucast (v :: 'a::len word) :: 'b word) = unat v"
  by (simp add: unsigned_ucast_eq take_bit_nat_eq_self)

lemma ucast_down_up:
  fixes v :: "'a::len word"
  assumes "unat v < 2 ^ LENGTH('b::len)"
  shows "ucast (ucast v :: 'b word) = v"
proof -
  have 1: "unat (ucast v :: 'b word) = unat v" using assms by (rule unat_ucast_small)
  then have "unat (ucast (ucast v :: 'b word) :: 'a word) = unat v"
    by (subst unat_ucast_small) simp_all
  then show ?thesis by (rule word_unat_eq_iff [THEN iffD2])
qed

lemma ucast_up_down:
  fixes x :: "'a::len word"
  assumes "LENGTH('a) \<le> LENGTH('b::len)"
  shows "ucast (ucast x :: 'b word) = x"
  using assms by (intro bit_word_eqI) (auto simp: bit_ucast_iff)

lemma unat_ucast_up:
  fixes x :: "'a::len word"
  assumes "LENGTH('a) \<le> LENGTH('b::len)"
  shows "unat (ucast x :: 'b word) = unat x"
proof -
  have "unat x < 2 ^ LENGTH('a)" by simp
  also have "(2::nat) ^ LENGTH('a) \<le> 2 ^ LENGTH('b)" using assms by (rule power_increasing) simp
  finally show ?thesis by (rule unat_ucast_small)
qed

lemma unat_less_8: "unat (x :: u8) < 256"
  using unat_lt [of x] by simp

lemma unat_less_16: "unat (x :: u16) < 65536"
  using unat_lt [of x] by simp

lemma unat_less_32: "unat (x :: u32) < 4294967296"
  using unat_lt [of x] by simp

lemma unat_less_64: "unat (x :: u64) < 18446744073709551616"
  using unat_lt [of x] by simp

section \<open>The codec interface\<close>

text \<open>
  What an encoder and its decoder promise one another: \<open>ok\<close> says which values the format can
  carry, decoding what was encoded gives the value back and leaves exactly the bytes that follow.
\<close>

locale codec =
  fixes enc :: "'a \<Rightarrow> bytes"
    and dec :: "'a reader"
    and ok :: "'a \<Rightarrow> bool"
  assumes decode_encode: "ok x \<Longrightarrow> dec (enc x @ rest) = Inr (x, rest)"
begin

lemma decode_whole: "ok x \<Longrightarrow> dec (enc x) = Inr (x, [])"
  using decode_encode [of x "[]"] by simp

lemma encode_prefix_free:
  "ok x \<Longrightarrow> ok y \<Longrightarrow> enc x @ r = enc y @ s \<Longrightarrow> x = y \<and> r = s"
  by (metis Inr_inject Pair_inject decode_encode)

lemma encode_inject: "ok x \<Longrightarrow> ok y \<Longrightarrow> enc x = enc y \<Longrightarrow> x = y"
  using encode_prefix_free [of x y "[]" "[]"] by simp

lemma decode_list:
  "list_all ok xs \<Longrightarrow> readN (length xs) dec (concat (map enc xs) @ rest) = Inr (xs, rest)"
  by (induction xs) (auto simp: decode_encode)

lemma encode_nonempty_list:
  "(\<And>x. ok x \<Longrightarrow> enc x \<noteq> []) \<Longrightarrow> list_all ok xs \<Longrightarrow> xs \<noteq> [] \<Longrightarrow> concat (map enc xs) \<noteq> []"
  by (cases xs) auto

end

text \<open>
  A canonical format: a successful decode consumed exactly the encoding of its result, so no
  two byte strings decode to the same value.
\<close>

locale canonical_codec = codec +
  assumes decode_canonical: "dec bs = Inr (x, rest) \<Longrightarrow> ok x \<and> bs = enc x @ rest"
begin

lemma decode_iff: "dec bs = Inr (x, rest) \<longleftrightarrow> ok x \<and> bs = enc x @ rest"
  using decode_canonical decode_encode by blast

lemma decode_list_canonical:
  "readN n dec bs = Inr (xs, rest) \<longleftrightarrow>
     length xs = n \<and> list_all ok xs \<and> bs = concat (map enc xs) @ rest"
proof (induction n arbitrary: bs xs)
  case 0
  then show ?case by auto
next
  case (Suc n)
  show ?case
    by (cases xs) (auto simp: bindR_eq_Inr decode_iff Suc.IH)
qed

lemma truncated_fails:
  assumes "ok x" and "k < length (enc x)"
  shows "\<exists>e. dec (take k (enc x)) = Inl e"
proof (cases "dec (take k (enc x))")
  case (Inr p)
  obtain y r where p: "p = (y, r)" by (cases p)
  with Inr have y: "ok y" "take k (enc x) = enc y @ r"
    using decode_canonical by auto
  have "enc y @ (r @ drop k (enc x)) = enc x @ []"
    using y(2) by (metis append.assoc append_Nil2 append_take_drop_id)
  then have "r @ drop k (enc x) = []"
    using encode_prefix_free [OF y(1) assms(1)] by blast
  with assms(2) show ?thesis by simp
qed simp

lemma decode_unique: "dec bs = Inr (x, []) \<Longrightarrow> dec cs = Inr (x, []) \<Longrightarrow> bs = cs"
  by (auto dest!: decode_canonical)

end

end
