(* ===== verification/ScriptBase.thy ===== *)
theory ScriptBase
  imports Prelude
begin

text \<open>
  The computations of the script package (\<open>pkg/chain/tx/script\<close>). A Go method of the virtual
  machine reads and writes the receiver, may return an error, may panic (an index out of range)
  and, since the stacks are guarded by a mutex, may block for ever. All four outcomes are values
  of the type \<open>res\<close>; an error keeps the state it was raised in, because the code can still look
  at the receiver after a failed call. \<open>wp\<close> is the weakest precondition calculus the proofs of
  the package use, in a partial and in a total reading.
\<close>

section \<open>Error codes\<close>

text \<open>\<open>ErrorCode\<close> of error.go; \<open>PlainError\<close> is an error made by \<open>fmt.Errorf\<close>.\<close>

datatype (plugins only: code) ErrorCode =
    ErrInternal | ErrInvalidFlags | ErrInvalidIndex | ErrUnsupportedAddress
  | ErrNotMultisigScript | ErrTooManyRequiredSigs | ErrTooMuchNullData | ErrEarlyReturn
  | ErrEmptyStack | ErrEvalFalse | ErrScriptUnfinished | ErrInvalidProgramCounter
  | ErrScriptTooBig | ErrElementTooBig | ErrTooManyOperations | ErrStackOverflow
  | ErrInvalidPubKeyCount | ErrInvalidSignatureCount | ErrNumberTooBig | ErrVerify
  | ErrEqualVerify | ErrNumEqualVerify | ErrCheckSigVerify | ErrCheckMultiSigVerify
  | ErrDisabledOpcode | ErrReservedOpcode | ErrMalformedPush | ErrInvalidStackOperation
  | ErrUnbalancedConditional | ErrMinimalData | ErrInvalidSigHashType | ErrSigTooShort
  | ErrSigTooLong | ErrSigInvalidSeqID | ErrSigInvalidDataLen | ErrSigMissingSTypeID
  | ErrSigMissingSLen | ErrSigInvalidSLen | ErrSigInvalidRIntID | ErrSigZeroRLen
  | ErrSigNegativeR | ErrSigTooMuchRPadding | ErrSigInvalidSIntID | ErrSigZeroSLen
  | ErrSigNegativeS | ErrSigTooMuchSPadding | ErrSigHighS | ErrNotPushOnly
  | ErrSigNullDummy | ErrPubKeyType | ErrCleanStack | ErrNullFail
  | ErrWitnessMalleated | ErrWitnessMalleatedP2SH | ErrDiscourageUpgradableNOPs
  | ErrNegativeLockTime | ErrUnsatisfiedLockTime | ErrMinimalIf
  | ErrDiscourageUpgradableWitnessProgram | ErrWitnessProgramEmpty
  | ErrWitnessProgramMismatch | ErrWitnessProgramWrongLength | ErrWitnessUnexpected
  | ErrWitnessPubKeyType | PlainError

section \<open>Computations\<close>

datatype ('a, 's) res = Ok 'a 's | Err ErrorCode 's | Panic | Deadlock

type_synonym ('a, 's) prog = "'s \<Rightarrow> ('a, 's) res"

text \<open>Returning a value and returning an error are the constructors themselves.\<close>

abbreviation retP :: "'a \<Rightarrow> ('a, 's) prog" where
  "retP \<equiv> Ok"

abbreviation failP :: "ErrorCode \<Rightarrow> ('a, 's) prog" where
  "failP \<equiv> Err"

definition panicP :: "('a, 's) prog" where
  "panicP s = Panic"

definition getP :: "('s \<Rightarrow> 'a) \<Rightarrow> ('a, 's) prog" where
  "getP f s = Ok (f s) s"

definition modifyP :: "('s \<Rightarrow> 's) \<Rightarrow> (unit, 's) prog" where
  "modifyP f s = Ok () (f s)"

definition bindP :: "('a, 's) prog \<Rightarrow> ('a \<Rightarrow> ('b, 's) prog) \<Rightarrow> ('b, 's) prog" where
  "bindP m f s =
     (case m s of Ok x s' \<Rightarrow> f x s' | Err e s' \<Rightarrow> Err e s' | Panic \<Rightarrow> Panic | Deadlock \<Rightarrow> Deadlock)"

definition thenP :: "(unit, 's) prog \<Rightarrow> ('b, 's) prog \<Rightarrow> ('b, 's) prog" where
  "thenP m n = bindP m (\<lambda>_. n)"

text \<open>\<open>if bad \{ return scriptError(e, ...) \}\<close>\<close>

definition failWhen :: "bool \<Rightarrow> ErrorCode \<Rightarrow> (unit, 's) prog" where
  "failWhen b e = (if b then failP e else retP ())"

text \<open>\<open>x, err := f(...); if err != nil \{ return err \}\<close> for a function without effects.\<close>

definition liftE :: "ErrorCode + 'a \<Rightarrow> ('a, 's) prog" where
  "liftE r = (case r of Inl e \<Rightarrow> failP e | Inr x \<Rightarrow> retP x)"

text \<open>\<open>xs[i]\<close>, which panics out of range.\<close>

definition indexP :: "'a list \<Rightarrow> int \<Rightarrow> ('a, 's) prog" where
  "indexP xs i = (if 0 \<le> i \<and> i < int (length xs) then retP (xs ! nat i) else panicP)"

text \<open>\<open>_ = f(...)\<close>: the error is dropped, its effects are not.\<close>

definition ignoreErrP :: "(unit, 's) prog \<Rightarrow> (unit, 's) prog" where
  "ignoreErrP m s = (case m s of Err e s' \<Rightarrow> Ok () s' | r \<Rightarrow> r)"

text \<open>A method call on a field of the receiver.\<close>

definition onField :: "('s \<Rightarrow> 't) \<Rightarrow> (('t \<Rightarrow> 't) \<Rightarrow> 's \<Rightarrow> 's) \<Rightarrow> ('a, 't) prog \<Rightarrow> ('a, 's) prog" where
  "onField get upd m s =
     (case m (get s) of Ok x t \<Rightarrow> Ok x (upd (\<lambda>_. t) s) | Err e t \<Rightarrow> Err e (upd (\<lambda>_. t) s)
      | Panic \<Rightarrow> Panic | Deadlock \<Rightarrow> Deadlock)"

text \<open>\<open>for i := n; i > 0; i-- \{ body \}\<close> and \<open>for \_, x := range xs \{ body \}\<close>.\<close>

fun repeatP :: "nat \<Rightarrow> (unit, 's) prog \<Rightarrow> (unit, 's) prog" where
  "repeatP 0 m = retP ()"
| "repeatP (Suc n) m = thenP m (repeatP n m)"

fun forP :: "'a list \<Rightarrow> ('a \<Rightarrow> (unit, 's) prog) \<Rightarrow> (unit, 's) prog" where
  "forP [] f = retP ()"
| "forP (x # xs) f = thenP (f x) (forP xs f)"

text \<open>\<open>for i := 0; i < n; i++ \{ x := m(); xs = append(xs, x) \}\<close>\<close>

fun collectP :: "nat \<Rightarrow> ('a, 's) prog \<Rightarrow> ('a list, 's) prog" where
  "collectP 0 m = retP []"
| "collectP (Suc n) m = bindP m (\<lambda>x. bindP (collectP n m) (\<lambda>xs. retP (x # xs)))"

named_theorems prog_simps \<open>evaluation of computations\<close>

lemmas prog_defs = panicP_def getP_def modifyP_def thenP_def failWhen_def

lemma bindP_apply [prog_simps]:
  "m s = Ok x s' \<Longrightarrow> bindP m f s = f x s'"
  "m s = Err e s' \<Longrightarrow> bindP m f s = Err e s'"
  "m s = Panic \<Longrightarrow> bindP m f s = Panic"
  "m s = Deadlock \<Longrightarrow> bindP m f s = Deadlock"
  by (simp_all add: bindP_def)

lemma panicP_apply [prog_simps, simp]: "panicP s = Panic"
  by (simp add: panicP_def)

lemma getP_apply [prog_simps, simp]: "getP f s = Ok (f s) s"
  by (simp add: getP_def)

lemma modifyP_apply [prog_simps, simp]: "modifyP g s = Ok () (g s)"
  by (simp add: modifyP_def)

lemma failWhen_apply [prog_simps, simp]: "failWhen b e s = (if b then Err e s else Ok () s)"
  by (simp add: failWhen_def)

lemma indexP_apply [prog_simps, simp]:
  "indexP xs i s = (if 0 \<le> i \<and> i < int (length xs) then Ok (xs ! nat i) s else Panic)"
  by (simp add: indexP_def)

lemma liftE_apply [prog_simps, simp]:
  "liftE r s = (case r of Inl e \<Rightarrow> Err e s | Inr x \<Rightarrow> Ok x s)"
  by (simp add: liftE_def split: sum.split)

lemma thenP_apply [prog_simps]: "thenP m n s = bindP m (\<lambda>_. n) s"
  by (simp add: thenP_def)

lemma onField_apply [prog_simps]:
  "m (get s) = Ok x t \<Longrightarrow> onField get upd m s = Ok x (upd (\<lambda>_. t) s)"
  "m (get s) = Err e t \<Longrightarrow> onField get upd m s = Err e (upd (\<lambda>_. t) s)"
  "m (get s) = Panic \<Longrightarrow> onField get upd m s = Panic"
  "m (get s) = Deadlock \<Longrightarrow> onField get upd m s = Deadlock"
  by (simp_all add: onField_def)

lemma ignoreErrP_apply [prog_simps]:
  "m s = Ok u s' \<Longrightarrow> ignoreErrP m s = Ok u s'"
  "m s = Err e s' \<Longrightarrow> ignoreErrP m s = Ok () s'"
  by (simp_all add: ignoreErrP_def)

lemma bindP_eq_Ok:
  "bindP m f s = Ok y t \<longleftrightarrow> (\<exists>x s'. m s = Ok x s' \<and> f x s' = Ok y t)"
  by (cases "m s") (auto simp: bindP_def)

lemma bindP_cong [fundef_cong]:
  "m s = m' s' \<Longrightarrow> (\<And>x t. m' s' = Ok x t \<Longrightarrow> f x t = f' x t) \<Longrightarrow> bindP m f s = bindP m' f' s'"
  by (auto simp: bindP_def split: res.split)

section \<open>Weakest preconditions\<close>

text \<open>
  \<open>wp E m Q s\<close>: started in \<open>s\<close>, a normal return of \<open>m\<close> establishes \<open>Q\<close>. With \<open>E = False\<close>, moreover,
  \<open>m\<close> neither panics nor blocks; with \<open>E = True\<close> nothing is said about that.
\<close>

definition wp :: "bool \<Rightarrow> ('a, 's) prog \<Rightarrow> ('a \<Rightarrow> 's \<Rightarrow> bool) \<Rightarrow> 's \<Rightarrow> bool" where
  "wp E m Q s \<longleftrightarrow> (case m s of Ok x s' \<Rightarrow> Q x s' | Err e s' \<Rightarrow> True | Panic \<Rightarrow> E | Deadlock \<Rightarrow> E)"

named_theorems wp_rules \<open>equations and rules of the weakest precondition calculus\<close>

text \<open>The equations leave out the state, so that they also rewrite inside a postcondition.\<close>

lemma wp_result [wp_rules, simp]: "wp E (Ok x) Q = Q x" "wp E (Err e) Q = (\<lambda>s. True)"
  by (simp_all add: wp_def fun_eq_iff)

lemma wp_panic [wp_rules, simp]: "wp E panicP Q = (\<lambda>s. E)"
  by (simp add: wp_def fun_eq_iff)

lemma wp_get [wp_rules, simp]: "wp E (getP f) Q = (\<lambda>s. Q (f s) s)"
  by (simp add: wp_def fun_eq_iff)

lemma wp_modify [wp_rules, simp]: "wp E (modifyP g) Q = (\<lambda>s. Q () (g s))"
  by (simp add: wp_def fun_eq_iff)

lemma wp_bind [wp_rules, simp]: "wp E (bindP m f) Q = wp E m (\<lambda>x. wp E (f x) Q)"
  by (simp add: wp_def bindP_def fun_eq_iff split: res.split)

lemma wp_then [wp_rules, simp]: "wp E (thenP m n) Q = wp E m (\<lambda>_. wp E n Q)"
  by (simp add: thenP_def)

lemma wp_failWhen [wp_rules, simp]: "wp E (failWhen b e) Q = (\<lambda>s. \<not> b \<longrightarrow> Q () s)"
  by (simp add: wp_def fun_eq_iff)

lemma wp_liftE [wp_rules, simp]: "wp E (liftE r) Q = (\<lambda>s. \<forall>x. r = Inr x \<longrightarrow> Q x s)"
  by (cases r) (simp_all add: wp_def fun_eq_iff)

lemma wp_indexP [wp_rules, simp]:
  "wp E (indexP xs i) Q =
     (\<lambda>s. if 0 \<le> i \<and> i < int (length xs) then Q (xs ! nat i) s else E)"
  by (auto simp: wp_def fun_eq_iff)

lemma wp_if [wp_rules]:
  "wp E (if b then m else n) Q s \<longleftrightarrow> (b \<longrightarrow> wp E m Q s) \<and> (\<not> b \<longrightarrow> wp E n Q s)"
  by simp

lemma wp_mono: "wp E m Q s \<Longrightarrow> (\<And>x t. Q x t \<Longrightarrow> R x t) \<Longrightarrow> wp E m R s"
  by (auto simp: wp_def split: res.splits)

lemma wp_Ok: "wp E m Q s \<Longrightarrow> m s = Ok x t \<Longrightarrow> Q x t"
  by (simp add: wp_def)

lemma wp_safe: "wp False m Q s \<Longrightarrow> m s \<noteq> Panic \<and> m s \<noteq> Deadlock"
  by (auto simp: wp_def)

lemma wp_trueI: "(\<And>x t. m s = Ok x t \<Longrightarrow> Q x t) \<Longrightarrow> wp True m Q s"
  by (auto simp: wp_def split: res.split)

lemma wp_conj: "wp E m Q s \<Longrightarrow> wp True m R s \<Longrightarrow> wp E m (\<lambda>x t. Q x t \<and> R x t) s"
  by (auto simp: wp_def split: res.splits)

lemma wp_onField [wp_rules, simp]:
  "wp E (onField get upd m) Q = (\<lambda>s. wp E m (\<lambda>x t. Q x (upd (\<lambda>_. t) s)) (get s))"
  by (simp add: wp_def onField_def fun_eq_iff split: res.split)

lemma wp_repeatP:
  assumes "I n s" and "\<And>k t. I (Suc k) t \<Longrightarrow> wp E m (\<lambda>_. I k) t"
  shows "wp E (repeatP n m) (\<lambda>_. I 0) s"
  using assms(1)
proof (induction n arbitrary: s)
  case 0
  then show ?case by simp
next
  case (Suc n)
  then show ?case
    using wp_mono[OF assms(2)[OF Suc.prems]] by simp
qed

lemma wp_forP:
  assumes "I xs s" and "\<And>y ys t. I (y # ys) t \<Longrightarrow> wp E (f y) (\<lambda>_. I ys) t"
  shows "wp E (forP xs f) (\<lambda>_. I []) s"
  using assms(1)
proof (induction xs arbitrary: s)
  case Nil
  then show ?case by simp
next
  case (Cons x xs)
  then show ?case
    using wp_mono[OF assms(2)[OF Cons.prems]] by simp
qed

lemma wp_collectP:
  assumes "I n s" and "\<And>k t. I (Suc k) t \<Longrightarrow> wp E m (\<lambda>_. I k) t"
  shows "wp E (collectP n m) (\<lambda>xs t. length xs = n \<and> I 0 t) s"
  using assms(1)
proof (induction n arbitrary: s)
  case 0
  then show ?case by simp
next
  case (Suc n)
  have step: "wp E (collectP n m) (\<lambda>xs t. length xs = n \<and> I 0 t) t" if "I n t" for t
    using Suc.IH[OF that] .
  then show ?case
    using wp_mono[OF assms(2)[OF Suc.prems]] by simp
qed

section \<open>Signed integers\<close>

text \<open>The value of a Go \<open>int32\<close> or \<open>int64\<close> after an operation whose exact result is \<open>x\<close>.\<close>

definition s32 :: "int \<Rightarrow> int" where
  "s32 x = (x + 2 ^ 31) mod 2 ^ 32 - 2 ^ 31"

definition s64 :: "int \<Rightarrow> int" where
  "s64 x = (x + 2 ^ 63) mod 2 ^ 64 - 2 ^ 63"

lemma s32_id [simp]: "- (2 ^ 31) \<le> x \<Longrightarrow> x < 2 ^ 31 \<Longrightarrow> s32 x = x"
  by (simp add: s32_def)

lemma s64_id [simp]: "- (2 ^ 63) \<le> x \<Longrightarrow> x < 2 ^ 63 \<Longrightarrow> s64 x = x"
  by (simp add: s64_def)

lemma s32_range: "- (2 ^ 31) \<le> s32 x \<and> s32 x < 2 ^ 31"
  using pos_mod_bound[of "2 ^ 32" "x + 2 ^ 31"] pos_mod_sign[of "2 ^ 32" "x + 2 ^ 31"]
  by (simp add: s32_def)

lemma s64_range: "- (2 ^ 63) \<le> s64 x \<and> s64 x < 2 ^ 63"
  using pos_mod_bound[of "2 ^ 64" "x + 2 ^ 63"] pos_mod_sign[of "2 ^ 64" "x + 2 ^ 63"]
  by (simp add: s64_def)

end
