(* ===== verification/ScriptNum.thy ===== *)
theory ScriptNum
  imports ScriptBase
begin

text \<open>
  scriptnum.go: the numbers of the script language. A number is a Go \<open>int64\<close>, here an \<open>int\<close> whose
  operations wrap through \<open>s64\<close>; on the stack it is a little-endian sign-magnitude byte string.
  The main results are that decoding with \<open>requireMinimal\<close> is exactly the inverse of \<open>Bytes\<close> and
  that the numbers an opcode can receive stay within the documented range.
\<close>

unbundle bit_operations_syntax

section \<open>Definitions\<close>

definition maxInt32 :: int where "maxInt32 = 2 ^ 31 - 1"

definition minInt32 :: int where "minInt32 = - (2 ^ 31)"

definition defaultScriptNumLen :: nat where "defaultScriptNumLen = 4"

definition checkMinimalDataEncoding :: "bytes \<Rightarrow> ErrorCode + unit" where
  "checkMinimalDataEncoding v =
     (if v = [] then Inr ()
      else if v ! (length v - 1) AND 0x7f = 0
           \<and> (length v = 1 \<or> v ! (length v - 2) AND 0x80 = 0)
      then Inl ErrMinimalData else Inr ())"

text \<open>The loop of \<open>Bytes\<close>: \<open>for n > 0 \{ result = append(result, byte(n \& 0xff)); n >>= 8 \}\<close>.\<close>

function leDigits :: "int \<Rightarrow> bytes" where
  "leDigits n = (if 0 < n then word_of_int (n AND 0xff) # leDigits (drop_bit 8 n) else [])"
  by auto
termination
  by (relation "measure nat") (auto simp: drop_bit_eq_div)

declare leDigits.simps [simp del]

text \<open>\<open>scriptNum.Bytes\<close>; indexing the last byte of an empty \<open>result\<close> panics.\<close>

definition Bytes :: "int \<Rightarrow> (bytes, 's) prog" where
  "Bytes n =
     (if n = 0 then retP []
      else let isNegative = n < 0;
               result = leDigits (if isNegative then s64 (- n) else n)
           in bindP (indexP result (int (length result) - 1)) (\<lambda>top.
              if top AND 0x80 \<noteq> 0
              then retP (result @ [if isNegative then 0x80 else 0])
              else if isNegative
              then retP (result[length result - 1 := top OR 0x80])
              else retP result))"

definition Int32 :: "int \<Rightarrow> int" where
  "Int32 n = (if n > maxInt32 then maxInt32 else if n < minInt32 then minInt32 else s32 n)"

text \<open>The loop of \<open>makeScriptNum\<close>; \<open>int64(val) << uint8(8*i)\<close> is zero once the shift reaches 64.\<close>

fun leAccum :: "nat \<Rightarrow> int \<Rightarrow> bytes \<Rightarrow> int" where
  "leAccum i result [] = result"
| "leAccum i result (val # vs) =
     leAccum (Suc i) (result OR s64 (push_bit ((8 * i) mod 256) (uint val))) vs"

definition makeScriptNum :: "bytes \<Rightarrow> bool \<Rightarrow> nat \<Rightarrow> ErrorCode + int" where
  "makeScriptNum v requireMinimal scriptNumLen =
     (if length v > scriptNumLen then Inl ErrNumberTooBig
      else bindE (if requireMinimal then checkMinimalDataEncoding v else Inr ()) (\<lambda>_.
        if v = [] then Inr 0
        else let result = leAccum 0 0 v
             in if v ! (length v - 1) AND 0x80 \<noteq> 0
                then Inr (s64 (- (result AND NOT (s64 (push_bit ((8 * (length v - 1)) mod 256) 0x80)))))
                else Inr result))"

section \<open>Bytes and their values\<close>

lemma byte_bound: "uint (b :: u8) < 256"
  using uint_lt2p[of b] by simp

lemma byte_div: "uint (b :: u8) div 128 = (if uint b < 128 then 0 else 1)"
  using byte_bound[of b] int_div_pos_eq[of "uint b" 128 1 "uint b - 128"]
  by (auto simp: div_pos_pos_trivial)

lemma byte_mod: "uint (b :: u8) mod 128 = (if uint b < 128 then uint b else uint b - 128)"
  using byte_div[of b] div_mult_mod_eq[of "uint b" 128] by (simp split: if_splits)

lemma bit7_iff: "bit (b :: u8) 7 \<longleftrightarrow> 128 \<le> uint b"
proof -
  have "bit (uint b) 7 \<longleftrightarrow> odd (uint b div 128)"
    by (simp add: bit_iff_odd)
  then show ?thesis by (auto simp: bit_uint_iff byte_div split: if_splits)
qed

lemma byte_top: "(b :: u8) AND 0x80 \<noteq> 0 \<longleftrightarrow> 128 \<le> uint b"
  using and_exp_eq_0_iff_not_bit[of b 7] by (simp add: bit7_iff)

lemma byte_low: "uint ((b :: u8) AND 0x7f) = uint b mod 128"
proof -
  have "(0x7f :: u8) = mask 7" by (simp add: mask_eq_exp_minus_1)
  then have "b AND 0x7f = take_bit 7 b" by (simp only: take_bit_eq_mask)
  then have "uint (b AND 0x7f) = take_bit 7 (uint b)" by (simp only: unsigned_take_bit_eq)
  then show ?thesis by (simp add: take_bit_eq_mod)
qed

lemma uint_byte_set_top: "uint (b :: u8) < 128 \<Longrightarrow> uint (b OR 0x80) = uint b + 128"
proof -
  assume a: "uint b < 128"
  then have "b AND 0x80 = 0" using byte_top[of b] by auto
  then have "b OR 0x80 = b + 0x80" by (simp add: disjunctive_add_eq_or)
  then show ?thesis using a by (simp add: uint_plus_if' )
qed

fun le_val :: "bytes \<Rightarrow> int" where
  "le_val [] = 0"
| "le_val (b # bs) = uint b + 256 * le_val bs"

lemma le_val_nonneg [simp]: "0 \<le> le_val bs"
  by (induction bs) auto

lemma le_val_append: "le_val (xs @ ys) = le_val xs + 256 ^ length xs * le_val ys"
  by (induction xs) (auto simp: algebra_simps)

lemma le_val_bound: "le_val bs < 256 ^ length bs"
proof (induction bs)
  case (Cons b bs)
  then show ?case using byte_bound[of b] by simp
qed simp

lemma and_ff: "(n :: int) AND 0xff = n mod 256"
  using take_bit_eq_mask[of 8 n] by (simp add: mask_eq_exp_minus_1 take_bit_eq_mod)

lemma leDigits_val: "0 \<le> n \<Longrightarrow> le_val (leDigits n) = n"
proof (induction n rule: leDigits.induct)
  case (1 n)
  then show ?case
    by (subst leDigits.simps) (auto simp: drop_bit_eq_div and_ff uint_word_of_int)
qed

lemma leDigits_Nil_iff: "leDigits n = [] \<longleftrightarrow> n \<le> 0"
  by (subst leDigits.simps) auto

lemma leDigits_cons:
  assumes "0 \<le> n" and "0 < uint b + 256 * n"
  shows "leDigits (uint (b :: u8) + 256 * n) = b # leDigits n"
  using assms byte_bound[of b]
  by (subst leDigits.simps) (auto simp: drop_bit_eq_div and_ff)

lemma leDigits_le_val: "ds = [] \<or> last ds \<noteq> 0 \<Longrightarrow> leDigits (le_val ds) = ds"
proof (induction ds)
  case Nil
  then show ?case by (simp add: leDigits_Nil_iff)
next
  case (Cons b bs)
  have ih: "leDigits (le_val bs) = bs"
    using Cons by (auto split: if_splits)
  have "0 < uint b + 256 * le_val bs"
  proof (cases "bs = []")
    case True
    with Cons.prems show ?thesis by (simp add: less_le uint_0_iff)
  next
    case False
    with ih have "0 < le_val bs" using leDigits_Nil_iff[of "le_val bs"] by auto
    then show ?thesis using uint_ge_0[of b] by linarith
  qed
  with leDigits_cons[of "le_val bs" b] ih show ?case by simp
qed

lemma leDigits_last: "0 < n \<Longrightarrow> last (leDigits n) \<noteq> 0"
proof (induction n rule: leDigits.induct)
  case (1 n)
  show ?case
  proof (cases "0 < drop_bit 8 n")
    case True
    with 1 show ?thesis by (subst leDigits.simps) (auto simp: leDigits_Nil_iff)
  next
    case False
    then have "n < 256" using 1 by (auto simp: drop_bit_eq_div)
    with False 1(2) show ?thesis
      by (subst leDigits.simps)
        (simp add: leDigits_Nil_iff and_ff uint_word_of_int flip: uint_0_iff)
  qed
qed

lemma leDigits_length: "n < 256 ^ k \<Longrightarrow> length (leDigits n) \<le> k"
proof (induction k arbitrary: n)
  case 0
  then show ?case by (simp add: leDigits_Nil_iff)
next
  case (Suc k)
  then have "drop_bit 8 n < 256 ^ k" by (simp add: drop_bit_eq_div)
  with Suc.IH show ?case by (subst leDigits.simps) auto
qed

section \<open>Sign and magnitude\<close>

text \<open>The specification: the integer a byte string denotes, and the string of a given magnitude.\<close>

definition num_value :: "bytes \<Rightarrow> int" where
  "num_value v =
     (if v = [] then 0
      else (if 128 \<le> uint (last v) then -1 else 1)
           * (le_val (butlast v) + 256 ^ (length v - 1) * (uint (last v) mod 128)))"

definition signmag :: "bool \<Rightarrow> bytes \<Rightarrow> bytes" where
  "signmag neg ds =
     (if 128 \<le> uint (last ds) then ds @ [if neg then 0x80 else 0]
      else butlast ds @ [if neg then last ds OR 0x80 else last ds])"

lemma num_value_snoc:
  "num_value (w @ [b]) =
     (if 128 \<le> uint b then -1 else 1) * (le_val w + 256 ^ length w * (uint b mod 128))"
  by (simp add: num_value_def)

lemma num_value_signmag:
  assumes "ds \<noteq> []"
  shows "num_value (signmag neg ds) = (if neg then - 1 else 1) * le_val ds"
proof -
  obtain w b where ds: "ds = w @ [b]" using assms by (metis append_butlast_last_id)
  show ?thesis
  proof (cases "128 \<le> uint b")
    case True
    then show ?thesis
      using num_value_snoc[of "w @ [b]" "if neg then 0x80 else 0"] by (simp add: ds signmag_def)
  next
    case False
    then have "uint b mod 128 = uint b" by simp
    with False show ?thesis
      using uint_byte_set_top[of b] by (simp add: ds signmag_def le_val_append num_value_snoc)
  qed
qed

lemma signmag_length: "ds \<noteq> [] \<Longrightarrow> length (signmag neg ds) = length ds + of_bool (128 \<le> uint (last ds))"
  by (simp add: signmag_def)

lemma minimal_snoc:
  "checkMinimalDataEncoding (w @ [b]) = Inr () \<longleftrightarrow>
     (uint b mod 128 \<noteq> 0 \<or> (w \<noteq> [] \<and> 128 \<le> uint (last w)))"
proof -
  have "b AND 0x7f = 0 \<longleftrightarrow> uint b mod 128 = 0"
    by (simp flip: byte_low uint_0_iff)
  moreover have "(w @ [b]) ! (length w - 1) AND 0x80 = 0 \<longleftrightarrow> uint (last w) < 128" if "w \<noteq> []"
    using that byte_top[of "last w"] by (auto simp: nth_append last_conv_nth)
  ultimately show ?thesis
    by (cases "w = []") (auto simp: checkMinimalDataEncoding_def numeral_2_eq_2)
qed

lemma signmag_minimal:
  assumes "ds \<noteq> []" and "last ds \<noteq> 0"
  shows "checkMinimalDataEncoding (signmag neg ds) = Inr ()"
proof -
  obtain w b where ds: "ds = w @ [b]" using assms by (metis append_butlast_last_id)
  show ?thesis
  proof (cases "128 \<le> uint b")
    case True
    then show ?thesis using minimal_snoc[of ds] by (simp add: ds signmag_def)
  next
    case False
    moreover have "uint b \<noteq> 0" using assms ds by (simp add: uint_0_iff)
    moreover have "uint b mod 128 = uint b" using False by simp
    ultimately show ?thesis
      using minimal_snoc[of w] uint_byte_set_top[of b] by (simp add: ds signmag_def)
  qed
qed

lemma minimal_signmag:
  assumes "v \<noteq> []" and "checkMinimalDataEncoding v = Inr ()"
  obtains neg ds where "ds \<noteq> []" "last ds \<noteq> 0" "v = signmag neg ds"
proof -
  obtain w b where v: "v = w @ [b]" using assms(1) by (metis append_butlast_last_id)
  show thesis
  proof (cases "uint b mod 128 = 0")
    case True
    with assms(2) v have w: "w \<noteq> []" "128 \<le> uint (last w)" using minimal_snoc[of w b] by auto
    have "b = (if 128 \<le> uint b then 0x80 else 0)"
      unfolding word_uint_eq_iff using True by (simp add: byte_mod split: if_splits)
    then have "v = signmag (128 \<le> uint b) w" using w v by (auto simp: signmag_def)
    moreover have "last w \<noteq> 0" using w by auto
    ultimately show thesis using that w by blast
  next
    case False
    let ?c = "b AND 0x7f"
    have c: "uint ?c = uint b mod 128" by (rule byte_low)
    have "(if 128 \<le> uint b then ?c OR 0x80 else ?c) = b"
      unfolding word_uint_eq_iff using uint_byte_set_top[of ?c] c byte_bound[of b]
      by (simp add: byte_mod split: if_splits)
    moreover have "uint ?c < 128" using c by simp
    ultimately have "v = signmag (128 \<le> uint b) (w @ [?c])" using v by (auto simp: signmag_def)
    moreover have "?c \<noteq> 0" using False c by (metis uint_0_iff)
    ultimately show thesis using that[of "w @ [?c]"] by simp
  qed
qed

lemma indexP_last: "xs \<noteq> [] \<Longrightarrow> indexP xs (int (length xs) - 1) s = Ok (last xs) s"
  by (cases xs rule: rev_cases) (auto simp: nth_append)

lemma update_last: "xs \<noteq> [] \<Longrightarrow> xs[length xs - 1 := x] = butlast xs @ [x]"
  by (metis append_butlast_last_id length_butlast list_update_length)

lemma Bytes_signmag:
  assumes "n \<noteq> 0" and "- (2 ^ 63) < n" and "n < 2 ^ 63"
  shows "Bytes n s = Ok (signmag (n < 0) (leDigits (abs n))) s"
proof -
  have m: "(if n < 0 then s64 (- n) else n) = abs n" using assms by auto
  obtain d where d: "leDigits (abs n) = d" and ne: "d \<noteq> []"
    using assms by (auto simp: leDigits_Nil_iff)
  show ?thesis
    unfolding Bytes_def Let_def m d using assms(1) ne
    by (simp add: bindP_apply(1)[where x = "last d" and s' = s] indexP_last
        signmag_def byte_top update_last del: One_nat_def indexP_apply)
qed

text \<open>The smallest \<open>int64\<close> has no positive counterpart, so \<open>Bytes\<close> panics on it.\<close>

lemma Bytes_min: "Bytes (- (2 ^ 63)) s = Panic"
proof -
  have "s64 (- (- (2 ^ 63))) = - (2 ^ 63)" by (simp add: s64_def)
  then have "leDigits (s64 (- (- (2 ^ 63)))) = []" by (simp add: leDigits_Nil_iff)
  then show ?thesis by (simp add: Bytes_def bindP_def)
qed

section \<open>Decoding\<close>

lemma or_push_bit:
  fixes r x :: int
  assumes "0 \<le> r" and "r < 2 ^ n"
  shows "r OR push_bit n x = r + 2 ^ n * x"
proof -
  have "take_bit n r = r" using assms by (simp add: take_bit_int_eq_self)
  then have "r AND push_bit n x = take_bit n r AND push_bit n x" by simp
  also have "\<dots> = 0" by (rule bit_eqI) (auto simp: bit_simps)
  finally show ?thesis by (simp add: push_bit_eq_mult mult.commute flip: disjunctive_add_eq_or)
qed

lemma s64_nonneg: "0 \<le> x \<Longrightarrow> x < 2 ^ 63 \<Longrightarrow> s64 x = x"
  by (rule s64_id) auto

lemma leAccum_val:
  assumes "0 \<le> r" and "r < 256 ^ i" and "i + length vs \<le> 7"
  shows "leAccum i r vs = r + 256 ^ i * le_val vs"
  using assms
proof (induction vs arbitrary: i r)
  case Nil
  then show ?case by simp
next
  case (Cons b bs)
  have e: "(256 :: int) ^ i = 2 ^ (8 * i)" by (simp add: power_mult)
  have "uint b * 2 ^ (8 * i) < 2 ^ 8 * 2 ^ (8 * i)"
    using byte_bound[of b] by simp
  also have "(2 :: int) ^ 8 * 2 ^ (8 * i) \<le> 2 ^ 56"
  proof -
    have "(2 :: int) ^ (8 * i) \<le> 2 ^ 48" using Cons.prems(3) by (intro power_increasing) auto
    then show ?thesis by simp
  qed
  finally have sh: "s64 (push_bit (8 * i) (uint b)) = push_bit (8 * i) (uint b)"
    by (simp add: push_bit_eq_mult s64_nonneg)
  have or: "r OR push_bit (8 * i) (uint b) = r + 256 ^ i * uint b"
    using or_push_bit[of r "8 * i"] Cons.prems e by simp
  have "r + 256 ^ i * uint b < 256 ^ Suc i"
  proof -
    have "r + 256 ^ i * uint b < 256 ^ i + 256 ^ i * uint b" using Cons.prems(2) by simp
    also have "\<dots> = 256 ^ i * (uint b + 1)" by (simp add: algebra_simps)
    also have "\<dots> \<le> 256 ^ i * 256" using byte_bound[of b] by (intro mult_left_mono) auto
    finally show ?thesis by (simp add: mult.commute)
  qed
  moreover have "(8 * i) mod 256 = 8 * i" using Cons.prems(3) by simp
  ultimately show ?case
    using Cons.IH[of "r + 256 ^ i * uint b" "Suc i"] Cons.prems sh or
    by (simp add: algebra_simps)
qed

lemma magnitude_bounds:
  fixes P X l :: int
  assumes "P \<le> 2 ^ 48" "X \<le> P * 127" "0 \<le> X" "0 \<le> l" "l < P"
  shows "l + X < 2 ^ 63" "0 \<le> l + X" "P * 128 < 2 ^ 63"
  using assms by simp_all

text \<open>For the lengths the opcodes pass (4 and 5) the decoder computes the denoted value.\<close>

lemma makeScriptNum_value:
  assumes "L \<le> 7" and "length v \<le> L" and "q \<longrightarrow> checkMinimalDataEncoding v = Inr ()"
  shows "makeScriptNum v q L = Inr (num_value v)"
proof (cases "v = []")
  case True
  then show ?thesis by (simp add: makeScriptNum_def num_value_def checkMinimalDataEncoding_def)
next
  case False
  then obtain w b where v: "v = w @ [b]" by (metis append_butlast_last_id)
  let ?n = "8 * length w"
  have len: "length w \<le> 6" using assms v by simp
  have chk: "(if q then checkMinimalDataEncoding v else Inr ()) = Inr ()" using assms(3) by simp
  have acc: "leAccum 0 0 v = le_val w + 256 ^ length w * uint b"
    using leAccum_val[of 0 0 v] len v by (simp add: le_val_append)
  have w: "0 \<le> le_val w" "le_val w < 2 ^ ?n" using le_val_bound[of w] by (simp_all add: power_mult)
  have e: "(256 :: int) ^ length w = 2 ^ ?n" by (simp add: power_mult)
  show ?thesis
  proof (cases "128 \<le> uint b")
    case False
    then have "uint b mod 128 = uint b" by simp
    with False show ?thesis
      using assms chk acc v byte_top[of b] by (simp add: makeScriptNum_def num_value_snoc)
  next
    case True
    let ?m = "le_val w + 256 ^ length w * (uint b - 128)"
    have "(2 :: int) ^ ?n \<le> 2 ^ 48" using len by (intro power_increasing) auto
    moreover have "2 ^ ?n * (uint b - 128) \<le> (2 :: int) ^ ?n * 127" "0 \<le> 2 ^ ?n * (uint b - 128)"
      using True byte_bound[of b] by (auto intro: mult_left_mono)
    ultimately have small: "?m < 2 ^ 63" "0 \<le> ?m" "(2 :: int) ^ ?n * 128 < 2 ^ 63"
      unfolding e using w magnitude_bounds[of "2 ^ ?n" "2 ^ ?n * (uint b - 128)" "le_val w"] by auto
    have msk: "s64 (push_bit (?n mod 256) 128) = push_bit (?n + 7) 1"
      using len small(3) by (simp add: push_bit_eq_mult power_add s64_nonneg mult.commute)
    have "drop_bit ?n (le_val w + 256 ^ length w * uint b) = uint b"
      using w by (simp add: e drop_bit_eq_div)
    then have "bit (le_val w + 256 ^ length w * uint b) (?n + 7)"
      using True bit7_iff[of b]
        fun_cong[OF bit_drop_bit_eq[of ?n "le_val w + 256 ^ length w * uint b"], of 7]
      by (simp add: bit_uint_iff)
    then have "(le_val w + 256 ^ length w * uint b) AND NOT (push_bit (?n + 7) 1) = ?m"
      using unset_bit_eq_and_not[of "?n + 7" "le_val w + 256 ^ length w * uint b"]
      by (simp add: unset_bit_eq e power_add algebra_simps)
    moreover have "s64 (- ?m) = - ?m" using small by (intro s64_id) auto
    moreover have "uint b mod 128 = uint b - 128" using True by (simp add: byte_mod)
    ultimately show ?thesis
      using True assms chk acc v byte_top[of b] small msk
      by (simp add: makeScriptNum_def num_value_snoc Let_def)
  qed
qed

section \<open>The encoding as a function\<close>

definition encode_num :: "int \<Rightarrow> bytes" where
  "encode_num n = (if n = 0 then [] else signmag (n < 0) (leDigits (abs n)))"

lemma Bytes_apply: "- (2 ^ 63) < n \<Longrightarrow> n < 2 ^ 63 \<Longrightarrow> Bytes n s = Ok (encode_num n) s"
  using Bytes_signmag[of n s] by (cases "n = 0") (simp_all add: encode_num_def Bytes_def)

lemma num_value_encode [simp]: "num_value (encode_num n) = n"
proof (cases "n = 0")
  case True
  then show ?thesis by (simp add: encode_num_def num_value_def)
next
  case False
  then show ?thesis
    using num_value_signmag[of "leDigits (abs n)" "n < 0"] leDigits_val[of "abs n"]
    by (auto simp: encode_num_def leDigits_Nil_iff)
qed

lemma encode_num_minimal [simp]: "checkMinimalDataEncoding (encode_num n) = Inr ()"
proof (cases "n = 0")
  case True
  then show ?thesis by (simp add: encode_num_def checkMinimalDataEncoding_def)
next
  case False
  then show ?thesis
    using signmag_minimal[of "leDigits (abs n)" "n < 0"] leDigits_last[of "abs n"]
    by (auto simp: encode_num_def leDigits_Nil_iff)
qed

lemma encode_num_value:
  assumes "checkMinimalDataEncoding v = Inr ()"
  shows "encode_num (num_value v) = v"
proof (cases "v = []")
  case True
  then show ?thesis by (simp add: encode_num_def num_value_def)
next
  case False
  then obtain neg ds where ds: "ds \<noteq> []" "last ds \<noteq> 0" "v = signmag neg ds"
    using assms minimal_signmag by blast
  have d: "leDigits (le_val ds) = ds" using ds leDigits_le_val by blast
  have pos: "0 < le_val ds" using ds d leDigits_Nil_iff[of "le_val ds"] by auto
  show ?thesis
    using num_value_signmag[OF ds(1), of neg] ds(3) d pos
    by (cases neg) (simp_all add: encode_num_def)
qed

lemma num_value_bound: "length v \<le> Suc k \<Longrightarrow> abs (num_value v) < 128 * 256 ^ k"
proof (cases v rule: rev_cases)
  case Nil
  then show ?thesis by (simp add: num_value_def)
next
  case (snoc w b)
  moreover assume "length v \<le> Suc k"
  ultimately have k: "(256 :: int) ^ length w \<le> 256 ^ k" by (intro power_increasing) auto
  have "le_val w + 256 ^ length w * (uint b mod 128) < 256 ^ length w * 128"
  proof -
    have "le_val w + 256 ^ length w * (uint b mod 128)
        < 256 ^ length w + 256 ^ length w * (uint b mod 128)"
      using le_val_bound[of w] by simp
    also have "\<dots> = 256 ^ length w * (uint b mod 128 + 1)" by (simp add: algebra_simps)
    also have "\<dots> \<le> 256 ^ length w * 128"
      using pos_mod_bound[of 128 "uint b"] by (intro mult_left_mono) auto
    finally show ?thesis .
  qed
  also have "\<dots> \<le> 128 * 256 ^ k" using k by simp
  finally have "le_val w + 256 ^ length w * (uint b mod 128) < 128 * 256 ^ k" .
  moreover have "0 \<le> le_val w + 256 ^ length w * (uint b mod 128)" by simp
  ultimately show ?thesis unfolding snoc num_value_snoc abs_mult by (simp del: mod_pos_pos_trivial)
qed

section \<open>Properties\<close>

text \<open>For every \<open>int64\<close> number, minimal decoding with a limit of up to seven bytes returns it exactly on
  the byte string that \<open>Bytes\<close> produces for it, provided that string fits the limit: minimal
  encodings are unique and \<open>Bytes\<close> produces them.\<close>

theorem makeScriptNum_minimal_iff:
  assumes "- (2 ^ 63) \<le> n" and "n < 2 ^ 63" and "L \<le> 7"
  shows "makeScriptNum v True L = Inr n \<longleftrightarrow> length v \<le> L \<and> Bytes n s = Ok v s"
proof
  assume a: "makeScriptNum v True L = Inr n"
  then have len: "length v \<le> L" and chk: "checkMinimalDataEncoding v = Inr ()"
    by (auto simp: makeScriptNum_def bindE_eq_Inr split: if_splits)
  with assms a have n: "n = num_value v" using makeScriptNum_value[of L v True] by simp
  have "abs n < 128 * 256 ^ 6" using num_value_bound[of v 6] len assms(3) n by simp
  then have "Bytes n s = Ok (encode_num n) s" by (intro Bytes_apply) auto
  then show "length v \<le> L \<and> Bytes n s = Ok v s" using encode_num_value[OF chk] n len by simp
next
  assume a: "length v \<le> L \<and> Bytes n s = Ok v s"
  then have "n \<noteq> - (2 ^ 63)" using Bytes_min[of s] by auto
  then have "v = encode_num n" using a assms Bytes_apply[of n s] by simp
  then show "makeScriptNum v True L = Inr n" using makeScriptNum_value[of L v True] a assms by simp
qed

theorem makeScriptNum_minimal_iff_witness:
  "makeScriptNum [0x2c, 0x81] True 4 = Inr (- 300) \<and> Bytes (- 300) () = Ok [0x2c, 0x81] ()"
proof -
  have b: "Bytes (- 300) () = Ok [0x2c, 0x81] ()"
    by (simp add: Bytes_def leDigits.simps bindP_def drop_bit_eq_div Let_def)
  then show ?thesis
    using makeScriptNum_minimal_iff[of "- 300" 4 "[0x2c, 0x81]" "()"] by simp
qed

lemma makeScriptNum_Inr:
  assumes "makeScriptNum v q L = Inr n" and "L \<le> 7"
  shows "n = num_value v" and "length v \<le> L"
proof -
  from assms show l: "length v \<le> L"
    by (auto simp: makeScriptNum_def split: if_splits)
  from assms have "q \<longrightarrow> checkMinimalDataEncoding v = Inr ()"
    by (auto simp: makeScriptNum_def bindE_eq_Inr split: if_splits)
  with makeScriptNum_value[of L v q] assms l show "n = num_value v" by simp
qed

text \<open>A number decoded with the default length, minimally encoded or not, lies in the range
  \<open>[-2^31 + 1, 2^31 - 1]\<close>, and \<open>Int32\<close> returns it unchanged.\<close>

theorem makeScriptNum_range:
  assumes "makeScriptNum v q defaultScriptNumLen = Inr n"
  shows "- (2 ^ 31) + 1 \<le> n \<and> n \<le> 2 ^ 31 - 1 \<and> Int32 n = n"
proof -
  have "abs n < 128 * 256 ^ 3"
    using makeScriptNum_Inr[OF assms] num_value_bound[of v 3] by (simp add: defaultScriptNumLen_def)
  then show ?thesis by (auto simp: Int32_def maxInt32_def minInt32_def)
qed

theorem makeScriptNum_range_witness:
  "makeScriptNum [0xff, 0xff, 0xff, 0xff] False defaultScriptNumLen = Inr (- 2147483647)
   \<and> - (2 ^ 31) + 1 \<le> (- 2147483647 :: int)"
proof -
  have "makeScriptNum [0xff, 0xff, 0xff, 0xff] False defaultScriptNumLen = Inr (- 2147483647)"
    by (simp add: makeScriptNum_value num_value_def defaultScriptNumLen_def)
  then show ?thesis using makeScriptNum_range by blast
qed

section \<open>Lengths of encodings\<close>

lemma encode_num_length: "length (encode_num n) \<le> Suc k \<longleftrightarrow> abs n < 128 * 256 ^ k"
proof
  assume "length (encode_num n) \<le> Suc k"
  then show "abs n < 128 * 256 ^ k" using num_value_bound[of "encode_num n" k] by simp
next
  assume a: "abs n < 128 * 256 ^ k"
  show "length (encode_num n) \<le> Suc k"
  proof (rule ccontr)
    assume long: "\<not> length (encode_num n) \<le> Suc k"
    then have "n \<noteq> 0" by (auto simp: encode_num_def)
    then have "leDigits (abs n) \<noteq> []" by (simp add: leDigits_Nil_iff)
    then obtain w b where d: "leDigits (abs n) = w @ [b]" by (metis append_butlast_last_id)
    have "b \<noteq> 0" using leDigits_last[of "abs n"] d \<open>n \<noteq> 0\<close> by simp
    then have "uint b \<noteq> 0" by (simp add: uint_0_iff)
    then have b: "1 \<le> uint b" using uint_ge_0[of b] by linarith
    have v: "abs n = le_val w + 256 ^ length w * uint b"
      using leDigits_val[of "abs n"] d by (simp add: le_val_append)
    have len: "Suc (length w) + of_bool (128 \<le> uint b) > Suc k"
      using long \<open>n \<noteq> 0\<close> d by (simp add: encode_num_def signmag_length)
    have "128 * 256 ^ k \<le> 256 ^ length w * uint b"
    proof (cases "128 \<le> uint b")
      case True
      then have "(256 :: int) ^ k \<le> 256 ^ length w" using len by (intro power_increasing) auto
      then have "256 ^ k * 128 \<le> 256 ^ length w * uint b" using True by (intro mult_mono) auto
      then show ?thesis by (simp add: mult.commute)
    next
      case False
      then have "(256 :: int) ^ Suc k \<le> 256 ^ length w" using len by (intro power_increasing) auto
      then have "256 ^ Suc k * 1 \<le> 256 ^ length w * uint b" using b by (intro mult_mono) auto
      moreover have "128 * 256 ^ k \<le> (256 :: int) ^ Suc k * 1" by simp
      ultimately show ?thesis by linarith
    qed
    then show False using a v le_val_nonneg[of w] by linarith
  qed
qed

text \<open>The value of the encoded number as a boolean, which the conditional opcodes read.\<close>

lemma Bytes_one: "Bytes 1 s = Ok [1] s" "Bytes 0 s = Ok [] s"
  by (simp_all add: Bytes_def leDigits.simps bindP_def drop_bit_eq_div Let_def)

end
