(* ===== verification/ScriptStack.thy ===== *)
theory ScriptStack
  imports ScriptNum
begin

text \<open>
  stack.go: the data and the alternate stack of the script engine. The state is the slice \<open>stk\<close>
  with the top of the stack last, the mutex that guards it (true while it is held) and the
  minimal-data switch. Locking a held mutex blocks for ever, since one goroutine runs an engine.
  Every operation is characterised on every branch for an unlocked stack; the lemmas about
  \<open>nipN\<close> record that its error branch leaves the mutex locked.
\<close>

section \<open>Definitions\<close>

text \<open>The loop of \<open>asBool\<close> at index \<open>i\<close> over what is left of a string of length \<open>n\<close>.\<close>

fun asBoolFrom :: "nat \<Rightarrow> nat \<Rightarrow> bytes \<Rightarrow> bool" where
  "asBoolFrom n i [] = False"
| "asBoolFrom n i (b # bs) =
     (if b \<noteq> 0 then \<not> (i = n - 1 \<and> b = 0x80) else asBoolFrom n (Suc i) bs)"

definition asBool :: "bytes \<Rightarrow> bool" where
  "asBool t = asBoolFrom (length t) 0 t"

definition fromBool :: "bool \<Rightarrow> bytes" where
  "fromBool v = (if v then [1] else [])"

record stack =
  stk :: "bytes list"
  stkMutex :: bool
  verifyMinimalData :: bool

definition lockS :: "(unit, stack) prog" where
  "lockS s = (if stkMutex s then Deadlock else Ok () (s\<lparr>stkMutex := True\<rparr>))"

definition unlockS :: "(unit, stack) prog" where
  "unlockS s = Ok () (s\<lparr>stkMutex := False\<rparr>)"

text \<open>\<open>int32(len(s.stk))\<close>\<close>

definition size32 :: "stack \<Rightarrow> int" where
  "size32 s = s32 (int (length (stk s)))"

definition Depth :: "(int, stack) prog" where
  "Depth = thenP lockS (bindP (getP size32) (\<lambda>n. thenP unlockS (retP n)))"

definition PushByteArray :: "bytes \<Rightarrow> (unit, stack) prog" where
  "PushByteArray so = thenP lockS (thenP (modifyP (stk_update (\<lambda>xs. xs @ [so]))) unlockS)"

definition PushInt :: "int \<Rightarrow> (unit, stack) prog" where
  "PushInt val = bindP (Bytes val) PushByteArray"

definition PushBool :: "bool \<Rightarrow> (unit, stack) prog" where
  "PushBool val = PushByteArray (fromBool val)"

text \<open>
  The three slice expressions of \<open>nipN\<close>: the error branch returns between \<open>Lock\<close> and \<open>Unlock\<close>.
\<close>

definition nipN :: "int \<Rightarrow> (bytes, stack) prog" where
  "nipN idx =
     thenP lockS
     (bindP (getP size32) (\<lambda>sz.
      if idx < 0 \<or> idx > s32 (sz - 1) then failP ErrInvalidStackOperation
      else bindP (getP stk) (\<lambda>xs.
           bindP (indexP xs (s32 (s32 (sz - idx) - 1))) (\<lambda>so.
           thenP
             (modifyP (stk_update (\<lambda>_.
                if idx = 0 then take (nat (sz - 1)) xs
                else if idx = sz - 1 then drop 1 xs
                else take (nat (sz - idx - 1)) xs @ drop (nat (sz - idx)) (take (nat sz) xs))))
             (thenP unlockS (retP so))))))"

definition PopByteArray :: "(bytes, stack) prog" where
  "PopByteArray = nipN 0"

definition PopInt :: "(int, stack) prog" where
  "PopInt = bindP PopByteArray (\<lambda>so. bindP (getP verifyMinimalData) (\<lambda>q.
     liftE (makeScriptNum so q defaultScriptNumLen)))"

definition PopBool :: "(bool, stack) prog" where
  "PopBool = bindP PopByteArray (\<lambda>so. retP (asBool so))"

definition PeekByteArray :: "int \<Rightarrow> (bytes, stack) prog" where
  "PeekByteArray idx =
     bindP (getP size32) (\<lambda>sz.
     thenP (failWhen (idx < 0 \<or> idx \<ge> sz) ErrInvalidStackOperation)
     (bindP (getP stk) (\<lambda>xs. indexP xs (s32 (s32 (sz - idx) - 1)))))"

definition PeekInt :: "int \<Rightarrow> (int, stack) prog" where
  "PeekInt idx = bindP (PeekByteArray idx) (\<lambda>so. bindP (getP verifyMinimalData) (\<lambda>q.
     liftE (makeScriptNum so q defaultScriptNumLen)))"

definition PeekBool :: "int \<Rightarrow> (bool, stack) prog" where
  "PeekBool idx = bindP (PeekByteArray idx) (\<lambda>so. retP (asBool so))"

definition NipN :: "int \<Rightarrow> (unit, stack) prog" where
  "NipN idx = bindP (nipN idx) (\<lambda>_. retP ())"

definition Tuck :: "(unit, stack) prog" where
  "Tuck = bindP PopByteArray (\<lambda>so2. bindP PopByteArray (\<lambda>so1.
     thenP (PushByteArray so2) (thenP (PushByteArray so1) (PushByteArray so2))))"

definition DropN :: "int \<Rightarrow> (unit, stack) prog" where
  "DropN n = thenP (failWhen (n < 1) ErrInvalidStackOperation)
     (repeatP (nat n) (bindP PopByteArray (\<lambda>_. retP ())))"

definition DupN :: "int \<Rightarrow> (unit, stack) prog" where
  "DupN n = thenP (failWhen (n < 1) ErrInvalidStackOperation)
     (repeatP (nat n) (bindP (PeekByteArray (s32 (n - 1))) PushByteArray))"

definition RotN :: "int \<Rightarrow> (unit, stack) prog" where
  "RotN n = thenP (failWhen (n < 1) ErrInvalidStackOperation)
     (repeatP (nat n) (bindP (nipN (s32 (s32 (3 * n) - 1))) PushByteArray))"

definition SwapN :: "int \<Rightarrow> (unit, stack) prog" where
  "SwapN n = thenP (failWhen (n < 1) ErrInvalidStackOperation)
     (repeatP (nat n) (bindP (nipN (s32 (s32 (2 * n) - 1))) PushByteArray))"

definition OverN :: "int \<Rightarrow> (unit, stack) prog" where
  "OverN n = thenP (failWhen (n < 1) ErrInvalidStackOperation)
     (repeatP (nat n) (bindP (PeekByteArray (s32 (s32 (2 * n) - 1))) PushByteArray))"

definition PickN :: "int \<Rightarrow> (unit, stack) prog" where
  "PickN n = bindP (PeekByteArray n) PushByteArray"

definition RollN :: "int \<Rightarrow> (unit, stack) prog" where
  "RollN n = bindP (nipN n) PushByteArray"

text \<open>\<open>getStack\<close> and \<open>setStack\<close> of engine.go.\<close>

text \<open>\<open>x, _ := f()\<close> for a function that returns \<open>nil\<close> with its error.\<close>

definition orNilP :: "(bytes, 's) prog \<Rightarrow> (bytes, 's) prog" where
  "orNilP m s = (case m s of Err e s' \<Rightarrow> Ok [] s' | r \<Rightarrow> r)"

fun getStackFrom :: "nat \<Rightarrow> bytes list \<Rightarrow> (bytes list, stack) prog" where
  "getStackFrom 0 array = retP array"
| "getStackFrom (Suc i) array =
     bindP (getStackFrom i array) (\<lambda>a. bindP (orNilP (PeekByteArray (int i))) (\<lambda>so.
       retP (a[length a - i - 1 := so])))"

definition getStack :: "(bytes list, stack) prog" where
  "getStack = bindP Depth (\<lambda>n. getStackFrom (nat n) (replicate (nat n) []))"

definition setStack :: "bytes list \<Rightarrow> (unit, stack) prog" where
  "setStack data = thenP (bindP Depth (\<lambda>n. ignoreErrP (DropN n))) (forP data PushByteArray)"

section \<open>The interface of a stack\<close>

text \<open>
  What the compound operations use of a stack: appending to it, removing an item by its distance
  from the top and reading one. \<open>ready\<close> holds while the operations may be called, \<open>put\<close> is the
  state with other contents. The loops of \<open>DupN\<close>, \<open>OverN\<close>, \<open>RotN\<close>, \<open>SwapN\<close> and \<open>DropN\<close> are
  verified once against this interface.
\<close>

locale byte_stack =
  fixes push :: "bytes \<Rightarrow> (unit, 's) prog"
    and nip :: "int \<Rightarrow> (bytes, 's) prog"
    and peek :: "int \<Rightarrow> (bytes, 's) prog"
    and contents :: "'s \<Rightarrow> bytes list"
    and put :: "bytes list \<Rightarrow> 's \<Rightarrow> 's"
    and ready :: "'s \<Rightarrow> bool"
    and stuck :: "'s \<Rightarrow> 's"
  assumes push_law: "ready s \<Longrightarrow> push x s = Ok () (put (contents s @ [x]) s)"
    and nip_law: "ready s \<Longrightarrow> contents s = xs @ x # ys
        \<Longrightarrow> nip (int (length ys)) s = Ok x (put (xs @ ys) s)"
    and nip_fail: "ready s \<Longrightarrow> i < 0 \<or> int (length (contents s)) \<le> i
        \<Longrightarrow> nip i s = Err ErrInvalidStackOperation (stuck s)"
    and peek_law: "ready s \<Longrightarrow> contents s = xs @ x # ys \<Longrightarrow> peek (int (length ys)) s = Ok x s"
    and peek_fail: "ready s \<Longrightarrow> i < 0 \<or> int (length (contents s)) \<le> i
        \<Longrightarrow> peek i s = Err ErrInvalidStackOperation s"
    and contents_put: "contents (put xs s) = xs"
    and put_put: "put xs (put ys s) = put xs s"
    and put_contents: "put (contents s) s = s"
    and ready_put: "ready s \<Longrightarrow> length xs < 2 ^ 31 \<Longrightarrow> ready (put xs s)"
    and ready_bound: "ready s \<Longrightarrow> length (contents s) < 2 ^ 31"
begin

text \<open>One round of \<open>RotN\<close> and \<open>SwapN\<close> moves the item at the end of a window to the top.\<close>

lemma roll_window:
  assumes "ready s" and "contents s = zs @ w" and "w \<noteq> []"
  shows "bindP (nip (int (length w) - 1)) push s = Ok () (put (zs @ rotate1 w) s)"
proof -
  obtain x ys where w: "w = x # ys" using assms(3) by (cases w) auto
  then have "nip (int (length ys)) s = Ok x (put (zs @ ys) s)"
    using assms nip_law[of s zs x ys] by simp
  moreover have "ready (put (zs @ ys) s)"
    using assms ready_bound[OF assms(1)] w by (intro ready_put) auto
  ultimately show ?thesis
    using push_law[of "put (zs @ ys) s" x] by (simp add: w bindP_apply contents_put put_put)
qed

lemma roll_rounds:
  assumes "ready s" and "contents s = zs @ w" and "w \<noteq> []"
  shows "repeatP n (bindP (nip (int (length w) - 1)) push) s = Ok () (put (zs @ rotate n w) s)"
  using assms
proof (induction n arbitrary: s w)
  case 0
  then show ?case using put_contents[of s] by simp
next
  case (Suc n)
  have r: "ready (put (zs @ rotate1 w) s)"
    using Suc.prems ready_bound[OF Suc.prems(1)] by (intro ready_put) auto
  have "rotate (Suc n) w = rotate n (rotate1 w)" by (simp add: rotate1_rotate_swap)
  then show ?case
    using roll_window[OF Suc.prems] Suc.IH[OF r, of "rotate1 w"] Suc.prems(3)
    by (simp add: thenP_apply bindP_apply contents_put put_put)
qed

text \<open>One round of \<open>DupN\<close> and \<open>OverN\<close> copies the item at the end of a window to the top.\<close>

lemma copy_rounds:
  assumes "ready s" and "contents s = zs @ w @ take j w" and "n + j \<le> length w"
    and "length zs + length w + n + j < 2 ^ 31"
  shows "repeatP n (bindP (peek (int (length w) - 1)) push) s
       = Ok () (put (zs @ w @ take (n + j) w) s)"
  using assms
proof (induction n arbitrary: s j)
  case 0
  then show ?case using put_contents[of s] by simp
next
  case (Suc n)
  let ?x = "w ! j" and ?ys = "drop (Suc j) w @ take j w"
  have j: "j < length w" using Suc.prems(3) by simp
  have split: "zs @ w @ take j w = (zs @ take j w) @ ?x # ?ys"
    using arg_cong[OF id_take_nth_drop[OF j], of "\<lambda>u. zs @ u @ take j w"]
    by (simp only: append.assoc append_Cons)
  have len: "int (length w) - 1 = int (length ?ys)" using j by simp
  have pk: "peek (int (length w) - 1) s = Ok ?x s"
    unfolding len by (rule peek_law[OF Suc.prems(1) trans[OF Suc.prems(2) split]])
  have app: "contents s @ [?x] = zs @ w @ take (Suc j) w"
    using j Suc.prems(2) by (simp add: take_Suc_conv_app_nth)
  let ?t = "put (zs @ w @ take (Suc j) w) s"
  have r: "ready ?t" using Suc.prems j by (intro ready_put) auto
  have "repeatP n (bindP (peek (int (length w) - 1)) push) ?t
      = Ok () (put (zs @ w @ take (n + Suc j) w) ?t)"
    using Suc.prems by (intro Suc.IH[OF r]) (simp_all add: contents_put)
  then show ?case
    using pk push_law[OF Suc.prems(1), of ?x] app by (simp add: thenP_apply bindP_apply put_put)
qed

lemma drop_rounds:
  assumes "ready s" and "contents s = zs @ w" and "length w = n"
  shows "repeatP n (bindP (nip 0) (\<lambda>_. retP ())) s = Ok () (put zs s)"
  using assms
proof (induction n arbitrary: s w)
  case 0
  then show ?case using put_contents[of s] by simp
next
  case (Suc n)
  then obtain u x where w: "w = u @ [x]" by (metis append_butlast_last_id list.size(3) nat.distinct(1))
  let ?t = "put (zs @ u) s"
  have "nip 0 s = Ok x ?t" using nip_law[OF Suc.prems(1), of "zs @ u" x "[]"] Suc.prems w by simp
  moreover have r: "ready ?t" using ready_bound[OF Suc.prems(1)] Suc.prems w by (intro ready_put) auto
  moreover have "repeatP n (bindP (nip 0) (\<lambda>_. retP ())) ?t = Ok () (put zs ?t)"
    using Suc.prems w by (intro Suc.IH[OF r]) (simp_all add: contents_put)
  ultimately show ?case by (simp add: thenP_apply bindP_apply put_put)
qed

end

section \<open>The operations implement the interface\<close>

definition sready :: "stack \<Rightarrow> bool" where
  "sready s \<longleftrightarrow> \<not> stkMutex s \<and> length (stk s) < 2 ^ 31"

lemma size32_eq [simp]: "length (stk s) < 2 ^ 31 \<Longrightarrow> size32 s = int (length (stk s))"
  by (simp add: size32_def)

lemma PushByteArray_apply: "\<not> stkMutex s \<Longrightarrow> PushByteArray x s = Ok () (s\<lparr>stk := stk s @ [x]\<rparr>)"
  by (cases s) (simp add: PushByteArray_def lockS_def unlockS_def thenP_def bindP_def)

lemma Depth_apply: "sready s \<Longrightarrow> Depth s = Ok (int (length (stk s))) s"
  by (cases s) (simp add: sready_def Depth_def lockS_def unlockS_def thenP_def bindP_def size32_def)

lemma nipN_ok:
  assumes "sready s" and "stk s = xs @ x # ys"
  shows "nipN (int (length ys)) s = Ok x (s\<lparr>stk := xs @ ys\<rparr>)"
proof -
  have b: "length xs + length ys + 1 < 2 ^ 31" and m: "\<not> stkMutex s"
    using assms by (auto simp: sready_def)
  have sz: "size32 s = int (length xs + length ys + 1)" using assms by (simp add: sready_def)
  have idx: "s32 (s32 (size32 s - int (length ys)) - 1) = int (length xs)"
    "s32 (size32 s - 1) = int (length xs + length ys)"
    using b unfolding sz by simp_all
  show ?thesis
    using m b assms(2) idx sz
    by (cases s; cases "ys = []"; cases "xs = []")
      (simp_all add: nipN_def lockS_def unlockS_def thenP_def bindP_def size32_def nat_add_distrib)
qed

lemma nipN_fail:
  assumes "sready s" and "i < 0 \<or> int (length (stk s)) \<le> i"
  shows "nipN i s = Err ErrInvalidStackOperation (s\<lparr>stkMutex := True\<rparr>)"
proof -
  have b: "length (stk s) < 2 ^ 31" and m: "\<not> stkMutex s"
    using assms by (auto simp: sready_def)
  have "s32 (size32 s - 1) = int (length (stk s)) - 1" using b by simp
  then show ?thesis
    using m b assms(2) by (cases s) (auto simp: nipN_def lockS_def thenP_def bindP_def size32_def)
qed

lemma PeekByteArray_ok:
  assumes "length (stk s) < 2 ^ 31" and "stk s = xs @ x # ys"
  shows "PeekByteArray (int (length ys)) s = Ok x s"
proof -
  have "s32 (s32 (size32 s - int (length ys)) - 1) = int (length xs)"
    using assms by simp
  then show ?thesis
    using assms by (simp add: PeekByteArray_def thenP_def bindP_def)
qed

lemma PeekByteArray_fail:
  assumes "length (stk s) < 2 ^ 31" and "i < 0 \<or> int (length (stk s)) \<le> i"
  shows "PeekByteArray i s = Err ErrInvalidStackOperation s"
  using assms by (auto simp: PeekByteArray_def thenP_def bindP_def)

interpretation vstack: byte_stack PushByteArray nipN PeekByteArray stk
  "\<lambda>xs s. s\<lparr>stk := xs\<rparr>" sready "\<lambda>s. s\<lparr>stkMutex := True\<rparr>"
proof
  fix s x
  assume "sready s"
  then show "PushByteArray x s = Ok () (s\<lparr>stk := stk s @ [x]\<rparr>)"
    by (simp add: sready_def PushByteArray_apply)
next
  fix s xs x ys
  assume "sready s" "stk s = xs @ x # ys"
  then show "nipN (int (length ys)) s = Ok x (s\<lparr>stk := xs @ ys\<rparr>)" by (rule nipN_ok)
next
  fix s i
  assume "sready s" "i < 0 \<or> int (length (stk s)) \<le> i"
  then show "nipN i s = Err ErrInvalidStackOperation (s\<lparr>stkMutex := True\<rparr>)" by (rule nipN_fail)
next
  fix s xs x ys
  assume "sready s" "stk s = xs @ x # ys"
  then show "PeekByteArray (int (length ys)) s = Ok x s"
    by (intro PeekByteArray_ok) (auto simp: sready_def)
next
  fix s i
  assume "sready s" "i < 0 \<or> int (length (stk s)) \<le> i"
  then show "PeekByteArray i s = Err ErrInvalidStackOperation s"
    by (intro PeekByteArray_fail) (auto simp: sready_def)
qed (auto simp: sready_def)

section \<open>Behaviour of the operations\<close>

lemma sready_stk [simp]: "sready s \<Longrightarrow> length xs < 2 ^ 31 \<Longrightarrow> sready (s\<lparr>stk := xs\<rparr>)"
  by (simp add: sready_def)

lemma sready_bound: "sready s \<Longrightarrow> length (stk s) < 2 ^ 31"
  by (simp add: sready_def)

lemma top_split: "k \<le> length xs \<Longrightarrow> xs = take (length xs - k) xs @ drop (length xs - k) xs"
  by simp

text \<open>A loop of \<open>n\<close> rounds that moves the item \<open>m - 1\<close> below the top to the top.\<close>

lemma rollN_spec:
  assumes "sready s" and "0 < n" and "0 < m"
  shows "repeatP n (bindP (nipN (int m - 1)) PushByteArray) s =
     (if m \<le> length (stk s)
      then Ok () (s\<lparr>stk := take (length (stk s) - m) (stk s)
                        @ rotate n (drop (length (stk s) - m) (stk s))\<rparr>)
      else Err ErrInvalidStackOperation (s\<lparr>stkMutex := True\<rparr>))"
proof (cases "m \<le> length (stk s)")
  case True
  let ?w = "drop (length (stk s) - m) (stk s)"
  have "length ?w = m" using True by simp
  with vstack.roll_rounds[OF assms(1) top_split[OF True], of n] assms(3) True show ?thesis
    by force
next
  case False
  then have "nipN (int m - 1) s = Err ErrInvalidStackOperation (s\<lparr>stkMutex := True\<rparr>)"
    using assms by (intro nipN_fail) auto
  with False assms(2) show ?thesis by (cases n) (simp_all add: thenP_apply bindP_apply)
qed

text \<open>A loop of \<open>n\<close> rounds that copies the item \<open>m - 1\<close> below the top to the top.\<close>

lemma copyN_spec:
  assumes "sready s" and "0 < n" and "n \<le> m" and "length (stk s) + n < 2 ^ 31"
  shows "repeatP n (bindP (PeekByteArray (int m - 1)) PushByteArray) s =
     (if m \<le> length (stk s)
      then Ok () (s\<lparr>stk := stk s @ take n (drop (length (stk s) - m) (stk s))\<rparr>)
      else Err ErrInvalidStackOperation s)"
proof (cases "m \<le> length (stk s)")
  case True
  let ?z = "take (length (stk s) - m) (stk s)" and ?w = "drop (length (stk s) - m) (stk s)"
  have w: "length ?w = m" using True by simp
  have "stk s = ?z @ ?w @ take 0 ?w" by simp
  from vstack.copy_rounds[OF assms(1) this, of n] w assms True show ?thesis
    by simp
next
  case False
  then have "PeekByteArray (int m - 1) s = Err ErrInvalidStackOperation s"
    using assms by (intro PeekByteArray_fail) (auto simp: sready_def)
  with False assms(2) show ?thesis by (cases n) (simp_all add: thenP_apply bindP_apply)
qed

lemma windowP_bounds: "1 \<le> n \<Longrightarrow> c * n < 2 ^ 31 \<Longrightarrow> 1 \<le> c \<Longrightarrow> s32 (s32 (c * n) - 1) = int (nat (c * n)) - 1"
  for n c :: int
proof -
  assume a: "1 \<le> n" "c * n < 2 ^ 31" "1 \<le> c"
  then have "1 * 1 \<le> c * n" by (intro mult_mono) auto
  with a show ?thesis by simp
qed

definition rotated :: "nat \<Rightarrow> nat \<Rightarrow> 'a list \<Rightarrow> 'a list" where
  "rotated k n xs = take (length xs - k) xs @ rotate n (drop (length xs - k) xs)"

text \<open>Moving the lowest of several blocks of equal length to the top.\<close>

lemma rotated_block: "length A = n \<Longrightarrow> k = length (A @ B) \<Longrightarrow> rotated k n (zs @ A @ B) = zs @ B @ A"
  using rotate_append[of A B] by (simp add: rotated_def)

lemma RotN_spec:
  assumes "sready s" and "1 \<le> n" and "3 * n < 2 ^ 31"
  shows "RotN n s = (if 3 * nat n \<le> length (stk s)
     then Ok () (s\<lparr>stk := rotated (3 * nat n) (nat n) (stk s)\<rparr>)
     else Err ErrInvalidStackOperation (s\<lparr>stkMutex := True\<rparr>))"
proof -
  have n: "0 < nat n" "\<not> n < 1" "nat (3 * n) = 3 * nat n"
    using assms(2) by (auto simp: nat_mult_distrib)
  then show ?thesis
    using rollN_spec[OF assms(1) n(1), of "3 * nat n"] windowP_bounds[OF assms(2,3)]
    unfolding RotN_def rotated_def by (simp add: thenP_apply bindP_apply del: of_nat_mult)
qed

lemma SwapN_spec:
  assumes "sready s" and "1 \<le> n" and "2 * n < 2 ^ 31"
  shows "SwapN n s = (if 2 * nat n \<le> length (stk s)
     then Ok () (s\<lparr>stk := rotated (2 * nat n) (nat n) (stk s)\<rparr>)
     else Err ErrInvalidStackOperation (s\<lparr>stkMutex := True\<rparr>))"
proof -
  have n: "0 < nat n" "\<not> n < 1" "nat (2 * n) = 2 * nat n"
    using assms(2) by (auto simp: nat_mult_distrib)
  then show ?thesis
    using rollN_spec[OF assms(1) n(1), of "2 * nat n"] windowP_bounds[OF assms(2,3)]
    unfolding SwapN_def rotated_def by (simp add: thenP_apply bindP_apply del: of_nat_mult)
qed

lemma DupN_spec:
  assumes "sready s" and "1 \<le> n" and "int (length (stk s)) + n < 2 ^ 31"
  shows "DupN n s = (if nat n \<le> length (stk s)
     then Ok () (s\<lparr>stk := stk s @ drop (length (stk s) - nat n) (stk s)\<rparr>)
     else Err ErrInvalidStackOperation s)"
  using copyN_spec[OF assms(1), of "nat n" "nat n"] assms
  unfolding DupN_def by (simp add: thenP_apply bindP_apply)

lemma OverN_spec:
  assumes "sready s" and "1 \<le> n" and "2 * n < 2 ^ 31" and "int (length (stk s)) + n < 2 ^ 31"
  shows "OverN n s = (if 2 * nat n \<le> length (stk s)
     then Ok () (s\<lparr>stk := stk s @ take (nat n) (drop (length (stk s) - 2 * nat n) (stk s))\<rparr>)
     else Err ErrInvalidStackOperation s)"
proof -
  have n: "0 < nat n" "\<not> n < 1" "nat (2 * n) = 2 * nat n"
    using assms(2) by (auto simp: nat_mult_distrib)
  then show ?thesis
    using copyN_spec[OF assms(1) n(1), of "2 * nat n"] windowP_bounds[OF assms(2,3)] assms
    unfolding OverN_def by (simp add: thenP_apply bindP_apply del: of_nat_mult)
qed

lemma PopByteArray_snoc:
  "sready s \<Longrightarrow> stk s = xs @ [x] \<Longrightarrow> PopByteArray s = Ok x (s\<lparr>stk := xs\<rparr>)"
  using nipN_ok[of s xs x "[]"] by (simp add: PopByteArray_def)

lemma PopByteArray_empty:
  "sready s \<Longrightarrow> stk s = [] \<Longrightarrow> PopByteArray s = Err ErrInvalidStackOperation (s\<lparr>stkMutex := True\<rparr>)"
  using nipN_fail[of s 0] by (simp add: PopByteArray_def)

lemma DropN_all:
  assumes "sready s" and "stk s = zs @ w" and "length w = nat n" and "1 \<le> n"
  shows "DropN n s = Ok () (s\<lparr>stk := zs\<rparr>)"
  using vstack.drop_rounds[OF assms(1,2,3)] assms(4)
  by (simp add: DropN_def PopByteArray_def thenP_apply bindP_apply)

lemma Tuck_spec:
  assumes "sready s" and "stk s = zs @ [x1, x2]" and "length (stk s) + 1 < 2 ^ 31"
  shows "Tuck s = Ok () (s\<lparr>stk := zs @ [x2, x1, x2]\<rparr>)"
proof -
  have "PopByteArray s = Ok x2 (s\<lparr>stk := zs @ [x1]\<rparr>)"
    using assms by (intro PopByteArray_snoc) auto
  moreover have "PopByteArray (s\<lparr>stk := zs @ [x1]\<rparr>) = Ok x1 (s\<lparr>stk := zs\<rparr>)"
    using assms PopByteArray_snoc[of "s\<lparr>stk := zs @ [x1]\<rparr>" zs x1] by simp
  moreover have "\<not> stkMutex s" using assms by (simp add: sready_def)
  ultimately show ?thesis
    by (simp add: Tuck_def thenP_apply bindP_apply PushByteArray_apply)
qed

text \<open>The operations that rearrange a stack, for every count \<open>n\<close> within the documented use: with a
  bottom part \<open>zs\<close> and blocks of \<open>n\<close> items above it, \<open>RotN\<close> takes \<open>A B C\<close> to \<open>B C A\<close>, \<open>SwapN\<close> takes \<open>A B\<close> to
  \<open>B A\<close>, \<open>DupN\<close> takes \<open>A\<close> to \<open>A A\<close> and \<open>OverN\<close> takes \<open>A B\<close> to \<open>A B A\<close>; nothing else changes.\<close>

theorem stack_block_operations:
  assumes "sready s" and "1 \<le> n" and "length A = nat n" and "length B = nat n"
    and "length C = nat n" and "length (zs @ A @ B @ C) < 2 ^ 31"
  shows "RotN n (s\<lparr>stk := zs @ A @ B @ C\<rparr>) = Ok () (s\<lparr>stk := zs @ B @ C @ A\<rparr>)
    \<and> SwapN n (s\<lparr>stk := zs @ A @ B\<rparr>) = Ok () (s\<lparr>stk := zs @ B @ A\<rparr>)
    \<and> DupN n (s\<lparr>stk := zs @ A\<rparr>) = Ok () (s\<lparr>stk := zs @ A @ A\<rparr>)
    \<and> OverN n (s\<lparr>stk := zs @ A @ B\<rparr>) = Ok () (s\<lparr>stk := zs @ A @ B @ A\<rparr>)"
proof (intro conjI)
  have n: "3 * n < 2 ^ 31" "2 * n < 2 ^ 31" using assms by simp_all
  show "RotN n (s\<lparr>stk := zs @ A @ B @ C\<rparr>) = Ok () (s\<lparr>stk := zs @ B @ C @ A\<rparr>)"
    using RotN_spec[OF _ assms(2) n(1), of "s\<lparr>stk := zs @ A @ B @ C\<rparr>"] assms
      rotated_block[of A "nat n" "3 * nat n" "B @ C" zs] by simp
  show "SwapN n (s\<lparr>stk := zs @ A @ B\<rparr>) = Ok () (s\<lparr>stk := zs @ B @ A\<rparr>)"
    using SwapN_spec[OF _ assms(2) n(2), of "s\<lparr>stk := zs @ A @ B\<rparr>"] assms
      rotated_block[of A "nat n" "2 * nat n" B zs] by simp
  show "DupN n (s\<lparr>stk := zs @ A\<rparr>) = Ok () (s\<lparr>stk := zs @ A @ A\<rparr>)"
    using DupN_spec[OF _ assms(2), of "s\<lparr>stk := zs @ A\<rparr>"] assms by simp
  show "OverN n (s\<lparr>stk := zs @ A @ B\<rparr>) = Ok () (s\<lparr>stk := zs @ A @ B @ A\<rparr>)"
    using OverN_spec[OF _ assms(2) n(2), of "s\<lparr>stk := zs @ A @ B\<rparr>"] assms by simp
qed

definition sampleStack :: stack where
  "sampleStack = \<lparr>stk = [], stkMutex = False, verifyMinimalData = True\<rparr>"

theorem stack_block_operations_witness:
  "RotN 2 (sampleStack\<lparr>stk := [[9], [1], [2], [3], [4], [5], [6]]\<rparr>)
     = Ok () (sampleStack\<lparr>stk := [[9], [3], [4], [5], [6], [1], [2]]\<rparr>)"
  using stack_block_operations[of sampleStack 2 "[[1], [2]]" "[[3], [4]]" "[[5], [6]]" "[[9]]"]
  by (simp add: sampleStack_def sready_def)

text \<open>An operation that finds too few items returns an error with the stack mutex still held, so the next
  operation that takes the mutex (a push, another removal or \<open>Depth\<close>) blocks for ever.\<close>

theorem failed_pop_blocks_stack:
  assumes "sready s" and "i < 0 \<or> int (length (stk s)) \<le> i"
  shows "\<exists>t. nipN i s = Err ErrInvalidStackOperation t \<and> stk t = stk s
     \<and> PushByteArray x t = Deadlock \<and> nipN j t = Deadlock \<and> Depth t = Deadlock"
  using nipN_fail[OF assms]
  by (simp add: PushByteArray_def nipN_def Depth_def lockS_def thenP_def bindP_def)

theorem failed_pop_blocks_stack_witness:
  "\<exists>t. nipN 0 sampleStack = Err ErrInvalidStackOperation t \<and> stk t = stk sampleStack
     \<and> PushByteArray [1] t = Deadlock \<and> nipN 0 t = Deadlock \<and> Depth t = Deadlock"
  using failed_pop_blocks_stack[of sampleStack 0] by (simp add: sampleStack_def sready_def)

section \<open>Numbers and booleans on the stack\<close>

lemma asBoolFrom_iff:
  "n = i + length bs \<Longrightarrow> asBoolFrom n i bs \<longleftrightarrow> num_value bs \<noteq> 0"
proof (induction bs arbitrary: i)
  case Nil
  then show ?case by (simp add: num_value_def)
next
  case (Cons b bs)
  show ?case
  proof (cases "bs = []")
    case True
    have "uint b mod 128 \<noteq> 0 \<longleftrightarrow> uint b \<noteq> 0 \<and> uint b \<noteq> 128"
      by (auto simp: byte_mod)
    moreover have "b = 0 \<longleftrightarrow> uint b = 0" "b = 0x80 \<longleftrightarrow> uint b = 128"
      by (simp_all add: word_uint_eq_iff)
    ultimately show ?thesis using True Cons.prems by (auto simp: num_value_def)
  next
    case False
    then have "num_value (b # bs) = num_value bs * 256 + (if 128 \<le> uint (last bs) then - uint b else uint b)"
      by (cases bs rule: rev_cases) (auto simp: num_value_def algebra_simps)
    moreover have "256 * num_value bs + (if q then - uint b else uint b) \<noteq> 0" if "b \<noteq> 0" for q
    proof -
      have "\<not> 256 dvd uint b"
        using that byte_bound[of b] uint_ge_0[of b] zdvd_not_zless[of "uint b" 256]
        by (auto simp: uint_0_iff less_le)
      then have "256 * num_value bs \<noteq> x" if "x = uint b \<or> x = - uint b" for x
        using that by (metis dvd_minus_iff dvd_triv_left)
      from this[of "- (if q then - uint b else uint b)"] show ?thesis by auto
    qed
    ultimately show ?thesis
      using Cons.IH[of "Suc i"] Cons.prems False by (auto simp: mult.commute)
  qed
qed

text \<open>A byte string is true exactly if the number it denotes is not zero, whatever its length and
  however it is padded; in particular negative zero is false.\<close>

theorem asBool_iff_nonzero: "asBool t \<longleftrightarrow> num_value t \<noteq> 0"
  by (simp add: asBool_def asBoolFrom_iff)

lemma PushInt_apply:
  assumes "\<not> stkMutex s" and "- (2 ^ 63) < n" and "n < 2 ^ 63"
  shows "PushInt n s = Ok () (s\<lparr>stk := stk s @ [encode_num n]\<rparr>)"
  using Bytes_apply[OF assms(2,3), of s] assms(1)
  by (simp add: PushInt_def bindP_apply PushByteArray_apply)

text \<open>A number pushed by \<open>PushInt\<close> is returned by \<open>PopInt\<close>, with and without the minimal-data switch, if it is
  in the range of numeric operands; a larger result of an arithmetic opcode can still be pushed,
  but popping it as a number is \<open>ErrNumberTooBig\<close>.\<close>

theorem PushInt_PopInt:
  assumes "sready s" and "length (stk s) + 1 < 2 ^ 31" and "- (2 ^ 63) < n" and "n < 2 ^ 63"
  shows "bindP (PushInt n) (\<lambda>_. PopInt) s =
    (if abs n < 2 ^ 31 then Ok n s else Err ErrNumberTooBig s)"
proof -
  let ?t = "s\<lparr>stk := stk s @ [encode_num n]\<rparr>"
  have "PushInt n s = Ok () ?t" using assms by (intro PushInt_apply) (auto simp: sready_def)
  moreover have "PopByteArray ?t = Ok (encode_num n) s"
    using assms PopByteArray_snoc[of ?t "stk s"] by simp
  moreover have "makeScriptNum (encode_num n) q 4 = (if abs n < 2 ^ 31 then Inr n else Inl ErrNumberTooBig)"
    for q
    using encode_num_length[of n 3] makeScriptNum_value[of 4 "encode_num n" q]
    by (auto simp: makeScriptNum_def)
  ultimately show ?thesis
    by (simp add: bindP_apply PopInt_def defaultScriptNumLen_def)
qed

theorem PushInt_PopInt_witness:
  "bindP (PushInt (- 5)) (\<lambda>_. PopInt) sampleStack = Ok (- 5) sampleStack
   \<and> bindP (PushInt (2 ^ 31)) (\<lambda>_. PopInt) sampleStack = Err ErrNumberTooBig sampleStack"
  using PushInt_PopInt[of sampleStack "- 5"] PushInt_PopInt[of sampleStack "2 ^ 31"]
  by (simp add: sampleStack_def sready_def)

section \<open>Copying whole stacks\<close>

lemma getStackFrom_spec:
  assumes "sready s" and "i \<le> length (stk s)" and "length a = length (stk s)"
  shows "getStackFrom i a s = Ok (take (length a - i) a @ drop (length a - i) (stk s)) s"
  using assms(2)
proof (induction i)
  case 0
  then show ?case using assms by simp
next
  case (Suc i)
  let ?n = "length a" and ?k = "length a - Suc i"
  let ?b = "take (?n - i) a @ drop (?n - i) (stk s)"
  have k: "?n - i = Suc ?k" "?k < length (stk s)" using Suc.prems assms(3) by auto
  have "stk s = take ?k (stk s) @ stk s ! ?k # drop (Suc ?k) (stk s)"
    using k by (simp add: id_take_nth_drop)
  from PeekByteArray_ok[OF sready_bound[OF assms(1)] this]
  have "PeekByteArray (int i) s = Ok (stk s ! ?k) s" using k assms(3) Suc.prems by simp
  moreover have "?b[length ?b - i - 1 := stk s ! ?k] = take ?k a @ drop ?k (stk s)"
  proof (rule nth_equalityI)
    fix j assume "j < length (?b[length ?b - i - 1 := stk s ! ?k])"
    then show "?b[length ?b - i - 1 := stk s ! ?k] ! j = (take ?k a @ drop ?k (stk s)) ! j"
      using k assms(3) Suc.prems by (auto simp: nth_list_update nth_append)
  qed (use assms(3) in auto)
  ultimately show ?case
    using Suc by (simp add: bindP_apply orNilP_def del: of_nat_Suc)
qed

lemma getStack_apply: "sready s \<Longrightarrow> getStack s = Ok (stk s) s"
  using getStackFrom_spec[of s "length (stk s)" "replicate (length (stk s)) []"]
  by (simp add: getStack_def bindP_apply Depth_apply)

lemma push_all:
  "sready s \<Longrightarrow> length (stk s) + length data < 2 ^ 31
    \<Longrightarrow> forP data PushByteArray s = Ok () (s\<lparr>stk := stk s @ data\<rparr>)"
proof (induction data arbitrary: s)
  case Nil
  then show ?case by simp
next
  case (Cons x xs)
  let ?t = "s\<lparr>stk := stk s @ [x]\<rparr>"
  have "PushByteArray x s = Ok () ?t" using Cons.prems by (simp add: sready_def PushByteArray_apply)
  moreover have "forP xs PushByteArray ?t = Ok () (?t\<lparr>stk := stk ?t @ xs\<rparr>)"
    using Cons.prems by (intro Cons.IH) auto
  ultimately show ?case by (simp add: thenP_apply bindP_apply)
qed

lemma drop_everything: "sready s \<Longrightarrow> bindP Depth (\<lambda>n. ignoreErrP (DropN n)) s = Ok () (s\<lparr>stk := []\<rparr>)"
proof (cases "stk s = []")
  case True
  assume "sready s"
  with True show ?thesis by (simp add: bindP_apply Depth_apply ignoreErrP_def DropN_def thenP_apply)
next
  case False
  assume a: "sready s"
  have "DropN (int (length (stk s))) s = Ok () (s\<lparr>stk := []\<rparr>)"
    using a False by (intro DropN_all[where w = "stk s"]) (auto simp: Suc_le_eq)
  with a show ?thesis by (simp add: bindP_apply Depth_apply ignoreErrP_def)
qed

lemma setStack_apply:
  "sready s \<Longrightarrow> length data < 2 ^ 31 \<Longrightarrow> setStack data s = Ok () (s\<lparr>stk := data\<rparr>)"
  using push_all[of "s\<lparr>stk := []\<rparr>" data]
  by (simp add: setStack_def thenP_apply bindP_apply drop_everything)

end
