(* ===== verification/ScriptParse.thy ===== *)
theory ScriptParse
  imports ScriptNum
begin

text \<open>
  The byte code of scripts: the opcode table of opcode.go (values and instruction lengths; the
  handlers are attached in \<open>ScriptOpcodes\<close>), the parser and unparser of script.go, the predicates
  on parsed scripts and the signature operation counts. The parser and the unparser are shown to
  be inverse to each other, a failing parse to return exactly the longest well-formed prefix.
\<close>

section \<open>Opcode values\<close>

text \<open>The constants of opcode.go that the code refers to by name.\<close>

abbreviation OP_0 :: u8 where "OP_0 \<equiv> 0x00"
abbreviation OP_DATA_1 :: u8 where "OP_DATA_1 \<equiv> 0x01"
abbreviation OP_DATA_20 :: u8 where "OP_DATA_20 \<equiv> 0x14"
abbreviation OP_DATA_32 :: u8 where "OP_DATA_32 \<equiv> 0x20"
abbreviation OP_DATA_33 :: u8 where "OP_DATA_33 \<equiv> 0x21"
abbreviation OP_DATA_65 :: u8 where "OP_DATA_65 \<equiv> 0x41"
abbreviation OP_DATA_75 :: u8 where "OP_DATA_75 \<equiv> 0x4b"
abbreviation OP_PUSHDATA1 :: u8 where "OP_PUSHDATA1 \<equiv> 0x4c"
abbreviation OP_PUSHDATA2 :: u8 where "OP_PUSHDATA2 \<equiv> 0x4d"
abbreviation OP_PUSHDATA4 :: u8 where "OP_PUSHDATA4 \<equiv> 0x4e"
abbreviation OP_1NEGATE :: u8 where "OP_1NEGATE \<equiv> 0x4f"
abbreviation OP_RESERVED :: u8 where "OP_RESERVED \<equiv> 0x50"
abbreviation OP_1 :: u8 where "OP_1 \<equiv> 0x51"
abbreviation OP_2 :: u8 where "OP_2 \<equiv> 0x52"
abbreviation OP_3 :: u8 where "OP_3 \<equiv> 0x53"
abbreviation OP_4 :: u8 where "OP_4 \<equiv> 0x54"
abbreviation OP_5 :: u8 where "OP_5 \<equiv> 0x55"
abbreviation OP_6 :: u8 where "OP_6 \<equiv> 0x56"
abbreviation OP_7 :: u8 where "OP_7 \<equiv> 0x57"
abbreviation OP_8 :: u8 where "OP_8 \<equiv> 0x58"
abbreviation OP_9 :: u8 where "OP_9 \<equiv> 0x59"
abbreviation OP_10 :: u8 where "OP_10 \<equiv> 0x5a"
abbreviation OP_11 :: u8 where "OP_11 \<equiv> 0x5b"
abbreviation OP_12 :: u8 where "OP_12 \<equiv> 0x5c"
abbreviation OP_13 :: u8 where "OP_13 \<equiv> 0x5d"
abbreviation OP_14 :: u8 where "OP_14 \<equiv> 0x5e"
abbreviation OP_15 :: u8 where "OP_15 \<equiv> 0x5f"
abbreviation OP_16 :: u8 where "OP_16 \<equiv> 0x60"
abbreviation OP_NOP :: u8 where "OP_NOP \<equiv> 0x61"
abbreviation OP_VER :: u8 where "OP_VER \<equiv> 0x62"
abbreviation OP_IF :: u8 where "OP_IF \<equiv> 0x63"
abbreviation OP_NOTIF :: u8 where "OP_NOTIF \<equiv> 0x64"
abbreviation OP_VERIF :: u8 where "OP_VERIF \<equiv> 0x65"
abbreviation OP_VERNOTIF :: u8 where "OP_VERNOTIF \<equiv> 0x66"
abbreviation OP_ELSE :: u8 where "OP_ELSE \<equiv> 0x67"
abbreviation OP_ENDIF :: u8 where "OP_ENDIF \<equiv> 0x68"
abbreviation OP_VERIFY :: u8 where "OP_VERIFY \<equiv> 0x69"
abbreviation OP_RETURN :: u8 where "OP_RETURN \<equiv> 0x6a"
abbreviation OP_TOALTSTACK :: u8 where "OP_TOALTSTACK \<equiv> 0x6b"
abbreviation OP_FROMALTSTACK :: u8 where "OP_FROMALTSTACK \<equiv> 0x6c"
abbreviation OP_2DROP :: u8 where "OP_2DROP \<equiv> 0x6d"
abbreviation OP_2DUP :: u8 where "OP_2DUP \<equiv> 0x6e"
abbreviation OP_3DUP :: u8 where "OP_3DUP \<equiv> 0x6f"
abbreviation OP_2OVER :: u8 where "OP_2OVER \<equiv> 0x70"
abbreviation OP_2ROT :: u8 where "OP_2ROT \<equiv> 0x71"
abbreviation OP_2SWAP :: u8 where "OP_2SWAP \<equiv> 0x72"
abbreviation OP_IFDUP :: u8 where "OP_IFDUP \<equiv> 0x73"
abbreviation OP_DEPTH :: u8 where "OP_DEPTH \<equiv> 0x74"
abbreviation OP_DROP :: u8 where "OP_DROP \<equiv> 0x75"
abbreviation OP_DUP :: u8 where "OP_DUP \<equiv> 0x76"
abbreviation OP_NIP :: u8 where "OP_NIP \<equiv> 0x77"
abbreviation OP_OVER :: u8 where "OP_OVER \<equiv> 0x78"
abbreviation OP_PICK :: u8 where "OP_PICK \<equiv> 0x79"
abbreviation OP_ROLL :: u8 where "OP_ROLL \<equiv> 0x7a"
abbreviation OP_ROT :: u8 where "OP_ROT \<equiv> 0x7b"
abbreviation OP_SWAP :: u8 where "OP_SWAP \<equiv> 0x7c"
abbreviation OP_TUCK :: u8 where "OP_TUCK \<equiv> 0x7d"
abbreviation OP_CAT :: u8 where "OP_CAT \<equiv> 0x7e"
abbreviation OP_SUBSTR :: u8 where "OP_SUBSTR \<equiv> 0x7f"
abbreviation OP_LEFT :: u8 where "OP_LEFT \<equiv> 0x80"
abbreviation OP_RIGHT :: u8 where "OP_RIGHT \<equiv> 0x81"
abbreviation OP_SIZE :: u8 where "OP_SIZE \<equiv> 0x82"
abbreviation OP_INVERT :: u8 where "OP_INVERT \<equiv> 0x83"
abbreviation OP_AND :: u8 where "OP_AND \<equiv> 0x84"
abbreviation OP_OR :: u8 where "OP_OR \<equiv> 0x85"
abbreviation OP_XOR :: u8 where "OP_XOR \<equiv> 0x86"
abbreviation OP_EQUAL :: u8 where "OP_EQUAL \<equiv> 0x87"
abbreviation OP_EQUALVERIFY :: u8 where "OP_EQUALVERIFY \<equiv> 0x88"
abbreviation OP_RESERVED1 :: u8 where "OP_RESERVED1 \<equiv> 0x89"
abbreviation OP_RESERVED2 :: u8 where "OP_RESERVED2 \<equiv> 0x8a"
abbreviation OP_1ADD :: u8 where "OP_1ADD \<equiv> 0x8b"
abbreviation OP_1SUB :: u8 where "OP_1SUB \<equiv> 0x8c"
abbreviation OP_2MUL :: u8 where "OP_2MUL \<equiv> 0x8d"
abbreviation OP_2DIV :: u8 where "OP_2DIV \<equiv> 0x8e"
abbreviation OP_NEGATE :: u8 where "OP_NEGATE \<equiv> 0x8f"
abbreviation OP_ABS :: u8 where "OP_ABS \<equiv> 0x90"
abbreviation OP_NOT :: u8 where "OP_NOT \<equiv> 0x91"
abbreviation OP_0NOTEQUAL :: u8 where "OP_0NOTEQUAL \<equiv> 0x92"
abbreviation OP_ADD :: u8 where "OP_ADD \<equiv> 0x93"
abbreviation OP_SUB :: u8 where "OP_SUB \<equiv> 0x94"
abbreviation OP_MUL :: u8 where "OP_MUL \<equiv> 0x95"
abbreviation OP_DIV :: u8 where "OP_DIV \<equiv> 0x96"
abbreviation OP_MOD :: u8 where "OP_MOD \<equiv> 0x97"
abbreviation OP_LSHIFT :: u8 where "OP_LSHIFT \<equiv> 0x98"
abbreviation OP_RSHIFT :: u8 where "OP_RSHIFT \<equiv> 0x99"
abbreviation OP_BOOLAND :: u8 where "OP_BOOLAND \<equiv> 0x9a"
abbreviation OP_BOOLOR :: u8 where "OP_BOOLOR \<equiv> 0x9b"
abbreviation OP_NUMEQUAL :: u8 where "OP_NUMEQUAL \<equiv> 0x9c"
abbreviation OP_NUMEQUALVERIFY :: u8 where "OP_NUMEQUALVERIFY \<equiv> 0x9d"
abbreviation OP_NUMNOTEQUAL :: u8 where "OP_NUMNOTEQUAL \<equiv> 0x9e"
abbreviation OP_LESSTHAN :: u8 where "OP_LESSTHAN \<equiv> 0x9f"
abbreviation OP_GREATERTHAN :: u8 where "OP_GREATERTHAN \<equiv> 0xa0"
abbreviation OP_LESSTHANOREQUAL :: u8 where "OP_LESSTHANOREQUAL \<equiv> 0xa1"
abbreviation OP_GREATERTHANOREQUAL :: u8 where "OP_GREATERTHANOREQUAL \<equiv> 0xa2"
abbreviation OP_MIN :: u8 where "OP_MIN \<equiv> 0xa3"
abbreviation OP_MAX :: u8 where "OP_MAX \<equiv> 0xa4"
abbreviation OP_WITHIN :: u8 where "OP_WITHIN \<equiv> 0xa5"
abbreviation OP_RIPEMD160 :: u8 where "OP_RIPEMD160 \<equiv> 0xa6"
abbreviation OP_SHA1 :: u8 where "OP_SHA1 \<equiv> 0xa7"
abbreviation OP_SHA256 :: u8 where "OP_SHA256 \<equiv> 0xa8"
abbreviation OP_HASH160 :: u8 where "OP_HASH160 \<equiv> 0xa9"
abbreviation OP_HASH256 :: u8 where "OP_HASH256 \<equiv> 0xaa"
abbreviation OP_CODESEPARATOR :: u8 where "OP_CODESEPARATOR \<equiv> 0xab"
abbreviation OP_CHECKSIG :: u8 where "OP_CHECKSIG \<equiv> 0xac"
abbreviation OP_CHECKSIGVERIFY :: u8 where "OP_CHECKSIGVERIFY \<equiv> 0xad"
abbreviation OP_CHECKMULTISIG :: u8 where "OP_CHECKMULTISIG \<equiv> 0xae"
abbreviation OP_CHECKMULTISIGVERIFY :: u8 where "OP_CHECKMULTISIGVERIFY \<equiv> 0xaf"
abbreviation OP_NOP1 :: u8 where "OP_NOP1 \<equiv> 0xb0"
abbreviation OP_CHECKLOCKTIMEVERIFY :: u8 where "OP_CHECKLOCKTIMEVERIFY \<equiv> 0xb1"
abbreviation OP_CHECKSEQUENCEVERIFY :: u8 where "OP_CHECKSEQUENCEVERIFY \<equiv> 0xb2"
abbreviation OP_NOP4 :: u8 where "OP_NOP4 \<equiv> 0xb3"
abbreviation OP_NOP5 :: u8 where "OP_NOP5 \<equiv> 0xb4"
abbreviation OP_NOP6 :: u8 where "OP_NOP6 \<equiv> 0xb5"
abbreviation OP_NOP7 :: u8 where "OP_NOP7 \<equiv> 0xb6"
abbreviation OP_NOP8 :: u8 where "OP_NOP8 \<equiv> 0xb7"
abbreviation OP_NOP9 :: u8 where "OP_NOP9 \<equiv> 0xb8"
abbreviation OP_NOP10 :: u8 where "OP_NOP10 \<equiv> 0xb9"

section \<open>Opcodes and parsed opcodes\<close>

text \<open>The fields \<open>value\<close> and \<open>length\<close> of the struct \<open>opcode\<close>; the name only appears in messages.\<close>

record opcode =
  op_value :: u8
  op_length :: int

text \<open>
  \<open>OpcodeArray\<close>: the entry of every byte has that byte as its value. \<open>OP\_DATA\_1\<close> to \<open>OP\_DATA\_75\<close> take
  as many bytes after the opcode, the three \<open>OP\_PUSHDATA\<close> opcodes a length field of one, two or
  four bytes, every other opcode is a single byte.
\<close>

definition OpcodeArray :: "u8 \<Rightarrow> opcode" where
  "OpcodeArray v =
     \<lparr>op_value = v,
      op_length =
        (if OP_DATA_1 \<le> v \<and> v \<le> OP_DATA_75 then uint v + 1
         else if v = OP_PUSHDATA1 then -1
         else if v = OP_PUSHDATA2 then -2
         else if v = OP_PUSHDATA4 then -4
         else 1)\<rparr>"

record parsedOpcode =
  pop_opcode :: opcode
  pop_data :: bytes

abbreviation pop_value :: "parsedOpcode \<Rightarrow> u8" where
  "pop_value pop \<equiv> op_value (pop_opcode pop)"

definition isDisabled :: "parsedOpcode \<Rightarrow> bool" where
  "isDisabled pop = (pop_value pop \<in>
     {OP_CAT, OP_SUBSTR, OP_LEFT, OP_RIGHT, OP_INVERT, OP_AND, OP_OR, OP_XOR, OP_2MUL, OP_2DIV,
      OP_MUL, OP_DIV, OP_MOD, OP_LSHIFT, OP_RSHIFT})"

definition alwaysIllegal :: "parsedOpcode \<Rightarrow> bool" where
  "alwaysIllegal pop = (pop_value pop \<in> {OP_VERIF, OP_VERNOTIF})"

definition isConditional :: "parsedOpcode \<Rightarrow> bool" where
  "isConditional pop = (pop_value pop \<in> {OP_IF, OP_NOTIF, OP_ELSE, OP_ENDIF})"

definition checkMinimalDataPush :: "parsedOpcode \<Rightarrow> ErrorCode + unit" where
  "checkMinimalDataPush pop =
     (let data = pop_data pop; dataLen = length data; opcode = pop_value pop in
      if dataLen = 0 \<and> opcode \<noteq> OP_0 then Inl ErrMinimalData
      else if dataLen = 1 \<and> 1 \<le> data ! 0 \<and> data ! 0 \<le> 16
      then failIf (opcode \<noteq> OP_1 + data ! 0 - 1) ErrMinimalData
      else if dataLen = 1 \<and> data ! 0 = 0x81 then failIf (opcode \<noteq> OP_1NEGATE) ErrMinimalData
      else if dataLen \<le> 75 then failIf (unat opcode \<noteq> dataLen) ErrMinimalData
      else if dataLen \<le> 255 then failIf (opcode \<noteq> OP_PUSHDATA1) ErrMinimalData
      else if dataLen \<le> 65535 then failIf (opcode \<noteq> OP_PUSHDATA2) ErrMinimalData
      else Inr ())"

text \<open>\<open>parsedOpcode.bytes\<close>; the count \<open>nbytes\<close> is read back from the length field just written.\<close>

definition pop_bytes :: "parsedOpcode \<Rightarrow> ErrorCode + bytes" where
  "pop_bytes pop =
     (let len = op_length (pop_opcode pop); value = pop_value pop; data = pop_data pop;
          l = length data
      in if len = 1 then bindE (failIf (data \<noteq> []) ErrInternal) (\<lambda>_. Inr [value])
         else
           let (retbytes, nbytes) =
                 (if len = -1
                  then let h = [value, word_of_nat l] in (h, int (unat (h ! 1)) + int (length h))
                  else if len = -2
                  then let h = value # le_bytes 2 (word_of_nat l :: u64)
                       in (h, int (unat (le_word (drop 1 h) :: u16)) + int (length h))
                  else if len = -4
                  then let h = value # le_bytes 4 (word_of_nat l :: u64)
                       in (h, int (unat (le_word (drop 1 h) :: u32)) + int (length h))
                  else ([value], len));
               full = retbytes @ data
           in bindE (failIf (int (length full) \<noteq> nbytes) ErrInternal) (\<lambda>_. Inr full))"

section \<open>Parsing\<close>

text \<open>
  The little-endian length \<open>l\<close> of an \<open>OP\_PUSHDATA\<close> opcode, a 64-bit \<open>uint\<close>; \<open>None\<close> is the default
  case of the inner switch.
\<close>

definition pushLength :: "int \<Rightarrow> bytes \<Rightarrow> u64 option" where
  "pushLength len bs =
     (if len = -1 then Some (ucast (bs ! 0))
      else if len = -2 then Some (push_bit 8 (ucast (bs ! 1)) OR ucast (bs ! 0))
      else if len = -4
      then Some (push_bit 24 (ucast (bs ! 3)) OR push_bit 16 (ucast (bs ! 2))
                 OR push_bit 8 (ucast (bs ! 1)) OR ucast (bs ! 0))
      else None)"

definition consPop ::
  "parsedOpcode \<Rightarrow> (parsedOpcode list \<times> ErrorCode option) option
    \<Rightarrow> (parsedOpcode list \<times> ErrorCode option) option" where
  "consPop pop r = map_option (\<lambda>(pops, e). (pop # pops, e)) r"

text \<open>
  \<open>ParseScriptTemplate\<close> on what is left of the script from the position \<open>i\<close>: the opcodes up to the
  end or to the first error, with that error. An opcode of length zero would make the loop run
  for ever (\<open>None\<close>); no entry of \<open>OpcodeArray\<close> has this length.
\<close>

function ParseScriptTemplate ::
  "bytes \<Rightarrow> (u8 \<Rightarrow> opcode) \<Rightarrow> (parsedOpcode list \<times> ErrorCode option) option" where
  "ParseScriptTemplate [] opcodes = Some ([], None)"
| "ParseScriptTemplate (instr # rest) opcodes =
     (let op = opcodes instr; len = op_length op in
      if len = 1
      then consPop \<lparr>pop_opcode = op, pop_data = []\<rparr> (ParseScriptTemplate rest opcodes)
      else if len > 1
      then if int (length (instr # rest)) < len then Some ([], Some ErrMalformedPush)
           else consPop \<lparr>pop_opcode = op, pop_data = take (nat (len - 1)) rest\<rparr>
                  (ParseScriptTemplate (drop (nat (len - 1)) rest) opcodes)
      else if len < 0
      then if int (length rest) < - len then Some ([], Some ErrMalformedPush)
           else (case pushLength len rest of
                   None \<Rightarrow> Some ([], Some ErrMalformedPush)
                 | Some l \<Rightarrow>
                     let body = drop (nat (- len)) rest in
                     if sint l > int (length body) \<or> sint l < 0
                     then Some ([], Some ErrMalformedPush)
                     else consPop \<lparr>pop_opcode = op, pop_data = take (nat (sint l)) body\<rparr>
                            (ParseScriptTemplate (drop (nat (sint l)) body) opcodes))
      else None)"
  by pat_completeness auto
termination
  by (relation "measure (length \<circ> fst)") auto

text \<open>\<open>parseScript\<close>; \<open>parse\_total\<close> shows that the last case does not occur.\<close>

definition parseScript :: "bytes \<Rightarrow> parsedOpcode list \<times> ErrorCode option" where
  "parseScript script =
     (case ParseScriptTemplate script OpcodeArray of Some r \<Rightarrow> r | None \<Rightarrow> ([], None))"

text \<open>\<open>pops, err := parseScript(script); if err != nil \{ return err \}\<close>\<close>

definition parseOrErr :: "bytes \<Rightarrow> ErrorCode + parsedOpcode list" where
  "parseOrErr script = (case parseScript script of (pops, None) \<Rightarrow> Inr pops | (_, Some e) \<Rightarrow> Inl e)"

fun unparseScript :: "parsedOpcode list \<Rightarrow> ErrorCode + bytes" where
  "unparseScript [] = Inr []"
| "unparseScript (pop # pops) =
     bindE (pop_bytes pop) (\<lambda>b. bindE (unparseScript pops) (\<lambda>rest. Inr (b @ rest)))"

section \<open>Predicates on scripts\<close>

definition isSmallInt :: "opcode \<Rightarrow> bool" where
  "isSmallInt op = (op_value op = OP_0 \<or> (op_value op \<ge> OP_1 \<and> op_value op \<le> OP_16))"

definition isScriptHash :: "parsedOpcode list \<Rightarrow> bool" where
  "isScriptHash pops = (length pops = 3 \<and> pop_value (pops ! 0) = OP_HASH160
     \<and> pop_value (pops ! 1) = OP_DATA_20 \<and> pop_value (pops ! 2) = OP_EQUAL)"

definition IsPayToScriptHash :: "bytes \<Rightarrow> bool" where
  "IsPayToScriptHash script = (case parseOrErr script of Inl _ \<Rightarrow> False | Inr pops \<Rightarrow> isScriptHash pops)"

definition isWitnessScriptHash :: "parsedOpcode list \<Rightarrow> bool" where
  "isWitnessScriptHash pops = (length pops = 2 \<and> pop_value (pops ! 0) = OP_0
     \<and> pop_value (pops ! 1) = OP_DATA_32)"

definition IsPayToWitnessScriptHash :: "bytes \<Rightarrow> bool" where
  "IsPayToWitnessScriptHash script =
     (case parseOrErr script of Inl _ \<Rightarrow> False | Inr pops \<Rightarrow> isWitnessScriptHash pops)"

definition isWitnessPubKeyHash :: "parsedOpcode list \<Rightarrow> bool" where
  "isWitnessPubKeyHash pops = (length pops = 2 \<and> pop_value (pops ! 0) = OP_0
     \<and> pop_value (pops ! 1) = OP_DATA_20)"

definition IsPayToWitnessPubKeyHash :: "bytes \<Rightarrow> bool" where
  "IsPayToWitnessPubKeyHash script =
     (case parseOrErr script of Inl _ \<Rightarrow> False | Inr pops \<Rightarrow> isWitnessPubKeyHash pops)"

definition canonicalPush :: "parsedOpcode \<Rightarrow> bool" where
  "canonicalPush pop =
     (let opcode = pop_value pop; data = pop_data pop; dataLen = length data in
      if opcode > OP_16 then True
      else if opcode < OP_PUSHDATA1 \<and> opcode > OP_0 \<and> dataLen = 1 \<and> data ! 0 \<le> 16 then False
      else if opcode = OP_PUSHDATA1 \<and> dataLen < unat OP_PUSHDATA1 then False
      else if opcode = OP_PUSHDATA2 \<and> dataLen \<le> 0xff then False
      else if opcode = OP_PUSHDATA4 \<and> dataLen \<le> 0xffff then False
      else True)"

definition isWitnessProgram :: "parsedOpcode list \<Rightarrow> bool" where
  "isWitnessProgram pops = (length pops = 2 \<and> isSmallInt (pop_opcode (pops ! 0))
     \<and> canonicalPush (pops ! 1)
     \<and> length (pop_data (pops ! 1)) \<ge> 2 \<and> length (pop_data (pops ! 1)) \<le> 40)"

definition IsWitnessProgram :: "bytes \<Rightarrow> bool" where
  "IsWitnessProgram script =
     (if length script < 4 \<or> length script > 42 then False
      else case parseOrErr script of Inl _ \<Rightarrow> False | Inr pops \<Rightarrow> isWitnessProgram pops)"

definition asSmallInt :: "opcode \<Rightarrow> nat" where
  "asSmallInt op = (if op_value op = OP_0 then 0 else unat (op_value op - (OP_1 - 1)))"

definition ExtractWitnessProgramInfo :: "bytes \<Rightarrow> ErrorCode + nat \<times> bytes" where
  "ExtractWitnessProgramInfo script =
     bindE (parseOrErr script) (\<lambda>pops.
     bindE (failIf (\<not> isWitnessProgram pops) PlainError) (\<lambda>_.
     Inr (asSmallInt (pop_opcode (pops ! 0)), pop_data (pops ! 1))))"

fun isPushOnly :: "parsedOpcode list \<Rightarrow> bool" where
  "isPushOnly [] = True"
| "isPushOnly (pop # pops) = (if pop_value pop > OP_16 then False else isPushOnly pops)"

definition IsPushOnlyScript :: "bytes \<Rightarrow> bool" where
  "IsPushOnlyScript script = (case parseOrErr script of Inl _ \<Rightarrow> False | Inr pops \<Rightarrow> isPushOnly pops)"

definition IsUnspendable :: "bytes \<Rightarrow> bool" where
  "IsUnspendable pkScript =
     (case parseOrErr pkScript of Inl _ \<Rightarrow> True
      | Inr pops \<Rightarrow> length pops > 0 \<and> pop_value (pops ! 0) = OP_RETURN)"

section \<open>Removing opcodes\<close>

fun removeOpcode :: "parsedOpcode list \<Rightarrow> u8 \<Rightarrow> parsedOpcode list" where
  "removeOpcode [] opcode = []"
| "removeOpcode (pop # pops) opcode =
     (if pop_value pop \<noteq> opcode then pop # removeOpcode pops opcode else removeOpcode pops opcode)"

text \<open>\<open>bytes.Contains\<close>\<close>

fun bytesContains :: "bytes \<Rightarrow> bytes \<Rightarrow> bool" where
  "bytesContains [] sub = (sub = [])"
| "bytesContains (b # bs) sub = (take (length sub) (b # bs) = sub \<or> bytesContains bs sub)"

fun removeOpcodeByData :: "parsedOpcode list \<Rightarrow> bytes \<Rightarrow> parsedOpcode list" where
  "removeOpcodeByData [] data = []"
| "removeOpcodeByData (pop # pops) data =
     (if \<not> canonicalPush pop \<or> \<not> bytesContains (pop_data pop) data
      then pop # removeOpcodeByData pops data else removeOpcodeByData pops data)"

section \<open>Counting signature operations\<close>

definition MaxPubKeysPerMultiSig :: nat where "MaxPubKeysPerMultiSig = 20"

text \<open>\<open>getSigOpCount\<close>; the first argument is the opcode before the current one, if any.\<close>

fun sigOpsFrom :: "parsedOpcode option \<Rightarrow> parsedOpcode list \<Rightarrow> bool \<Rightarrow> nat" where
  "sigOpsFrom prev [] precise = 0"
| "sigOpsFrom prev (pop # pops) precise =
     (if pop_value pop = OP_CHECKSIG \<or> pop_value pop = OP_CHECKSIGVERIFY then 1
      else if pop_value pop = OP_CHECKMULTISIG \<or> pop_value pop = OP_CHECKMULTISIGVERIFY
      then (case prev of
              Some p \<Rightarrow> if precise \<and> pop_value p \<ge> OP_1 \<and> pop_value p \<le> OP_16
                        then asSmallInt (pop_opcode p) else MaxPubKeysPerMultiSig
            | None \<Rightarrow> MaxPubKeysPerMultiSig)
      else 0) + sigOpsFrom (Some pop) pops precise"

definition getSigOpCount :: "parsedOpcode list \<Rightarrow> bool \<Rightarrow> nat" where
  "getSigOpCount pops precise = sigOpsFrom None pops precise"

definition GetSigOpCount :: "bytes \<Rightarrow> nat" where
  "GetSigOpCount script = getSigOpCount (fst (parseScript script)) False"

definition GetPreciseSigOpCount :: "bytes \<Rightarrow> bytes \<Rightarrow> bool \<Rightarrow> nat" where
  "GetPreciseSigOpCount scriptSig scriptPubKey bip16 =
     (let pops = fst (parseScript scriptPubKey) in
      if \<not> (bip16 \<and> isScriptHash pops) then getSigOpCount pops True
      else case parseOrErr scriptSig of
             Inl _ \<Rightarrow> 0
           | Inr sigPops \<Rightarrow>
               if \<not> isPushOnly sigPops \<or> length sigPops = 0 then 0
               else let shScript = pop_data (sigPops ! (length sigPops - 1)) in
                    if length shScript = 0 then 0
                    else getSigOpCount (fst (parseScript shScript)) True)"

definition payToWitnessPubKeyHashDataSize :: nat where "payToWitnessPubKeyHashDataSize = 20"

definition payToWitnessScriptHashDataSize :: nat where "payToWitnessScriptHashDataSize = 32"

definition getWitnessSigOps :: "bytes \<Rightarrow> bytes list \<Rightarrow> nat" where
  "getWitnessSigOps pkScript witness =
     (case ExtractWitnessProgramInfo pkScript of
        Inl _ \<Rightarrow> 0
      | Inr (witnessVersion, witnessProgram) \<Rightarrow>
          if witnessVersion = 0 then
            if length witnessProgram = payToWitnessPubKeyHashDataSize then 1
            else if length witnessProgram = payToWitnessScriptHashDataSize \<and> length witness > 0
            then getSigOpCount (fst (parseScript (witness ! (length witness - 1)))) True
            else 0
          else 0)"

text \<open>\<open>GetWitnessSigOpCount\<close>; \<open>None\<close> is the panic of \<open>sigScript[1:]\<close> on an empty script.\<close>

definition GetWitnessSigOpCount :: "bytes \<Rightarrow> bytes \<Rightarrow> bytes list \<Rightarrow> nat option" where
  "GetWitnessSigOpCount sigScript pkScript witness =
     (if IsWitnessProgram pkScript then Some (getWitnessSigOps pkScript witness)
      else case parseOrErr sigScript of
             Inl _ \<Rightarrow> Some 0
           | Inr sigPops \<Rightarrow>
               if IsPayToScriptHash pkScript \<and> isPushOnly sigPops
               then if sigScript = [] then None
                    else if IsWitnessProgram (drop 1 sigScript)
                    then Some (getWitnessSigOps (drop 1 sigScript) witness)
                    else Some 0
               else Some 0)"

section \<open>Little-endian fields\<close>

lemma le_val_inj: "length xs = length ys \<Longrightarrow> le_val xs = le_val ys \<Longrightarrow> xs = ys"
proof (induction xs ys rule: list_induct2)
  case (Cons x xs y ys)
  have "uint x = (uint x + 256 * le_val xs) mod 256" "uint y = (uint y + 256 * le_val ys) mod 256"
    using byte_bound[of x] byte_bound[of y] by simp_all
  with Cons show ?case by (simp add: word_uint_eq_iff)
qed simp

lemma le_bytes_Suc: "le_bytes (Suc k) w = ucast w # le_bytes k (drop_bit 8 w)"
  by (simp add: le_bytes_def map_upt_Suc drop_bit_drop_bit add.commute del: upt_Suc)

lemma le_val_le_bytes: "le_val (le_bytes k (w :: 'a::len word)) = uint w mod 256 ^ k"
proof (induction k arbitrary: w)
  case 0
  then show ?case by (simp add: le_bytes_def)
next
  case (Suc k)
  have "uint (ucast w :: u8) = uint w mod 256" by (simp add: unsigned_ucast_eq take_bit_eq_mod)
  moreover have "uint (drop_bit 8 w) = uint w div 256"
    by (simp only: unsigned_drop_bit_eq) (simp add: drop_bit_eq_div take_bit_int_eq_self)
  ultimately show ?case by (simp add: le_bytes_Suc Suc zmod_zmult2_eq)
qed

lemma uint_le_word:
  "8 * length bs \<le> LENGTH('a) \<Longrightarrow> uint (le_word bs :: 'a::len word) = le_val bs"
proof (induction bs)
  case Nil
  then show ?case by simp
next
  case (Cons b bs)
  let ?w = "le_word bs :: 'a word"
  have len: "8 + 8 * length bs \<le> LENGTH('a)" using Cons.prems by simp
  have ih: "uint ?w = le_val bs" using Cons by simp
  have "le_val bs < 2 ^ (8 * length bs)" using le_val_bound[of bs] by (simp add: power_mult)
  then have "256 * uint ?w < 2 ^ 8 * 2 ^ (8 * length bs)" by (simp add: ih)
  also have "\<dots> \<le> 2 ^ LENGTH('a)"
    using power_increasing[OF len, of "2 :: int"] by (simp add: power_add)
  finally have sh: "uint (push_bit 8 ?w) = 256 * uint ?w"
    by (simp only: unsigned_push_bit_eq)
      (simp add: push_bit_eq_mult mult.commute take_bit_int_eq_self)
  have "uint (ucast b OR push_bit 8 ?w) = uint (ucast b :: 'a word) OR uint (push_bit 8 ?w)"
    by (simp add: unsigned_or_eq)
  also have "uint (ucast b :: 'a word) = uint b"
    using len order_less_le_trans[OF byte_bound[of b] power_increasing[of 8 "LENGTH('a)" 2, simplified]]
    by (simp add: unsigned_ucast_eq take_bit_int_eq_self)
  also have "uint b OR uint (push_bit 8 ?w) = uint b + 256 * uint ?w"
    using or_push_bit[of "uint b" 8 "uint ?w"] byte_bound[of b] sh
    by (simp add: push_bit_eq_mult mult.commute)
  finally show ?case by (simp add: ih)
qed

section \<open>Single instructions\<close>

lemma sint_small: "uint (w :: u64) < 2 ^ 63 \<Longrightarrow> sint w = uint w"
  unfolding sint_uint
  by (rule signed_take_bit_int_eq_self) (auto intro: order_trans[of _ "0 :: int"])

lemma op_length_cases:
  fixes v :: u8
  obtains (one) "op_length (OpcodeArray v) = 1"
  | (fixed) n where "op_length (OpcodeArray v) = int n + 1" "1 \<le> n"
  | (field) k where "op_length (OpcodeArray v) = - int k" "k = 1 \<or> k = 2 \<or> k = 4"
proof (cases "OP_DATA_1 \<le> v \<and> v \<le> OP_DATA_75")
  case True
  then have "1 \<le> unat v" by (simp add: word_le_nat_alt)
  with True fixed[of "unat v"] show ?thesis by (simp add: OpcodeArray_def)
next
  case False
  then have "op_length (OpcodeArray v) =
      (if v = OP_PUSHDATA1 then -1 else if v = OP_PUSHDATA2 then -2
       else if v = OP_PUSHDATA4 then -4 else 1)"
    by (simp only: OpcodeArray_def opcode.select_convs if_False)
  then consider "op_length (OpcodeArray v) = 1" | "op_length (OpcodeArray v) = -1"
    | "op_length (OpcodeArray v) = -2" | "op_length (OpcodeArray v) = -4"
    by metis
  then show ?thesis
    using one field[of 1] field[of 2] field[of 4] by cases simp_all
qed

lemma op_value_OpcodeArray [simp]: "op_value (OpcodeArray v) = v"
  by (simp add: OpcodeArray_def)

lemma pushLength_val:
  assumes "k = 1 \<or> k = 2 \<or> k = 4" and "k \<le> length bs"
  obtains l where "pushLength (- int k) bs = Some l" "sint l = le_val (take k bs)"
proof -
  have l: "uint (le_word (take k bs) :: u64) = le_val (take k bs)"
    using assms by (intro uint_le_word) auto
  have "le_val (take k bs) < 256 ^ k" using le_val_bound[of "take k bs"] assms by simp
  also have "(256 :: int) ^ k \<le> 256 ^ 4" using assms by (intro power_increasing) auto
  finally have "sint (le_word (take k bs) :: u64) = le_val (take k bs)"
    using l by (simp add: sint_small)
  moreover have "pushLength (- int k) bs = Some (le_word (take k bs))"
  proof -
    obtain b0 r where b: "bs = b0 # r" using assms by (cases bs) auto
    show ?thesis
    proof (cases "k = 1")
      case True
      then show ?thesis by (simp add: pushLength_def b)
    next
      case False
      then obtain b1 r1 where r: "r = b1 # r1" using assms b by (cases r) auto
      show ?thesis
      proof (cases "k = 2")
        case True
        then show ?thesis by (simp add: pushLength_def b r numeral_2_eq_2 or.commute)
      next
        case k4: False
        then have "k = 4" using False assms by auto
        then obtain b2 b3 r3 where "r1 = b2 # b3 # r3"
          using assms b r by (cases r1; cases "tl r1") auto
        then show ?thesis using \<open>k = 4\<close>
          by (simp add: pushLength_def b r numeral_eq_Suc ac_simps push_bit_or)
      qed
    qed
  qed
  ultimately show thesis using that by blast
qed

lemma pop_bytes_one:
  "op_length (pop_opcode pop) = 1 \<Longrightarrow>
     pop_bytes pop = Inr b \<longleftrightarrow> pop_data pop = [] \<and> b = [pop_value pop]"
  by (auto simp: pop_bytes_def Let_def bindE_eq_Inr)

lemma pop_bytes_fixed:
  "op_length (pop_opcode pop) = int n + 1 \<Longrightarrow> 1 \<le> n \<Longrightarrow>
     pop_bytes pop = Inr b \<longleftrightarrow> length (pop_data pop) = n \<and> b = pop_value pop # pop_data pop"
  by (auto simp: pop_bytes_def Let_def bindE_eq_Inr)

lemma uint_word_of_nat_u64: "uint (word_of_nat n :: u64) = int n mod 2 ^ 64"
  by (simp add: unsigned_of_nat take_bit_eq_mod of_nat_mod)

lemma ucast_word_of_nat_u8: "(ucast (word_of_nat n :: u64) :: u8) = word_of_nat n"
  by (simp add: word_unat_eq_iff unsigned_ucast_eq unsigned_of_nat take_bit_eq_mod mod_mod_cancel)

lemma mod_id_iff: "0 \<le> x \<Longrightarrow> 0 < m \<Longrightarrow> x = x mod m \<longleftrightarrow> x < m" for x m :: int
  by (metis mod_pos_pos_trivial pos_mod_bound)

text \<open>The three variants of the length field, written as one.\<close>

lemma pop_bytes_push:
  assumes "op_length (pop_opcode pop) = - int k" and "k = 1 \<or> k = 2 \<or> k = 4"
  shows "pop_bytes pop =
     (let h = le_bytes k (word_of_nat (length (pop_data pop)) :: u64)
      in bindE (failIf (int (length (pop_data pop)) \<noteq> le_val h) ErrInternal)
           (\<lambda>_. Inr (pop_value pop # h @ pop_data pop)))"
proof -
  let ?w = "word_of_nat (length (pop_data pop)) :: u64"
  have 1: "le_bytes 1 ?w = [word_of_nat (length (pop_data pop))]"
    by (simp add: le_bytes_def ucast_word_of_nat_u8)
  have 2: "int (unat (le_word (le_bytes 2 ?w) :: u16)) = le_val (le_bytes 2 ?w)"
    "int (unat (le_word (le_bytes 4 ?w) :: u32)) = le_val (le_bytes 4 ?w)"
    using uint_le_word[of "le_bytes 2 ?w", where 'a = 16] uint_le_word[of "le_bytes 4 ?w", where 'a = 32]
    by simp_all
  show ?thesis
    using assms 1 2 by (auto simp: pop_bytes_def Let_def failIf_def)
qed

lemma pop_bytes_field:
  assumes "op_length (pop_opcode pop) = - int k" and "k = 1 \<or> k = 2 \<or> k = 4"
  shows "pop_bytes pop = Inr b \<longleftrightarrow>
     int (length (pop_data pop)) < 256 ^ k
     \<and> b = pop_value pop # le_bytes k (word_of_nat (length (pop_data pop)) :: u64) @ pop_data pop"
proof -
  let ?l = "length (pop_data pop)"
  have "(256 :: int) ^ k dvd 2 ^ 64" using assms(2) by auto
  then have "le_val (le_bytes k (word_of_nat ?l :: u64)) = int ?l mod 256 ^ k"
    by (simp only: le_val_le_bytes uint_word_of_nat_u64 mod_mod_cancel)
  then show ?thesis
    using mod_id_iff[of "int ?l" "256 ^ k"]
    by (auto simp: pop_bytes_push[OF assms] Let_def bindE_eq_Inr)
qed

section \<open>Parsing inverts unparsing\<close>

definition wf_pop :: "parsedOpcode \<Rightarrow> bool" where
  "wf_pop pop \<longleftrightarrow> pop_opcode pop = OpcodeArray (pop_value pop)"

lemma parse_instr:
  assumes "wf_pop pop" and "pop_bytes pop = Inr b"
  shows "ParseScriptTemplate (b @ rest) OpcodeArray = consPop pop (ParseScriptTemplate rest OpcodeArray)"
proof -
  obtain v where v: "pop_opcode pop = OpcodeArray v" using assms(1) by (auto simp: wf_pop_def)
  have pop: "pop = \<lparr>pop_opcode = OpcodeArray v, pop_data = pop_data pop\<rparr>" using v by simp
  show ?thesis
  proof (cases v rule: op_length_cases)
    case one
    with assms(2) v have "pop_data pop = []" "b = [v]" using pop_bytes_one[of pop b] by auto
    with one pop show ?thesis by simp
  next
    case (fixed n)
    with assms(2) v have d: "length (pop_data pop) = n" "b = v # pop_data pop"
      using pop_bytes_fixed[of pop n b] by auto
    with fixed show ?thesis by (simp add: pop[symmetric])
  next
    case (field k)
    let ?h = "le_bytes k (word_of_nat (length (pop_data pop)) :: u64)"
    have d: "int (length (pop_data pop)) < 256 ^ k" "b = v # ?h @ pop_data pop"
      using assms(2) v field pop_bytes_field[of pop k b] by auto
    obtain l where l: "pushLength (- int k) (?h @ pop_data pop @ rest) = Some l"
      "sint l = le_val ?h"
      using pushLength_val[of k "?h @ pop_data pop @ rest"] field by auto
    have "le_val ?h = int (length (pop_data pop))"
      using assms(2) pop_bytes_push[of pop k] v field
      unfolding Let_def by (simp only: bindE_eq_Inr) auto
    with l d field show ?thesis
      by (auto simp: pop[symmetric] Let_def)
  qed
qed

lemma parse_first:
  obtains (bad) "ParseScriptTemplate (v # rest) OpcodeArray = Some ([], Some ErrMalformedPush)"
  | (good) pop b r where "wf_pop pop" "pop_bytes pop = Inr b" "b \<noteq> []" "v # rest = b @ r"
proof (cases v rule: op_length_cases)
  case one
  then show ?thesis
    using good[of "\<lparr>pop_opcode = OpcodeArray v, pop_data = []\<rparr>" "[v]" rest]
      pop_bytes_one[of "\<lparr>pop_opcode = OpcodeArray v, pop_data = []\<rparr>"]
    by (simp add: wf_pop_def)
next
  case (fixed n)
  let ?p = "\<lparr>pop_opcode = OpcodeArray v, pop_data = take n rest\<rparr>"
  show ?thesis
  proof (cases "n \<le> length rest")
    case True
    then show ?thesis
      using fixed good[of ?p "v # take n rest" "drop n rest"] pop_bytes_fixed[of ?p n]
      by (simp add: wf_pop_def)
  next
    case False
    then show ?thesis using fixed bad by simp
  qed
next
  case (field k)
  show ?thesis
  proof (cases "k \<le> length rest")
    case False
    then show ?thesis using field bad by simp
  next
    case True
    then obtain l where l: "pushLength (- int k) rest = Some l" "sint l = le_val (take k rest)"
      using pushLength_val[of k rest] field by blast
    let ?n = "nat (sint l)" and ?body = "drop k rest"
    have l0: "0 \<le> sint l" "sint l < 256 ^ k"
      using l(2) le_val_bound[of "take k rest"] True by simp_all
    show ?thesis
    proof (cases "?n \<le> length ?body")
      case False
      have "0 < k" using field by auto
      then have "ParseScriptTemplate (v # rest) OpcodeArray = Some ([], Some ErrMalformedPush)"
        using False field True l(1) by (simp add: Let_def) linarith
      then show ?thesis by (rule bad)
    next
      case len: True
      let ?p = "\<lparr>pop_opcode = OpcodeArray v, pop_data = take ?n ?body\<rparr>"
      have h: "le_bytes k (word_of_nat ?n :: u64) = take k rest"
      proof (rule le_val_inj)
        have "(256 :: int) ^ k \<le> 256 ^ 4" using field by (intro power_increasing) auto
        then have "uint (word_of_nat ?n :: u64) = sint l"
          using l0 uint_word_of_nat_u64[of ?n] by simp
        then show "le_val (le_bytes k (word_of_nat ?n :: u64)) = le_val (take k rest)"
          using l(2) l0 by (simp only: le_val_le_bytes) simp
      qed (use True in simp)
      have "pop_bytes ?p = Inr (v # take k rest @ take ?n ?body)"
        using pop_bytes_field[of ?p k] field l0 len h by (simp add: min_absorb2)
      moreover have "v # rest = (v # take k rest @ take ?n ?body) @ drop ?n ?body"
        by (simp only: append_Cons append_assoc append_take_drop_id)
      ultimately show ?thesis using good[of ?p] by (simp add: wf_pop_def)
    qed
  qed
qed

definition parsed_ok :: "bytes \<Rightarrow> parsedOpcode list \<Rightarrow> ErrorCode option \<Rightarrow> bool" where
  "parsed_ok script pops e \<longleftrightarrow> (\<forall>pop \<in> set pops. wf_pop pop)
     \<and> (\<exists>b rest. unparseScript pops = Inr b \<and> script = b @ rest
          \<and> (case e of None \<Rightarrow> rest = [] | Some c \<Rightarrow> c = ErrMalformedPush \<and> rest \<noteq> []
                \<and> ParseScriptTemplate rest OpcodeArray = Some ([], Some ErrMalformedPush)))"

lemma parse_template_ok:
  "\<exists>pops e. ParseScriptTemplate script OpcodeArray = Some (pops, e) \<and> parsed_ok script pops e"
proof (induction "length script" arbitrary: script rule: less_induct)
  case less
  show ?case
  proof (cases script)
    case Nil
    then show ?thesis by (simp add: parsed_ok_def)
  next
    case (Cons v rest)
    show ?thesis
    proof (cases v rest rule: parse_first)
      case bad
      then show ?thesis using Cons by (simp add: parsed_ok_def)
    next
      case (good pop b r)
      then have "length r < length script" using Cons by (metis append_eq_append_conv2 length_append
          length_greater_0_conv less_add_same_cancel2)
      then obtain pops e where r: "ParseScriptTemplate r OpcodeArray = Some (pops, e)"
        "parsed_ok r pops e" using less by blast
      have "ParseScriptTemplate script OpcodeArray = Some (pop # pops, e)"
        using parse_instr[OF good(1,2), of r] good(4) Cons r(1) by (simp add: consPop_def)
      moreover have "parsed_ok script (pop # pops) e"
        using r(2) good Cons unfolding parsed_ok_def by (auto simp del: append.simps)
      ultimately show ?thesis by blast
    qed
  qed
qed

text \<open>\<open>ParseScriptTemplate\<close> returns on every script with the opcode table of the package.\<close>

lemma parse_total: "ParseScriptTemplate script OpcodeArray = Some (parseScript script)"
  using parse_template_ok[of script] by (auto simp: parseScript_def)

lemma parse_ok: "parseScript script = (pops, e) \<Longrightarrow> parsed_ok script pops e"
  using parse_template_ok[of script] by (auto simp: parseScript_def)

lemma parse_unparse_append:
  "\<forall>pop \<in> set pops. wf_pop pop \<Longrightarrow> unparseScript pops = Inr b \<Longrightarrow>
     parseScript (b @ rest) = (pops @ fst (parseScript rest), snd (parseScript rest))"
proof (induction pops arbitrary: b)
  case Nil
  then show ?case by simp
next
  case (Cons pop pops)
  then obtain b1 b2 where b: "pop_bytes pop = Inr b1" "unparseScript pops = Inr b2" "b = b1 @ b2"
    by (auto simp: bindE_eq_Inr)
  have "ParseScriptTemplate (b1 @ b2 @ rest) OpcodeArray
      = consPop pop (ParseScriptTemplate (b2 @ rest) OpcodeArray)"
    using Cons.prems b by (intro parse_instr) auto
  moreover have "parseScript (b2 @ rest) = (pops @ fst (parseScript rest), snd (parseScript rest))"
    using Cons b by simp
  ultimately show ?case
    using parse_total[of "b2 @ rest"] parse_total[of "b1 @ b2 @ rest"] b(3)
    by (simp add: consPop_def)
qed

text \<open>C38: parsing and unparsing are inverse to each other: a list of opcodes of the table is what
  \<open>parseScript\<close> returns without error for a script exactly if \<open>unparseScript\<close> writes that script.\<close>

theorem parse_unparse_iff:
  "parseScript script = (pops, None) \<longleftrightarrow> list_all wf_pop pops \<and> unparseScript pops = Inr script"
proof
  assume "parseScript script = (pops, None)"
  then show "list_all wf_pop pops \<and> unparseScript pops = Inr script"
    using parse_ok[of script pops None] by (auto simp: parsed_ok_def list_all_iff)
next
  assume "list_all wf_pop pops \<and> unparseScript pops = Inr script"
  then show "parseScript script = (pops, None)"
    using parse_unparse_append[of pops script "[]"] by (simp add: parseScript_def list_all_iff)
qed

text \<open>When a script does not parse, the error is \<open>ErrMalformedPush\<close> and the opcodes returned with it are
  those of the script up to an instruction that does not fit what is left, which is not empty.\<close>

theorem parse_error_prefix:
  assumes "parseScript script = (pops, Some e)"
  shows "e = ErrMalformedPush \<and> (\<exists>b rest. unparseScript pops = Inr b \<and> script = b @ rest
     \<and> rest \<noteq> [] \<and> parseScript rest = ([], Some ErrMalformedPush))"
  using parse_ok[OF assms] by (auto simp: parsed_ok_def parseScript_def)

theorem parse_error_prefix_witness:
  "\<exists>b rest. unparseScript (fst (parseScript [0x51, 0x4c, 0x02, 0x07])) = Inr b
     \<and> [0x51, 0x4c, 0x02, 0x07] = b @ rest \<and> rest \<noteq> []
     \<and> parseScript rest = ([], Some ErrMalformedPush)"
proof -
  have "parseScript [0x51, 0x4c, 0x02, 0x07]
      = ([\<lparr>pop_opcode = OpcodeArray 0x51, pop_data = []\<rparr>], Some ErrMalformedPush)"
    by (simp add: parseScript_def OpcodeArray_def pushLength_def consPop_def Let_def)
  from parse_error_prefix[OF this] this show ?thesis by simp
qed

section \<open>Script templates\<close>

lemma parseOrErr_iff: "parseOrErr script = Inr pops \<longleftrightarrow> list_all wf_pop pops \<and> unparseScript pops = Inr script"
  by (simp only: parse_unparse_iff[symmetric])
    (auto simp: parseOrErr_def split: prod.splits option.splits)

lemma parseOrErr_case:
  "(case parseOrErr script of Inl _ \<Rightarrow> False | Inr pops \<Rightarrow> P pops) \<longleftrightarrow>
     (\<exists>pops. list_all wf_pop pops \<and> unparseScript pops = Inr script \<and> P pops)"
  unfolding parseOrErr_iff[symmetric] conj_assoc[symmetric]
  by (cases "parseOrErr script") auto

text \<open>The bytes of an instruction that pushes exactly \<open>n\<close> bytes, and of a single-byte instruction.\<close>

lemma data_instr:
  assumes "wf_pop pop" and "pop_value pop = v" and "OP_DATA_1 \<le> v" and "v \<le> OP_DATA_75"
  shows "pop_bytes pop = Inr b \<longleftrightarrow> length (pop_data pop) = unat v \<and> b = v # pop_data pop"
proof -
  have "op_length (pop_opcode pop) = int (unat v) + 1" "1 \<le> unat v"
    using assms by (auto simp: wf_pop_def OpcodeArray_def word_le_nat_alt)
  from pop_bytes_fixed[OF this] assms(2) show ?thesis by simp
qed

lemma plain_instr:
  assumes "wf_pop pop" and "pop_value pop = v" and "v = 0 \<or> OP_1NEGATE \<le> v"
  shows "pop_bytes pop = Inr b \<longleftrightarrow> pop_data pop = [] \<and> b = [v]"
proof -
  have "op_length (pop_opcode pop) = 1"
    using assms by (auto simp: wf_pop_def OpcodeArray_def word_le_nat_alt)
  from pop_bytes_one[OF this] assms(2) show ?thesis by simp
qed

lemma wf_pop_make [simp]: "wf_pop \<lparr>pop_opcode = OpcodeArray v, pop_data = d\<rparr>"
  by (simp add: wf_pop_def)

lemma length2: "length xs = 2 \<longleftrightarrow> (\<exists>a b. xs = [a, b])"
  by (auto simp: numeral_2_eq_2 length_Suc_conv)

lemma length3: "length xs = 3 \<longleftrightarrow> (\<exists>a b c. xs = [a, b, c])"
  by (auto simp: numeral_3_eq_3 length_Suc_conv)

lemma three_instrs:
  assumes "pop_value a = OP_HASH160" "pop_value b = OP_DATA_20" "pop_value c = OP_EQUAL"
    and "wf_pop a" "wf_pop b" "wf_pop c"
  shows "unparseScript [a, b, c] = Inr script \<longleftrightarrow>
     pop_data a = [] \<and> length (pop_data b) = 20 \<and> pop_data c = []
     \<and> script = [OP_HASH160, OP_DATA_20] @ pop_data b @ [OP_EQUAL]"
  using plain_instr[OF assms(4,1)] data_instr[OF assms(5,2)] plain_instr[OF assms(6,3)]
  by (auto simp: bindE_eq_Inr)

lemma IsPayToScriptHash_iff:
  "IsPayToScriptHash script \<longleftrightarrow>
     (\<exists>h. length h = 20 \<and> script = [OP_HASH160, OP_DATA_20] @ h @ [OP_EQUAL])"
proof
  assume "IsPayToScriptHash script"
  then obtain pops where p: "list_all wf_pop pops" "unparseScript pops = Inr script" "isScriptHash pops"
    unfolding IsPayToScriptHash_def parseOrErr_case by blast
  then obtain a b c where "pops = [a, b, c]" by (auto simp: isScriptHash_def length3)
  with p three_instrs[of a b c script]
  show "\<exists>h. length h = 20 \<and> script = [OP_HASH160, OP_DATA_20] @ h @ [OP_EQUAL]"
    by (auto simp: isScriptHash_def numeral_2_eq_2 simp del: unparseScript.simps)
next
  assume "\<exists>h. length h = 20 \<and> script = [OP_HASH160, OP_DATA_20] @ h @ [OP_EQUAL]"
  then obtain h where h: "length h = 20" "script = [OP_HASH160, OP_DATA_20] @ h @ [OP_EQUAL]" by blast
  let ?p = "[\<lparr>pop_opcode = OpcodeArray OP_HASH160, pop_data = []\<rparr>,
             \<lparr>pop_opcode = OpcodeArray OP_DATA_20, pop_data = h\<rparr>,
             \<lparr>pop_opcode = OpcodeArray OP_EQUAL, pop_data = []\<rparr>]"
  have "unparseScript ?p = Inr script" using h by (subst three_instrs) simp_all
  moreover have "isScriptHash ?p" by (simp add: isScriptHash_def numeral_2_eq_2)
  ultimately show "IsPayToScriptHash script"
    unfolding IsPayToScriptHash_def parseOrErr_case
    by (intro exI[of _ ?p]) (simp_all del: unparseScript.simps)
qed

text \<open>The shape of the two version 0 witness programs: \<open>OP\_0\<close> and one data push of \<open>n\<close> bytes.\<close>

lemma two_instrs:
  assumes "pop_value a = OP_0" "pop_value b = v" "OP_DATA_1 \<le> v" "v \<le> OP_DATA_75"
    and "wf_pop a" "wf_pop b"
  shows "unparseScript [a, b] = Inr script \<longleftrightarrow>
     pop_data a = [] \<and> length (pop_data b) = unat v \<and> script = [OP_0, v] @ pop_data b"
  using plain_instr[OF assms(5,1)] data_instr[OF assms(6,2-4)]
  by (auto simp: bindE_eq_Inr)

lemma zero_push_iff:
  assumes "OP_DATA_1 \<le> v" "v \<le> OP_DATA_75"
  shows "(\<exists>pops. list_all wf_pop pops \<and> unparseScript pops = Inr script
            \<and> length pops = 2 \<and> pop_value (pops ! 0) = OP_0 \<and> pop_value (pops ! 1) = v) \<longleftrightarrow>
     (\<exists>h. length h = unat v \<and> script = [OP_0, v] @ h)" (is "?L = ?R")
proof
  assume ?L
  then obtain a b where "list_all wf_pop [a, b]" "unparseScript [a, b] = Inr script"
    "pop_value a = OP_0" "pop_value b = v"
    by (auto simp: length2 simp del: unparseScript.simps)
  with two_instrs[of a b v script] assms show ?R by (auto simp del: unparseScript.simps)
next
  assume ?R
  then obtain h where h: "length h = unat v" "script = [OP_0, v] @ h" by blast
  let ?p = "[\<lparr>pop_opcode = OpcodeArray OP_0, pop_data = []\<rparr>, \<lparr>pop_opcode = OpcodeArray v, pop_data = h\<rparr>]"
  have "unparseScript ?p = Inr script" using h assms by (subst two_instrs[of _ _ v]) simp_all
  then show ?L by (intro exI[of _ ?p]) (simp del: unparseScript.simps)
qed

text \<open>The template predicates recognise exactly the byte strings of their format: P2SH is
  \<open>OP\_HASH160\<close>, a push of 20 bytes, \<open>OP\_EQUAL\<close>; P2WPKH and P2WSH are \<open>OP\_0\<close> and a push of 20
  or 32 bytes. No other encoding of the same data is accepted.\<close>

theorem script_templates_exact:
  "(IsPayToScriptHash script \<longleftrightarrow>
      (\<exists>h. length h = 20 \<and> script = [OP_HASH160, OP_DATA_20] @ h @ [OP_EQUAL]))
   \<and> (IsPayToWitnessPubKeyHash script \<longleftrightarrow> (\<exists>h. length h = 20 \<and> script = [OP_0, OP_DATA_20] @ h))
   \<and> (IsPayToWitnessScriptHash script \<longleftrightarrow> (\<exists>h. length h = 32 \<and> script = [OP_0, OP_DATA_32] @ h))"
  using zero_push_iff[of OP_DATA_20 script] zero_push_iff[of OP_DATA_32 script]
  unfolding IsPayToScriptHash_iff IsPayToWitnessPubKeyHash_def IsPayToWitnessScriptHash_def
    parseOrErr_case isWitnessPubKeyHash_def isWitnessScriptHash_def
  by simp

section \<open>Signature operations\<close>

lemma asSmallInt_bound: "OP_1 \<le> op_value p \<Longrightarrow> op_value p \<le> OP_16 \<Longrightarrow> asSmallInt p \<le> 16"
  by (auto simp: asSmallInt_def word_le_nat_alt unat_sub)

lemma sigOps_precise_le: "sigOpsFrom prev pops True \<le> sigOpsFrom prev pops False"
proof (induction pops arbitrary: prev)
  case (Cons pop pops)
  have "asSmallInt (pop_opcode p) \<le> MaxPubKeysPerMultiSig"
    if "OP_1 \<le> pop_value p" "pop_value p \<le> OP_16" for p
    using asSmallInt_bound[OF that] by (simp add: MaxPubKeysPerMultiSig_def)
  with Cons[of "Some pop"] show ?case
    by (auto split: option.split intro: add_mono)
qed simp

lemma sigOps_bound: "sigOpsFrom prev pops False \<le> 20 * length pops"
proof (induction pops arbitrary: prev)
  case (Cons pop pops)
  from Cons[of "Some pop"] show ?case by (auto simp: MaxPubKeysPerMultiSig_def split: option.split)
qed simp

lemma unparse_length:
  "unparseScript pops = Inr b \<Longrightarrow> length pops \<le> length b"
proof (induction pops arbitrary: b)
  case (Cons pop pops)
  then obtain b1 b2 where b: "pop_bytes pop = Inr b1" "unparseScript pops = Inr b2" "b = b1 @ b2"
    by (auto simp: bindE_eq_Inr)
  then have "b1 \<noteq> []" by (auto simp: pop_bytes_def Let_def bindE_eq_Inr split: if_splits)
  with Cons.IH[OF b(2)] b(3) show ?case by (cases b1) auto
qed simp

lemma parse_length: "length (fst (parseScript script)) \<le> length script"
proof -
  obtain pops e where p: "parseScript script = (pops, e)" by fastforce
  then obtain b rest where "unparseScript pops = Inr b" "script = b @ rest"
    using parse_ok[OF p] by (auto simp: parsed_ok_def)
  with unparse_length[of pops b] p show ?thesis by simp
qed

text \<open>The quick count never undercounts the precise count of the same script, and both are at most 20
  for each byte of the script.\<close>

theorem sigop_count_bounds:
  "GetPreciseSigOpCount sigScript script False \<le> GetSigOpCount script
   \<and> GetSigOpCount script \<le> 20 * length script"
  using sigOps_precise_le[of None "fst (parseScript script)"]
    sigOps_bound[of None "fst (parseScript script)"] parse_length[of script]
  by (auto simp: GetPreciseSigOpCount_def GetSigOpCount_def getSigOpCount_def)

lemma parseOrErr_Nil: "parseOrErr [] = Inr []"
  by (simp add: parseOrErr_iff)

text \<open>\<open>GetWitnessSigOpCount\<close> panics exactly for an input with an empty signature script that spends a
  pay-to-script-hash output, which any transaction can contain; otherwise it returns a count.\<close>

theorem GetWitnessSigOpCount_panic_iff:
  "GetWitnessSigOpCount sigScript pkScript witness = None \<longleftrightarrow>
     sigScript = [] \<and> IsPayToScriptHash pkScript"
proof -
  have excl: "\<not> IsWitnessProgram pkScript" if "IsPayToScriptHash pkScript"
    using that by (auto simp: IsPayToScriptHash_def IsWitnessProgram_def isScriptHash_def
        isWitnessProgram_def split: sum.splits)
  show ?thesis
  proof (cases "sigScript = []")
    case True
    then show ?thesis using excl by (auto simp: GetWitnessSigOpCount_def parseOrErr_Nil)
  next
    case False
    then show ?thesis by (auto simp: GetWitnessSigOpCount_def split: sum.split)
  qed
qed

end
