(* ===== verification/WireCommon.thy ===== *)
theory WireCommon
  imports Prelude
begin

text \<open>
  \<^verbatim>\<open>pkg/chain/wire/common.go\<close>: fixed-width integers, the element types of \<open>readElement\<close> and
  \<open>writeElement\<close>, variable length integers, byte strings and strings. A writer is the bytes it
  emits (a \<open>bytes.Buffer\<close> never fails); a reader returns its value with the bytes that are left,
  or its error. The \<open>pver\<close> argument of the variable length functions is unused by the code.
  The free lists \<open>binaryFreeList\<close> and \<open>scriptFreeList\<close> recycle buffers and do not show in a result.
\<close>

section \<open>Fixed-width integers\<close>

datatype byteOrder = LittleEndian | BigEndian

fun order_bytes :: "byteOrder \<Rightarrow> bytes \<Rightarrow> bytes" where
  "order_bytes LittleEndian bs = bs"
| "order_bytes BigEndian bs = rev bs"

lemma order_bytes_twice [simp]: "order_bytes bo (order_bytes bo bs) = bs"
  by (cases bo) simp_all

lemma length_order_bytes [simp]: "length (order_bytes bo bs) = length bs"
  by (cases bo) simp_all

definition getUint :: "nat \<Rightarrow> byteOrder \<Rightarrow> 'a::len word reader" where
  "getUint n bo = bindR (readFull n) (\<lambda>buf. retR (le_word (order_bytes bo buf)))"

definition putUint :: "nat \<Rightarrow> byteOrder \<Rightarrow> 'a::len word \<Rightarrow> bytes" where
  "putUint n bo val = order_bytes bo (le_bytes n val)"

definition Uint8 :: "u8 reader" where
  "Uint8 = getUint 1 LittleEndian"

definition Uint16 :: "byteOrder \<Rightarrow> u16 reader" where
  "Uint16 = getUint 2"

definition Uint32 :: "byteOrder \<Rightarrow> u32 reader" where
  "Uint32 = getUint 4"

definition Uint64 :: "byteOrder \<Rightarrow> u64 reader" where
  "Uint64 = getUint 8"

definition PutUint8 :: "u8 \<Rightarrow> bytes" where
  "PutUint8 = putUint 1 LittleEndian"

definition PutUint16 :: "byteOrder \<Rightarrow> u16 \<Rightarrow> bytes" where
  "PutUint16 = putUint 2"

definition PutUint32 :: "byteOrder \<Rightarrow> u32 \<Rightarrow> bytes" where
  "PutUint32 = putUint 4"

definition PutUint64 :: "byteOrder \<Rightarrow> u64 \<Rightarrow> bytes" where
  "PutUint64 = putUint 8"

lemmas uint_defs [codec_defs] =
  Uint8_def Uint16_def Uint32_def Uint64_def PutUint8_def PutUint16_def PutUint32_def PutUint64_def

lemma length_putUint [simp]: "length (putUint n bo w) = n"
  by (simp add: putUint_def)

lemma getUint_putUint:
  assumes "8 * n = LENGTH('a::len)"
  shows "getUint n bo (putUint n bo (w :: 'a word) @ rest) = Inr (w, rest)"
  using assms by (simp add: getUint_def putUint_def)

lemma getUint_canonical:
  assumes "8 * n = LENGTH('a::len)" and "getUint n bo bs = Inr (w :: 'a word, rest)"
  shows "bs = putUint n bo w @ rest"
proof -
  from assms(2) obtain buf where buf: "length buf = n" "bs = buf @ rest"
    and w: "w = le_word (order_bytes bo buf)"
    by (auto simp: getUint_def bindR_eq_Inr readFull_eq_Inr)
  with assms(1) show ?thesis by (simp add: putUint_def)
qed

interpretation u8c: canonical_codec PutUint8 Uint8 "\<lambda>_. True"
  by unfold_locales (simp_all add: uint_defs getUint_putUint, erule getUint_canonical [rotated], simp)

interpretation u16c: canonical_codec "PutUint16 bo" "Uint16 bo" "\<lambda>_. True" for bo
  by unfold_locales (simp_all add: uint_defs getUint_putUint, erule getUint_canonical [rotated], simp)

interpretation u32c: canonical_codec "PutUint32 bo" "Uint32 bo" "\<lambda>_. True" for bo
  by unfold_locales (simp_all add: uint_defs getUint_putUint, erule getUint_canonical [rotated], simp)

interpretation u64c: canonical_codec "PutUint64 bo" "Uint64 bo" "\<lambda>_. True" for bo
  by unfold_locales (simp_all add: uint_defs getUint_putUint, erule getUint_canonical [rotated], simp)

lemmas uint_decode = u8c.decode_encode u16c.decode_encode u32c.decode_encode u64c.decode_encode
declare uint_decode [simp]

lemmas uint_iff = u8c.decode_iff u16c.decode_iff u32c.decode_iff u64c.decode_iff

lemma length_PutUint [simp]:
  "length (PutUint8 a) = 1" "length (PutUint16 bo b) = 2" "length (PutUint32 bo c) = 4"
  "length (PutUint64 bo d) = 8"
  by (simp_all add: uint_defs)

lemma PutUint8_eq [simp]: "PutUint8 w = [w]"
proof -
  have "(ucast w :: u8) = w" by simp
  then show ?thesis by (simp add: PutUint8_def putUint_def le_bytes_def)
qed

section \<open>Elements\<close>

text \<open>
  The cases of the type switches of \<open>readElement\<close> and \<open>writeElement\<close>. A signed integer is its
  two's complement word; a named integer type (\<open>ServiceFlag\<close>, \<open>InvType\<close>, \<open>BitcoinNet\<close>,
  \<open>BloomUpdateType\<close>, \<open>RejectCode\<close>) is the word it is defined as. A time stamp is its Unix
  seconds, an unbounded integer that the 32- and 64-bit encodings truncate.
\<close>

definition readInt32 :: "i32 reader" where
  "readInt32 = Uint32 LittleEndian"

definition readUint32 :: "u32 reader" where
  "readUint32 = Uint32 LittleEndian"

definition readInt64 :: "i64 reader" where
  "readInt64 = Uint64 LittleEndian"

definition readUint64 :: "u64 reader" where
  "readUint64 = Uint64 LittleEndian"

definition readBool :: "bool reader" where
  "readBool = bindR Uint8 (\<lambda>rv. retR (rv \<noteq> 0))"

definition readUint32Time :: "int reader" where
  "readUint32Time = bindR (Uint32 LittleEndian) (\<lambda>rv. retR (uint rv))"

definition readInt64Time :: "int reader" where
  "readInt64Time = bindR (Uint64 LittleEndian) (\<lambda>rv. retR (sint rv))"

definition HashSize :: nat where "HashSize = 32"

definition CommandSize :: nat where "CommandSize = 12"

definition readArray :: "nat \<Rightarrow> bytes reader" where
  "readArray n = readFull n"

definition readHash :: "bytes reader" where
  "readHash = readFull HashSize"

definition readServiceFlag :: "u64 reader" where
  "readServiceFlag = Uint64 LittleEndian"

definition readInvType :: "u32 reader" where
  "readInvType = Uint32 LittleEndian"

definition readBitcoinNet :: "u32 reader" where
  "readBitcoinNet = Uint32 LittleEndian"

definition readBloomUpdateType :: "u8 reader" where
  "readBloomUpdateType = Uint8"

definition readRejectCode :: "u8 reader" where
  "readRejectCode = Uint8"

definition writeInt32 :: "i32 \<Rightarrow> bytes" where
  "writeInt32 e = PutUint32 LittleEndian e"

definition writeUint32 :: "u32 \<Rightarrow> bytes" where
  "writeUint32 e = PutUint32 LittleEndian e"

definition writeInt64 :: "i64 \<Rightarrow> bytes" where
  "writeInt64 e = PutUint64 LittleEndian e"

definition writeUint64 :: "u64 \<Rightarrow> bytes" where
  "writeUint64 e = PutUint64 LittleEndian e"

definition writeBool :: "bool \<Rightarrow> bytes" where
  "writeBool e = (if e then PutUint8 1 else PutUint8 0)"

definition writeArray :: "bytes \<Rightarrow> bytes" where
  "writeArray e = e"

definition writeHash :: "bytes \<Rightarrow> bytes" where
  "writeHash e = e"

definition writeServiceFlag :: "u64 \<Rightarrow> bytes" where
  "writeServiceFlag e = PutUint64 LittleEndian e"

definition writeInvType :: "u32 \<Rightarrow> bytes" where
  "writeInvType e = PutUint32 LittleEndian e"

definition writeBitcoinNet :: "u32 \<Rightarrow> bytes" where
  "writeBitcoinNet e = PutUint32 LittleEndian e"

definition writeBloomUpdateType :: "u8 \<Rightarrow> bytes" where
  "writeBloomUpdateType e = PutUint8 e"

definition writeRejectCode :: "u8 \<Rightarrow> bytes" where
  "writeRejectCode e = PutUint8 e"

lemmas element_defs [codec_defs] =
  readInt32_def readUint32_def readInt64_def readUint64_def readServiceFlag_def readInvType_def
  readBitcoinNet_def readBloomUpdateType_def readRejectCode_def
  writeInt32_def writeUint32_def writeInt64_def writeUint64_def writeServiceFlag_def
  writeInvType_def writeBitcoinNet_def writeBloomUpdateType_def writeRejectCode_def

abbreviation is_hash :: "bytes \<Rightarrow> bool" where
  "is_hash h \<equiv> length h = HashSize"

interpretation arrayc: canonical_codec writeArray "readArray n" "\<lambda>b. length b = n" for n
  by unfold_locales (auto simp: writeArray_def readArray_def readFull_eq_Inr)

interpretation hashc: canonical_codec writeHash readHash is_hash
  by unfold_locales (auto simp: writeHash_def readHash_def readFull_eq_Inr)

interpretation boolc: codec writeBool readBool "\<lambda>_. True"
  by unfold_locales (simp add: writeBool_def readBool_def u8c.decode_encode del: PutUint8_eq)

lemma length_writeHash [simp]: "length (writeHash h) = length h"
  by (simp add: writeHash_def)

section \<open>Variable length integers\<close>

definition ReadVarInt :: "u64 reader" where
  "ReadVarInt = bindR Uint8 (\<lambda>discriminant.
     if discriminant = 0xff then
       bindR (Uint64 LittleEndian) (\<lambda>rv.
       bindR (guardR (\<not> rv < 0x100000000) (MessageError ''ReadVarInt'')) (\<lambda>_. retR rv))
     else if discriminant = 0xfe then
       bindR (Uint32 LittleEndian) (\<lambda>sv. let rv = ucast sv in
       bindR (guardR (\<not> rv < 0x10000) (MessageError ''ReadVarInt'')) (\<lambda>_. retR rv))
     else if discriminant = 0xfd then
       bindR (Uint16 LittleEndian) (\<lambda>sv. let rv = ucast sv in
       bindR (guardR (\<not> rv < 0xfd) (MessageError ''ReadVarInt'')) (\<lambda>_. retR rv))
     else retR (ucast discriminant))"

definition WriteVarInt :: "u64 \<Rightarrow> bytes" where
  "WriteVarInt val =
     (if val < 0xfd then PutUint8 (ucast val)
      else if val \<le> 0xffff then PutUint8 0xfd @ PutUint16 LittleEndian (ucast val)
      else if val \<le> 0xffffffff then PutUint8 0xfe @ PutUint32 LittleEndian (ucast val)
      else PutUint8 0xff @ PutUint64 LittleEndian val)"

definition VarIntSerializeSize :: "u64 \<Rightarrow> nat" where
  "VarIntSerializeSize val =
     (if val < 0xfd then 1 else if val \<le> 0xffff then 3 else if val \<le> 0xffffffff then 5 else 9)"

definition MaxVarIntPayload :: nat where "MaxVarIntPayload = 9"

lemma length_WriteVarInt [simp]: "length (WriteVarInt v) = VarIntSerializeSize v"
  by (simp add: WriteVarInt_def VarIntSerializeSize_def)

lemma ReadVarInt_WriteVarInt: "ReadVarInt (WriteVarInt v @ rest) = Inr (v, rest)"
proof -
  consider (a) "unat v < 253" | (b) "253 \<le> unat v" "unat v \<le> 65535"
    | (c) "65535 < unat v" "unat v \<le> 4294967295" | (d) "4294967295 < unat v" by linarith
  then show ?thesis
  proof cases
    case a
    then have u: "unat (ucast v :: u8) = unat v" by (intro unat_ucast_small) simp
    have "(ucast v :: u8) \<noteq> k" if "253 \<le> unat k" for k
      using a u that by auto
    then have "(ucast v :: u8) \<noteq> 0xff" "(ucast v :: u8) \<noteq> 0xfe" "(ucast v :: u8) \<noteq> 0xfd"
      by simp_all
    moreover have "ucast (ucast v :: u8) = v" using a by (intro ucast_down_up) simp
    ultimately show ?thesis using a u8c.decode_encode [of "ucast v" rest]
      by (simp add: ReadVarInt_def WriteVarInt_def word_less_nat_alt)
  next
    case b
    then have "ucast (ucast v :: u16) = v" by (intro ucast_down_up) simp
    with b show ?thesis using u8c.decode_encode [of "0xfd"] u16c.decode_encode
      by (simp add: ReadVarInt_def WriteVarInt_def word_less_nat_alt word_le_nat_alt)
  next
    case c
    then have "ucast (ucast v :: u32) = v" by (intro ucast_down_up) simp
    with c show ?thesis using u8c.decode_encode [of "0xfe"] u32c.decode_encode
      by (simp add: ReadVarInt_def WriteVarInt_def word_less_nat_alt word_le_nat_alt)
  next
    case d
    then show ?thesis using u8c.decode_encode [of "0xff"] u64c.decode_encode
      by (simp add: ReadVarInt_def WriteVarInt_def word_less_nat_alt word_le_nat_alt)
  qed
qed

lemma ReadVarInt_canonical:
  assumes "ReadVarInt bs = Inr (v, rest)"
  shows "bs = WriteVarInt v @ rest"
proof -
  from assms obtain d r where bs: "bs = d # r" and
    cont: "(if d = 0xff then
       bindR (Uint64 LittleEndian) (\<lambda>rv.
       bindR (guardR (\<not> rv < 0x100000000) (MessageError ''ReadVarInt'')) (\<lambda>_. retR rv))
     else if d = 0xfe then
       bindR (Uint32 LittleEndian) (\<lambda>sv. let rv = ucast sv in
       bindR (guardR (\<not> rv < 0x10000) (MessageError ''ReadVarInt'')) (\<lambda>_. retR rv))
     else if d = 0xfd then
       bindR (Uint16 LittleEndian) (\<lambda>sv. let rv = ucast sv in
       bindR (guardR (\<not> rv < 0xfd) (MessageError ''ReadVarInt'')) (\<lambda>_. retR rv))
     else retR (ucast d)) r = Inr (v, rest)"
    unfolding ReadVarInt_def bindR_eq_Inr [of Uint8] uint_iff by auto
  consider (f) "d = 0xff" | (e) "d = 0xfe" | (t) "d = 0xfd"
    | (s) "d \<noteq> 0xff" "d \<noteq> 0xfe" "d \<noteq> 0xfd" by blast
  then show ?thesis
  proof cases
    case f
    with cont have "r = PutUint64 LittleEndian v @ rest" "\<not> v < 0x100000000"
      by (auto simp: bindR_eq_Inr uint_iff Let_def split: if_splits)
    with f bs show ?thesis
      by (simp add: WriteVarInt_def word_less_nat_alt word_le_nat_alt)
  next
    case e
    with cont obtain sv :: u32 where "r = PutUint32 LittleEndian sv @ rest" "v = ucast sv"
      "\<not> v < 0x10000"
      by (auto simp: bindR_eq_Inr uint_iff Let_def split: if_splits)
    moreover have "ucast (ucast sv :: u64) = sv" by (rule ucast_up_down) simp
    ultimately show ?thesis using e bs unat_less_32 [of sv]
      by (simp add: WriteVarInt_def word_less_nat_alt word_le_nat_alt unat_ucast_up)
  next
    case t
    with cont obtain sv :: u16 where "r = PutUint16 LittleEndian sv @ rest" "v = ucast sv"
      "\<not> v < 0xfd"
      by (auto simp: bindR_eq_Inr uint_iff Let_def split: if_splits)
    moreover have "ucast (ucast sv :: u64) = sv" by (rule ucast_up_down) simp
    ultimately show ?thesis using t bs unat_less_16 [of sv]
      by (simp add: WriteVarInt_def word_less_nat_alt word_le_nat_alt unat_ucast_up)
  next
    case s
    with cont have v: "v = ucast d" "r = rest" by simp_all
    have "unat d \<noteq> 255" "unat d \<noteq> 254" "unat d \<noteq> 253"
      using s by (simp_all add: word_unat_eq_iff)
    with unat_less_8 [of d] have "unat d < 253" by linarith
    moreover have "ucast (ucast d :: u64) = d" by (rule ucast_up_down) simp
    ultimately show ?thesis using v bs
      by (simp add: WriteVarInt_def word_less_nat_alt unat_ucast_up)
  qed
qed

interpretation varint: canonical_codec WriteVarInt ReadVarInt "\<lambda>_. True"
  by unfold_locales (simp_all add: ReadVarInt_WriteVarInt ReadVarInt_canonical)

section \<open>Variable length byte strings and strings\<close>

definition MaxMessagePayload :: u32 where
  "MaxMessagePayload = 1024 * 1024 * 32"

definition ReadVarBytes :: "u32 \<Rightarrow> bytes reader" where
  "ReadVarBytes maxAllowed = bindR ReadVarInt (\<lambda>count.
     bindR (guardR (\<not> count > ucast maxAllowed) (MessageError ''ReadVarBytes'')) (\<lambda>_.
     readFull (unat count)))"

definition WriteVarBytes :: "bytes \<Rightarrow> bytes" where
  "WriteVarBytes bs = WriteVarInt (of_nat (length bs)) @ bs"

definition ReadVarString :: "bytes reader" where
  "ReadVarString = bindR ReadVarInt (\<lambda>count.
     bindR (guardR (\<not> count > ucast MaxMessagePayload) (MessageError ''ReadVarString'')) (\<lambda>_.
     readFull (unat count)))"

definition WriteVarString :: "bytes \<Rightarrow> bytes" where
  "WriteVarString str = WriteVarInt (of_nat (length str)) @ str"

text \<open>
  A count-prefixed sequence. \<open>readVarCount\<close> is the prefix with its bound check, as
  \<open>ReadVarBytes\<close>, \<open>readScript\<close> and every list-carrying message have it.
\<close>

definition readVarCount :: "u64 \<Rightarrow> string \<Rightarrow> nat reader" where
  "readVarCount maxCount f = bindR ReadVarInt (\<lambda>count.
     bindR (guardR (\<not> count > maxCount) (MessageError f)) (\<lambda>_. retR (unat count)))"

lemma unat_of_nat_u64 [simp]: "n < 18446744073709551616 \<Longrightarrow> unat (of_nat n :: u64) = n"
  by (simp add: unat_of_nat take_bit_nat_eq_self)

lemma readVarCount_encode:
  "n \<le> unat m \<Longrightarrow> readVarCount m f (WriteVarInt (of_nat n) @ rest) = Inr (n, rest)"
  using unat_less_64 [of m]
  by (simp add: readVarCount_def varint.decode_encode word_less_nat_alt)

lemma readVarCount_iff:
  "readVarCount m f bs = Inr (n, rest) \<longleftrightarrow> n \<le> unat m \<and> bs = WriteVarInt (of_nat n) @ rest"
  using unat_less_64 [of m]
  by (auto simp: readVarCount_def bindR_eq_Inr varint.decode_iff word_less_nat_alt split: if_splits)

lemma ReadVarBytes_alt:
  "ReadVarBytes m = bindR (readVarCount (ucast m) ''ReadVarBytes'') readFull"
  by (rule ext) (auto simp: ReadVarBytes_def readVarCount_def bindR_def bindE_def split: sum.splits)

lemma ReadVarString_alt:
  "ReadVarString = bindR (readVarCount (ucast MaxMessagePayload) ''ReadVarString'') readFull"
  by (rule ext) (auto simp: ReadVarString_def readVarCount_def bindR_def bindE_def split: sum.splits)

interpretation varbytes: canonical_codec WriteVarBytes "ReadVarBytes m" "\<lambda>b. length b \<le> unat m" for m
  by unfold_locales
    (auto simp: ReadVarBytes_alt WriteVarBytes_def bindR_eq_Inr readVarCount_iff readFull_eq_Inr
      unat_ucast_up readVarCount_encode)

interpretation varstring: canonical_codec WriteVarString ReadVarString
  "\<lambda>b. length b \<le> unat MaxMessagePayload"
  by unfold_locales
    (auto simp: ReadVarString_alt WriteVarString_def bindR_eq_Inr readVarCount_iff readFull_eq_Inr
      unat_ucast_up readVarCount_encode)

end
