(* ===== verification/WireTx.thy ===== *)
theory WireTx
  imports WireCommon
begin

text \<open>
  \<^verbatim>\<open>pkg/chain/wire/msgtx.go\<close>: transactions, their base and segregated-witness encodings, sizes,
  hashes, deep copy and script locations. \<open>Witness\<close> distinguishes Go's nil slice (\<open>None\<close>) from an
  allocated one (\<open>Some items\<close>), because \<open>PkScriptLocs\<close> does; scripts do not need the distinction.
  The double SHA-256 of \<open>chainhash.DoubleHashH\<close> takes the hash function as a parameter \<open>sha\<close>.
\<close>

section \<open>Data\<close>

datatype MessageEncoding = BaseEncoding | WitnessEncoding

record OutPoint =
  op_Hash :: bytes
  op_Index :: u32

record TxIn =
  PreviousOutPoint :: OutPoint
  SignatureScript :: bytes
  Witness :: "bytes list option"
  Sequence :: u32

record TxOut =
  Value :: i64
  PkScript :: bytes

record MsgTx =
  tx_Version :: i32
  tx_TxIn :: "TxIn list"
  tx_TxOut :: "TxOut list"
  tx_LockTime :: u32

definition minTxInPayload :: nat where "minTxInPayload = 9 + HashSize"

definition maxTxInPerMessage :: u64 where
  "maxTxInPerMessage = of_nat (unat MaxMessagePayload div minTxInPayload + 1)"

definition MinTxOutPayload :: nat where "MinTxOutPayload = 9"

definition maxTxOutPerMessage :: u64 where
  "maxTxOutPerMessage = of_nat (unat MaxMessagePayload div MinTxOutPayload + 1)"

definition maxWitnessItemsPerInput :: u64 where "maxWitnessItemsPerInput = 500000"

definition maxWitnessItemSize :: u32 where "maxWitnessItemSize = 11000"

definition witessMarkerBytes :: bytes where "witessMarkerBytes = [0x00, 0x01]"

definition witItems :: "TxIn \<Rightarrow> bytes list" where
  "witItems ti = (case Witness ti of None \<Rightarrow> [] | Some items \<Rightarrow> items)"

definition HasWitness :: "MsgTx \<Rightarrow> bool" where
  "HasWitness msg = list_ex (\<lambda>ti. length (witItems ti) \<noteq> 0) (tx_TxIn msg)"

definition AddTxIn :: "MsgTx \<Rightarrow> TxIn \<Rightarrow> MsgTx" where
  "AddTxIn msg ti = msg\<lparr>tx_TxIn := tx_TxIn msg @ [ti]\<rparr>"

definition AddTxOut :: "MsgTx \<Rightarrow> TxOut \<Rightarrow> MsgTx" where
  "AddTxOut msg to' = msg\<lparr>tx_TxOut := tx_TxOut msg @ [to']\<rparr>"

definition NewMsgTx :: "i32 \<Rightarrow> MsgTx" where
  "NewMsgTx version = \<lparr>tx_Version = version, tx_TxIn = [], tx_TxOut = [], tx_LockTime = 0\<rparr>"

section \<open>Writing\<close>

definition writeOutPoint :: "OutPoint \<Rightarrow> bytes" where
  "writeOutPoint op = op_Hash op @ PutUint32 LittleEndian (op_Index op)"

definition writeTxIn :: "TxIn \<Rightarrow> bytes" where
  "writeTxIn ti = writeOutPoint (PreviousOutPoint ti) @ WriteVarBytes (SignatureScript ti)
     @ PutUint32 LittleEndian (Sequence ti)"

definition WriteTxOut :: "TxOut \<Rightarrow> bytes" where
  "WriteTxOut to' = PutUint64 LittleEndian (Value to') @ WriteVarBytes (PkScript to')"

definition writeTxWitness :: "bytes list \<Rightarrow> bytes" where
  "writeTxWitness wit = WriteVarInt (of_nat (length wit)) @ concat (map WriteVarBytes wit)"

definition tx_BtcEncode :: "MessageEncoding \<Rightarrow> MsgTx \<Rightarrow> bytes" where
  "tx_BtcEncode enc msg =
     (let doWitness = (enc = WitnessEncoding \<and> HasWitness msg) in
      PutUint32 LittleEndian (tx_Version msg)
      @ (if doWitness then witessMarkerBytes else [])
      @ WriteVarInt (of_nat (length (tx_TxIn msg)))
      @ concat (map writeTxIn (tx_TxIn msg))
      @ WriteVarInt (of_nat (length (tx_TxOut msg)))
      @ concat (map WriteTxOut (tx_TxOut msg))
      @ (if doWitness then concat (map (\<lambda>ti. writeTxWitness (witItems ti)) (tx_TxIn msg)) else [])
      @ PutUint32 LittleEndian (tx_LockTime msg))"

definition tx_Serialize :: "MsgTx \<Rightarrow> bytes" where
  "tx_Serialize msg = tx_BtcEncode WitnessEncoding msg"

definition tx_SerializeNoWitness :: "MsgTx \<Rightarrow> bytes" where
  "tx_SerializeNoWitness msg = tx_BtcEncode BaseEncoding msg"

section \<open>Reading\<close>

definition readScript :: "u32 \<Rightarrow> bytes reader" where
  "readScript maxAllowed = bindR ReadVarInt (\<lambda>count.
     bindR (guardR (\<not> count > ucast maxAllowed) (MessageError ''readScript'')) (\<lambda>_.
     readFull (unat count)))"

definition readOutPoint :: "OutPoint reader" where
  "readOutPoint = bindR (readFull HashSize) (\<lambda>h.
     bindR (Uint32 LittleEndian) (\<lambda>i. retR \<lparr>op_Hash = h, op_Index = i\<rparr>))"

definition readTxIn :: "TxIn reader" where
  "readTxIn = bindR readOutPoint (\<lambda>op.
     bindR (readScript MaxMessagePayload) (\<lambda>script.
     bindR readUint32 (\<lambda>sq.
     retR \<lparr>PreviousOutPoint = op, SignatureScript = script, Witness = None, Sequence = sq\<rparr>)))"

definition readTxOut :: "TxOut reader" where
  "readTxOut = bindR readInt64 (\<lambda>v.
     bindR (readScript MaxMessagePayload) (\<lambda>script. retR \<lparr>Value = v, PkScript = script\<rparr>))"

text \<open>The witness of one input, and the loop that attaches one to each input in turn.\<close>

definition readTxWitness :: "bytes list reader" where
  "readTxWitness = bindR ReadVarInt (\<lambda>witCount.
     bindR (guardR (\<not> witCount > maxWitnessItemsPerInput) (MessageError ''MsgTx.BtcDecode'')) (\<lambda>_.
     readN (unat witCount) (readScript maxWitnessItemSize)))"

fun readWitnesses :: "TxIn list \<Rightarrow> TxIn list reader" where
  "readWitnesses [] = retR []"
| "readWitnesses (ti # tis) = bindR readTxWitness (\<lambda>w.
     bindR (readWitnesses tis) (\<lambda>tis'. retR (ti\<lparr>Witness := Some w\<rparr> # tis')))"

text \<open>
  The last step of \<open>BtcDecode\<close> copies every script into one buffer and makes each field a slice
  of it. The slices alias the buffer, so each field's final value is what the buffer holds once
  all copies are done: first the copies, then the slices.
\<close>

definition copyAt :: "bytes \<Rightarrow> nat \<Rightarrow> bytes \<Rightarrow> bytes" where
  "copyAt buf off s = take off buf @ take (length buf - off) s @ drop (off + length s) buf"

definition subslice :: "bytes \<Rightarrow> nat \<Rightarrow> nat \<Rightarrow> bytes" where
  "subslice buf off n = take n (drop off buf)"

fun copyAll :: "bytes \<Rightarrow> nat \<Rightarrow> bytes list \<Rightarrow> bytes" where
  "copyAll buf off [] = buf"
| "copyAll buf off (s # ss) = copyAll (copyAt buf off s) (off + length s) ss"

fun sliceAll :: "bytes \<Rightarrow> nat \<Rightarrow> bytes list \<Rightarrow> bytes list" where
  "sliceAll buf off [] = []"
| "sliceAll buf off (s # ss) = subslice buf off (length s) # sliceAll buf (off + length s) ss"

definition inScripts :: "TxIn \<Rightarrow> bytes list" where
  "inScripts ti = SignatureScript ti # witItems ti"

definition sliceTxIn :: "bytes \<Rightarrow> nat \<Rightarrow> TxIn \<Rightarrow> TxIn" where
  "sliceTxIn buf off ti = ti\<lparr>
     SignatureScript := subslice buf off (length (SignatureScript ti)),
     Witness := map_option (sliceAll buf (off + length (SignatureScript ti))) (Witness ti)\<rparr>"

fun sliceTxIns :: "bytes \<Rightarrow> nat \<Rightarrow> TxIn list \<Rightarrow> TxIn list" where
  "sliceTxIns buf off [] = []"
| "sliceTxIns buf off (ti # tis) =
     sliceTxIn buf off ti # sliceTxIns buf (off + length (concat (inScripts ti))) tis"

fun sliceTxOuts :: "bytes \<Rightarrow> nat \<Rightarrow> TxOut list \<Rightarrow> TxOut list" where
  "sliceTxOuts buf off [] = []"
| "sliceTxOuts buf off (to' # tos) =
     to'\<lparr>PkScript := subslice buf off (length (PkScript to'))\<rparr>
     # sliceTxOuts buf (off + length (PkScript to')) tos"

definition txScripts :: "MsgTx \<Rightarrow> bytes list" where
  "txScripts msg = concat (map inScripts (tx_TxIn msg)) @ map PkScript (tx_TxOut msg)"

definition packScripts :: "MsgTx \<Rightarrow> MsgTx" where
  "packScripts msg =
     (let totalScriptSize = length (concat (txScripts msg));
          scripts = copyAll (replicate totalScriptSize 0) 0 (txScripts msg)
      in msg\<lparr>tx_TxIn := sliceTxIns scripts 0 (tx_TxIn msg),
            tx_TxOut := sliceTxOuts scripts
              (length (concat (concat (map inScripts (tx_TxIn msg))))) (tx_TxOut msg)\<rparr>)"

definition tx_BtcDecode :: "MessageEncoding \<Rightarrow> MsgTx reader" where
  "tx_BtcDecode enc =
     bindR (Uint32 LittleEndian) (\<lambda>version.
     bindR ReadVarInt (\<lambda>count0.
     bindR (if count0 = 0 \<and> enc = WitnessEncoding then
              bindR (readFull 1) (\<lambda>flag.
              bindR (guardR (\<not> hd flag \<noteq> 0x01) (MessageError ''MsgTx.BtcDecode'')) (\<lambda>_.
              bindR ReadVarInt (\<lambda>count. retR (hd flag, count))))
            else retR (0, count0)) (\<lambda>(flag, count).
     bindR (guardR (\<not> count > maxTxInPerMessage) (MessageError ''MsgTx.BtcDecode'')) (\<lambda>_.
     bindR (readN (unat count) readTxIn) (\<lambda>ins.
     bindR ReadVarInt (\<lambda>outCount.
     bindR (guardR (\<not> outCount > maxTxOutPerMessage) (MessageError ''MsgTx.BtcDecode'')) (\<lambda>_.
     bindR (readN (unat outCount) readTxOut) (\<lambda>outs.
     bindR (if flag \<noteq> 0 \<and> enc = WitnessEncoding then readWitnesses ins else retR ins) (\<lambda>ins'.
     bindR (Uint32 LittleEndian) (\<lambda>lockTime.
     retR (packScripts \<lparr>tx_Version = version, tx_TxIn = ins', tx_TxOut = outs,
                        tx_LockTime = lockTime\<rparr>)))))))))))"

definition tx_Deserialize :: "MsgTx reader" where
  "tx_Deserialize = tx_BtcDecode WitnessEncoding"

definition tx_DeserializeNoWitness :: "MsgTx reader" where
  "tx_DeserializeNoWitness = tx_BtcDecode BaseEncoding"

section \<open>Sizes, hashes, copies, locations\<close>

definition txin_SerializeSize :: "TxIn \<Rightarrow> nat" where
  "txin_SerializeSize t = 40 + VarIntSerializeSize (of_nat (length (SignatureScript t)))
     + length (SignatureScript t)"

definition witness_SerializeSize :: "bytes list \<Rightarrow> nat" where
  "witness_SerializeSize t = foldl (\<lambda>n witItem.
     n + VarIntSerializeSize (of_nat (length witItem)) + length witItem)
     (VarIntSerializeSize (of_nat (length t))) t"

definition txout_SerializeSize :: "TxOut \<Rightarrow> nat" where
  "txout_SerializeSize t = 8 + VarIntSerializeSize (of_nat (length (PkScript t)))
     + length (PkScript t)"

definition tx_baseSize :: "MsgTx \<Rightarrow> nat" where
  "tx_baseSize msg =
     (let n = 8 + VarIntSerializeSize (of_nat (length (tx_TxIn msg)))
            + VarIntSerializeSize (of_nat (length (tx_TxOut msg)));
          n = foldl (\<lambda>n ti. n + txin_SerializeSize ti) n (tx_TxIn msg)
      in foldl (\<lambda>n to'. n + txout_SerializeSize to') n (tx_TxOut msg))"

definition tx_SerializeSize :: "MsgTx \<Rightarrow> nat" where
  "tx_SerializeSize msg =
     (let n = tx_baseSize msg
      in if HasWitness msg
         then foldl (\<lambda>n ti. n + witness_SerializeSize (witItems ti)) (n + 2) (tx_TxIn msg)
         else n)"

definition tx_SerializeSizeStripped :: "MsgTx \<Rightarrow> nat" where
  "tx_SerializeSizeStripped msg = tx_baseSize msg"

definition DoubleHashH :: "(bytes \<Rightarrow> bytes) \<Rightarrow> bytes \<Rightarrow> bytes" where
  "DoubleHashH sha b = (let first = sha b in sha first)"

definition TxHash :: "(bytes \<Rightarrow> bytes) \<Rightarrow> MsgTx \<Rightarrow> bytes" where
  "TxHash sha msg = DoubleHashH sha (tx_SerializeNoWitness msg)"

definition WitnessHash :: "(bytes \<Rightarrow> bytes) \<Rightarrow> MsgTx \<Rightarrow> bytes" where
  "WitnessHash sha msg =
     (if HasWitness msg then DoubleHashH sha (tx_Serialize msg) else TxHash sha msg)"

definition CopyTxIn :: "TxIn \<Rightarrow> TxIn" where
  "CopyTxIn old = \<lparr>PreviousOutPoint = PreviousOutPoint old, SignatureScript = SignatureScript old,
     Witness = (if length (witItems old) \<noteq> 0 then Some (witItems old) else None),
     Sequence = Sequence old\<rparr>"

definition CopyTxOut :: "TxOut \<Rightarrow> TxOut" where
  "CopyTxOut old = \<lparr>Value = Value old, PkScript = PkScript old\<rparr>"

definition tx_Copy :: "MsgTx \<Rightarrow> MsgTx" where
  "tx_Copy msg = \<lparr>tx_Version = tx_Version msg, tx_TxIn = map CopyTxIn (tx_TxIn msg),
     tx_TxOut = map CopyTxOut (tx_TxOut msg), tx_LockTime = tx_LockTime msg\<rparr>"

fun pkScriptLocsFrom :: "nat \<Rightarrow> TxOut list \<Rightarrow> nat list" where
  "pkScriptLocsFrom n [] = []"
| "pkScriptLocsFrom n (to' # tos) =
     (let n' = n + (8 + VarIntSerializeSize (of_nat (length (PkScript to'))))
      in n' # pkScriptLocsFrom (n' + length (PkScript to')) tos)"

definition PkScriptLocs :: "MsgTx \<Rightarrow> nat list" where
  "PkScriptLocs msg =
     (let numTxOut = length (tx_TxOut msg) in
      if numTxOut = 0 then []
      else
        let n = 4 + VarIntSerializeSize (of_nat (length (tx_TxIn msg)))
              + VarIntSerializeSize (of_nat numTxOut);
            n = (if length (tx_TxIn msg) > 0 \<and> Witness (hd (tx_TxIn msg)) \<noteq> None then n + 2 else n);
            n = foldl (\<lambda>n ti. n + txin_SerializeSize ti) n (tx_TxIn msg)
        in pkScriptLocsFrom n (tx_TxOut msg))"

section \<open>Element codecs\<close>

lemma readScript_alt: "readScript m = bindR (readVarCount (ucast m) ''readScript'') readFull"
  by (rule ext) (auto simp: readScript_def readVarCount_def bindR_def bindE_def split: sum.splits)

interpretation scriptc: canonical_codec WriteVarBytes "readScript m" "\<lambda>b. length b \<le> unat m" for m
  by unfold_locales
    (auto simp: readScript_alt WriteVarBytes_def bindR_eq_Inr readVarCount_iff readFull_eq_Inr
      unat_ucast_up readVarCount_encode)

definition ok_OutPoint :: "OutPoint \<Rightarrow> bool" where
  "ok_OutPoint op \<longleftrightarrow> is_hash (op_Hash op)"

definition ok_TxIn :: "TxIn \<Rightarrow> bool" where
  "ok_TxIn ti \<longleftrightarrow> ok_OutPoint (PreviousOutPoint ti)
     \<and> length (SignatureScript ti) \<le> unat MaxMessagePayload"

definition ok_TxOut :: "TxOut \<Rightarrow> bool" where
  "ok_TxOut to' \<longleftrightarrow> length (PkScript to') \<le> unat MaxMessagePayload"

definition ok_witness :: "bytes list \<Rightarrow> bool" where
  "ok_witness w \<longleftrightarrow> length w \<le> unat maxWitnessItemsPerInput
     \<and> list_all (\<lambda>b. length b \<le> unat maxWitnessItemSize) w"

interpretation outpointc: canonical_codec writeOutPoint readOutPoint ok_OutPoint
  by unfold_locales
    (auto simp: readOutPoint_def writeOutPoint_def ok_OutPoint_def bindR_eq_Inr readFull_eq_Inr
      uint_iff)

interpretation txinc: canonical_codec writeTxIn readTxIn "\<lambda>ti. ok_TxIn ti \<and> Witness ti = None"
  by unfold_locales
    (auto simp: readTxIn_def writeTxIn_def ok_TxIn_def bindR_eq_Inr outpointc.decode_iff
      scriptc.decode_iff uint_iff element_defs outpointc.decode_encode scriptc.decode_encode)

interpretation txoutc: canonical_codec WriteTxOut readTxOut ok_TxOut
  by unfold_locales
    (auto simp: readTxOut_def WriteTxOut_def ok_TxOut_def bindR_eq_Inr
      scriptc.decode_iff uint_iff element_defs scriptc.decode_encode)

lemma readTxWitness_alt:
  "readTxWitness = bindR (readVarCount maxWitnessItemsPerInput ''MsgTx.BtcDecode'')
     (\<lambda>n. readN n (readScript maxWitnessItemSize))"
  by (rule ext) (auto simp: readTxWitness_def readVarCount_def bindR_def bindE_def split: sum.splits)

interpretation witnessc: canonical_codec writeTxWitness readTxWitness ok_witness
  by unfold_locales
    (auto simp: readTxWitness_alt writeTxWitness_def ok_witness_def bindR_eq_Inr readVarCount_iff
      readVarCount_encode scriptc.decode_list scriptc.decode_list_canonical)

lemma readWitnesses_iff:
  "readWitnesses tis bs = Inr (tis', rest) \<longleftrightarrow>
     (\<exists>ws. length ws = length tis \<and> list_all ok_witness ws
        \<and> tis' = map2 (\<lambda>ti w. ti\<lparr>Witness := Some w\<rparr>) tis ws
        \<and> bs = concat (map writeTxWitness ws) @ rest)"
proof (induction tis arbitrary: bs tis')
  case Nil
  then show ?case by auto
next
  case (Cons ti tis)
  show ?case (is "?L \<longleftrightarrow> ?R")
  proof
    assume ?L
    then obtain w r ts where w: "readTxWitness bs = Inr (w, r)"
      and ts: "readWitnesses tis r = Inr (ts, rest)" "tis' = ti\<lparr>Witness := Some w\<rparr> # ts"
      by (auto simp: bindR_eq_Inr)
    from ts(1) obtain ws where "length ws = length tis" "list_all ok_witness ws"
      "ts = map2 (\<lambda>ti w. ti\<lparr>Witness := Some w\<rparr>) tis ws"
      "r = concat (map writeTxWitness ws) @ rest"
      unfolding Cons.IH by blast
    with w ts(2) show ?R
      by (intro exI [of _ "w # ws"]) (auto simp: witnessc.decode_iff)
  next
    assume ?R
    then obtain w ws where "length ws = length tis" "ok_witness w" "list_all ok_witness ws"
      "tis' = ti\<lparr>Witness := Some w\<rparr> # map2 (\<lambda>ti w. ti\<lparr>Witness := Some w\<rparr>) tis ws"
      "bs = writeTxWitness w @ concat (map writeTxWitness ws) @ rest"
      by (auto simp: length_Suc_conv)
    moreover from this have "readWitnesses tis (concat (map writeTxWitness ws) @ rest)
        = Inr (map2 (\<lambda>ti w. ti\<lparr>Witness := Some w\<rparr>) tis ws, rest)"
      unfolding Cons.IH by blast
    ultimately show ?L by (simp add: witnessc.decode_encode)
  qed
qed

section \<open>Repacking the scripts changes nothing\<close>

lemma copyAll_append:
  assumes "length pre = off" and "length (concat ss) \<le> length buf"
  shows "copyAll (pre @ buf) off ss = pre @ concat ss @ drop (length (concat ss)) buf"
  using assms
proof (induction ss arbitrary: pre off buf)
  case Nil
  then show ?case by simp
next
  case (Cons s ss)
  have eq: "copyAt (pre @ buf) off s = (pre @ s) @ drop (length s) buf"
    using Cons.prems by (simp add: copyAt_def)
  have "copyAll ((pre @ s) @ drop (length s) buf) (off + length s) ss
      = (pre @ s) @ concat ss @ drop (length (concat ss)) (drop (length s) buf)"
    using Cons.prems by (intro Cons.IH) simp_all
  then show ?case by (simp add: eq add.commute)
qed

lemma sliceAll_id:
  "length pre = off \<Longrightarrow> sliceAll (pre @ concat ss @ suf) off ss = ss"
proof (induction ss arbitrary: pre off)
  case Nil
  then show ?case by simp
next
  case (Cons s ss)
  from Cons.prems have "length (pre @ s) = off + length s" by simp
  from Cons.IH [OF this] Cons.prems show ?case by (simp add: subslice_def)
qed

lemma sliceTxIn_id:
  assumes "length pre = off"
  shows "sliceTxIn (pre @ concat (inScripts ti) @ suf) off ti = ti"
proof (cases "Witness ti")
  case None
  with assms show ?thesis by (simp add: sliceTxIn_def inScripts_def subslice_def)
next
  case (Some w)
  have "length (pre @ SignatureScript ti) = off + length (SignatureScript ti)"
    using assms by simp
  from sliceAll_id [OF this, of w suf] Some assms show ?thesis
    by (simp add: sliceTxIn_def inScripts_def subslice_def witItems_def)
qed

lemma sliceTxIns_id:
  "length pre = off \<Longrightarrow>
     sliceTxIns (pre @ concat (concat (map inScripts tis)) @ suf) off tis = tis"
proof (induction tis arbitrary: pre off)
  case Nil
  then show ?case by simp
next
  case (Cons ti tis)
  have "length (pre @ concat (inScripts ti)) = off + length (concat (inScripts ti))"
    using Cons.prems by simp
  from Cons.IH [OF this]
    sliceTxIn_id [OF Cons.prems, of ti "concat (concat (map inScripts tis)) @ suf"]
  show ?case by simp
qed

lemma sliceTxOuts_id:
  "length pre = off \<Longrightarrow> sliceTxOuts (pre @ concat (map PkScript tos) @ suf) off tos = tos"
proof (induction tos arbitrary: pre off)
  case Nil
  then show ?case by simp
next
  case (Cons to' tos)
  have "length (pre @ PkScript to') = off + length (PkScript to')"
    using Cons.prems by simp
  from Cons.IH [OF this] Cons.prems show ?case by (simp add: subslice_def)
qed

lemma packScripts_id: "packScripts msg = msg"
proof -
  let ?ins = "concat (concat (map inScripts (tx_TxIn msg)))"
  let ?outs = "concat (map PkScript (tx_TxOut msg))"
  have "copyAll ([] @ replicate (length (concat (txScripts msg))) 0) 0 (txScripts msg)
      = ?ins @ ?outs"
    by (subst copyAll_append) (simp_all add: txScripts_def)
  then show ?thesis
    using sliceTxIns_id [of "[]" 0 "tx_TxIn msg" ?outs]
      sliceTxOuts_id [of ?ins "length ?ins" "tx_TxOut msg" "[]"]
    by (simp add: packScripts_def)
qed

section \<open>Transaction codecs\<close>

definition ok_tx_parts :: "MsgTx \<Rightarrow> bool" where
  "ok_tx_parts msg \<longleftrightarrow> length (tx_TxIn msg) \<le> unat maxTxInPerMessage \<and> list_all ok_TxIn (tx_TxIn msg)
     \<and> length (tx_TxOut msg) \<le> unat maxTxOutPerMessage \<and> list_all ok_TxOut (tx_TxOut msg)"

text \<open>What the base encoding can carry: no witness data.\<close>

definition ok_tx_base :: "MsgTx \<Rightarrow> bool" where
  "ok_tx_base msg \<longleftrightarrow> ok_tx_parts msg \<and> list_all (\<lambda>ti. Witness ti = None) (tx_TxIn msg)"

text \<open>
  What the witness encoding can carry: at least one input (an input count of zero is read as the
  witness marker), and either no witness at all or an allocated one on every input.
\<close>

definition ok_tx_witness :: "MsgTx \<Rightarrow> bool" where
  "ok_tx_witness msg \<longleftrightarrow> ok_tx_parts msg \<and> tx_TxIn msg \<noteq> []
     \<and> (if HasWitness msg then list_all (\<lambda>ti. \<exists>w. Witness ti = Some w \<and> ok_witness w) (tx_TxIn msg)
        else list_all (\<lambda>ti. Witness ti = None) (tx_TxIn msg))"

text \<open>The part of a transaction after the input count, as both encodings have it.\<close>

definition readTxBody :: "i32 \<Rightarrow> bool \<Rightarrow> u64 \<Rightarrow> MsgTx reader" where
  "readTxBody version wit count =
     bindR (guardR (\<not> count > maxTxInPerMessage) (MessageError ''MsgTx.BtcDecode'')) (\<lambda>_.
     bindR (readN (unat count) readTxIn) (\<lambda>ins.
     bindR (readVarCount maxTxOutPerMessage ''MsgTx.BtcDecode'') (\<lambda>outCount.
     bindR (readN outCount readTxOut) (\<lambda>outs.
     bindR (if wit then readWitnesses ins else retR ins) (\<lambda>ins'.
     bindR (Uint32 LittleEndian) (\<lambda>lockTime.
     retR \<lparr>tx_Version = version, tx_TxIn = ins', tx_TxOut = outs, tx_LockTime = lockTime\<rparr>))))))"

definition writeTxBody :: "bool \<Rightarrow> MsgTx \<Rightarrow> bytes" where
  "writeTxBody wit msg = concat (map writeTxIn (tx_TxIn msg))
      @ WriteVarInt (of_nat (length (tx_TxOut msg)))
      @ concat (map WriteTxOut (tx_TxOut msg))
      @ (if wit then concat (map (\<lambda>ti. writeTxWitness (witItems ti)) (tx_TxIn msg)) else [])
      @ PutUint32 LittleEndian (tx_LockTime msg)"

lemma tx_BtcDecode_alt:
  "tx_BtcDecode enc =
     bindR (Uint32 LittleEndian) (\<lambda>version.
     bindR ReadVarInt (\<lambda>count0.
     if count0 = 0 \<and> enc = WitnessEncoding then
       bindR (readFull 1) (\<lambda>flag.
       bindR (guardR (hd flag = 1) (MessageError ''MsgTx.BtcDecode'')) (\<lambda>_.
       bindR ReadVarInt (\<lambda>count. readTxBody version True count)))
     else readTxBody version False count0))"
  by (rule ext)
    (auto simp: tx_BtcDecode_def readTxBody_def readVarCount_def bindR_def bindE_def packScripts_id
      split: sum.splits)

lemma tx_BtcEncode_alt:
  "tx_BtcEncode enc msg = PutUint32 LittleEndian (tx_Version msg)
     @ (if enc = WitnessEncoding \<and> HasWitness msg then witessMarkerBytes else [])
     @ WriteVarInt (of_nat (length (tx_TxIn msg)))
     @ writeTxBody (enc = WitnessEncoding \<and> HasWitness msg) msg"
  by (simp add: tx_BtcEncode_def writeTxBody_def Let_def)

definition ok_tx_body :: "bool \<Rightarrow> MsgTx \<Rightarrow> bool" where
  "ok_tx_body wit msg \<longleftrightarrow> ok_tx_parts msg
     \<and> list_all (\<lambda>ti. if wit then \<exists>w. Witness ti = Some w \<and> ok_witness w else Witness ti = None)
         (tx_TxIn msg)"

lemma writeTxIn_nowitness [simp]: "writeTxIn (ti\<lparr>Witness := w\<rparr>) = writeTxIn ti"
  by (simp add: writeTxIn_def)

lemma map2_witness:
  assumes "list_all (\<lambda>ti. \<exists>w. Witness ti = Some w \<and> ok_witness w) tis"
  shows "map2 (\<lambda>ti w. ti\<lparr>Witness := Some w\<rparr>) (map (\<lambda>ti. ti\<lparr>Witness := None\<rparr>) tis)
           (map witItems tis) = tis"
    and "list_all ok_witness (map witItems tis)"
  using assms by (induction tis) (auto simp: witItems_def)

lemma readTxBody_write:
  assumes ok: "ok_tx_body wit msg"
  shows "readTxBody (tx_Version msg) wit (of_nat (length (tx_TxIn msg)))
           (writeTxBody wit msg @ rest) = Inr (msg, rest)"
proof -
  let ?ins0 = "map (\<lambda>ti. ti\<lparr>Witness := None\<rparr>) (tx_TxIn msg)"
  have n: "length (tx_TxIn msg) \<le> unat maxTxInPerMessage" and outs: "list_all ok_TxOut (tx_TxOut msg)"
    and m: "length (tx_TxOut msg) \<le> unat maxTxOutPerMessage" and ins: "list_all ok_TxIn (tx_TxIn msg)"
    using ok by (auto simp: ok_tx_body_def ok_tx_parts_def)
  have len: "unat (of_nat (length (tx_TxIn msg)) :: u64) = length (tx_TxIn msg)"
    using n unat_less_64 [of maxTxInPerMessage] by simp
  have ok0: "list_all (\<lambda>ti. ok_TxIn ti \<and> Witness ti = None) ?ins0"
    using ins by (induction "tx_TxIn msg" arbitrary: msg) (auto simp: list_all_iff ok_TxIn_def)
  have rd: "readN (length (tx_TxIn msg)) readTxIn (concat (map writeTxIn (tx_TxIn msg)) @ r)
      = Inr (?ins0, r)" for r
    using txinc.decode_list [OF ok0, of r] by (simp add: comp_def)
  have wits: "(if wit then readWitnesses ?ins0 else retR ?ins0)
      ((if wit then concat (map (\<lambda>ti. writeTxWitness (witItems ti)) (tx_TxIn msg)) else []) @ r)
      = Inr (tx_TxIn msg, r)" for r
  proof (cases wit)
    case True
    then have w: "list_all (\<lambda>ti. \<exists>w. Witness ti = Some w \<and> ok_witness w) (tx_TxIn msg)"
      using ok by (simp add: ok_tx_body_def)
    show ?thesis using True map2_witness [OF w]
      by (auto simp: readWitnesses_iff comp_def intro!: exI [of _ "map witItems (tx_TxIn msg)"])
  next
    case False
    then have "list_all (\<lambda>ti. Witness ti = None) (tx_TxIn msg)"
      using ok by (simp add: ok_tx_body_def)
    then have "?ins0 = tx_TxIn msg"
      by (intro map_idI) (simp add: list_all_iff)
    with False show ?thesis by simp
  qed
  show ?thesis
    using n m outs len
    by (simp add: readTxBody_def writeTxBody_def word_less_nat_alt rd readVarCount_encode
        txoutc.decode_list wits)
qed

lemma readTxBody_canonical:
  assumes "readTxBody v wit count bs = Inr (msg, rest)"
  shows "ok_tx_body wit msg \<and> v = tx_Version msg \<and> count = of_nat (length (tx_TxIn msg))
     \<and> bs = writeTxBody wit msg @ rest"
proof -
  from assms obtain ins r1 outCount r2 outs r3 ins' r4 lt where
    c: "count \<le> maxTxInPerMessage" and ins: "readN (unat count) readTxIn bs = Inr (ins, r1)"
    and oc: "readVarCount maxTxOutPerMessage ''MsgTx.BtcDecode'' r1 = Inr (outCount, r2)"
    and outs: "readN outCount readTxOut r2 = Inr (outs, r3)"
    and wits: "(if wit then readWitnesses ins else retR ins) r3 = Inr (ins', r4)"
    and lt: "Uint32 LittleEndian r4 = Inr (lt, rest)"
    and msg: "msg = \<lparr>tx_Version = v, tx_TxIn = ins', tx_TxOut = outs, tx_LockTime = lt\<rparr>"
    by (auto simp: readTxBody_def bindR_eq_Inr guardR_eq_Inr simp del: guardR_apply)
  from ins have ins: "length ins = unat count" "list_all (\<lambda>ti. ok_TxIn ti \<and> Witness ti = None) ins"
    "bs = concat (map writeTxIn ins) @ r1"
    unfolding txinc.decode_list_canonical by auto
  from outs have outs: "length outs = outCount" "list_all ok_TxOut outs"
    "r2 = concat (map WriteTxOut outs) @ r3"
    unfolding txoutc.decode_list_canonical by auto
  have wits': "length ins' = length ins \<and> list_all ok_TxIn ins' \<and> map writeTxIn ins' = map writeTxIn ins
    \<and> list_all (\<lambda>ti. if wit then \<exists>w. Witness ti = Some w \<and> ok_witness w else Witness ti = None) ins'
    \<and> r3 = (if wit then concat (map (\<lambda>ti. writeTxWitness (witItems ti)) ins') else []) @ r4"
  proof (cases wit)
    case True
    with wits obtain ws where ws: "length ws = length ins" "list_all ok_witness ws"
      "ins' = map2 (\<lambda>ti w. ti\<lparr>Witness := Some w\<rparr>) ins ws" "r3 = concat (map writeTxWitness ws) @ r4"
      by (auto simp: readWitnesses_iff)
    from ws(1,2) ins(2) have "list_all ok_TxIn (map2 (\<lambda>ti w. ti\<lparr>Witness := Some w\<rparr>) ins ws)
      \<and> map writeTxIn (map2 (\<lambda>ti w. ti\<lparr>Witness := Some w\<rparr>) ins ws) = map writeTxIn ins
      \<and> list_all (\<lambda>ti. \<exists>w. Witness ti = Some w \<and> ok_witness w)
          (map2 (\<lambda>ti w. ti\<lparr>Witness := Some w\<rparr>) ins ws)
      \<and> map (\<lambda>ti. writeTxWitness (witItems ti)) (map2 (\<lambda>ti w. ti\<lparr>Witness := Some w\<rparr>) ins ws)
          = map writeTxWitness ws"
      by (induction ws ins rule: list_induct2) (auto simp: ok_TxIn_def witItems_def)
    with True ws show ?thesis by simp
  next
    case False
    with wits ins(2) show ?thesis by (auto simp: list_all_iff)
  qed
  have "count = of_nat (length ins')" using ins(1) wits' by simp
  moreover have "length ins' \<le> unat maxTxInPerMessage"
    using c ins(1) wits' by (simp add: word_le_nat_alt)
  moreover have "outCount \<le> unat maxTxOutPerMessage" "r1 = WriteVarInt (of_nat outCount) @ r2"
    using oc by (simp_all add: readVarCount_iff)
  ultimately show ?thesis
    using msg ins(3) outs wits' lt
    by (simp add: ok_tx_body_def ok_tx_parts_def writeTxBody_def uint_iff)
qed

lemma ok_tx_body_False: "ok_tx_body False msg \<longleftrightarrow> ok_tx_base msg"
  by (simp add: ok_tx_body_def ok_tx_base_def)

lemma HasWitness_None: "list_all (\<lambda>ti. Witness ti = None) (tx_TxIn msg) \<Longrightarrow> \<not> HasWitness msg"
  by (auto simp: HasWitness_def list_ex_iff list_all_iff witItems_def)

interpretation txbase: canonical_codec "tx_BtcEncode BaseEncoding" "tx_BtcDecode BaseEncoding" ok_tx_base
proof unfold_locales
  fix x rest assume "ok_tx_base x"
  then show "tx_BtcDecode BaseEncoding (tx_BtcEncode BaseEncoding x @ rest) = Inr (x, rest)"
    by (simp add: tx_BtcDecode_alt tx_BtcEncode_alt varint.decode_encode readTxBody_write
        ok_tx_body_False)
next
  fix bs x rest assume "tx_BtcDecode BaseEncoding bs = Inr (x, rest)"
  then show "ok_tx_base x \<and> bs = tx_BtcEncode BaseEncoding x @ rest"
    by (auto simp: tx_BtcDecode_alt tx_BtcEncode_alt bindR_eq_Inr varint.decode_iff uint_iff
        ok_tx_body_False dest!: readTxBody_canonical)
qed

lemma WriteVarInt_0 [simp]: "WriteVarInt 0 = [0]"
  by (simp add: WriteVarInt_def)

lemma of_nat_u64_0: "n \<le> unat (m :: u64) \<Longrightarrow> (of_nat n :: u64) = 0 \<longleftrightarrow> n = 0"
  using unat_less_64 [of m] unat_eq_zero [of "of_nat n :: u64"] by simp

interpretation txwit: codec "tx_BtcEncode WitnessEncoding" "tx_BtcDecode WitnessEncoding" ok_tx_witness
proof unfold_locales
  fix x rest assume ok: "ok_tx_witness x"
  show "tx_BtcDecode WitnessEncoding (tx_BtcEncode WitnessEncoding x @ rest) = Inr (x, rest)"
  proof (cases "HasWitness x")
    case True
    with ok have body: "ok_tx_body True x" by (simp add: ok_tx_witness_def ok_tx_body_def)
    have zero: "ReadVarInt (0 # r) = Inr (0, r)" for r
      using varint.decode_encode [of 0 r] by simp
    show ?thesis using True readTxBody_write [OF body]
      by (simp add: tx_BtcDecode_alt tx_BtcEncode_alt witessMarkerBytes_def zero readFull_def
          varint.decode_encode)
  next
    case False
    with ok have body: "ok_tx_body False x" by (simp add: ok_tx_witness_def ok_tx_body_def)
    have "(of_nat (length (tx_TxIn x)) :: u64) \<noteq> 0"
      using ok of_nat_u64_0 [of "length (tx_TxIn x)" maxTxInPerMessage]
      by (simp add: ok_tx_witness_def ok_tx_parts_def)
    with False readTxBody_write [OF body] show ?thesis
      by (simp add: tx_BtcDecode_alt tx_BtcEncode_alt varint.decode_encode)
  qed
qed

section \<open>Sizes\<close>

lemma foldl_plus: "foldl (\<lambda>n x. n + f x) (a :: nat) xs = a + sum_list (map f xs)"
  by (induction xs arbitrary: a) auto

lemma length_concat_map: "length (concat (map f xs)) = sum_list (map (\<lambda>x. length (f x)) xs)"
  by (induction xs) auto

lemma length_WriteVarBytes [simp]:
  "length (WriteVarBytes b) = VarIntSerializeSize (of_nat (length b)) + length b"
  by (simp add: WriteVarBytes_def)

lemma length_writeTxIn: "ok_TxIn ti \<Longrightarrow> length (writeTxIn ti) = txin_SerializeSize ti"
  by (simp add: writeTxIn_def writeOutPoint_def txin_SerializeSize_def ok_TxIn_def ok_OutPoint_def
      HashSize_def)

lemma length_WriteTxOut [simp]: "length (WriteTxOut to') = txout_SerializeSize to'"
  by (simp add: WriteTxOut_def txout_SerializeSize_def)

lemma length_writeTxWitness [simp]: "length (writeTxWitness w) = witness_SerializeSize w"
proof -
  have "foldl (\<lambda>n witItem. n + VarIntSerializeSize (of_nat (length witItem)) + length witItem) a w
      = a + sum_list (map (\<lambda>x. length (WriteVarBytes x)) w)" for a
    by (induction w arbitrary: a) auto
  then show ?thesis
    by (simp add: writeTxWitness_def witness_SerializeSize_def length_concat_map)
qed

lemma sum_writeTxIn:
  "list_all ok_TxIn tis \<Longrightarrow>
     sum_list (map (\<lambda>ti. length (writeTxIn ti)) tis) = sum_list (map txin_SerializeSize tis)"
  by (induction tis) (auto simp: length_writeTxIn)

lemma tx_sizes:
  assumes "list_all ok_TxIn (tx_TxIn msg)"
  shows "length (tx_Serialize msg) = tx_SerializeSize msg"
    and "length (tx_SerializeNoWitness msg) = tx_SerializeSizeStripped msg"
proof -
  have base: "length (tx_BtcEncode BaseEncoding msg) = tx_baseSize msg"
    using assms
    by (simp add: tx_BtcEncode_alt writeTxBody_def tx_baseSize_def foldl_plus length_concat_map
        sum_writeTxIn)
  have full: "length (tx_BtcEncode WitnessEncoding msg) = (if HasWitness msg then
      tx_baseSize msg + 2 + sum_list (map (\<lambda>ti. witness_SerializeSize (witItems ti)) (tx_TxIn msg))
      else tx_baseSize msg)"
    using assms
    by (simp add: tx_BtcEncode_alt writeTxBody_def tx_baseSize_def foldl_plus length_concat_map
        sum_writeTxIn witessMarkerBytes_def)
  show "length (tx_SerializeNoWitness msg) = tx_SerializeSizeStripped msg"
    by (simp add: tx_SerializeNoWitness_def tx_SerializeSizeStripped_def base)
  show "length (tx_Serialize msg) = tx_SerializeSize msg"
    by (simp add: tx_Serialize_def tx_SerializeSize_def full foldl_plus)
qed

section \<open>Script locations\<close>

lemma length_pkScriptLocsFrom [simp]: "length (pkScriptLocsFrom n tos) = length tos"
  by (induction n tos rule: pkScriptLocsFrom.induct) (simp_all add: Let_def)

lemma subslice_append: "length pre = m \<Longrightarrow> subslice (pre @ s @ suf) m (length s) = s"
  by (auto simp: subslice_def)

lemma pkScriptLocsFrom_slice:
  "length pre = n \<Longrightarrow> i < length tos \<Longrightarrow>
     subslice (pre @ concat (map WriteTxOut tos) @ suf) (pkScriptLocsFrom n tos ! i)
       (length (PkScript (tos ! i))) = PkScript (tos ! i)"
proof (induction n tos arbitrary: pre i rule: pkScriptLocsFrom.induct)
  case (1 n)
  then show ?case by simp
next
  case (2 n to' tos)
  let ?m = "n + (8 + VarIntSerializeSize (of_nat (length (PkScript to'))))"
  let ?hd = "PutUint64 LittleEndian (Value to') @ WriteVarInt (of_nat (length (PkScript to')))"
  show ?case
  proof (cases i)
    case 0
    have "pre @ concat (map WriteTxOut (to' # tos)) @ suf
        = (pre @ ?hd) @ PkScript to' @ concat (map WriteTxOut tos) @ suf"
      by (simp add: WriteTxOut_def WriteVarBytes_def)
    moreover have "length (pre @ ?hd) = ?m" using "2.prems" by simp
    ultimately have "subslice (pre @ concat (map WriteTxOut (to' # tos)) @ suf) ?m
        (length (PkScript to')) = PkScript to'"
      by (simp only: subslice_append)
    with 0 show ?thesis by (simp add: Let_def)
  next
    case (Suc j)
    have "length (pre @ WriteTxOut to') = ?m + length (PkScript to')"
      using "2.prems" by (simp add: txout_SerializeSize_def)
    from "2.IH" [OF refl this, of j] "2.prems" Suc show ?thesis
      by (simp add: Let_def)
  qed
qed

text \<open>The offset \<open>PkScriptLocs\<close> starts from, given how many marker bytes it counted.\<close>

lemma PkScriptLocs_slice:
  assumes ins: "list_all ok_TxIn (tx_TxIn msg)" and i: "i < length (tx_TxOut msg)"
    and d: "d + (if tx_TxIn msg \<noteq> [] \<and> Witness (hd (tx_TxIn msg)) \<noteq> None then 2 else 0)
              = (if HasWitness msg then 2 else 0)"
  shows "subslice (tx_Serialize msg) (PkScriptLocs msg ! i + d) (length (PkScript (tx_TxOut msg ! i)))
           = PkScript (tx_TxOut msg ! i)"
proof -
  define pre where "pre = PutUint32 LittleEndian (tx_Version msg)
     @ (if HasWitness msg then witessMarkerBytes else [])
     @ WriteVarInt (of_nat (length (tx_TxIn msg))) @ concat (map writeTxIn (tx_TxIn msg))
     @ WriteVarInt (of_nat (length (tx_TxOut msg)))"
  define suf where "suf = (if HasWitness msg
       then concat (map (\<lambda>ti. writeTxWitness (witItems ti)) (tx_TxIn msg)) else [])
     @ PutUint32 LittleEndian (tx_LockTime msg)"
  have ser: "tx_Serialize msg = pre @ concat (map WriteTxOut (tx_TxOut msg)) @ suf"
    by (simp add: tx_Serialize_def tx_BtcEncode_alt writeTxBody_def pre_def suf_def)
  have shift: "pkScriptLocsFrom n tos ! i + d = pkScriptLocsFrom (n + d) tos ! i"
    if "i < length tos" for n tos i
    using that
    by (induction n tos arbitrary: i rule: pkScriptLocsFrom.induct)
      (auto simp: Let_def nth_Cons algebra_simps split: nat.splits)
  define m where "m = 4 + VarIntSerializeSize (of_nat (length (tx_TxIn msg)))
     + VarIntSerializeSize (of_nat (length (tx_TxOut msg)))
     + (if tx_TxIn msg \<noteq> [] \<and> Witness (hd (tx_TxIn msg)) \<noteq> None then 2 else 0)
     + sum_list (map txin_SerializeSize (tx_TxIn msg))"
  have "PkScriptLocs msg = pkScriptLocsFrom m (tx_TxOut msg)"
    using i by (auto simp: PkScriptLocs_def m_def foldl_plus Let_def algebra_simps)
  then have "PkScriptLocs msg ! i + d = pkScriptLocsFrom (m + d) (tx_TxOut msg) ! i"
    using shift [OF i, of m] by simp
  moreover have "length pre = m + d"
    using d sum_writeTxIn [OF ins]
    by (auto simp: pre_def m_def witessMarkerBytes_def length_concat_map split: if_splits)
  ultimately show ?thesis using pkScriptLocsFrom_slice [OF _ i, of pre "m + d" suf] ser by simp
qed

section \<open>Copies\<close>

lemma witItems_CopyTxIn [simp]: "witItems (CopyTxIn ti) = witItems ti"
  by (simp add: CopyTxIn_def witItems_def)

lemma writeTxIn_CopyTxIn [simp]: "writeTxIn (CopyTxIn ti) = writeTxIn ti"
  by (simp add: CopyTxIn_def writeTxIn_def)

lemma WriteTxOut_CopyTxOut [simp]: "WriteTxOut (CopyTxOut t) = WriteTxOut t"
  by (simp add: CopyTxOut_def WriteTxOut_def)

lemma HasWitness_tx_Copy [simp]: "HasWitness (tx_Copy msg) = HasWitness msg"
  by (simp add: HasWitness_def tx_Copy_def list_ex_iff)

lemma tx_Copy_fields [simp]:
  "tx_Version (tx_Copy msg) = tx_Version msg" "tx_LockTime (tx_Copy msg) = tx_LockTime msg"
  "tx_TxIn (tx_Copy msg) = map CopyTxIn (tx_TxIn msg)"
  "tx_TxOut (tx_Copy msg) = map CopyTxOut (tx_TxOut msg)"
  by (simp_all add: tx_Copy_def)

lemma tx_BtcEncode_Copy: "tx_BtcEncode enc (tx_Copy msg) = tx_BtcEncode enc msg"
  by (simp add: tx_BtcEncode_alt writeTxBody_def comp_def)

section \<open>Properties\<close>

text \<open>A transaction without witness data survives the base encoding, exactly: decoding is
  the inverse of encoding on every transaction within the message limits, what follows is left in
  the reader, and no other byte string decodes to it.\<close>
theorem tx_base_roundtrip:
  "tx_BtcDecode BaseEncoding bs = Inr (msg, rest) \<longleftrightarrow>
     ok_tx_base msg \<and> bs = tx_BtcEncode BaseEncoding msg @ rest"
  by (rule txbase.decode_iff)

text \<open>C34: the segregated-witness encoding (\<open>Serialize\<close> then \<open>Deserialize\<close>) gives back every
  transaction that has an input and whose witnesses are allocated on all inputs or on none.\<close>
theorem tx_witness_roundtrip:
  "ok_tx_witness msg \<Longrightarrow> tx_Deserialize (tx_Serialize msg @ rest) = Inr (msg, rest)"
  by (simp add: tx_Deserialize_def tx_Serialize_def txwit.decode_encode)

definition sampleTxIn :: "bytes list option \<Rightarrow> TxIn" where
  "sampleTxIn w = \<lparr>PreviousOutPoint = \<lparr>op_Hash = replicate 32 7, op_Index = 1\<rparr>,
     SignatureScript = [0x51], Witness = w, Sequence = 0xffffffff\<rparr>"

definition sampleTx :: "bytes list option \<Rightarrow> bytes list option \<Rightarrow> MsgTx" where
  "sampleTx w1 w2 = \<lparr>tx_Version = 1, tx_TxIn = [sampleTxIn w1, sampleTxIn w2],
     tx_TxOut = [\<lparr>Value = 5000, PkScript = [0x51, 0x52]\<rparr>], tx_LockTime = 0\<rparr>"

lemmas sample_simps = sampleTx_def sampleTxIn_def HasWitness_def witItems_def ok_tx_parts_def
  ok_TxIn_def ok_TxOut_def ok_OutPoint_def ok_witness_def HashSize_def maxTxInPerMessage_def
  maxTxOutPerMessage_def MaxMessagePayload_def minTxInPayload_def MinTxOutPayload_def
  maxWitnessItemsPerInput_def maxWitnessItemSize_def

theorem tx_witness_roundtrip_witness:
  "tx_Deserialize (tx_Serialize (sampleTx (Some []) (Some [[1, 2]]))) =
     Inr (sampleTx (Some []) (Some [[1, 2]]), [])"
proof -
  have "ok_tx_witness (sampleTx (Some []) (Some [[1, 2]]))"
    by (simp add: ok_tx_witness_def sample_simps)
  from tx_witness_roundtrip [OF this, of "[]"] show ?thesis by simp
qed

text \<open>C35: the sizes computed without encoding are the lengths of the two encodings.\<close>
theorem tx_size_exact:
  "list_all ok_TxIn (tx_TxIn msg) \<Longrightarrow>
     length (tx_Serialize msg) = tx_SerializeSize msg
     \<and> length (tx_SerializeNoWitness msg) = tx_SerializeSizeStripped msg"
  by (simp add: tx_sizes)

theorem tx_size_exact_witness:
  "length (tx_Serialize (sampleTx None (Some [[1, 2]]))) = tx_SerializeSize (sampleTx None (Some [[1, 2]]))"
proof -
  have "list_all ok_TxIn (tx_TxIn (sampleTx None (Some [[1, 2]])))"
    by (simp add: sample_simps)
  from tx_size_exact [OF this] show ?thesis by simp
qed

text \<open>\<open>PkScriptLocs\<close> points at the output scripts inside the serialized transaction
  whenever the first input carries an allocated witness exactly if the transaction has one.\<close>
theorem PkScriptLocs_correct:
  assumes "list_all ok_TxIn (tx_TxIn msg)" and "i < length (tx_TxOut msg)"
    and "(tx_TxIn msg \<noteq> [] \<and> Witness (hd (tx_TxIn msg)) \<noteq> None) \<longleftrightarrow> HasWitness msg"
  shows "subslice (tx_Serialize msg) (PkScriptLocs msg ! i) (length (PkScript (tx_TxOut msg ! i)))
           = PkScript (tx_TxOut msg ! i)"
  using PkScriptLocs_slice [OF assms(1,2), of 0] assms(3) by simp

theorem PkScriptLocs_correct_witness:
  "subslice (tx_Serialize (sampleTx None None)) (PkScriptLocs (sampleTx None None) ! 0) 2 = [0x51, 0x52]"
proof -
  have "subslice (tx_Serialize (sampleTx None None)) (PkScriptLocs (sampleTx None None) ! 0)
      (length (PkScript (tx_TxOut (sampleTx None None) ! 0))) = PkScript (tx_TxOut (sampleTx None None) ! 0)"
    by (rule PkScriptLocs_correct) (simp_all add: sample_simps)
  then show ?thesis by (simp add: sampleTx_def numeral_2_eq_2)
qed

text \<open>On a transaction whose first input has a nil witness while another input has one,
  every offset of \<open>PkScriptLocs\<close> is two bytes short: the script starts two bytes later, past the
  marker and flag bytes that the function did not count.\<close>
theorem PkScriptLocs_short_by_marker:
  assumes "list_all ok_TxIn (tx_TxIn msg)" and "i < length (tx_TxOut msg)"
    and "HasWitness msg" and "Witness (hd (tx_TxIn msg)) = None"
  shows "subslice (tx_Serialize msg) (PkScriptLocs msg ! i + 2) (length (PkScript (tx_TxOut msg ! i)))
           = PkScript (tx_TxOut msg ! i)"
  using PkScriptLocs_slice [OF assms(1,2), of 2] assms(3,4) by simp

theorem PkScriptLocs_short_by_marker_witness:
  "subslice (tx_Serialize (sampleTx None (Some [[1]]))) (PkScriptLocs (sampleTx None (Some [[1]])) ! 0 + 2) 2
     = [0x51, 0x52]
   \<and> subslice (tx_Serialize (sampleTx None (Some [[1]]))) (PkScriptLocs (sampleTx None (Some [[1]])) ! 0) 2
     = [0, 2]"
proof -
  have wrong: "subslice (tx_Serialize (sampleTx None (Some [[1]])))
      (PkScriptLocs (sampleTx None (Some [[1]])) ! 0) 2 = [0, 2]"
    by code_simp
  have "subslice (tx_Serialize (sampleTx None (Some [[1]])))
      (PkScriptLocs (sampleTx None (Some [[1]])) ! 0 + 2)
      (length (PkScript (tx_TxOut (sampleTx None (Some [[1]])) ! 0)))
      = PkScript (tx_TxOut (sampleTx None (Some [[1]])) ! 0)"
    by (rule PkScriptLocs_short_by_marker) (simp_all add: sample_simps)
  then have "subslice (tx_Serialize (sampleTx None (Some [[1]])))
      (PkScriptLocs (sampleTx None (Some [[1]])) ! 0 + 2) 2 = [0x51, 0x52]"
    by (simp add: sampleTx_def numeral_2_eq_2)
  with wrong show ?thesis by blast
qed

text \<open>A deep copy has the same encodings, hence the same transaction and witness hashes,
  whatever the hash function; and the transaction hash does not depend on witness data.\<close>
theorem tx_copy_hashes:
  "TxHash sha (tx_Copy msg) = TxHash sha msg \<and> WitnessHash sha (tx_Copy msg) = WitnessHash sha msg
   \<and> TxHash sha (msg\<lparr>tx_TxIn := map (\<lambda>ti. ti\<lparr>Witness := w ti\<rparr>) (tx_TxIn msg)\<rparr>) = TxHash sha msg"
  by (simp add: TxHash_def WitnessHash_def tx_Serialize_def tx_SerializeNoWitness_def
      tx_BtcEncode_Copy) (simp add: tx_BtcEncode_def comp_def)

end
