(* ===== verification/ScriptSigHash.thy ===== *)
theory ScriptSigHash
  imports ScriptParse WireTx
begin

text \<open>
  Signature hashes: calcSignatureHash and calcWitnessSignatureHash of script.go with the partial
  hashes of hashcache.go. SHA-256 is the parameter \<open>sha\<close>; nothing is assumed about it. The
  results say what a signature commits to: never to signature scripts or witness data, and for
  the restricted hash types not to the inputs or outputs they leave open.
\<close>

section \<open>Definitions\<close>

type_synonym SigHashType = u32

definition SigHashAll :: SigHashType where "SigHashAll = 0x1"
definition SigHashNone :: SigHashType where "SigHashNone = 0x2"
definition SigHashSingle :: SigHashType where "SigHashSingle = 0x3"
definition SigHashAnyOneCanPay :: SigHashType where "SigHashAnyOneCanPay = 0x80"
definition sigHashMask :: SigHashType where "sigHashMask = 0x1f"

lemmas sighash_consts = SigHashAll_def SigHashNone_def SigHashSingle_def SigHashAnyOneCanPay_def
  sigHashMask_def

record TxSigHashes =
  HashPrevOuts :: bytes
  HashSequence :: bytes
  HashOutputs :: bytes

definition zeroHash :: bytes where "zeroHash = replicate HashSize 0"

definition calcHashPrevOuts :: "(bytes \<Rightarrow> bytes) \<Rightarrow> MsgTx \<Rightarrow> bytes" where
  "calcHashPrevOuts sha tx =
     DoubleHashH sha (concat (map (\<lambda>ti. op_Hash (PreviousOutPoint ti)
       @ PutUint32 LittleEndian (op_Index (PreviousOutPoint ti))) (tx_TxIn tx)))"

definition calcHashSequence :: "(bytes \<Rightarrow> bytes) \<Rightarrow> MsgTx \<Rightarrow> bytes" where
  "calcHashSequence sha tx =
     DoubleHashH sha (concat (map (\<lambda>ti. PutUint32 LittleEndian (Sequence ti)) (tx_TxIn tx)))"

definition calcHashOutputs :: "(bytes \<Rightarrow> bytes) \<Rightarrow> MsgTx \<Rightarrow> bytes" where
  "calcHashOutputs sha tx = DoubleHashH sha (concat (map WriteTxOut (tx_TxOut tx)))"

definition NewTxSigHashes :: "(bytes \<Rightarrow> bytes) \<Rightarrow> MsgTx \<Rightarrow> TxSigHashes" where
  "NewTxSigHashes sha tx =
     \<lparr>HashPrevOuts = calcHashPrevOuts sha tx, HashSequence = calcHashSequence sha tx,
      HashOutputs = calcHashOutputs sha tx\<rparr>"

text \<open>\<open>rawScript, \_ := unparseScript(script)\<close>\<close>

definition unparseOrNil :: "parsedOpcode list \<Rightarrow> bytes" where
  "unparseOrNil script = (case unparseScript script of Inr b \<Rightarrow> b | Inl _ \<Rightarrow> [])"

definition calcWitnessSignatureHash ::
  "(bytes \<Rightarrow> bytes) \<Rightarrow> parsedOpcode list \<Rightarrow> TxSigHashes \<Rightarrow> SigHashType \<Rightarrow> MsgTx \<Rightarrow> nat \<Rightarrow> i64
    \<Rightarrow> ErrorCode + bytes" where
  "calcWitnessSignatureHash sha subScript sigHashes hashType tx idx amt =
     (if int idx > int (length (tx_TxIn tx)) - 1 then Inl PlainError
      else
        let ti = tx_TxIn tx ! idx;
            anyoneOff = (hashType AND SigHashAnyOneCanPay = 0);
            prev = (if anyoneOff then HashPrevOuts sigHashes else zeroHash);
            seqs = (if anyoneOff \<and> hashType AND sigHashMask \<noteq> SigHashSingle
                       \<and> hashType AND sigHashMask \<noteq> SigHashNone
                    then HashSequence sigHashes else zeroHash);
            code = (if isWitnessPubKeyHash subScript
                    then [0x19, OP_DUP, OP_HASH160, OP_DATA_20] @ pop_data (subScript ! 1)
                         @ [OP_EQUALVERIFY, OP_CHECKSIG]
                    else WriteVarBytes (unparseOrNil subScript));
            outs = (if hashType AND SigHashSingle \<noteq> SigHashSingle
                       \<and> hashType AND SigHashNone \<noteq> SigHashNone
                    then HashOutputs sigHashes
                    else if hashType AND sigHashMask = SigHashSingle \<and> idx < length (tx_TxOut tx)
                    then DoubleHashH sha (WriteTxOut (tx_TxOut tx ! idx))
                    else zeroHash)
        in Inr (DoubleHashH sha
             (PutUint32 LittleEndian (tx_Version tx) @ prev @ seqs
              @ op_Hash (PreviousOutPoint ti)
              @ PutUint32 LittleEndian (op_Index (PreviousOutPoint ti))
              @ code @ PutUint64 LittleEndian amt @ PutUint32 LittleEndian (Sequence ti)
              @ outs @ PutUint32 LittleEndian (tx_LockTime tx)
              @ PutUint32 LittleEndian hashType)))"

definition CalcWitnessSigHash ::
  "(bytes \<Rightarrow> bytes) \<Rightarrow> bytes \<Rightarrow> TxSigHashes \<Rightarrow> SigHashType \<Rightarrow> MsgTx \<Rightarrow> nat \<Rightarrow> i64 \<Rightarrow> ErrorCode + bytes" where
  "CalcWitnessSigHash sha script sigHashes hType tx idx amt =
     (case parseOrErr script of
        Inl _ \<Rightarrow> Inl PlainError
      | Inr parsedScript \<Rightarrow> calcWitnessSignatureHash sha parsedScript sigHashes hType tx idx amt)"

text \<open>\<open>shallowCopyTx\<close>: fresh input and output structures, so the changes below stay in the copy.\<close>

definition shallowCopyTx :: "MsgTx \<Rightarrow> MsgTx" where
  "shallowCopyTx tx = \<lparr>tx_Version = tx_Version tx, tx_TxIn = map (\<lambda>ti. ti) (tx_TxIn tx),
     tx_TxOut = map (\<lambda>to'. to') (tx_TxOut tx), tx_LockTime = tx_LockTime tx\<rparr>"

text \<open>\<open>for i := range xs \{ ... xs[i] ... \}\<close>\<close>

definition mapIdx :: "(nat \<Rightarrow> 'a \<Rightarrow> 'b) \<Rightarrow> 'a list \<Rightarrow> 'b list" where
  "mapIdx f xs = map (\<lambda>(i, x). f i x) (enumerate 0 xs)"

definition setSigScripts :: "nat \<Rightarrow> bytes \<Rightarrow> TxIn list \<Rightarrow> TxIn list" where
  "setSigScripts idx sigScript =
     mapIdx (\<lambda>i ti. if i = idx then ti\<lparr>SignatureScript := sigScript\<rparr> else ti\<lparr>SignatureScript := []\<rparr>)"

definition zeroSequences :: "nat \<Rightarrow> TxIn list \<Rightarrow> TxIn list" where
  "zeroSequences idx = mapIdx (\<lambda>i ti. if i \<noteq> idx then ti\<lparr>Sequence := 0\<rparr> else ti)"

text \<open>
  The copy of the transaction that \<open>calcSignatureHash\<close> serializes; \<open>None\<close> is the panic of
  \<open>txCopy.TxIn[idx : idx+1]\<close> out of range.
\<close>

definition signedCopy :: "parsedOpcode list \<Rightarrow> SigHashType \<Rightarrow> MsgTx \<Rightarrow> nat \<Rightarrow> MsgTx option" where
  "signedCopy script hashType tx idx =
     (let script' = removeOpcode script OP_CODESEPARATOR;
          copy1 = shallowCopyTx tx;
          copy2 = copy1\<lparr>tx_TxIn := setSigScripts idx (unparseOrNil script') (tx_TxIn copy1)\<rparr>;
          copy3 = (if hashType AND sigHashMask = SigHashNone
                   then copy2\<lparr>tx_TxOut := [], tx_TxIn := zeroSequences idx (tx_TxIn copy2)\<rparr>
                   else if hashType AND sigHashMask = SigHashSingle
                   then copy2\<lparr>tx_TxOut :=
                                 mapIdx (\<lambda>i to'. if i < idx
                                                then to'\<lparr>Value := -1, PkScript := []\<rparr> else to')
                                   (take (idx + 1) (tx_TxOut copy2)),
                               tx_TxIn := zeroSequences idx (tx_TxIn copy2)\<rparr>
                   else copy2)
      in if hashType AND SigHashAnyOneCanPay \<noteq> 0
         then if idx \<ge> length (tx_TxIn copy3) then None
              else Some (copy3\<lparr>tx_TxIn := take 1 (drop idx (tx_TxIn copy3))\<rparr>)
         else Some copy3)"

definition calcSignatureHash ::
  "(bytes \<Rightarrow> bytes) \<Rightarrow> parsedOpcode list \<Rightarrow> SigHashType \<Rightarrow> MsgTx \<Rightarrow> nat \<Rightarrow> bytes option" where
  "calcSignatureHash sha script hashType tx idx =
     (if hashType AND sigHashMask = SigHashSingle \<and> idx \<ge> length (tx_TxOut tx)
      then Some (zeroHash[0 := 1])
      else map_option
             (\<lambda>txCopy. DoubleHashH sha (tx_SerializeNoWitness txCopy @ PutUint32 LittleEndian hashType))
             (signedCopy script hashType tx idx))"

definition CalcSignatureHash ::
  "(bytes \<Rightarrow> bytes) \<Rightarrow> bytes \<Rightarrow> SigHashType \<Rightarrow> MsgTx \<Rightarrow> nat \<Rightarrow> ErrorCode + bytes option" where
  "CalcSignatureHash sha script hashType tx idx =
     (case parseOrErr script of
        Inl _ \<Rightarrow> Inl PlainError
      | Inr parsedScript \<Rightarrow> Inr (calcSignatureHash sha parsedScript hashType tx idx))"

text \<open>\<open>HashCache\<close>: the partial hashes of transactions by their id.\<close>

type_synonym HashCache = "bytes \<rightharpoonup> TxSigHashes"

definition NewHashCache :: HashCache where
  "NewHashCache = Map.empty"

definition AddSigHashes :: "(bytes \<Rightarrow> bytes) \<Rightarrow> HashCache \<Rightarrow> MsgTx \<Rightarrow> HashCache" where
  "AddSigHashes sha h tx = h(TxHash sha tx \<mapsto> NewTxSigHashes sha tx)"

definition ContainsHashes :: "HashCache \<Rightarrow> bytes \<Rightarrow> bool" where
  "ContainsHashes h txid = (h txid \<noteq> None)"

definition GetSigHashes :: "HashCache \<Rightarrow> bytes \<Rightarrow> TxSigHashes option" where
  "GetSigHashes h txid = h txid"

definition PurgeSigHashes :: "HashCache \<Rightarrow> bytes \<Rightarrow> HashCache" where
  "PurgeSigHashes h txid = h(txid := None)"

section \<open>What a signature commits to\<close>

text \<open>The transaction without the data that signatures are put into.\<close>

definition unsigned_txin :: "TxIn \<Rightarrow> TxIn" where
  "unsigned_txin ti = ti\<lparr>SignatureScript := [], Witness := None\<rparr>"

definition unsigned :: "MsgTx \<Rightarrow> MsgTx" where
  "unsigned tx = tx\<lparr>tx_TxIn := map unsigned_txin (tx_TxIn tx)\<rparr>"

lemma length_mapIdx [simp]: "length (mapIdx f xs) = length xs"
  by (simp add: mapIdx_def)

lemma nth_mapIdx [simp]: "i < length xs \<Longrightarrow> mapIdx f xs ! i = f i (xs ! i)"
  by (simp add: mapIdx_def nth_enumerate_eq)

lemma map_mapIdx: "map h (mapIdx f xs) = mapIdx (\<lambda>i x. h (f i x)) xs"
  by (rule nth_equalityI) simp_all

lemma mapIdx_map: "mapIdx f (map g xs) = mapIdx (\<lambda>i x. f i (g x)) xs"
  by (rule nth_equalityI) simp_all

text \<open>The serialization without witness data does not see the witnesses.\<close>

definition unwit :: "MsgTx \<Rightarrow> MsgTx" where
  "unwit tx = tx\<lparr>tx_TxIn := map (\<lambda>ti. ti\<lparr>Witness := None\<rparr>) (tx_TxIn tx)\<rparr>"

lemma writeTxIn_unwit: "writeTxIn (ti\<lparr>Witness := w\<rparr>) = writeTxIn ti"
  by (simp add: writeTxIn_def)

lemma serialize_unwit: "tx_SerializeNoWitness (unwit tx) = tx_SerializeNoWitness tx"
  by (simp add: tx_SerializeNoWitness_def tx_BtcEncode_def unwit_def writeTxIn_unwit comp_def)

lemma setSigScripts_unsigned:
  "map (\<lambda>ti. ti\<lparr>Witness := None\<rparr>) (setSigScripts idx s (map unsigned_txin ins)) =
   map (\<lambda>ti. ti\<lparr>Witness := None\<rparr>) (setSigScripts idx s ins)"
  by (rule nth_equalityI) (auto simp: setSigScripts_def unsigned_txin_def)

lemma zeroSequences_unwit:
  "map (\<lambda>ti. ti\<lparr>Witness := None\<rparr>) (zeroSequences idx ins) =
   zeroSequences idx (map (\<lambda>ti. ti\<lparr>Witness := None\<rparr>) ins)"
  by (rule nth_equalityI) (auto simp: zeroSequences_def)

lemma lengths_sig [simp]:
  "length (setSigScripts idx s ins) = length ins" "length (zeroSequences idx ins) = length ins"
  by (simp_all add: setSigScripts_def zeroSequences_def)

lemma signedCopy_unsigned:
  "map_option unwit (signedCopy script hashType (unsigned tx) idx)
   = map_option unwit (signedCopy script hashType tx idx)"
  by (simp add: signedCopy_def Let_def shallowCopyTx_def unsigned_def unwit_def take_map[symmetric]
      drop_map[symmetric] zeroSequences_unwit setSigScripts_unsigned)

lemma calcSignatureHash_unsigned:
  "calcSignatureHash sha script hashType (unsigned tx) idx = calcSignatureHash sha script hashType tx idx"
proof -
  have *: "map_option (\<lambda>c. DoubleHashH sha (tx_SerializeNoWitness c @ PutUint32 LittleEndian hashType)) t
      = map_option (\<lambda>c. DoubleHashH sha (tx_SerializeNoWitness c @ PutUint32 LittleEndian hashType))
          (map_option unwit t)" for t
    by (cases t) (simp_all add: serialize_unwit)
  show ?thesis
    unfolding calcSignatureHash_def *[of "signedCopy script hashType tx idx"]
      *[of "signedCopy script hashType (unsigned tx) idx"] signedCopy_unsigned
    by (auto simp: unsigned_def)
qed

lemma calcWitnessSignatureHash_unsigned:
  "calcWitnessSignatureHash sha script (NewTxSigHashes sha (unsigned tx)) hashType (unsigned tx) idx amt
   = calcWitnessSignatureHash sha script (NewTxSigHashes sha tx) hashType tx idx amt"
  by (simp add: calcWitnessSignatureHash_def NewTxSigHashes_def calcHashPrevOuts_def calcHashSequence_def
      calcHashOutputs_def unsigned_def unsigned_txin_def comp_def Let_def)

text \<open>C30: neither signature hash depends on any signature script or witness of the transaction: two
  transactions that agree on everything else have the same hash to sign, for every hash type,
  script, input and amount.\<close>

theorem sighash_ignores_signatures:
  assumes "unsigned tx = unsigned tx'"
  shows "calcSignatureHash sha script hashType tx idx = calcSignatureHash sha script hashType tx' idx
    \<and> calcWitnessSignatureHash sha script (NewTxSigHashes sha tx) hashType tx idx amt
      = calcWitnessSignatureHash sha script (NewTxSigHashes sha tx') hashType tx' idx amt"
  using calcSignatureHash_unsigned[of sha script hashType tx idx]
    calcSignatureHash_unsigned[of sha script hashType tx' idx]
    calcWitnessSignatureHash_unsigned[of sha script tx hashType idx amt]
    calcWitnessSignatureHash_unsigned[of sha script tx' hashType idx amt] assms
  by simp

text \<open>A function with 32-byte results, for evaluating the model.\<close>

definition toyHash :: "bytes \<Rightarrow> bytes" where
  "toyHash b = take 32 (b @ replicate 32 0)"

theorem sighash_ignores_signatures_witness:
  "calcSignatureHash toyHash [] SigHashAll (sampleTx None None) 0
   = calcSignatureHash toyHash [] SigHashAll (sampleTx (Some [[1]]) None) 0"
  using sighash_ignores_signatures[of "sampleTx None None" "sampleTx (Some [[1]]) None"
      toyHash "[]" SigHashAll 0]
  by (simp add: unsigned_def unsigned_txin_def sampleTx_def sampleTxIn_def)

section \<open>Restricted hash types\<close>

text \<open>The two transactions have the same version, lock time and input to sign.\<close>

definition sameInput :: "nat \<Rightarrow> MsgTx \<Rightarrow> MsgTx \<Rightarrow> bool" where
  "sameInput idx tx tx' \<longleftrightarrow> idx < length (tx_TxIn tx) \<and> idx < length (tx_TxIn tx')
     \<and> tx_TxIn tx ! idx = tx_TxIn tx' ! idx
     \<and> tx_Version tx = tx_Version tx' \<and> tx_LockTime tx = tx_LockTime tx'"

text \<open>The outputs a signature covers by its mode: none, the one with the index of the input, or all of them.\<close>

definition signedOutputs :: "SigHashType \<Rightarrow> nat \<Rightarrow> MsgTx \<Rightarrow> TxOut list" where
  "signedOutputs hashType idx tx =
     (if hashType AND sigHashMask = SigHashNone then []
      else if hashType AND sigHashMask = SigHashSingle
      then if idx < length (tx_TxOut tx) then [tx_TxOut tx ! idx] else []
      else tx_TxOut tx)"

lemma take1_drop: "idx < length xs \<Longrightarrow> take (Suc 0) (drop idx xs) = [xs ! idx]"
  by (cases "drop idx xs") (auto simp: nth_via_drop)

lemma blanked_outputs:
  fixes outs outs' :: "TxOut list"
  assumes "idx < length outs" and "idx < length outs'" and "outs ! idx = outs' ! idx"
  shows "mapIdx (\<lambda>i to'. if i < idx then to'\<lparr>Value := -1, PkScript := []\<rparr> else to') (take (Suc idx) outs)
       = mapIdx (\<lambda>i to'. if i < idx then to'\<lparr>Value := -1, PkScript := []\<rparr> else to') (take (Suc idx) outs')"
  using assms by (intro nth_equalityI) (auto simp: less_Suc_eq intro!: TxOut.equality)

text \<open>C31: for every hash type with the \<open>ANYONECANPAY\<close> bit, whatever its mode and its other bits, a signature of an input
  that is not a witness program commits to nothing but the
  version, the lock time, its own input and the outputs of its mode: two transactions that agree on these have the same hash, whatever their
  other inputs and outputs are. The outputs of the mode are none for \<open>NONE\<close>, the output with the index of the input for \<open>SINGLE\<close> (none when
  there is no such output), and all of them for every other mode.\<close>

theorem anyonecanpay_commitment:
  assumes "hashType AND SigHashAnyOneCanPay \<noteq> 0" and "sameInput idx tx tx'"
    and "signedOutputs hashType idx tx = signedOutputs hashType idx tx'"
  shows "calcSignatureHash sha script hashType tx idx = calcSignatureHash sha script hashType tx' idx"
proof -
  have ins: "idx < length (tx_TxIn tx)" "idx < length (tx_TxIn tx')" "tx_TxIn tx ! idx = tx_TxIn tx' ! idx"
    "tx_Version tx = tx_Version tx'" "tx_LockTime tx = tx_LockTime tx'"
    using assms(2) by (simp_all add: sameInput_def)
  note unfold = calcSignatureHash_def signedCopy_def Let_def shallowCopyTx_def take1_drop setSigScripts_def zeroSequences_def
  consider (none) "hashType AND sigHashMask = SigHashNone" | (single) "hashType AND sigHashMask = SigHashSingle"
    | (all) "hashType AND sigHashMask \<noteq> SigHashNone" "hashType AND sigHashMask \<noteq> SigHashSingle" by blast
  then show ?thesis
  proof cases
    case none
    then show ?thesis using assms(1) ins by (simp add: unfold sighash_consts)
  next
    case single
    then have "hashType AND sigHashMask \<noteq> SigHashNone" by (simp add: sighash_consts)
    with single have "if idx < length (tx_TxOut tx)
        then idx < length (tx_TxOut tx') \<and> tx_TxOut tx ! idx = tx_TxOut tx' ! idx else \<not> idx < length (tx_TxOut tx')"
      using assms(3) by (simp add: signedOutputs_def split: if_splits)
    with single assms(1) ins show ?thesis
      using blanked_outputs[of idx "tx_TxOut tx" "tx_TxOut tx'"] by (simp add: unfold sighash_consts split: if_splits)
  next
    case all
    then have "tx_TxOut tx = tx_TxOut tx'" using assms(3) by (simp add: signedOutputs_def)
    with all assms(1) ins show ?thesis by (simp add: unfold)
  qed
qed

text \<open>With \<open>SINGLE | ANYONECANPAY\<close> another input can be dropped and an output added.\<close>

theorem anyonecanpay_commitment_witness:
  "calcSignatureHash toyHash [] (SigHashSingle OR SigHashAnyOneCanPay) (sampleTx None None) 0
   = calcSignatureHash toyHash [] (SigHashSingle OR SigHashAnyOneCanPay)
       ((sampleTx None None)\<lparr>tx_TxIn := [sampleTxIn None], tx_TxOut := tx_TxOut (sampleTx None None) @ [\<lparr>Value = 5, PkScript = []\<rparr>]\<rparr>) 0"
  using anyonecanpay_commitment[of "SigHashSingle OR SigHashAnyOneCanPay" 0 "sampleTx None None"
      "(sampleTx None None)\<lparr>tx_TxIn := [sampleTxIn None], tx_TxOut := tx_TxOut (sampleTx None None) @ [\<lparr>Value = 5, PkScript = []\<rparr>]\<rparr>"
      toyHash "[]"]
  by (simp add: sameInput_def signedOutputs_def sampleTx_def sighash_consts)

text \<open>C39: for a segwit input the outputs are left out of the hash not only when the mode, the low five bits of
  the hash type, is \<open>NONE\<close> or \<open>SINGLE\<close>, but for every hash type with the second bit set (6, 7, 10, ...):
  such a signature stays valid when the outputs are replaced.\<close>

theorem witness_sighash_drops_outputs:
  assumes "hashType AND SigHashNone = SigHashNone" and "hashType AND sigHashMask \<noteq> SigHashSingle"
    and "tx_TxIn tx = tx_TxIn tx'" "tx_Version tx = tx_Version tx'" "tx_LockTime tx = tx_LockTime tx'"
  shows "calcWitnessSignatureHash sha script (NewTxSigHashes sha tx) hashType tx idx amt
       = calcWitnessSignatureHash sha script (NewTxSigHashes sha tx') hashType tx' idx amt"
  using assms
  by (simp add: calcWitnessSignatureHash_def NewTxSigHashes_def calcHashPrevOuts_def
      calcHashSequence_def Let_def)

theorem witness_sighash_drops_outputs_witness:
  "0x06 AND sigHashMask \<noteq> SigHashNone \<and> 0x06 AND sigHashMask \<noteq> SigHashSingle
   \<and> calcWitnessSignatureHash toyHash [] (NewTxSigHashes toyHash (sampleTx None None)) 0x06 (sampleTx None None) 0 7
   = calcWitnessSignatureHash toyHash []
       (NewTxSigHashes toyHash ((sampleTx None None)\<lparr>tx_TxOut := []\<rparr>)) 0x06
       ((sampleTx None None)\<lparr>tx_TxOut := []\<rparr>) 0 7"
  using witness_sighash_drops_outputs[of "0x06" "sampleTx None None"
      "(sampleTx None None)\<lparr>tx_TxOut := []\<rparr>" toyHash "[]" 0 7]
  by (simp add: sighash_consts)

text \<open>Looking up partial hashes after they were added and after they were purged.\<close>

lemma hash_cache_laws:
  "GetSigHashes (AddSigHashes sha h tx) (TxHash sha tx) = Some (NewTxSigHashes sha tx)"
  "txid \<noteq> TxHash sha tx \<Longrightarrow> GetSigHashes (AddSigHashes sha h tx) txid = GetSigHashes h txid"
  "GetSigHashes (PurgeSigHashes h txid) txid = None"
  "ContainsHashes h txid \<longleftrightarrow> GetSigHashes h txid \<noteq> None"
  by (simp_all add: GetSigHashes_def AddSigHashes_def PurgeSigHashes_def ContainsHashes_def)

end
