(* ===== verification/ScriptSigCache.thy ===== *)
theory ScriptSigCache
  imports Prelude "HOL-Library.AList"
begin

text \<open>
  sigcache.go: a bounded cache of verified signatures. The Go map is an association list with one
  entry per key; which entry is evicted from a full cache is up to Go's map iteration and is the
  parameter \<open>pick\<close>. The interface the script engine relies on is the locale \<open>verified_cache\<close>: a
  cache that only ever holds valid signatures does not change the outcome of a check.
\<close>

section \<open>Definitions\<close>

text \<open>Signatures and public keys as the pairs of integers of package \<open>elliptic\<close>.\<close>

record Signature =
  sig_R :: int
  sig_S :: int

record PublicKey =
  pk_X :: int
  pk_Y :: int

definition Signature_IsEqual :: "Signature \<Rightarrow> Signature \<Rightarrow> bool" where
  "Signature_IsEqual sig otherSig = (sig_R sig = sig_R otherSig \<and> sig_S sig = sig_S otherSig)"

definition PublicKey_IsEqual :: "PublicKey \<Rightarrow> PublicKey \<Rightarrow> bool" where
  "PublicKey_IsEqual p otherPubKey = (pk_X p = pk_X otherPubKey \<and> pk_Y p = pk_Y otherPubKey)"

record sigCacheEntry =
  sce_sig :: Signature
  sce_pubKey :: PublicKey

record SigCache =
  validSigs :: "(bytes \<times> sigCacheEntry) list"
  maxEntries :: nat

definition NewSigCache :: "nat \<Rightarrow> SigCache" where
  "NewSigCache n = \<lparr>validSigs = [], maxEntries = n\<rparr>"

definition sc_Exists :: "SigCache \<Rightarrow> bytes \<Rightarrow> Signature \<Rightarrow> PublicKey \<Rightarrow> bool" where
  "sc_Exists s sigHash sig pubKey =
     (case map_of (validSigs s) sigHash of
        None \<Rightarrow> False
      | Some entry \<Rightarrow> PublicKey_IsEqual (sce_pubKey entry) pubKey
                      \<and> Signature_IsEqual (sce_sig entry) sig)"

text \<open>The loop that deletes the first key of an iteration and breaks.\<close>

definition evictOne :: "(bytes list \<Rightarrow> nat) \<Rightarrow> (bytes \<times> 'v) list \<Rightarrow> (bytes \<times> 'v) list" where
  "evictOne pick m =
     (if m = [] then [] else AList.delete (map fst m ! (pick (map fst m) mod length m)) m)"

definition sc_Add ::
  "(bytes list \<Rightarrow> nat) \<Rightarrow> SigCache \<Rightarrow> bytes \<Rightarrow> Signature \<Rightarrow> PublicKey \<Rightarrow> SigCache" where
  "sc_Add pick s sigHash sig pubKey =
     (if maxEntries s \<le> 0 then s
      else let m = (if length (validSigs s) + 1 > maxEntries s
                    then evictOne pick (validSigs s) else validSigs s)
           in s\<lparr>validSigs := AList.update sigHash \<lparr>sce_sig = sig, sce_pubKey = pubKey\<rparr> m\<rparr>)"

section \<open>The interface\<close>

locale verified_cache =
  fixes present :: "'c \<Rightarrow> 'h \<Rightarrow> 'sg \<Rightarrow> 'pk \<Rightarrow> bool"
    and insert_entry :: "'c \<Rightarrow> 'h \<Rightarrow> 'sg \<Rightarrow> 'pk \<Rightarrow> 'c"
    and valid :: "'h \<Rightarrow> 'sg \<Rightarrow> 'pk \<Rightarrow> bool"
    and sound :: "'c \<Rightarrow> bool"
  assumes present_sound: "sound c \<Longrightarrow> present c h sg pk \<Longrightarrow> valid h sg pk"
    and insert_sound: "sound c \<Longrightarrow> valid h sg pk \<Longrightarrow> sound (insert_entry c h sg pk)"
begin

text \<open>Checking a signature through the cache, as both signature opcodes do.\<close>

definition checked :: "'c \<Rightarrow> 'h \<Rightarrow> 'sg \<Rightarrow> 'pk \<Rightarrow> bool \<times> 'c" where
  "checked c h sg pk =
     (if present c h sg pk then (True, c)
      else if valid h sg pk then (True, insert_entry c h sg pk) else (False, c))"

lemma checked_transparent:
  assumes "sound c"
  shows "fst (checked c h sg pk) = valid h sg pk" and "sound (snd (checked c h sg pk))"
  using assms present_sound insert_sound by (auto simp: checked_def)

end

section \<open>The cache implements the interface\<close>

definition sound_cache :: "(Signature \<Rightarrow> bytes \<Rightarrow> PublicKey \<Rightarrow> bool) \<Rightarrow> SigCache \<Rightarrow> bool" where
  "sound_cache verify c \<longleftrightarrow>
     distinct (map fst (validSigs c)) \<and> length (validSigs c) \<le> maxEntries c
     \<and> (\<forall>(h, e) \<in> set (validSigs c). verify (sce_sig e) h (sce_pubKey e))"

lemma Signature_IsEqual_iff [simp]: "Signature_IsEqual a b \<longleftrightarrow> a = b"
  by (auto simp: Signature_IsEqual_def)

lemma PublicKey_IsEqual_iff [simp]: "PublicKey_IsEqual a b \<longleftrightarrow> a = b"
  by (auto simp: PublicKey_IsEqual_def)

lemma length_delete_present:
  "distinct (map fst m) \<Longrightarrow> k \<in> fst ` set m \<Longrightarrow> length (AList.delete k m) = length m - 1"
proof (induction m)
  case (Cons a m)
  show ?case
  proof (cases "fst a = k")
    case True
    then have "AList.delete k m = m" using Cons.prems by (intro delete_id) auto
    then show ?thesis using True by simp
  next
    case False
    then have "length (AList.delete k m) = length m - 1" "m \<noteq> []" using Cons by auto
    then show ?thesis using False by (cases m) simp_all
  qed
qed simp

lemma evictOne_props:
  assumes "distinct (map fst m)"
  shows "length (evictOne pick m) = length m - 1" and "distinct (map fst (evictOne pick m))"
    and "set (evictOne pick m) \<subseteq> set m"
proof -
  show "length (evictOne pick m) = length m - 1"
  proof (cases "m = []")
    case False
    then have "map fst m ! (pick (map fst m) mod length m) \<in> set (map fst m)"
      by (intro nth_mem) simp
    with False assms show ?thesis by (auto simp: evictOne_def length_delete_present)
  qed (simp add: evictOne_def)
qed (use assms in \<open>auto simp: evictOne_def AList.delete_eq distinct_map_filter intro: distinct_delete\<close>)

lemma length_update_le: "length (AList.update k v m) \<le> Suc (length m)"
  by (induction m) auto

lemma set_update_subset: "set (AList.update k v m) \<subseteq> insert (k, v) (set m)"
  by (induction m) auto

lemma sc_Add_sound:
  assumes "sound_cache verify c" and "verify sg h pk"
  shows "sound_cache verify (sc_Add pick c h sg pk)"
proof (cases "maxEntries c = 0")
  case True
  then show ?thesis using assms by (simp add: sc_Add_def)
next
  case False
  define m where "m = (if length (validSigs c) + 1 > maxEntries c
    then evictOne pick (validSigs c) else validSigs c)"
  have d: "distinct (map fst (validSigs c))" using assms by (simp add: sound_cache_def)
  have m: "distinct (map fst m)" "set m \<subseteq> set (validSigs c)" "Suc (length m) \<le> maxEntries c"
    using evictOne_props[OF d, of pick] d False assms
    by (auto simp: m_def sound_cache_def)
  then have "distinct (map fst (AList.update h \<lparr>sce_sig = sg, sce_pubKey = pk\<rparr> m))"
    by (simp add: distinct_update)
  moreover have "verify (sce_sig e) k (sce_pubKey e)"
    if "(k, e) \<in> set (AList.update h \<lparr>sce_sig = sg, sce_pubKey = pk\<rparr> m)" for k e
  proof -
    have "(k, e) = (h, \<lparr>sce_sig = sg, sce_pubKey = pk\<rparr>) \<or> (k, e) \<in> set (validSigs c)"
      using that set_update_subset[of h "\<lparr>sce_sig = sg, sce_pubKey = pk\<rparr>" m] m(2) by blast
    then show ?thesis using assms by (auto simp: sound_cache_def)
  qed
  ultimately show ?thesis
    using False m(3) length_update_le[of h "\<lparr>sce_sig = sg, sce_pubKey = pk\<rparr>" m]
    unfolding sc_Add_def m_def[symmetric] Let_def sound_cache_def by auto
qed

interpretation sigcache: verified_cache sc_Exists "sc_Add pick"
  "\<lambda>h sg pk. verify sg h pk" "sound_cache verify"
  for pick verify
proof
  fix c h sg pk
  assume "sound_cache verify c" "sc_Exists c h sg pk"
  then show "verify sg h pk"
    by (auto simp: sc_Exists_def sound_cache_def dest!: map_of_SomeD split: option.splits)
qed (rule sc_Add_sound)

text \<open>C32: the signature cache keeps its bound and only holds verified signatures under any eviction order,
  and an entry just added is found again unless the cache has no room at all.\<close>

theorem sig_cache_invariant:
  assumes "sound_cache verify c" and "verify sg h pk"
  shows "sound_cache verify (sc_Add pick c h sg pk)
    \<and> length (validSigs (sc_Add pick c h sg pk)) \<le> maxEntries c
    \<and> (sc_Exists (sc_Add pick c h sg pk) h sg pk \<longleftrightarrow> maxEntries c > 0 \<or> sc_Exists c h sg pk)"
proof (intro conjI)
  show s: "sound_cache verify (sc_Add pick c h sg pk)" using assms by (rule sc_Add_sound)
  then show "length (validSigs (sc_Add pick c h sg pk)) \<le> maxEntries c"
    by (auto simp: sound_cache_def sc_Add_def Let_def)
  show "sc_Exists (sc_Add pick c h sg pk) h sg pk \<longleftrightarrow> maxEntries c > 0 \<or> sc_Exists c h sg pk"
    by (auto simp: sc_Exists_def sc_Add_def Let_def update_conv')
qed

theorem sig_cache_invariant_witness:
  "sc_Exists (sc_Add (\<lambda>ks. 0) (NewSigCache 1) [1] \<lparr>sig_R = 1, sig_S = 2\<rparr> \<lparr>pk_X = 3, pk_Y = 4\<rparr>) [1]
     \<lparr>sig_R = 1, sig_S = 2\<rparr> \<lparr>pk_X = 3, pk_Y = 4\<rparr>"
  using sig_cache_invariant[of "\<lambda>_ _ _. True" "NewSigCache 1" "\<lparr>sig_R = 1, sig_S = 2\<rparr>" "[1]"
      "\<lparr>pk_X = 3, pk_Y = 4\<rparr>" "\<lambda>ks. 0"]
  by (simp add: NewSigCache_def sound_cache_def)

end
