(* ===== verification/BigInt.thy ===== *)
theory BigInt
  imports Prelude
begin

text \<open>
  The conversions of \<open>math/big\<close> between integers and big-endian byte strings: \<open>SetBytes\<close> and \<open>Bytes\<close>,
  which is the shortest string of bytes for the absolute value, with none at all for zero.
\<close>

definition be_int :: "bytes \<Rightarrow> int" where
  "be_int b = foldl (\<lambda>acc x. acc * 256 + uint x) 0 b"

fun base256 :: "nat \<Rightarrow> bytes" where
  "base256 n = (if n = 0 then [] else word_of_nat (n mod 256) # base256 (n div 256))"

declare base256.simps [simp del]

definition bigBytes :: "int \<Rightarrow> bytes" where
  "bigBytes x = rev (base256 (nat \<bar>x\<bar>))"

lemma base256_simps [simp]: "base256 0 = []" "0 < n \<Longrightarrow> base256 n = word_of_nat (n mod 256) # base256 (n div 256)"
  by (subst base256.simps, simp)+

lemma be_int_Nil [simp]: "be_int [] = 0"
  by (simp add: be_int_def)

lemma be_int_snoc [simp]: "be_int (b @ [x]) = be_int b * 256 + uint x"
  by (simp add: be_int_def)

lemma be_int_append: "be_int (a @ b) = be_int a * 256 ^ length b + be_int b"
proof (induction b rule: rev_induct)
  case (snoc x b)
  have "be_int (a @ b @ [x]) = be_int ((a @ b) @ [x])" by simp
  also have "\<dots> = be_int (a @ b) * 256 + uint x" by (rule be_int_snoc)
  finally show ?case using snoc by (simp add: algebra_simps)
qed simp

lemma be_int_Cons: "be_int (x # b) = uint x * 256 ^ length b + be_int b"
  using be_int_append[of "[x]" b] by (simp add: be_int_def)

lemma be_int_nonneg [simp]: "0 \<le> be_int b"
  by (induction b rule: rev_induct) auto

lemma uint_u8 [simp]: "uint (x :: u8) < 256"
  using uint_lt2p[of x] by simp

lemma be_int_less: "be_int b < 256 ^ length b"
proof (induction b rule: rev_induct)
  case (snoc x b)
  then have "be_int b \<le> 256 ^ length b - 1" by simp
  then have "be_int b * 256 + uint x < 256 ^ length b * 256" using uint_u8[of x] by linarith
  then show ?case by (simp add: algebra_simps)
qed simp

lemma be_int_zeros [simp]: "be_int (replicate n 0 @ b) = be_int b"
  by (induction n) (auto simp: be_int_Cons)

lemma be_int_inject: "length a = length b \<Longrightarrow> be_int a = be_int b \<Longrightarrow> a = b"
proof (induction a arbitrary: b rule: rev_induct)
  case (snoc x a)
  then obtain y c where b: "b = c @ [y]" by (cases b rule: rev_cases) auto
  have e: "be_int a * 256 + uint x = be_int c * 256 + uint y" using snoc.prems b by simp
  have "uint x = (be_int a * 256 + uint x) mod 256" using uint_u8[of x] by simp
  also have "\<dots> = uint y" using uint_u8[of y] by (simp add: e)
  finally have "x = y" by (rule word_uint_eqI)
  with e have "be_int a = be_int c" by simp
  with snoc b \<open>x = y\<close> show ?case by auto
qed simp

lemma base256_be: "be_int (rev (base256 n)) = int n"
proof (induction n rule: base256.induct)
  case (1 n)
  then show ?case
    by (cases "n = 0") (auto simp: uint_nat unat_of_nat zmod_int zdiv_int)
qed

lemma be_int_bigBytes [simp]: "be_int (bigBytes x) = \<bar>x\<bar>"
  by (simp add: bigBytes_def base256_be)

lemma bigBytes_0 [simp]: "bigBytes 0 = []"
  by (simp add: bigBytes_def)

lemma length_base256: "n < 256 ^ k \<longleftrightarrow> length (base256 n) \<le> k"
proof (induction n arbitrary: k rule: base256.induct)
  case (1 n)
  show ?case
  proof (cases "n = 0")
    case False
    note IH = 1[OF False]
    show ?thesis
    proof (cases k)
      case 0
      with False show ?thesis by simp
    next
      case (Suc m)
      have "n < 256 ^ Suc m \<longleftrightarrow> n div 256 < 256 ^ m" by (simp add: less_mult_imp_div_less div_less_iff_less_mult mult.commute)
      with IH[of m] Suc False show ?thesis by simp
    qed
  qed simp
qed

lemma length_bigBytes: "\<bar>x\<bar> < 256 ^ k \<longleftrightarrow> length (bigBytes x) \<le> k"
  using length_base256[of "nat \<bar>x\<bar>" k] by (simp add: bigBytes_def nat_less_iff)

end
