(* ===== verification/ScriptOpcodes.thy ===== *)
theory ScriptOpcodes
  imports ScriptStack ScriptSigHash ScriptSigCache BigInt
begin

text \<open>
  The state of the script engine (engine.go) and the handlers of all opcodes (opcode.go), one
  definition per Go function, with the encoding checks of engine.go that the signature opcodes
  call. Hash functions and elliptic curve operations are the fields of the parameter \<open>crypto\<close>;
  no property of them is assumed unless a theorem says so.
\<close>

section \<open>Parameters and state\<close>

record crypto =
  c_sha256 :: "bytes \<Rightarrow> bytes"
  c_sha1 :: "bytes \<Rightarrow> bytes"
  c_ripemd160 :: "bytes \<Rightarrow> bytes"
  c_ParsePubKey :: "bytes \<Rightarrow> PublicKey option"
  c_ParseSignature :: "bytes \<Rightarrow> Signature option"
  c_ParseDERSignature :: "bytes \<Rightarrow> Signature option"
  c_Verify :: "Signature \<Rightarrow> bytes \<Rightarrow> PublicKey \<Rightarrow> bool"
  c_pick :: "bytes list \<Rightarrow> nat"

type_synonym ScriptFlags = u32

definition ScriptBip16 :: ScriptFlags where "ScriptBip16 = 0x1"
definition ScriptStrictMultiSig :: ScriptFlags where "ScriptStrictMultiSig = 0x2"
definition ScriptDiscourageUpgradableNops :: ScriptFlags where "ScriptDiscourageUpgradableNops = 0x4"
definition ScriptVerifyCheckLockTimeVerify :: ScriptFlags where "ScriptVerifyCheckLockTimeVerify = 0x8"
definition ScriptVerifyCheckSequenceVerify :: ScriptFlags where "ScriptVerifyCheckSequenceVerify = 0x10"
definition ScriptVerifyCleanStack :: ScriptFlags where "ScriptVerifyCleanStack = 0x20"
definition ScriptVerifyDERSignatures :: ScriptFlags where "ScriptVerifyDERSignatures = 0x40"
definition ScriptVerifyLowS :: ScriptFlags where "ScriptVerifyLowS = 0x80"
definition ScriptVerifyMinimalData :: ScriptFlags where "ScriptVerifyMinimalData = 0x100"
definition ScriptVerifyNullFail :: ScriptFlags where "ScriptVerifyNullFail = 0x200"
definition ScriptVerifySigPushOnly :: ScriptFlags where "ScriptVerifySigPushOnly = 0x400"
definition ScriptVerifyStrictEncoding :: ScriptFlags where "ScriptVerifyStrictEncoding = 0x800"
definition ScriptVerifyWitness :: ScriptFlags where "ScriptVerifyWitness = 0x1000"
definition ScriptVerifyDiscourageUpgradeableWitnessProgram :: ScriptFlags where
  "ScriptVerifyDiscourageUpgradeableWitnessProgram = 0x2000"
definition ScriptVerifyMinimalIf :: ScriptFlags where "ScriptVerifyMinimalIf = 0x4000"
definition ScriptVerifyWitnessPubKeyType :: ScriptFlags where "ScriptVerifyWitnessPubKeyType = 0x8000"

definition MaxStackSize :: int where "MaxStackSize = 1000"
definition MaxScriptSize :: nat where "MaxScriptSize = 10000"
definition MaxOpsPerScript :: nat where "MaxOpsPerScript = 201"
definition MaxScriptElementSize :: nat where "MaxScriptElementSize = 520"
definition LockTimeThreshold :: int where "LockTimeThreshold = 500000000"
definition MaxTxInSequenceNum :: u32 where "MaxTxInSequenceNum = 0xffffffff"
definition SequenceLockTimeDisabled :: int where "SequenceLockTimeDisabled = 2 ^ 31"
definition SequenceLockTimeIsSeconds :: int where "SequenceLockTimeIsSeconds = 2 ^ 22"
definition SequenceLockTimeMask :: int where "SequenceLockTimeMask = 0xffff"

text \<open>The entries of the conditional stack.\<close>

definition OpCondFalse :: nat where "OpCondFalse = 0"
definition OpCondTrue :: nat where "OpCondTrue = 1"
definition OpCondSkip :: nat where "OpCondSkip = 2"

record Engine =
  scripts :: "parsedOpcode list list"
  scriptIdx :: nat
  scriptOff :: nat
  lastCodeSep :: nat
  dstack :: stack
  astack :: stack
  tx :: MsgTx
  txIdx :: nat
  condStack :: "nat list"
  numOps :: nat
  flags :: ScriptFlags
  sigCache :: "SigCache option"
  hashCache :: "TxSigHashes option"
  bip16 :: bool
  savedFirstStack :: "bytes list"
  witnessVersion :: nat
  witnessProgram :: "bytes option"
  inputAmount :: i64

type_synonym 'a vm = "('a, Engine) prog"

text \<open>Calls of methods of the two stacks.\<close>

definition onD :: "('a, stack) prog \<Rightarrow> 'a vm" where
  "onD = onField dstack dstack_update"

definition onA :: "('a, stack) prog \<Rightarrow> 'a vm" where
  "onA = onField astack astack_update"

definition hasFlag :: "Engine \<Rightarrow> ScriptFlags \<Rightarrow> bool" where
  "hasFlag vm flag = (flags vm AND flag = flag)"

definition isBranchExecuting :: "Engine \<Rightarrow> bool" where
  "isBranchExecuting vm =
     (if length (condStack vm) = 0 then True
      else condStack vm ! (length (condStack vm) - 1) = OpCondTrue)"

definition isWitnessVersionActive :: "Engine \<Rightarrow> nat \<Rightarrow> bool" where
  "isWitnessVersionActive vm version = (witnessProgram vm \<noteq> None \<and> witnessVersion vm = version)"

text \<open>\<open>if vm.hasFlag(flag) \{ a \} else \{ b \}\<close>\<close>

definition ifFlag :: "ScriptFlags \<Rightarrow> 'a vm \<Rightarrow> 'a vm \<Rightarrow> 'a vm" where
  "ifFlag flag a b = bindP (getP (\<lambda>vm. hasFlag vm flag)) (\<lambda>f. if f then a else b)"

text \<open>\<open>vm.subScript()\<close>: the slice expression panics when the offset is past the end.\<close>

definition subScript :: "parsedOpcode list vm" where
  "subScript = bindP (getP scripts) (\<lambda>ss. bindP (getP scriptIdx) (\<lambda>i.
     bindP (indexP ss (int i)) (\<lambda>script. bindP (getP lastCodeSep) (\<lambda>off.
       if off \<le> length script then retP (drop off script) else panicP))))"

section \<open>Encoding checks\<close>

definition checkHashTypeEncoding :: "SigHashType \<Rightarrow> unit vm" where
  "checkHashTypeEncoding hashType =
     ifFlag ScriptVerifyStrictEncoding
       (let sigHashType = hashType AND NOT SigHashAnyOneCanPay in
        failWhen (sigHashType < SigHashAll \<or> sigHashType > SigHashSingle) ErrInvalidSigHashType)
       (retP ())"

text \<open>\<open>ec.IsCompressedPubKey\<close>\<close>

definition IsCompressedPubKey :: "bytes \<Rightarrow> bool" where
  "IsCompressedPubKey pubKey = (length pubKey = 33 \<and> pubKey ! 0 AND NOT 0x1 = 0x2)"

definition checkPubKeyEncoding :: "bytes \<Rightarrow> unit vm" where
  "checkPubKeyEncoding pubKey =
     bindP (getP (\<lambda>vm. hasFlag vm ScriptVerifyWitnessPubKeyType \<and> isWitnessVersionActive vm 0)) (\<lambda>w.
     thenP (failWhen (w \<and> \<not> IsCompressedPubKey pubKey) ErrWitnessPubKeyType)
     (ifFlag ScriptVerifyStrictEncoding
        (if length pubKey = 33 \<and> (pubKey ! 0 = 0x02 \<or> pubKey ! 0 = 0x03) then retP ()
         else if length pubKey = 65 \<and> pubKey ! 0 = 0x04 then retP ()
         else failP ErrPubKeyType)
        (retP ())))"

text \<open>Half of the order of the curve secp256k1, and \<open>big.Int.SetBytes\<close>.\<close>

definition halfOrder :: int where
  "halfOrder = 0xFFFFFFFFFFFFFFFFFFFFFFFFFFFFFFFEBAAEDCE6AF48A03BBFD25E8CD0364141 div 2"

text \<open>The DER format checks of \<open>checkSignatureEncoding\<close>; every access can panic.\<close>

definition checkDER :: "bytes \<Rightarrow> unit vm" where
  "checkDER sig =
     (let sigLen = int (length sig) in
     thenP (failWhen (sigLen < 8) ErrSigTooShort)
     (thenP (failWhen (sigLen > 72) ErrSigTooLong)
     (bindP (indexP sig 0) (\<lambda>seqID.
     thenP (failWhen (seqID \<noteq> 0x30) ErrSigInvalidSeqID)
     (bindP (indexP sig 1) (\<lambda>dataLen.
     thenP (failWhen (uint dataLen \<noteq> sigLen - 2) ErrSigInvalidDataLen)
     (bindP (indexP sig 3) (\<lambda>rLenByte.
     let rLen = uint rLenByte; sTypeOffset = 4 + rLen; sLenOffset = sTypeOffset + 1 in
     thenP (failWhen (sTypeOffset \<ge> sigLen) ErrSigMissingSTypeID)
     (thenP (failWhen (sLenOffset \<ge> sigLen) ErrSigMissingSLen)
     (let sOffset = sLenOffset + 1 in
     bindP (indexP sig sLenOffset) (\<lambda>sLenByte.
     let sLen = uint sLenByte in
     thenP (failWhen (sOffset + sLen \<noteq> sigLen) ErrSigInvalidSLen)
     (bindP (indexP sig 2) (\<lambda>rType.
     thenP (failWhen (rType \<noteq> 0x02) ErrSigInvalidRIntID)
     (thenP (failWhen (rLen = 0) ErrSigZeroRLen)
     (bindP (indexP sig 4) (\<lambda>r0.
     thenP (failWhen (r0 AND 0x80 \<noteq> 0) ErrSigNegativeR)
     (thenP (if rLen > 1 \<and> r0 = 0
             then bindP (indexP sig 5) (\<lambda>r1. failWhen (r1 AND 0x80 = 0) ErrSigTooMuchRPadding)
             else retP ())
     (bindP (indexP sig sTypeOffset) (\<lambda>sType.
     thenP (failWhen (sType \<noteq> 0x02) ErrSigInvalidSIntID)
     (thenP (failWhen (sLen = 0) ErrSigZeroSLen)
     (bindP (indexP sig sOffset) (\<lambda>s0.
     thenP (failWhen (s0 AND 0x80 \<noteq> 0) ErrSigNegativeS)
     (thenP (if sLen > 1 \<and> s0 = 0
             then bindP (indexP sig (sOffset + 1)) (\<lambda>s1. failWhen (s1 AND 0x80 = 0) ErrSigTooMuchSPadding)
             else retP ())
     (ifFlag ScriptVerifyLowS
        (failWhen (be_int (take (nat sLen) (drop (nat sOffset) sig)) > halfOrder) ErrSigHighS)
        (retP ())))))))))))))))))))))))))"

definition checkSignatureEncoding :: "bytes \<Rightarrow> unit vm" where
  "checkSignatureEncoding sig =
     bindP (getP (\<lambda>vm. \<not> hasFlag vm ScriptVerifyDERSignatures \<and> \<not> hasFlag vm ScriptVerifyLowS
                      \<and> \<not> hasFlag vm ScriptVerifyStrictEncoding)) (\<lambda>none.
       if none then retP () else checkDER sig)"

section \<open>Constants, flow control and locktime\<close>

type_synonym handler = "parsedOpcode \<Rightarrow> unit vm"

definition opcodeDisabled :: handler where
  "opcodeDisabled op = failP ErrDisabledOpcode"

definition opcodeReserved :: handler where
  "opcodeReserved op = failP ErrReservedOpcode"

definition opcodeInvalid :: handler where
  "opcodeInvalid op = failP ErrReservedOpcode"

definition opcodeFalse :: handler where
  "opcodeFalse op = onD (PushByteArray [])"

definition opcodePushData :: handler where
  "opcodePushData op = onD (PushByteArray (pop_data op))"

definition opcode1Negate :: handler where
  "opcode1Negate op = onD (PushInt (-1))"

definition opcodeN :: handler where
  "opcodeN op = onD (PushInt (uint (pop_value op - (OP_1 - 1))))"

definition opcodeNop :: handler where
  "opcodeNop op =
     (if pop_value op \<in> {OP_NOP1, OP_NOP4, OP_NOP5, OP_NOP6, OP_NOP7, OP_NOP8, OP_NOP9, OP_NOP10}
      then ifFlag ScriptDiscourageUpgradableNops (failP ErrDiscourageUpgradableNOPs) (retP ())
      else retP ())"

definition popIfBool :: "bool vm" where
  "popIfBool =
     bindP (getP (\<lambda>vm. \<not> isWitnessVersionActive vm 0 \<or> \<not> hasFlag vm ScriptVerifyMinimalIf)) (\<lambda>lax.
       if lax then onD PopBool
       else bindP (onD PopByteArray) (\<lambda>so.
            thenP (failWhen (length so > 1) ErrMinimalIf)
            (thenP (failWhen (length so = 1 \<and> so ! 0 \<noteq> 0x01) ErrMinimalIf)
            (retP (asBool so)))))"

definition pushCond :: "nat \<Rightarrow> unit vm" where
  "pushCond condVal = modifyP (condStack_update (\<lambda>cs. cs @ [condVal]))"

definition opcodeIf :: handler where
  "opcodeIf op =
     bindP (getP isBranchExecuting) (\<lambda>e.
       if e then bindP popIfBool (\<lambda>ok. pushCond (if ok then OpCondTrue else OpCondFalse))
       else pushCond OpCondSkip)"

definition opcodeNotIf :: handler where
  "opcodeNotIf op =
     bindP (getP isBranchExecuting) (\<lambda>e.
       if e then bindP popIfBool (\<lambda>ok. pushCond (if \<not> ok then OpCondTrue else OpCondFalse))
       else pushCond OpCondSkip)"

definition opcodeElse :: handler where
  "opcodeElse op =
     bindP (getP condStack) (\<lambda>cs.
     thenP (failWhen (length cs = 0) ErrUnbalancedConditional)
     (let conditionalIdx = length cs - 1; c = cs ! conditionalIdx in
      if c = OpCondTrue then modifyP (condStack_update (\<lambda>_. cs[conditionalIdx := OpCondFalse]))
      else if c = OpCondFalse then modifyP (condStack_update (\<lambda>_. cs[conditionalIdx := OpCondTrue]))
      else retP ()))"

definition opcodeEndif :: handler where
  "opcodeEndif op =
     bindP (getP condStack) (\<lambda>cs.
     thenP (failWhen (length cs = 0) ErrUnbalancedConditional)
     (modifyP (condStack_update (\<lambda>_. take (length cs - 1) cs))))"

definition abstractVerify :: "parsedOpcode \<Rightarrow> ErrorCode \<Rightarrow> unit vm" where
  "abstractVerify op c = bindP (onD PopBool) (\<lambda>verified. failWhen (\<not> verified) c)"

definition opcodeVerify :: handler where
  "opcodeVerify op = abstractVerify op ErrVerify"

definition opcodeReturn :: handler where
  "opcodeReturn op = failP ErrEarlyReturn"

definition verifyLockTime :: "int \<Rightarrow> int \<Rightarrow> int \<Rightarrow> ErrorCode + unit" where
  "verifyLockTime txLockTime threshold lockTime =
     (if \<not> ((txLockTime < threshold \<and> lockTime < threshold)
            \<or> (txLockTime \<ge> threshold \<and> lockTime \<ge> threshold))
      then Inl ErrUnsatisfiedLockTime
      else if lockTime > txLockTime then Inl ErrUnsatisfiedLockTime
      else Inr ())"

text \<open>\<open>vm.tx.TxIn[vm.txIdx]\<close>\<close>

definition currentTxIn :: "TxIn vm" where
  "currentTxIn = bindP (getP (\<lambda>vm. tx_TxIn (tx vm))) (\<lambda>ins.
     bindP (getP txIdx) (\<lambda>i. indexP ins (int i)))"

text \<open>Reading a five-byte number from the top of the stack without removing it.\<close>

definition peekNum5 :: "int vm" where
  "peekNum5 = bindP (onD (PeekByteArray 0)) (\<lambda>so.
     bindP (getP (\<lambda>vm. verifyMinimalData (dstack vm))) (\<lambda>q. liftE (makeScriptNum so q 5)))"

definition opcodeCheckLockTimeVerify :: handler where
  "opcodeCheckLockTimeVerify op =
     ifFlag ScriptVerifyCheckLockTimeVerify
       (bindP peekNum5 (\<lambda>lockTime.
        thenP (failWhen (lockTime < 0) ErrNegativeLockTime)
        (bindP (getP (\<lambda>vm. uint (tx_LockTime (tx vm)))) (\<lambda>txLockTime.
        thenP (liftE (verifyLockTime txLockTime LockTimeThreshold lockTime))
        (bindP currentTxIn (\<lambda>ti.
        failWhen (Sequence ti = MaxTxInSequenceNum) ErrUnsatisfiedLockTime))))))
       (ifFlag ScriptDiscourageUpgradableNops (failP ErrDiscourageUpgradableNOPs) (retP ()))"

definition opcodeCheckSequenceVerify :: handler where
  "opcodeCheckSequenceVerify op =
     ifFlag ScriptVerifyCheckSequenceVerify
       (bindP peekNum5 (\<lambda>stackSequence.
        thenP (failWhen (stackSequence < 0) ErrNegativeLockTime)
        (if stackSequence AND SequenceLockTimeDisabled \<noteq> 0 then retP ()
         else
           bindP (getP (\<lambda>vm. sint (tx_Version (tx vm)))) (\<lambda>version.
           thenP (failWhen (version < 2) ErrUnsatisfiedLockTime)
           (bindP currentTxIn (\<lambda>ti.
            let txSequence = uint (Sequence ti);
                lockTimeMask = SequenceLockTimeIsSeconds OR SequenceLockTimeMask in
            thenP (failWhen (txSequence AND SequenceLockTimeDisabled \<noteq> 0) ErrUnsatisfiedLockTime)
            (liftE (verifyLockTime (txSequence AND lockTimeMask) SequenceLockTimeIsSeconds
                      (stackSequence AND lockTimeMask)))))))))
       (ifFlag ScriptDiscourageUpgradableNops (failP ErrDiscourageUpgradableNOPs) (retP ()))"

section \<open>Stack opcodes\<close>

definition opcodeToAltStack :: handler where
  "opcodeToAltStack op = bindP (onD PopByteArray) (\<lambda>so. onA (PushByteArray so))"

definition opcodeFromAltStack :: handler where
  "opcodeFromAltStack op = bindP (onA PopByteArray) (\<lambda>so. onD (PushByteArray so))"

definition opcode2Drop :: handler where
  "opcode2Drop op = onD (DropN 2)"

definition opcode2Dup :: handler where
  "opcode2Dup op = onD (DupN 2)"

definition opcode3Dup :: handler where
  "opcode3Dup op = onD (DupN 3)"

definition opcode2Over :: handler where
  "opcode2Over op = onD (OverN 2)"

definition opcode2Rot :: handler where
  "opcode2Rot op = onD (RotN 2)"

definition opcode2Swap :: handler where
  "opcode2Swap op = onD (SwapN 2)"

definition opcodeIfDup :: handler where
  "opcodeIfDup op = bindP (onD (PeekByteArray 0)) (\<lambda>so.
     if asBool so then onD (PushByteArray so) else retP ())"

definition opcodeDepth :: handler where
  "opcodeDepth op = bindP (onD Depth) (\<lambda>n. onD (PushInt n))"

definition opcodeDrop :: handler where
  "opcodeDrop op = onD (DropN 1)"

definition opcodeDup :: handler where
  "opcodeDup op = onD (DupN 1)"

definition opcodeNip :: handler where
  "opcodeNip op = onD (NipN 1)"

definition opcodeOver :: handler where
  "opcodeOver op = onD (OverN 1)"

definition opcodePick :: handler where
  "opcodePick op = bindP (onD PopInt) (\<lambda>val. onD (PickN (Int32 val)))"

definition opcodeRoll :: handler where
  "opcodeRoll op = bindP (onD PopInt) (\<lambda>val. onD (RollN (Int32 val)))"

definition opcodeRot :: handler where
  "opcodeRot op = onD (RotN 1)"

definition opcodeSwap :: handler where
  "opcodeSwap op = onD (SwapN 1)"

definition opcodeTuck :: handler where
  "opcodeTuck op = onD (Tuck)"

definition opcodeSize :: handler where
  "opcodeSize op = bindP (onD (PeekByteArray 0)) (\<lambda>so. onD (PushInt (int (length so))))"

definition opcodeEqual :: handler where
  "opcodeEqual op = bindP (onD PopByteArray) (\<lambda>a. bindP (onD PopByteArray) (\<lambda>b.
     onD (PushBool (a = b))))"

definition opcodeEqualVerify :: handler where
  "opcodeEqualVerify op = thenP (opcodeEqual op) (abstractVerify op ErrEqualVerify)"

section \<open>Arithmetic\<close>

text \<open>Results are 64-bit and wrap.\<close>

definition opcode1Add :: handler where
  "opcode1Add op = bindP (onD PopInt) (\<lambda>m. onD (PushInt (s64 (m + 1))))"

definition opcode1Sub :: handler where
  "opcode1Sub op = bindP (onD PopInt) (\<lambda>m. onD (PushInt (s64 (m - 1))))"

definition opcodeNegate :: handler where
  "opcodeNegate op = bindP (onD PopInt) (\<lambda>m. onD (PushInt (s64 (- m))))"

definition opcodeAbs :: handler where
  "opcodeAbs op = bindP (onD PopInt) (\<lambda>m. onD (PushInt (if m < 0 then s64 (- m) else m)))"

definition opcodeNot :: handler where
  "opcodeNot op = bindP (onD PopInt) (\<lambda>m. onD (PushInt (if m = 0 then 1 else 0)))"

definition opcode0NotEqual :: handler where
  "opcode0NotEqual op = bindP (onD PopInt) (\<lambda>m. onD (PushInt (if m \<noteq> 0 then 1 else m)))"

definition opcodeAdd :: handler where
  "opcodeAdd op = bindP (onD PopInt) (\<lambda>v0. bindP (onD PopInt) (\<lambda>v1.
     onD (PushInt (s64 (v0 + v1)))))"

definition opcodeSub :: handler where
  "opcodeSub op = bindP (onD PopInt) (\<lambda>v0. bindP (onD PopInt) (\<lambda>v1.
     onD (PushInt (s64 (v1 - v0)))))"

definition opcodeBoolAnd :: handler where
  "opcodeBoolAnd op = bindP (onD PopInt) (\<lambda>v0. bindP (onD PopInt) (\<lambda>v1.
     onD (PushInt (if v0 \<noteq> 0 \<and> v1 \<noteq> 0 then 1 else 0))))"

definition opcodeBoolOr :: handler where
  "opcodeBoolOr op = bindP (onD PopInt) (\<lambda>v0. bindP (onD PopInt) (\<lambda>v1.
     onD (PushInt (if v0 \<noteq> 0 \<or> v1 \<noteq> 0 then 1 else 0))))"

definition opcodeNumEqual :: handler where
  "opcodeNumEqual op = bindP (onD PopInt) (\<lambda>v0. bindP (onD PopInt) (\<lambda>v1.
     onD (PushInt (if v0 = v1 then 1 else 0))))"

definition opcodeNumEqualVerify :: handler where
  "opcodeNumEqualVerify op = thenP (opcodeNumEqual op) (abstractVerify op ErrNumEqualVerify)"

definition opcodeNumNotEqual :: handler where
  "opcodeNumNotEqual op = bindP (onD PopInt) (\<lambda>v0. bindP (onD PopInt) (\<lambda>v1.
     onD (PushInt (if v0 \<noteq> v1 then 1 else 0))))"

definition opcodeLessThan :: handler where
  "opcodeLessThan op = bindP (onD PopInt) (\<lambda>v0. bindP (onD PopInt) (\<lambda>v1.
     onD (PushInt (if v1 < v0 then 1 else 0))))"

definition opcodeGreaterThan :: handler where
  "opcodeGreaterThan op = bindP (onD PopInt) (\<lambda>v0. bindP (onD PopInt) (\<lambda>v1.
     onD (PushInt (if v1 > v0 then 1 else 0))))"

definition opcodeLessThanOrEqual :: handler where
  "opcodeLessThanOrEqual op = bindP (onD PopInt) (\<lambda>v0. bindP (onD PopInt) (\<lambda>v1.
     onD (PushInt (if v1 \<le> v0 then 1 else 0))))"

definition opcodeGreaterThanOrEqual :: handler where
  "opcodeGreaterThanOrEqual op = bindP (onD PopInt) (\<lambda>v0. bindP (onD PopInt) (\<lambda>v1.
     onD (PushInt (if v1 \<ge> v0 then 1 else 0))))"

definition opcodeMin :: handler where
  "opcodeMin op = bindP (onD PopInt) (\<lambda>v0. bindP (onD PopInt) (\<lambda>v1.
     onD (PushInt (if v1 < v0 then v1 else v0))))"

definition opcodeMax :: handler where
  "opcodeMax op = bindP (onD PopInt) (\<lambda>v0. bindP (onD PopInt) (\<lambda>v1.
     onD (PushInt (if v1 > v0 then v1 else v0))))"

definition opcodeWithin :: handler where
  "opcodeWithin op = bindP (onD PopInt) (\<lambda>maxVal. bindP (onD PopInt) (\<lambda>minVal.
     bindP (onD PopInt) (\<lambda>x. onD (PushInt (if x \<ge> minVal \<and> x < maxVal then 1 else 0)))))"

section \<open>Hashes\<close>

definition opcodeRipeMD160 :: "crypto \<Rightarrow> handler" where
  "opcodeRipeMD160 C op = bindP (onD PopByteArray) (\<lambda>buf. onD (PushByteArray (c_ripemd160 C buf)))"

definition opcodeSHA1 :: "crypto \<Rightarrow> handler" where
  "opcodeSHA1 C op = bindP (onD PopByteArray) (\<lambda>buf. onD (PushByteArray (c_sha1 C buf)))"

definition opcodeSHA256 :: "crypto \<Rightarrow> handler" where
  "opcodeSHA256 C op = bindP (onD PopByteArray) (\<lambda>buf. onD (PushByteArray (c_sha256 C buf)))"

definition opcodeHash160 :: "crypto \<Rightarrow> handler" where
  "opcodeHash160 C op = bindP (onD PopByteArray) (\<lambda>buf.
     onD (PushByteArray (c_ripemd160 C (c_sha256 C buf))))"

definition opcodeHash256 :: "crypto \<Rightarrow> handler" where
  "opcodeHash256 C op = bindP (onD PopByteArray) (\<lambda>buf.
     onD (PushByteArray (DoubleHashH (c_sha256 C) buf)))"

definition opcodeCodeSeparator :: handler where
  "opcodeCodeSeparator op = modifyP (\<lambda>vm. vm\<lparr>lastCodeSep := scriptOff vm\<rparr>)"

section \<open>Signature opcodes\<close>

text \<open>The signature hash of a script, by the rules of the version being executed.\<close>

definition scriptSigHash :: "crypto \<Rightarrow> parsedOpcode list \<Rightarrow> SigHashType \<Rightarrow> bytes vm" where
  "scriptSigHash C script hashType =
     bindP (getP (\<lambda>vm. vm)) (\<lambda>vm.
       if isWitnessVersionActive vm 0
       then let sigHashes = (case hashCache vm of Some h \<Rightarrow> h
                             | None \<Rightarrow> NewTxSigHashes (c_sha256 C) (tx vm))
            in liftE (calcWitnessSignatureHash (c_sha256 C) script sigHashes hashType (tx vm)
                        (txIdx vm) (inputAmount vm))
       else (case calcSignatureHash (c_sha256 C) script hashType (tx vm) (txIdx vm) of
               None \<Rightarrow> panicP | Some h \<Rightarrow> retP h))"

definition parseSig :: "crypto \<Rightarrow> Engine \<Rightarrow> bytes \<Rightarrow> Signature option" where
  "parseSig C vm sigBytes =
     (if hasFlag vm ScriptVerifyStrictEncoding \<or> hasFlag vm ScriptVerifyDERSignatures
      then c_ParseDERSignature C sigBytes else c_ParseSignature C sigBytes)"

text \<open>\<open>copy(sigHash[:], hash)\<close> into a zeroed array.\<close>

definition copyHash :: "bytes \<Rightarrow> bytes" where
  "copyHash hash = take HashSize hash @ replicate (HashSize - length hash) 0"

text \<open>Verification through the signature cache.\<close>

definition verifySig :: "crypto \<Rightarrow> bytes \<Rightarrow> Signature \<Rightarrow> PublicKey \<Rightarrow> bool vm" where
  "verifySig C hash sg pk =
     bindP (getP sigCache) (\<lambda>cache.
       case cache of
         None \<Rightarrow> retP (c_Verify C sg hash pk)
       | Some sc \<Rightarrow>
           let sigHash = copyHash hash in
           if sc_Exists sc sigHash sg pk then retP True
           else if c_Verify C sg hash pk
           then thenP (modifyP (sigCache_update (\<lambda>_. Some (sc_Add (c_pick C) sc sigHash sg pk))))
                  (retP True)
           else retP False)"

definition opcodeCheckSig :: "crypto \<Rightarrow> handler" where
  "opcodeCheckSig C op =
     bindP (onD PopByteArray) (\<lambda>pkBytes. bindP (onD PopByteArray) (\<lambda>fullSigBytes.
       if length fullSigBytes < 1 then onD (PushBool False)
       else
         let hashType = ucast (fullSigBytes ! (length fullSigBytes - 1));
             sigBytes = take (length fullSigBytes - 1) fullSigBytes in
         thenP (checkHashTypeEncoding hashType)
         (thenP (checkSignatureEncoding sigBytes)
         (thenP (checkPubKeyEncoding pkBytes)
         (bindP subScript (\<lambda>sub.
          bindP (getP (\<lambda>vm. isWitnessVersionActive vm 0)) (\<lambda>wit.
          bindP (scriptSigHash C (if wit then sub else removeOpcodeByData sub fullSigBytes) hashType) (\<lambda>hash.
          case c_ParsePubKey C pkBytes of
            None \<Rightarrow> onD (PushBool False)
          | Some pubKey \<Rightarrow>
              bindP (getP (\<lambda>vm. parseSig C vm sigBytes)) (\<lambda>parsed.
              case parsed of
                None \<Rightarrow> onD (PushBool False)
              | Some sg \<Rightarrow>
                  bindP (verifySig C hash sg pubKey) (\<lambda>valid.
                  bindP (getP (\<lambda>vm. hasFlag vm ScriptVerifyNullFail)) (\<lambda>nullFail.
                  thenP (failWhen (\<not> valid \<and> nullFail \<and> length sigBytes > 0) ErrNullFail)
                  (onD (PushBool valid)))))))))))))"

definition opcodeCheckSigVerify :: "crypto \<Rightarrow> handler" where
  "opcodeCheckSigVerify C op = thenP (opcodeCheckSig C op) (abstractVerify op ErrCheckSigVerify)"

record parsedSigInfo =
  psi_signature :: bytes
  psi_parsedSignature :: "Signature option"
  psi_parsed :: bool

text \<open>
  One round of the loop of \<open>opcodeCheckMultiSig\<close> for a signature that is not empty: whether the
  signature verifies under the key, and the signature with what is now known of it. A \<open>continue\<close>
  of the source is the result \<open>False\<close>.
\<close>

definition multiSigTryKey ::
  "crypto \<Rightarrow> parsedOpcode list \<Rightarrow> bytes \<Rightarrow> SigHashType \<Rightarrow> Signature \<Rightarrow> bool vm" where
  "multiSigTryKey C script pubKey hashType sg =
     thenP (checkPubKeyEncoding pubKey)
     (case c_ParsePubKey C pubKey of
        None \<Rightarrow> retP False
      | Some parsedPubKey \<Rightarrow> bindP (scriptSigHash C script hashType) (\<lambda>hash.
                               verifySig C hash sg parsedPubKey))"

definition multiSigTry ::
  "crypto \<Rightarrow> parsedOpcode list \<Rightarrow> bytes \<Rightarrow> parsedSigInfo \<Rightarrow> (bool \<times> parsedSigInfo) vm" where
  "multiSigTry C script pubKey sigInfo =
     (let rawSig = psi_signature sigInfo in
      if length rawSig = 0 then retP (False, sigInfo)
      else
        let hashType = ucast (rawSig ! (length rawSig - 1));
            signature = take (length rawSig - 1) rawSig in
        if \<not> psi_parsed sigInfo
        then thenP (checkHashTypeEncoding hashType)
             (thenP (checkSignatureEncoding signature)
             (bindP (getP (\<lambda>vm. parseSig C vm signature)) (\<lambda>parsed.
              case parsed of
                None \<Rightarrow> retP (False, sigInfo\<lparr>psi_parsed := True\<rparr>)
              | Some sg \<Rightarrow>
                  bindP (multiSigTryKey C script pubKey hashType sg) (\<lambda>valid.
                  retP (valid, sigInfo\<lparr>psi_parsed := True, psi_parsedSignature := Some sg\<rparr>)))))
        else (case psi_parsedSignature sigInfo of
                None \<Rightarrow> retP (False, sigInfo)
              | Some sg \<Rightarrow> bindP (multiSigTryKey C script pubKey hashType sg) (\<lambda>valid.
                             retP (valid, sigInfo))))"

text \<open>
  The loop, with \<open>numPubKeys\<close>, \<open>numSignatures\<close>, the next \<open>pubKeyIdx\<close>, \<open>signatureIdx\<close> and the
  signatures; it returns \<open>success\<close>. Every round uses up a public key.
\<close>

fun multiSigLoop ::
  "crypto \<Rightarrow> parsedOpcode list \<Rightarrow> bytes list \<Rightarrow> nat \<Rightarrow> nat \<Rightarrow> nat \<Rightarrow> nat \<Rightarrow> parsedSigInfo list \<Rightarrow> bool vm" where
  "multiSigLoop C script pubKeys 0 numSignatures pubKeyIdx signatureIdx sigs =
     retP (numSignatures = 0)"
| "multiSigLoop C script pubKeys (Suc n) numSignatures pubKeyIdx signatureIdx sigs =
     (if numSignatures = 0 then retP True
      else if numSignatures > n then retP False
      else bindP (indexP sigs (int signatureIdx)) (\<lambda>sigInfo.
           bindP (indexP pubKeys (int pubKeyIdx)) (\<lambda>pubKey.
           bindP (multiSigTry C script pubKey sigInfo) (\<lambda>(valid, sigInfo').
           multiSigLoop C script pubKeys n
             (if valid then numSignatures - 1 else numSignatures)
             (pubKeyIdx + 1)
             (if valid then signatureIdx + 1 else signatureIdx)
             (sigs[signatureIdx := sigInfo'])))))"

definition opcodeCheckMultiSig :: "crypto \<Rightarrow> handler" where
  "opcodeCheckMultiSig C op =
     bindP (onD PopInt) (\<lambda>numKeys.
     let numPubKeys = Int32 numKeys in
     thenP (failWhen (numPubKeys < 0) ErrInvalidPubKeyCount)
     (thenP (failWhen (numPubKeys > int MaxPubKeysPerMultiSig) ErrInvalidPubKeyCount)
     (thenP (modifyP (numOps_update (\<lambda>n. n + nat numPubKeys)))
     (bindP (getP numOps) (\<lambda>ops.
     thenP (failWhen (ops > MaxOpsPerScript) ErrTooManyOperations)
     (bindP (collectP (nat numPubKeys) (onD PopByteArray)) (\<lambda>pubKeys.
     bindP (onD PopInt) (\<lambda>numSigs.
     let numSignatures = Int32 numSigs in
     thenP (failWhen (numSignatures < 0) ErrInvalidSignatureCount)
     (thenP (failWhen (numSignatures > numPubKeys) ErrInvalidSignatureCount)
     (bindP (collectP (nat numSignatures) (onD PopByteArray)) (\<lambda>rawSigs.
     bindP (onD PopByteArray) (\<lambda>dummy.
     bindP (getP (\<lambda>vm. hasFlag vm ScriptStrictMultiSig)) (\<lambda>strict.
     thenP (failWhen (strict \<and> length dummy \<noteq> 0) ErrSigNullDummy)
     (bindP subScript (\<lambda>sub.
     bindP (getP (\<lambda>vm. isWitnessVersionActive vm 0)) (\<lambda>wit.
     let script = (if wit then sub else foldl removeOpcodeByData sub rawSigs);
         sigs = map (\<lambda>s. \<lparr>psi_signature = s, psi_parsedSignature = None, psi_parsed = False\<rparr>) rawSigs in
     bindP (multiSigLoop C script pubKeys (nat numPubKeys + 1) (nat numSignatures) 0 0 sigs) (\<lambda>success.
     bindP (getP (\<lambda>vm. hasFlag vm ScriptVerifyNullFail)) (\<lambda>nullFail.
     thenP (failWhen (\<not> success \<and> nullFail \<and> list_ex (\<lambda>s. length s > 0) rawSigs) ErrNullFail)
     (onD (PushBool success))))))))))))))))))))"

definition opcodeCheckMultiSigVerify :: "crypto \<Rightarrow> handler" where
  "opcodeCheckMultiSigVerify C op =
     thenP (opcodeCheckMultiSig C op) (abstractVerify op ErrCheckMultiSigVerify)"

section \<open>The dispatch table\<close>

text \<open>The \<open>opfunc\<close> column of \<open>OpcodeArray\<close>; the opcodes that are not listed have \<open>opcodeInvalid\<close>.\<close>

definition opTable :: "crypto \<Rightarrow> (u8 \<times> handler) list" where
  "opTable C = [
     (OP_0, opcodeFalse), (OP_1NEGATE, opcode1Negate), (OP_RESERVED, opcodeReserved),
     (OP_NOP, opcodeNop), (OP_VER, opcodeReserved), (OP_IF, opcodeIf),
     (OP_NOTIF, opcodeNotIf), (OP_VERIF, opcodeReserved), (OP_VERNOTIF, opcodeReserved),
     (OP_ELSE, opcodeElse), (OP_ENDIF, opcodeEndif), (OP_VERIFY, opcodeVerify),
     (OP_RETURN, opcodeReturn), (OP_TOALTSTACK, opcodeToAltStack), (OP_FROMALTSTACK, opcodeFromAltStack),
     (OP_2DROP, opcode2Drop), (OP_2DUP, opcode2Dup), (OP_3DUP, opcode3Dup),
     (OP_2OVER, opcode2Over), (OP_2ROT, opcode2Rot), (OP_2SWAP, opcode2Swap),
     (OP_IFDUP, opcodeIfDup), (OP_DEPTH, opcodeDepth), (OP_DROP, opcodeDrop),
     (OP_DUP, opcodeDup), (OP_NIP, opcodeNip), (OP_OVER, opcodeOver),
     (OP_PICK, opcodePick), (OP_ROLL, opcodeRoll), (OP_ROT, opcodeRot),
     (OP_SWAP, opcodeSwap), (OP_TUCK, opcodeTuck), (OP_CAT, opcodeDisabled),
     (OP_SUBSTR, opcodeDisabled), (OP_LEFT, opcodeDisabled), (OP_RIGHT, opcodeDisabled),
     (OP_SIZE, opcodeSize), (OP_INVERT, opcodeDisabled), (OP_AND, opcodeDisabled),
     (OP_OR, opcodeDisabled), (OP_XOR, opcodeDisabled), (OP_EQUAL, opcodeEqual),
     (OP_EQUALVERIFY, opcodeEqualVerify), (OP_RESERVED1, opcodeReserved), (OP_RESERVED2, opcodeReserved),
     (OP_1ADD, opcode1Add), (OP_1SUB, opcode1Sub), (OP_2MUL, opcodeDisabled),
     (OP_2DIV, opcodeDisabled), (OP_NEGATE, opcodeNegate), (OP_ABS, opcodeAbs),
     (OP_NOT, opcodeNot), (OP_0NOTEQUAL, opcode0NotEqual), (OP_ADD, opcodeAdd),
     (OP_SUB, opcodeSub), (OP_MUL, opcodeDisabled), (OP_DIV, opcodeDisabled),
     (OP_MOD, opcodeDisabled), (OP_LSHIFT, opcodeDisabled), (OP_RSHIFT, opcodeDisabled),
     (OP_BOOLAND, opcodeBoolAnd), (OP_BOOLOR, opcodeBoolOr), (OP_NUMEQUAL, opcodeNumEqual),
     (OP_NUMEQUALVERIFY, opcodeNumEqualVerify), (OP_NUMNOTEQUAL, opcodeNumNotEqual), (OP_LESSTHAN, opcodeLessThan),
     (OP_GREATERTHAN, opcodeGreaterThan), (OP_LESSTHANOREQUAL, opcodeLessThanOrEqual), (OP_GREATERTHANOREQUAL, opcodeGreaterThanOrEqual),
     (OP_MIN, opcodeMin), (OP_MAX, opcodeMax), (OP_WITHIN, opcodeWithin),
     (OP_RIPEMD160, opcodeRipeMD160 C), (OP_SHA1, opcodeSHA1 C), (OP_SHA256, opcodeSHA256 C),
     (OP_HASH160, opcodeHash160 C), (OP_HASH256, opcodeHash256 C), (OP_CODESEPARATOR, opcodeCodeSeparator),
     (OP_CHECKSIG, opcodeCheckSig C), (OP_CHECKSIGVERIFY, opcodeCheckSigVerify C), (OP_CHECKMULTISIG, opcodeCheckMultiSig C),
     (OP_CHECKMULTISIGVERIFY, opcodeCheckMultiSigVerify C), (OP_NOP1, opcodeNop), (OP_CHECKLOCKTIMEVERIFY, opcodeCheckLockTimeVerify),
     (OP_CHECKSEQUENCEVERIFY, opcodeCheckSequenceVerify), (OP_NOP4, opcodeNop), (OP_NOP5, opcodeNop),
     (OP_NOP6, opcodeNop), (OP_NOP7, opcodeNop), (OP_NOP8, opcodeNop),
     (OP_NOP9, opcodeNop), (OP_NOP10, opcodeNop)]"

definition opfunc :: "crypto \<Rightarrow> u8 \<Rightarrow> handler" where
  "opfunc C v =
     (if OP_DATA_1 \<le> v \<and> v \<le> OP_PUSHDATA4 then opcodePushData
      else if OP_1 \<le> v \<and> v \<le> OP_16 then opcodeN
      else case map_of (opTable C) v of Some h \<Rightarrow> h | None \<Rightarrow> opcodeInvalid)"

end
