(* ===== verification/ScriptBuilder.thy ===== *)
theory ScriptBuilder
  imports ScriptOpcodes
begin

text \<open>
  The script builder of scriptbuilder.go. An error of type \<open>ErrScriptNotCanonical\<close> is \<open>PlainError\<close>,
  since it has no error code; once set it makes all later calls do nothing. The results: what is
  built stays within the limit on the size of scripts, every push is the minimal one for its data,
  parses back, and executes to that data.
\<close>

section \<open>Definitions\<close>

record ScriptBuilder =
  sb_script :: bytes
  sb_err :: "ErrorCode option"

definition NewScriptBuilder :: ScriptBuilder where
  "NewScriptBuilder = \<lparr>sb_script = [], sb_err = None\<rparr>"

definition AddOp :: "u8 \<Rightarrow> ScriptBuilder \<Rightarrow> ScriptBuilder" where
  "AddOp opcode b =
     (if sb_err b \<noteq> None then b
      else if length (sb_script b) + 1 > MaxScriptSize then b\<lparr>sb_err := Some PlainError\<rparr>
      else b\<lparr>sb_script := sb_script b @ [opcode]\<rparr>)"

definition AddOps :: "bytes \<Rightarrow> ScriptBuilder \<Rightarrow> ScriptBuilder" where
  "AddOps opcodes b =
     (if sb_err b \<noteq> None then b
      else if length (sb_script b) + length opcodes > MaxScriptSize then b\<lparr>sb_err := Some PlainError\<rparr>
      else b\<lparr>sb_script := sb_script b @ opcodes\<rparr>)"

definition canonicalDataSize :: "bytes \<Rightarrow> nat" where
  "canonicalDataSize data =
     (let dataLen = length data in
      if dataLen = 0 then 1
      else if dataLen = 1 \<and> data ! 0 \<le> 16 then 1
      else if dataLen = 1 \<and> data ! 0 = 0x81 then 1
      else if dataLen < unat OP_PUSHDATA1 then 1 + dataLen
      else if dataLen \<le> 0xff then 2 + dataLen
      else if dataLen \<le> 0xffff then 3 + dataLen
      else 5 + dataLen)"

definition addData :: "bytes \<Rightarrow> ScriptBuilder \<Rightarrow> ScriptBuilder" where
  "addData data b =
     (let dataLen = length data; script = sb_script b in
      if dataLen = 0 \<or> dataLen = 1 \<and> data ! 0 = 0 then b\<lparr>sb_script := script @ [OP_0]\<rparr>
      else if dataLen = 1 \<and> data ! 0 \<le> 16
      then b\<lparr>sb_script := script @ [(OP_1 - 1) + data ! 0]\<rparr>
      else if dataLen = 1 \<and> data ! 0 = 0x81 then b\<lparr>sb_script := script @ [OP_1NEGATE]\<rparr>
      else
        let script' =
              (if dataLen < unat OP_PUSHDATA1 then script @ [word_of_nat (unat OP_DATA_1 - 1 + dataLen)]
               else if dataLen \<le> 0xff then script @ [OP_PUSHDATA1, word_of_nat dataLen]
               else if dataLen \<le> 0xffff
               then script @ OP_PUSHDATA2 # PutUint16 LittleEndian (word_of_nat dataLen)
               else script @ OP_PUSHDATA4 # PutUint32 LittleEndian (word_of_nat dataLen))
        in b\<lparr>sb_script := script' @ data\<rparr>)"

definition AddFullData :: "bytes \<Rightarrow> ScriptBuilder \<Rightarrow> ScriptBuilder" where
  "AddFullData data b = (if sb_err b \<noteq> None then b else addData data b)"

definition AddData :: "bytes \<Rightarrow> ScriptBuilder \<Rightarrow> ScriptBuilder" where
  "AddData data b =
     (if sb_err b \<noteq> None then b
      else if length (sb_script b) + canonicalDataSize data > MaxScriptSize
      then b\<lparr>sb_err := Some PlainError\<rparr>
      else if length data > MaxScriptElementSize then b\<lparr>sb_err := Some PlainError\<rparr>
      else addData data b)"

text \<open>\<open>None\<close>: \<open>scriptNum.Bytes\<close> panics for the smallest \<open>int64\<close>.\<close>

definition AddInt64 :: "int \<Rightarrow> ScriptBuilder \<Rightarrow> ScriptBuilder option" where
  "AddInt64 val b =
     (if sb_err b \<noteq> None then Some b
      else if length (sb_script b) + 1 > MaxScriptSize then Some (b\<lparr>sb_err := Some PlainError\<rparr>)
      else if val = 0 then Some (b\<lparr>sb_script := sb_script b @ [OP_0]\<rparr>)
      else if val = -1 \<or> (val \<ge> 1 \<and> val \<le> 16)
      then Some (b\<lparr>sb_script := sb_script b @ [word_of_int (uint OP_1 - 1 + val)]\<rparr>)
      else case Bytes val () of Ok v _ \<Rightarrow> Some (AddData v b) | _ \<Rightarrow> None)"

definition Reset :: "ScriptBuilder \<Rightarrow> ScriptBuilder" where
  "Reset b = b\<lparr>sb_script := [], sb_err := None\<rparr>"

text \<open>\<open>Script\<close> returns the script and the error; with an error the part of the script that was built before is left out here.\<close>

definition Script :: "ScriptBuilder \<Rightarrow> ErrorCode + bytes" where
  "Script b = (case sb_err b of Some e \<Rightarrow> Inl e | None \<Rightarrow> Inr (sb_script b))"

section \<open>Pushes\<close>

text \<open>The instruction \<open>addData\<close> writes.\<close>

definition push_op :: "bytes \<Rightarrow> u8" where
  "push_op data =
     (if data = [] \<or> data = [0] then OP_0
      else if length data = 1 \<and> data ! 0 \<le> 16 then (OP_1 - 1) + data ! 0
      else if data = [0x81] then OP_1NEGATE
      else if length data < 76 then word_of_nat (length data)
      else if length data \<le> 0xff then OP_PUSHDATA1
      else if length data \<le> 0xffff then OP_PUSHDATA2
      else OP_PUSHDATA4)"

definition push_pop :: "bytes \<Rightarrow> parsedOpcode" where
  "push_pop data = \<lparr>pop_opcode = OpcodeArray (push_op data),
     pop_data = (if op_length (OpcodeArray (push_op data)) = 1 then [] else data)\<rparr>"

lemma push_cases:
  fixes data :: bytes
  assumes "length data < 2 ^ 32"
  obtains (zero) "data = [] \<or> data = [0]"
  | (num) x where "data = [x]" "1 \<le> x" "x \<le> 16"
  | (neg) "data = [0x81]"
  | (direct) "1 \<le> length data" "length data < 76"
      "\<And>x. data = [x] \<Longrightarrow> 16 < x \<and> x \<noteq> 0x81"
  | (field) k v where "(k, v) \<in> {(1, OP_PUSHDATA1), (2, OP_PUSHDATA2), (4, OP_PUSHDATA4)}"
      "75 < length data" "k \<noteq> 1 \<longrightarrow> 0xff < length data" "k = 4 \<longrightarrow> 0xffff < length data"
      "length data < 256 ^ k"
proof (cases "\<exists>x. data = [x]")
  case True
  then obtain x where x: "data = [x]" by blast
  consider "x = 0" | "1 \<le> x \<and> x \<le> 16" | "x = 0x81" | "16 < x \<and> x \<noteq> 0x81"
    by (metis linorder_not_less word_le_less_eq word_less_1 word_less_nat_alt)
  then show ?thesis
    using x zero num neg direct by cases auto
next
  case False
  then consider "data = []" | "1 \<le> length data" "length data < 76" | "75 < length data" "length data \<le> 0xff"
    | "0xff < length data" "length data \<le> 0xffff" | "0xffff < length data"
    by (cases data) force+
  then show ?thesis
    using False assms zero direct field[of 1 OP_PUSHDATA1] field[of 2 OP_PUSHDATA2] field[of 4 OP_PUSHDATA4]
    by cases auto
qed

lemma unat_direct: "n < 76 \<Longrightarrow> unat (word_of_nat n :: u8) = n"
  by (simp add: unat_of_nat)

lemma direct_length:
  "1 \<le> n \<Longrightarrow> n < 76 \<Longrightarrow> op_length (OpcodeArray (word_of_nat n)) = int n + 1"
  using unat_direct[of n]
  by (simp add: OpcodeArray_def word_le_nat_alt unsigned_of_nat take_bit_eq_mod of_nat_mod)

lemma le_bytes_of_nat:
  assumes "n < 256 ^ k" and "k \<le> 8" and "256 ^ k \<le> (2 :: int) ^ LENGTH('a)"
  shows "le_bytes k (word_of_nat n :: 'a::len word) = le_bytes k (word_of_nat n :: u64)"
proof (rule le_val_inj)
  have n: "int n < 256 ^ k" using assms(1) of_nat_less_iff[of n "256 ^ k", where 'a = int] by simp
  have k: "(256 :: int) ^ k \<le> 2 ^ 64" using power_increasing[OF assms(2), of "256 :: int"] by simp
  have "int n mod 2 ^ LENGTH('a) = int n" "int n mod 2 ^ 64 = int n"
    by (rule mod_pos_pos_trivial[OF of_nat_0_le_iff less_le_trans[OF n]], rule assms(3) k)+
  then show "le_val (le_bytes k (word_of_nat n :: 'a word)) = le_val (le_bytes k (word_of_nat n :: u64))"
    by (simp add: le_val_le_bytes unsigned_of_nat take_bit_eq_mod of_nat_mod)
qed simp

lemma push_op_simps:
  "push_op [] = OP_0" "push_op [0] = OP_0" "push_op [0x81] = OP_1NEGATE"
  "1 \<le> x \<Longrightarrow> x \<le> 16 \<Longrightarrow> push_op [x] = (OP_1 - 1) + x"
  "1 \<le> length data \<Longrightarrow> length data < 76 \<Longrightarrow> (\<And>x. data = [x] \<Longrightarrow> 16 < x \<and> x \<noteq> 0x81) \<Longrightarrow>
     push_op data = word_of_nat (length data)"
proof -
  show "1 \<le> length data \<Longrightarrow> length data < 76 \<Longrightarrow> (\<And>x. data = [x] \<Longrightarrow> 16 < x \<and> x \<noteq> 0x81) \<Longrightarrow>
     push_op data = word_of_nat (length data)"
    by (cases data; cases "tl data") (auto simp: push_op_def)
qed (auto simp: push_op_def)

lemma num_op:
  fixes x :: u8
  assumes "1 \<le> x" and "x \<le> 16"
  shows "OP_1 \<le> (OP_1 - 1) + x" "(OP_1 - 1) + x \<le> OP_16" "op_length (OpcodeArray ((OP_1 - 1) + x)) = 1"
proof -
  have u: "unat ((OP_1 - 1) + x) = 80 + unat x"
    using assms by (subst unat_add_lem[THEN iffD1]) (auto simp: word_le_nat_alt)
  then show "OP_1 \<le> (OP_1 - 1) + x" "(OP_1 - 1) + x \<le> OP_16"
    using assms by (simp_all add: word_le_nat_alt)
  have "(OP_1 - 1) + x \<noteq> OP_PUSHDATA1" "(OP_1 - 1) + x \<noteq> OP_PUSHDATA2" "(OP_1 - 1) + x \<noteq> OP_PUSHDATA4"
    using u by (auto simp: word_unat_eq_iff)
  then show "op_length (OpcodeArray ((OP_1 - 1) + x)) = 1"
    using u by (simp add: OpcodeArray_def word_le_nat_alt)
qed

lemma addData_push:
  assumes "length data < 2 ^ 32"
  obtains p where "pop_bytes (push_pop data) = Inr p" "length p = canonicalDataSize data"
    "\<And>b. addData data b = b\<lparr>sb_script := sb_script b @ p\<rparr>"
  using assms
proof (cases rule: push_cases)
  case zero
  then show ?thesis
    by (intro that[of "[OP_0]"])
      (auto simp: push_pop_def push_op_simps OpcodeArray_def pop_bytes_one canonicalDataSize_def addData_def Let_def)
next
  case (num x)
  then show ?thesis
    using num_op[of x]
    by (intro that[of "[(OP_1 - 1) + x]"])
      (auto simp: push_pop_def push_op_simps pop_bytes_one canonicalDataSize_def addData_def Let_def)
next
  case neg
  then show ?thesis
    by (intro that[of "[OP_1NEGATE]"])
      (auto simp: push_pop_def push_op_simps OpcodeArray_def pop_bytes_one canonicalDataSize_def addData_def Let_def)
next
  case direct
  then have "push_op data = word_of_nat (length data)" by (rule push_op_simps)
  moreover have "\<not> (length data = 1 \<and> (data ! 0 \<le> 16 \<or> data ! 0 = 0x81))"
    using direct by (cases data) auto
  ultimately show ?thesis
    using direct direct_length[of "length data"] pop_bytes_fixed[of "push_pop data" "length data"]
    by (intro that[of "word_of_nat (length data) # data"])
      (auto simp: push_pop_def canonicalDataSize_def addData_def Let_def)
next
  case (field k v)
  then have "push_op data = v" "op_length (OpcodeArray v) = - int k" by (auto simp: push_op_def OpcodeArray_def)
  then have "pop_bytes (push_pop data) = Inr (v # le_bytes k (word_of_nat (length data) :: u64) @ data)"
    using field pop_bytes_field[of "push_pop data" k] by (auto simp: push_pop_def)
  moreover have "le_bytes 1 (word_of_nat (length data) :: u64) = [word_of_nat (length data)]"
    by (simp add: le_bytes_def ucast_word_of_nat_u8)
  ultimately show ?thesis
    using field le_bytes_of_nat[of "length data" 2, where 'a = 16] le_bytes_of_nat[of "length data" 4, where 'a = 32]
    by (intro that) (auto simp: canonicalDataSize_def addData_def Let_def PutUint16_def PutUint32_def putUint_def)
qed

section \<open>Properties\<close>

lemma parse_snoc:
  assumes "parseOrErr script = Inr pops" and "wf_pop pop" and "pop_bytes pop = Inr p"
  shows "parseOrErr (script @ p) = Inr (pops @ [pop])"
proof -
  have "unparseScript (pops @ [pop]) = Inr (script @ p)"
    if "unparseScript pops = Inr script" for pops script
    using that assms(3) by (induction pops arbitrary: script) (auto simp: bindE_eq_Inr)
  then show ?thesis using assms by (simp add: parseOrErr_iff)
qed

lemma parse_AddOp:
  assumes "parseOrErr script = Inr pops" and "op_length (OpcodeArray v) = 1"
  shows "parseOrErr (script @ [v]) = Inr (pops @ [\<lparr>pop_opcode = OpcodeArray v, pop_data = []\<rparr>])"
  by (rule parse_snoc[OF assms(1)]) (use assms(2) in \<open>simp_all add: wf_pop_def pop_bytes_one\<close>)

lemma PushInt_eq: "- (2 ^ 63) < n \<Longrightarrow> n < 2 ^ 63 \<Longrightarrow> PushInt n = PushByteArray (encode_num n)"
  by (simp add: PushInt_def bindP_def Bytes_apply fun_eq_iff)

lemma encode_small:
  fixes x :: u8
  assumes "1 \<le> x" and "x \<le> 16"
  shows "encode_num (uint x) = [x]"
proof -
  have u: "1 \<le> uint x" "uint x \<le> 16" using assms by (simp_all add: word_le_def)
  have "uint (x AND 0x7f) \<noteq> 0" unfolding byte_low using u by simp
  then have "checkMinimalDataEncoding [x] = Inr ()"
    by (auto simp: checkMinimalDataEncoding_def)
  moreover have "num_value [x] = uint x" using u by (simp add: num_value_def)
  ultimately show ?thesis using encode_num_value[of "[x]"] by simp
qed

lemma push_pop_minimal:
  assumes "length data < 2 ^ 32" and "pop_value (push_pop data) \<le> OP_PUSHDATA4"
  shows "checkMinimalDataPush (push_pop data) = Inr ()"
  using assms(1)
proof (cases rule: push_cases)
  case direct
  have v: "push_op data = word_of_nat (length data)" using direct by (rule push_op_simps)
  then show ?thesis
    using direct direct_length[of "length data"] unat_direct[of "length data"]
    by (cases data; cases "tl data")
      (auto simp: push_pop_def checkMinimalDataPush_def failIf_def Let_def simp del: unat_of_nat)
next
  case (num x)
  then show ?thesis
    using assms(2) order_trans[OF num_op(1)[OF num(2,3)], of OP_PUSHDATA4] by (simp add: push_pop_def push_op_simps)
next
  case neg
  then show ?thesis using assms(2) by (simp add: push_pop_def push_op_simps)
qed (auto simp: push_pop_def push_op_def checkMinimalDataPush_def failIf_def Let_def OpcodeArray_def)

text \<open>What a push leaves on the stack: the data itself, except that \<open>[0]\<close> becomes the empty string.\<close>

definition pushed :: "bytes \<Rightarrow> bytes" where
  "pushed data = (if data = [0] then [] else data)"

lemma opfunc_simps:
  "opfunc C OP_0 = opcodeFalse" "opfunc C OP_1NEGATE = opcode1Negate" "opfunc C OP_RETURN = opcodeReturn"
  "opfunc C OP_DUP = opcodeDup" "opfunc C OP_EQUAL = opcodeEqual" "opfunc C OP_EQUALVERIFY = opcodeEqualVerify"
  "opfunc C OP_HASH160 = opcodeHash160 C" "opfunc C OP_CHECKSIG = opcodeCheckSig C"
  by (simp_all add: opfunc_def opTable_def)

lemma opfunc_push:
  assumes "length data < 2 ^ 32"
  shows "opfunc C (pop_value (push_pop data)) (push_pop data) = onD (PushByteArray (pushed data))"
  using assms
proof (cases rule: push_cases)
  case zero
  then show ?thesis
    by (elim disjE) (simp_all add: push_pop_def push_op_simps pushed_def opfunc_simps opcodeFalse_def)
next
  case (num x)
  have "\<not> (OP_1 - 1) + x \<le> OP_PUSHDATA4" using num_op(1)[OF num(2,3)] by (simp add: word_le_nat_alt)
  moreover have "x \<noteq> 0" using num by auto
  moreover have "PushInt (uint x) = PushByteArray [x]"
    using num(2,3) PushInt_eq[of "uint x"] encode_small[of x] by (simp add: word_le_def)
  ultimately show ?thesis
    using num num_op[of x] by (simp add: push_pop_def push_op_simps pushed_def opfunc_def opcodeN_def)
next
  case neg
  have "encode_num (- 1) = [0x81]"
    using encode_num_value[of "[0x81]"] by (simp add: checkMinimalDataEncoding_def num_value_def)
  with neg show ?thesis
    by (simp add: push_pop_def push_op_simps pushed_def opfunc_simps opcode1Negate_def PushInt_eq)
next
  case direct
  have "push_op data = word_of_nat (length data)" using direct by (rule push_op_simps)
  then show ?thesis
    using direct direct_length[of "length data"] unat_direct[of "length data"]
    by (auto simp: push_pop_def pushed_def opfunc_def opcodePushData_def word_le_nat_alt simp del: unat_of_nat)
next
  case (field k v)
  then show ?thesis
    by (auto simp: push_pop_def push_op_def pushed_def opfunc_def opcodePushData_def OpcodeArray_def)
qed

lemma push_small: "length data \<le> MaxScriptElementSize \<Longrightarrow> length data < 2 ^ 32"
  by (simp add: MaxScriptElementSize_def)

lemma wf_push_pop: "wf_pop (push_pop data)"
  by (simp add: push_pop_def)

text \<open>C33: \<open>AddData\<close> on a script that parses, when there is room for the data: no error is recorded, the script grows by
  \<open>canonicalDataSize\<close> bytes and still parses, to the old instructions followed by one push; the push
  satisfies the minimal-encoding rule the engine enforces, and executing it puts the data on the
  stack (the single byte zero becomes the empty string).\<close>

theorem AddData_canonical:
  assumes "sb_err b = None" and "parseOrErr (sb_script b) = Inr pops"
    and "length data \<le> MaxScriptElementSize"
    and "length (sb_script b) + canonicalDataSize data \<le> MaxScriptSize"
  shows "\<exists>script pop. AddData data b = b\<lparr>sb_script := script\<rparr>
      \<and> length script = length (sb_script b) + canonicalDataSize data
      \<and> parseOrErr script = Inr (pops @ [pop])
      \<and> (pop_value pop \<le> OP_PUSHDATA4 \<longrightarrow> checkMinimalDataPush pop = Inr ())
      \<and> opfunc C (pop_value pop) pop = onD (PushByteArray (if data = [0] then [] else data))"
proof -
  have len: "length data < 2 ^ 32" using assms(3) by (rule push_small)
  obtain p where p: "pop_bytes (push_pop data) = Inr p" "length p = canonicalDataSize data"
    "\<And>b. addData data b = b\<lparr>sb_script := sb_script b @ p\<rparr>"
    using addData_push[OF len] by blast
  have "AddData data b = b\<lparr>sb_script := sb_script b @ p\<rparr>"
    using assms p(3) by (simp add: AddData_def)
  moreover have "parseOrErr (sb_script b @ p) = Inr (pops @ [push_pop data])"
    by (rule parse_snoc[OF assms(2) wf_push_pop p(1)])
  ultimately show ?thesis
    using push_pop_minimal[OF len] opfunc_push[OF len] p(2) by (auto simp: pushed_def)
qed

theorem AddData_canonical_witness:
  "\<exists>script pop. AddData [7] NewScriptBuilder = NewScriptBuilder\<lparr>sb_script := script\<rparr>
     \<and> length script = 1 \<and> parseOrErr script = Inr [pop]"
  using AddData_canonical[of NewScriptBuilder "[]" "[7]"]
  by (fastforce simp: NewScriptBuilder_def parseOrErr_Nil MaxScriptElementSize_def MaxScriptSize_def
      canonicalDataSize_def)

text \<open>The operations of the builder, as a sequence of calls.\<close>

datatype builderCall = COp u8 | COps bytes | CData bytes | CInt int | CReset

definition runCall :: "builderCall \<Rightarrow> ScriptBuilder \<Rightarrow> ScriptBuilder option" where
  "runCall c b =
     (case c of COp v \<Rightarrow> Some (AddOp v b) | COps vs \<Rightarrow> Some (AddOps vs b) | CData d \<Rightarrow> Some (AddData d b)
      | CInt n \<Rightarrow> AddInt64 n b | CReset \<Rightarrow> Some (Reset b))"

fun runCalls :: "builderCall list \<Rightarrow> ScriptBuilder \<Rightarrow> ScriptBuilder option" where
  "runCalls [] b = Some b"
| "runCalls (c # cs) b = Option.bind (runCall c b) (runCalls cs)"

lemma AddData_size:
  "length (sb_script b) \<le> MaxScriptSize \<Longrightarrow> length (sb_script (AddData data b)) \<le> MaxScriptSize"
proof -
  assume b: "length (sb_script b) \<le> MaxScriptSize"
  show ?thesis
  proof (cases "length data \<le> MaxScriptElementSize")
    case True
    obtain p where "length p = canonicalDataSize data"
      "\<And>b. addData data b = b\<lparr>sb_script := sb_script b @ p\<rparr>"
      using addData_push[OF push_small[OF True]] by blast
    with b show ?thesis by (simp add: AddData_def)
  next
    case False
    with b show ?thesis by (simp add: AddData_def)
  qed
qed

lemma runCall_size:
  "runCall c b = Some b' \<Longrightarrow> length (sb_script b) \<le> MaxScriptSize \<Longrightarrow> length (sb_script b') \<le> MaxScriptSize"
  by (auto simp: runCall_def AddOp_def AddOps_def AddInt64_def Reset_def AddData_size
      split: builderCall.splits if_splits res.splits)

text \<open>However \<open>AddOp\<close>, \<open>AddOps\<close>, \<open>AddData\<close>, \<open>AddInt64\<close> and \<open>Reset\<close> are called on a new builder, the script never
  gets longer than \<open>MaxScriptSize\<close>.\<close>

theorem builder_size_invariant:
  assumes "runCalls cs NewScriptBuilder = Some b"
  shows "length (sb_script b) \<le> MaxScriptSize"
proof -
  have "runCalls cs b0 = Some b \<Longrightarrow> length (sb_script b0) \<le> MaxScriptSize \<Longrightarrow> length (sb_script b) \<le> MaxScriptSize" for b0
    by (induction cs arbitrary: b0) (auto simp: Option.bind_eq_Some_conv runCall_size)
  from this[OF assms] show ?thesis by (simp add: NewScriptBuilder_def)
qed

theorem builder_size_invariant_witness:
  "runCalls [COp OP_DUP, CInt 17] NewScriptBuilder \<noteq> None
   \<and> length (sb_script (the (runCalls [COp OP_DUP, CInt 17] NewScriptBuilder))) \<le> MaxScriptSize"
proof -
  have r: "runCalls [COp OP_DUP, CInt 17] NewScriptBuilder = Some \<lparr>sb_script = [OP_DUP, 1, 17], sb_err = None\<rparr>"
    by (simp add: runCall_def AddOp_def AddInt64_def NewScriptBuilder_def MaxScriptSize_def Bytes_def
        leDigits.simps drop_bit_eq_div bindP_def AddData_def canonicalDataSize_def addData_def MaxScriptElementSize_def Let_def)
  with builder_size_invariant[OF r] show ?thesis by simp
qed

end
