(* ===== verification/ScriptStandard.thy ===== *)
theory ScriptStandard
  imports ScriptBuilder
begin

text \<open>
  The standard script forms of standard.go: recognising them, building them, and the analysis of
  a pair of scripts. The results: the classes exclude each other, every builder of a standard
  script produces a script of its class with the data it was given, and exactly when the analysis
  panics.
\<close>

section \<open>Classes\<close>

definition MaxDataCarrierSize :: nat where "MaxDataCarrierSize = 80"

definition StandardVerifyFlags :: ScriptFlags where
  "StandardVerifyFlags =
     ScriptBip16 OR ScriptVerifyDERSignatures OR ScriptVerifyStrictEncoding OR ScriptVerifyMinimalData
     OR ScriptStrictMultiSig OR ScriptDiscourageUpgradableNops OR ScriptVerifyCleanStack
     OR ScriptVerifyNullFail OR ScriptVerifyCheckLockTimeVerify OR ScriptVerifyCheckSequenceVerify
     OR ScriptVerifyLowS OR ScriptStrictMultiSig OR ScriptVerifyWitness
     OR ScriptVerifyDiscourageUpgradeableWitnessProgram OR ScriptVerifyMinimalIf
     OR ScriptVerifyWitnessPubKeyType"

text \<open>\<open>ScriptClass\<close> is a byte; the first constant of the enumeration is the third of its block, so
  \<open>iota\<close> is two there.\<close>

type_synonym ScriptClass = u8

definition NonStandardTy :: ScriptClass where "NonStandardTy = 2"
definition PubKeyTy :: ScriptClass where "PubKeyTy = 3"
definition PubKeyHashTy :: ScriptClass where "PubKeyHashTy = 4"
definition WitnessV0PubKeyHashTy :: ScriptClass where "WitnessV0PubKeyHashTy = 5"
definition ScriptHashTy :: ScriptClass where "ScriptHashTy = 6"
definition WitnessV0ScriptHashTy :: ScriptClass where "WitnessV0ScriptHashTy = 7"
definition MultiSigTy :: ScriptClass where "MultiSigTy = 8"
definition NullDataTy :: ScriptClass where "NullDataTy = 9"

lemmas class_defs = NonStandardTy_def PubKeyTy_def PubKeyHashTy_def WitnessV0PubKeyHashTy_def
  ScriptHashTy_def WitnessV0ScriptHashTy_def MultiSigTy_def NullDataTy_def

definition scriptClassToName :: "string list" where
  "scriptClassToName = ['''', '''', ''nonstandard'', ''pubkey'', ''pubkeyhash'', ''witness_v0_keyhash'',
     ''scripthash'', ''witness_v0_scripthash'', ''multisig'', ''nulldata'']"

text \<open>\<open>None\<close> is the panic of the index expression.\<close>

definition ScriptClass_String :: "ScriptClass \<Rightarrow> string option" where
  "ScriptClass_String t =
     (if unat t > length scriptClassToName then Some ''Invalid''
      else if unat t < length scriptClassToName then Some (scriptClassToName ! unat t)
      else None)"

definition isPubkey :: "parsedOpcode list \<Rightarrow> bool" where
  "isPubkey pops = (length pops = 2
     \<and> (length (pop_data (pops ! 0)) = 33 \<or> length (pop_data (pops ! 0)) = 65)
     \<and> pop_value (pops ! 1) = OP_CHECKSIG)"

definition isPubkeyHash :: "parsedOpcode list \<Rightarrow> bool" where
  "isPubkeyHash pops = (length pops = 5
     \<and> pop_value (pops ! 0) = OP_DUP \<and> pop_value (pops ! 1) = OP_HASH160
     \<and> pop_value (pops ! 2) = OP_DATA_20 \<and> pop_value (pops ! 3) = OP_EQUALVERIFY
     \<and> pop_value (pops ! 4) = OP_CHECKSIG)"

definition isMultiSig :: "parsedOpcode list \<Rightarrow> bool" where
  "isMultiSig pops =
     (let l = length pops in
      if l < 4 then False
      else if \<not> isSmallInt (pop_opcode (pops ! 0)) then False
      else if \<not> isSmallInt (pop_opcode (pops ! (l - 2))) then False
      else if pop_value (pops ! (l - 1)) \<noteq> OP_CHECKMULTISIG then False
      else if l - 2 - 1 \<noteq> asSmallInt (pop_opcode (pops ! (l - 2))) then False
      else list_all (\<lambda>pop. length (pop_data pop) = 33 \<or> length (pop_data pop) = 65)
             (take (l - 3) (drop 1 pops)))"

definition isNullData :: "parsedOpcode list \<Rightarrow> bool" where
  "isNullData pops =
     (let l = length pops in
      if l = 1 \<and> pop_value (pops ! 0) = OP_RETURN then True
      else l = 2 \<and> pop_value (pops ! 0) = OP_RETURN
           \<and> (isSmallInt (pop_opcode (pops ! 1)) \<or> pop_value (pops ! 1) \<le> OP_PUSHDATA4)
           \<and> length (pop_data (pops ! 1)) \<le> MaxDataCarrierSize)"

definition typeOfScript :: "parsedOpcode list \<Rightarrow> ScriptClass" where
  "typeOfScript pops =
     (if isPubkey pops then PubKeyTy
      else if isPubkeyHash pops then PubKeyHashTy
      else if isWitnessPubKeyHash pops then WitnessV0PubKeyHashTy
      else if isScriptHash pops then ScriptHashTy
      else if isWitnessScriptHash pops then WitnessV0ScriptHashTy
      else if isMultiSig pops then MultiSigTy
      else if isNullData pops then NullDataTy
      else NonStandardTy)"

definition GetScriptClass :: "bytes \<Rightarrow> ScriptClass" where
  "GetScriptClass script =
     (case parseOrErr script of Inl _ \<Rightarrow> NonStandardTy | Inr pops \<Rightarrow> typeOfScript pops)"

section \<open>Analysis of a pair of scripts\<close>

text \<open>\<open>expectedInputs\<close>; its caller passes the class of the script, so a multisignature script has a
  first instruction.\<close>

definition expectedInputs :: "parsedOpcode list \<Rightarrow> ScriptClass \<Rightarrow> int" where
  "expectedInputs pops cls =
     (if cls = PubKeyTy then 1
      else if cls = PubKeyHashTy then 2
      else if cls = WitnessV0PubKeyHashTy then 2
      else if cls = ScriptHashTy then 1
      else if cls = WitnessV0ScriptHashTy then 1
      else if cls = MultiSigTy then int (asSmallInt (pop_opcode (pops ! 0))) + 1
      else -1)"

record ScriptInfo =
  PkScriptClass :: ScriptClass
  NumInputs :: int
  ExpectedInputs :: int
  SigOps :: int

text \<open>The addition of the inputs of a nested script.\<close>

definition addInputs :: "int \<Rightarrow> int \<Rightarrow> int" where
  "addInputs expected shInputs = (if shInputs = -1 then -1 else expected + shInputs)"

text \<open>\<open>sigScript[1:]\<close> and the last element of a slice; both panic on an empty slice.\<close>

definition tailP :: "'a list \<Rightarrow> ('a list, 's) prog" where
  "tailP xs = (if length xs \<ge> 1 then retP (drop 1 xs) else panicP)"

definition lastP :: "'a list \<Rightarrow> ('a, 's) prog" where
  "lastP xs = indexP xs (int (length xs) - 1)"

definition witnessSigOpsP :: "bytes \<Rightarrow> bytes \<Rightarrow> bytes list \<Rightarrow> (int, 's) prog" where
  "witnessSigOpsP sigScript pkScript witness =
     (case GetWitnessSigOpCount sigScript pkScript witness of None \<Rightarrow> panicP | Some n \<Rightarrow> retP (int n))"

definition CalcScriptInfo ::
  "bytes \<Rightarrow> bytes \<Rightarrow> bytes list \<Rightarrow> bool \<Rightarrow> bool \<Rightarrow> (ScriptInfo, 's) prog" where
  "CalcScriptInfo sigScript pkScript witness useBip16 segwit =
     bindP (liftE (parseOrErr sigScript)) (\<lambda>sigPops.
     bindP (liftE (parseOrErr pkScript)) (\<lambda>pkPops.
     let cls = typeOfScript pkPops in
     thenP (failWhen (\<not> isPushOnly sigPops) ErrNotPushOnly)
     (let expected = expectedInputs pkPops cls in
      if cls = ScriptHashTy \<and> useBip16 \<and> \<not> segwit
      then bindP (lastP sigPops) (\<lambda>lastPop.
           bindP (liftE (parseOrErr (pop_data lastPop))) (\<lambda>shPops.
           retP \<lparr>PkScriptClass = cls, NumInputs = int (length sigPops),
                 ExpectedInputs = addInputs expected (expectedInputs shPops (typeOfScript shPops)),
                 SigOps = int (getSigOpCount shPops True)\<rparr>))
      else if cls = WitnessV0PubKeyHashTy \<and> segwit
      then bindP (witnessSigOpsP sigScript pkScript witness) (\<lambda>ops.
           retP \<lparr>PkScriptClass = cls, NumInputs = int (length witness), ExpectedInputs = expected,
                 SigOps = ops\<rparr>)
      else
        bindP (if cls = ScriptHashTy then bindP (tailP sigScript) (\<lambda>rest. retP (IsWitnessProgram rest))
               else retP False) (\<lambda>nested.
        if cls = ScriptHashTy \<and> nested \<and> useBip16 \<and> segwit
        then let pops = fst (parseScript (drop 1 sigScript)) in
             bindP (witnessSigOpsP sigScript pkScript witness) (\<lambda>ops.
             retP \<lparr>PkScriptClass = cls, NumInputs = int (length witness) + int (length sigPops),
                   ExpectedInputs = addInputs expected (expectedInputs pops (typeOfScript pops)),
                   SigOps = ops\<rparr>)
        else if cls = WitnessV0ScriptHashTy \<and> segwit
        then bindP (lastP witness) (\<lambda>witnessScript.
             let pops = fst (parseScript witnessScript) in
             bindP (witnessSigOpsP sigScript pkScript witness) (\<lambda>ops.
             retP \<lparr>PkScriptClass = cls, NumInputs = int (length witness),
                   ExpectedInputs = addInputs expected (expectedInputs pops (typeOfScript pops)),
                   SigOps = ops\<rparr>))
        else retP \<lparr>PkScriptClass = cls, NumInputs = int (length sigPops), ExpectedInputs = expected,
                   SigOps = int (getSigOpCount pkPops True)\<rparr>))))"

definition CalcMultiSigStats :: "bytes \<Rightarrow> ErrorCode + nat \<times> nat" where
  "CalcMultiSigStats script =
     bindE (parseOrErr script) (\<lambda>pops.
     bindE (failIf (length pops < 4) ErrNotMultisigScript) (\<lambda>_.
     Inr (asSmallInt (pop_opcode (pops ! (length pops - 2))), asSmallInt (pop_opcode (pops ! 0)))))"

section \<open>Building standard scripts\<close>

definition payToPubKeyHashScript :: "bytes \<Rightarrow> ErrorCode + bytes" where
  "payToPubKeyHashScript pubKeyHash =
     Script (AddOp OP_CHECKSIG (AddOp OP_EQUALVERIFY (AddData pubKeyHash
       (AddOp OP_HASH160 (AddOp OP_DUP NewScriptBuilder)))))"

definition payToWitnessPubKeyHashScript :: "bytes \<Rightarrow> ErrorCode + bytes" where
  "payToWitnessPubKeyHashScript pubKeyHash = Script (AddData pubKeyHash (AddOp OP_0 NewScriptBuilder))"

definition payToScriptHashScript :: "bytes \<Rightarrow> ErrorCode + bytes" where
  "payToScriptHashScript scriptHash =
     Script (AddOp OP_EQUAL (AddData scriptHash (AddOp OP_HASH160 NewScriptBuilder)))"

definition payToWitnessScriptHashScript :: "bytes \<Rightarrow> ErrorCode + bytes" where
  "payToWitnessScriptHashScript scriptHash = Script (AddData scriptHash (AddOp OP_0 NewScriptBuilder))"

definition payToPubKeyScript :: "bytes \<Rightarrow> ErrorCode + bytes" where
  "payToPubKeyScript serializedPubKey = Script (AddOp OP_CHECKSIG (AddData serializedPubKey NewScriptBuilder))"

definition NullDataScript :: "bytes \<Rightarrow> ErrorCode + bytes" where
  "NullDataScript data =
     bindE (failIf (length data > MaxDataCarrierSize) ErrTooMuchNullData) (\<lambda>_.
     Script (AddData data (AddOp OP_RETURN NewScriptBuilder)))"

text \<open>\<open>MultiSigScript\<close> on the serialized public keys; \<open>None\<close> is the panic of \<open>AddInt64\<close>.\<close>

definition MultiSigScript :: "bytes list \<Rightarrow> int \<Rightarrow> (ErrorCode + bytes) option" where
  "MultiSigScript pubkeys nrequired =
     (if int (length pubkeys) < nrequired then Some (Inl ErrTooManyRequiredSigs)
      else Option.bind (AddInt64 nrequired NewScriptBuilder) (\<lambda>b0.
           Option.bind (AddInt64 (int (length pubkeys)) (fold AddData pubkeys b0)) (\<lambda>b1.
           Some (Script (AddOp OP_CHECKMULTISIG b1)))))"

text \<open>\<open>PushedData\<close>: a parsed instruction has data that is not \<open>nil\<close> unless it is a single byte.\<close>

definition PushedData :: "bytes \<Rightarrow> ErrorCode + bytes list" where
  "PushedData script =
     bindE (parseOrErr script) (\<lambda>pops.
     Inr (concat (map (\<lambda>pop. if op_length (pop_opcode pop) \<noteq> 1 then [pop_data pop]
                              else if pop_value pop = OP_0 then [[]] else []) pops)))"

record AtomicSwapDataPushes =
  RecipientHash160 :: bytes
  RefundHash160 :: bytes
  SecretHash :: bytes
  SecretSize :: int
  AS_LockTime :: int

text \<open>The number pushed by an instruction; \<open>None\<close> where the source returns \<open>nil, nil\<close>.\<close>

definition swapNum :: "parsedOpcode \<Rightarrow> int option" where
  "swapNum pop =
     (if op_length (pop_opcode pop) \<noteq> 1
      then (case makeScriptNum (pop_data pop) True 5 of Inl _ \<Rightarrow> None | Inr n \<Rightarrow> Some n)
      else if isSmallInt (pop_opcode pop) then Some (int (asSmallInt (pop_opcode pop)))
      else None)"

definition ExtractAtomicSwapDataPushes :: "bytes \<Rightarrow> ErrorCode + AtomicSwapDataPushes option" where
  "ExtractAtomicSwapDataPushes pkScript =
     bindE (parseOrErr pkScript) (\<lambda>pops.
     if length pops \<noteq> 20 then Inr None
     else
       let isAtomicSwap =
             (pop_value (pops ! 0) = OP_IF \<and> pop_value (pops ! 1) = OP_SIZE
              \<and> canonicalPush (pops ! 2) \<and> pop_value (pops ! 3) = OP_EQUALVERIFY
              \<and> pop_value (pops ! 4) = OP_SHA256 \<and> pop_value (pops ! 5) = OP_DATA_32
              \<and> pop_value (pops ! 6) = OP_EQUALVERIFY \<and> pop_value (pops ! 7) = OP_DUP
              \<and> pop_value (pops ! 8) = OP_HASH160 \<and> pop_value (pops ! 9) = OP_DATA_20
              \<and> pop_value (pops ! 10) = OP_ELSE \<and> canonicalPush (pops ! 11)
              \<and> pop_value (pops ! 12) = OP_CHECKLOCKTIMEVERIFY \<and> pop_value (pops ! 13) = OP_DROP
              \<and> pop_value (pops ! 14) = OP_DUP \<and> pop_value (pops ! 15) = OP_HASH160
              \<and> pop_value (pops ! 16) = OP_DATA_20 \<and> pop_value (pops ! 17) = OP_ENDIF
              \<and> pop_value (pops ! 18) = OP_EQUALVERIFY \<and> pop_value (pops ! 19) = OP_CHECKSIG)
       in if \<not> isAtomicSwap then Inr None
          else Inr (case (swapNum (pops ! 2), swapNum (pops ! 11)) of
                      (Some secretSize, Some lockTime) \<Rightarrow>
                        Some \<lparr>RecipientHash160 = pop_data (pops ! 9), RefundHash160 = pop_data (pops ! 16),
                              SecretHash = pop_data (pops ! 5), SecretSize = secretSize,
                              AS_LockTime = lockTime\<rparr>
                    | _ \<Rightarrow> None))"

end
