(* ===== verification/ScriptSafety.thy ===== *)
theory ScriptSafety
  imports ScriptOpcodes
begin

text \<open>
  No opcode handler panics or blocks. The locale \<open>contract\<close> is the interface between a computation
  and its caller: started in a good state with room for \<open>k\<close> more items, the computation does not panic
  or block, a normal return establishes a property of the result, leaves a good state related to
  the first one and at most \<open>k\<close> more items. Contracts compose; the locale is interpreted for the
  stacks and for the engine, and each handler is checked by the rules collected in
  \<open>safe\_rules\<close>.
\<close>

section \<open>Contracts\<close>

locale contract =
  fixes good :: "'s \<Rightarrow> bool"
    and items :: "'s \<Rightarrow> nat"
    and rel :: "'s \<Rightarrow> 's \<Rightarrow> bool"
  assumes rel_refl: "rel s s"
    and rel_trans: "rel s t \<Longrightarrow> rel t u \<Longrightarrow> rel s u"
begin

definition safe :: "nat \<Rightarrow> ('a, 's) prog \<Rightarrow> ('a \<Rightarrow> bool) \<Rightarrow> bool" where
  "safe k m P \<longleftrightarrow> (\<forall>s. good s \<longrightarrow> items s + k < 2 ^ 31 \<longrightarrow>
     wp False m (\<lambda>x t. P x \<and> good t \<and> rel s t \<and> items t \<le> items s + k) s)"

lemma safeI:
  "(\<And>s. good s \<Longrightarrow> items s + k < 2 ^ 31 \<Longrightarrow>
      wp False m (\<lambda>x t. P x \<and> good t \<and> rel s t \<and> items t \<le> items s + k) s) \<Longrightarrow> safe k m P"
  by (simp add: safe_def)

lemma safeD:
  "safe k m P \<Longrightarrow> good s \<Longrightarrow> items s + k < 2 ^ 31 \<Longrightarrow>
     wp False m (\<lambda>x t. P x \<and> good t \<and> rel s t \<and> items t \<le> items s + k) s"
  by (simp add: safe_def)

lemma safe_weaken:
  assumes "safe j m P" and "j \<le> k" and "\<And>x. P x \<Longrightarrow> Q x"
  shows "safe k m Q"
proof (rule safeI)
  fix s assume "good s" "items s + k < 2 ^ 31"
  with assms(2) have "wp False m (\<lambda>x t. P x \<and> good t \<and> rel s t \<and> items t \<le> items s + j) s"
    by (intro safeD[OF assms(1)]) auto
  then show "wp False m (\<lambda>x t. Q x \<and> good t \<and> rel s t \<and> items t \<le> items s + k) s"
    by (rule wp_mono) (use assms in auto)
qed

lemma safe_bind:
  assumes "safe j m P" and "\<And>x. P x \<Longrightarrow> safe k (f x) Q"
  shows "safe (j + k) (bindP m f) Q"
proof (rule safeI)
  fix s assume s: "good s" "items s + (j + k) < 2 ^ 31"
  then have "wp False m (\<lambda>x t. P x \<and> good t \<and> rel s t \<and> items t \<le> items s + j) s"
    by (intro safeD[OF assms(1)]) auto
  then show "wp False (bindP m f) (\<lambda>x t. Q x \<and> good t \<and> rel s t \<and> items t \<le> items s + (j + k)) s"
    unfolding wp_bind
  proof (rule wp_mono)
    fix x t assume t: "P x \<and> good t \<and> rel s t \<and> items t \<le> items s + j"
    then have "wp False (f x) (\<lambda>y u. Q y \<and> good u \<and> rel t u \<and> items u \<le> items t + k) t"
      using s by (intro safeD[OF assms(2)]) auto
    then show "wp False (f x) (\<lambda>y u. Q y \<and> good u \<and> rel s u \<and> items u \<le> items s + (j + k)) t"
      by (rule wp_mono) (use t rel_trans in auto)
  qed
qed

lemma safe_then: "safe j m (\<lambda>_. True) \<Longrightarrow> safe k n Q \<Longrightarrow> safe (j + k) (thenP m n) Q"
  unfolding thenP_def by (rule safe_bind)

lemma safe_ret: "P x \<Longrightarrow> safe 0 (retP x) P"
  by (rule safeI) (simp add: rel_refl)

lemma safe_fail: "safe 0 (failP e) P"
  by (rule safeI) simp

lemma safe_failWhen: "(\<not> b \<Longrightarrow> P ()) \<Longrightarrow> safe 0 (failWhen b e) P"
  by (rule safeI) (simp add: rel_refl)

lemma safe_get: "(\<And>s. good s \<Longrightarrow> P (f s)) \<Longrightarrow> safe 0 (getP f) P"
  by (rule safeI) (simp add: rel_refl)

lemma safe_liftE: "(\<And>x. r = Inr x \<Longrightarrow> P x) \<Longrightarrow> safe 0 (liftE r) P"
  by (rule safeI) (simp add: rel_refl)

lemma safe_index: "0 \<le> i \<Longrightarrow> i < int (length xs) \<Longrightarrow> P (xs ! nat i) \<Longrightarrow> safe 0 (indexP xs i) P"
  by (rule safeI) (simp add: rel_refl)

lemma safe_if:
  assumes "b \<Longrightarrow> safe j m P" and "\<not> b \<Longrightarrow> safe k n P"
  shows "safe (max j k) (if b then m else n) P"
  using assms safe_weaken[of j m P "max j k" P] safe_weaken[of k n P "max j k" P] by auto

lemma safe_option:
  assumes "r = None \<Longrightarrow> safe j m P" and "\<And>x. r = Some x \<Longrightarrow> safe k (f x) P"
  shows "safe (max j k) (case r of None \<Rightarrow> m | Some x \<Rightarrow> f x) P"
  using assms safe_weaken[of j m P "max j k" P] safe_weaken[of k _ P "max j k" P]
  by (cases r) auto

lemma safe_repeat: "safe k m (\<lambda>_. True) \<Longrightarrow> safe (n * k) (repeatP n m) (\<lambda>_. True)"
  by (induction n) (auto intro: safe_ret safe_then)

lemma safe_collect: "safe k m P \<Longrightarrow> safe (n * k) (collectP n m) (\<lambda>xs. length xs = n)"
proof (induction n)
  case 0
  then show ?case by (simp add: safe_ret)
next
  case (Suc n)
  have "safe (k + (n * k + 0)) (collectP (Suc n) m) (\<lambda>xs. length xs = Suc n)"
    unfolding collectP.simps
    by (intro safe_bind[OF Suc.prems] safe_bind[OF Suc.IH[OF Suc.prems]] safe_ret) simp
  then show ?case by simp
qed

end

section \<open>Stack operations\<close>

interpretation ss: contract sready "\<lambda>s. length (stk s)"
  "\<lambda>s t. verifyMinimalData t = verifyMinimalData s"
  by unfold_locales auto

abbreviation ssafe :: "nat \<Rightarrow> ('a, stack) prog \<Rightarrow> ('a \<Rightarrow> bool) \<Rightarrow> bool" where
  "ssafe \<equiv> ss.safe"

named_theorems safe_rules \<open>contracts of operations\<close>

lemma ssafe_Push [safe_rules]: "ssafe 1 (PushByteArray x) (\<lambda>_. True)"
  by (rule ss.safeI) (auto simp: wp_def sready_def PushByteArray_apply)

lemma Bytes_total:
  assumes "- (2 ^ 63) < n"
  obtains v where "\<And>s. Bytes n s = Ok v s"
proof (cases "n < 2 ^ 63")
  case True
  show ?thesis by (rule that[OF Bytes_apply[OF assms True]])
next
  case False
  then have "leDigits n \<noteq> []" by (subst leDigits.simps) auto
  with False show ?thesis
    by (intro that[of "if leDigits n ! nat (int (length (leDigits n)) - 1) AND 0x80 \<noteq> 0
        then leDigits n @ [0] else leDigits n"]) (auto simp: Bytes_def bindP_def Let_def)
qed

lemma ssafe_PushInt [safe_rules]:
  assumes "- (2 ^ 63) < n"
  shows "ssafe 1 (PushInt n) (\<lambda>_. True)"
proof -
  obtain v where "\<And>s :: stack. Bytes n s = Ok v s" using Bytes_total[OF assms] by blast
  then have "PushInt n = PushByteArray v" by (simp add: PushInt_def bindP_def fun_eq_iff)
  then show ?thesis by (simp only: ssafe_Push)
qed

lemma ssafe_PushBool [safe_rules]: "ssafe 1 (PushBool b) (\<lambda>_. True)"
  unfolding PushBool_def by (rule ssafe_Push)

lemma nipN_cases:
  assumes "sready s"
  obtains (bad) "nipN i s = Err ErrInvalidStackOperation (s\<lparr>stkMutex := True\<rparr>)"
  | (ok) xs x ys where "stk s = xs @ x # ys" "i = int (length ys)" "nipN i s = Ok x (s\<lparr>stk := xs @ ys\<rparr>)"
proof (cases "0 \<le> i \<and> i < int (length (stk s))")
  case False
  then show ?thesis using bad nipN_fail[OF assms, of i] by auto
next
  case True
  let ?k = "length (stk s) - Suc (nat i)"
  have k: "?k < length (stk s)" using True by auto
  have split: "stk s = take ?k (stk s) @ stk s ! ?k # drop (Suc ?k) (stk s)"
    by (rule id_take_nth_drop[OF k])
  have i: "i = int (length (drop (Suc ?k) (stk s)))" using True by auto
  from nipN_ok[OF assms split] i have "nipN i s = Ok (stk s ! ?k) (s\<lparr>stk := take ?k (stk s) @ drop (Suc ?k) (stk s)\<rparr>)"
    by simp
  then show ?thesis by (rule ok[OF split i])
qed

lemma ssafe_nipN [safe_rules]: "ssafe 0 (nipN i) (\<lambda>_. True)"
proof (rule ss.safeI)
  fix s assume s: "sready s" "length (stk s) + 0 < 2 ^ 31"
  show "wp False (nipN i) (\<lambda>x t. True \<and> sready t \<and> verifyMinimalData t = verifyMinimalData s
      \<and> length (stk t) \<le> length (stk s) + 0) s"
    using s(1) by (cases rule: nipN_cases[of s i]) (use s in \<open>auto simp: wp_def sready_def\<close>)
qed

lemma ssafe_Peek [safe_rules]: "ssafe 0 (PeekByteArray i) (\<lambda>_. True)"
proof (rule ss.safeI)
  fix s assume s: "sready s" "length (stk s) + 0 < 2 ^ 31"
  show "wp False (PeekByteArray i) (\<lambda>x t. True \<and> sready t \<and> verifyMinimalData t = verifyMinimalData s
      \<and> length (stk t) \<le> length (stk s) + 0) s"
  proof (cases "0 \<le> i \<and> i < int (length (stk s))")
    case True
    let ?k = "length (stk s) - Suc (nat i)"
    have k: "?k < length (stk s)" using True by auto
    have i: "i = int (length (drop (Suc ?k) (stk s)))" using True by auto
    have "PeekByteArray i s = Ok (stk s ! ?k) s"
      by (subst (1) i, rule PeekByteArray_ok[OF _ id_take_nth_drop[OF k]]) (use s in auto)
    then show ?thesis using s by (simp add: wp_def)
  next
    case False
    then have "PeekByteArray i s = Err ErrInvalidStackOperation s"
      using s by (intro PeekByteArray_fail) auto
    then show ?thesis by (simp add: wp_def)
  qed
qed

lemma ssafe_Depth [safe_rules]: "ssafe 0 Depth (\<lambda>n. 0 \<le> n \<and> n < 2 ^ 31)"
  by (rule ss.safeI) (simp add: wp_def Depth_apply)

lemma makeScriptNum_small: "makeScriptNum v q defaultScriptNumLen = Inr n \<Longrightarrow> abs n < 2 ^ 31"
  using num_value_bound[of v 3] makeScriptNum_Inr[of v q 4 n] by (auto simp: defaultScriptNumLen_def)

lemma ssafe_Pop [safe_rules]: "ssafe 0 PopByteArray (\<lambda>_. True)"
  unfolding PopByteArray_def by (rule ssafe_nipN)

lemma ssafe_PopInt [safe_rules]: "ssafe 0 PopInt (\<lambda>n. abs n < 2 ^ 31)"
  unfolding PopInt_def
  by (rule ss.safe_weaken[where j = "0 + (0 + 0)"])
    (intro ss.safe_bind[OF ssafe_Pop] ss.safe_bind[OF ss.safe_get[where P = "\<lambda>_. True"]] ss.safe_liftE,
      auto dest: makeScriptNum_small)

lemma ssafe_PopBool [safe_rules]: "ssafe 0 PopBool (\<lambda>_. True)"
  unfolding PopBool_def
  by (rule ss.safe_weaken[where j = "0 + 0"]) (intro ss.safe_bind[OF ssafe_Pop] ss.safe_ret, auto)

lemma ssafe_roll: "ssafe n (repeatP n (bindP (nipN i) PushByteArray)) (\<lambda>_. True)"
  using ss.safe_repeat[OF ss.safe_bind[OF ssafe_nipN ssafe_Push], of n i] by simp

lemma ssafe_copy: "ssafe n (repeatP n (bindP (PeekByteArray i) PushByteArray)) (\<lambda>_. True)"
  using ss.safe_repeat[OF ss.safe_bind[OF ssafe_Peek ssafe_Push], of n i] by simp

lemma ssafe_drop: "ssafe 0 (repeatP n (bindP PopByteArray (\<lambda>_. retP ()))) (\<lambda>_. True)"
  using ss.safe_repeat[OF ss.safe_bind[OF ssafe_Pop ss.safe_ret[where P = "\<lambda>_. True"]], of n] by simp

lemma ssafe_guarded: "ssafe k m (\<lambda>_. True) \<Longrightarrow> ssafe k (thenP (failWhen b e) m) (\<lambda>_. True)"
  using ss.safe_then[OF ss.safe_failWhen[of b "\<lambda>_. True" e], of k m] by simp

lemma ssafe_blocks [safe_rules]:
  "ssafe (nat n) (DupN n) (\<lambda>_. True)" "ssafe (nat n) (OverN n) (\<lambda>_. True)"
  "ssafe (nat n) (RotN n) (\<lambda>_. True)" "ssafe (nat n) (SwapN n) (\<lambda>_. True)"
  "ssafe 0 (DropN n) (\<lambda>_. True)"
  unfolding DupN_def OverN_def RotN_def SwapN_def DropN_def
  by (intro ssafe_guarded ssafe_roll ssafe_copy ssafe_drop)+

lemma ssafe_single [safe_rules]:
  "ssafe 1 (PickN n) (\<lambda>_. True)" "ssafe 1 (RollN n) (\<lambda>_. True)"
  "ssafe 0 (NipN n) (\<lambda>_. True)" "ssafe 3 Tuck (\<lambda>_. True)"
  using ss.safe_bind[OF ssafe_Peek[of n] ssafe_Push] ss.safe_bind[OF ssafe_nipN[of n] ssafe_Push]
    ss.safe_bind[OF ssafe_nipN[of n] ss.safe_ret[where P = "\<lambda>_. True"]]
    ss.safe_bind[OF ssafe_Pop ss.safe_bind[OF ssafe_Pop ss.safe_then[OF ssafe_Push
      ss.safe_then[OF ssafe_Push ssafe_Push]]]]
  by (simp_all add: PickN_def RollN_def NipN_def Tuck_def numeral_3_eq_3)

section \<open>The engine\<close>

text \<open>What a handler relies on, and what it leaves alone.\<close>

definition engine_ready :: "Engine \<Rightarrow> bool" where
  "engine_ready vm \<longleftrightarrow> sready (dstack vm) \<and> sready (astack vm) \<and> txIdx vm < length (tx_TxIn (tx vm))
     \<and> scriptIdx vm < length (scripts vm) \<and> lastCodeSep vm \<le> scriptOff vm
     \<and> scriptOff vm \<le> length (scripts vm ! scriptIdx vm)"

definition stack_items :: "Engine \<Rightarrow> nat" where
  "stack_items vm = length (stk (dstack vm)) + length (stk (astack vm))"

definition frame :: "Engine \<Rightarrow> Engine" where
  "frame vm = vm\<lparr>dstack := (dstack vm)\<lparr>stk := [], stkMutex := False\<rparr>,
     astack := (astack vm)\<lparr>stk := [], stkMutex := False\<rparr>,
     lastCodeSep := 0, condStack := [], numOps := 0, sigCache := None\<rparr>"

interpretation hs: contract engine_ready stack_items "\<lambda>vm vm'. frame vm' = frame vm"
  by unfold_locales auto

abbreviation hsafe :: "nat \<Rightarrow> 'a vm \<Rightarrow> ('a \<Rightarrow> bool) \<Rightarrow> bool" where
  "hsafe \<equiv> hs.safe"

lemma hsafe_onD [safe_rules]:
  assumes "ssafe k m P"
  shows "hsafe k (onD m) P"
proof (rule hs.safeI)
  fix vm assume "engine_ready vm" "stack_items vm + k < 2 ^ 31"
  then have vm: "sready (dstack vm)" "length (stk (dstack vm)) + k < 2 ^ 31" "engine_ready vm"
    by (auto simp: engine_ready_def stack_items_def)
  show "wp False (onD m) (\<lambda>x t. P x \<and> engine_ready t \<and> frame t = frame vm
      \<and> stack_items t \<le> stack_items vm + k) vm"
    unfolding onD_def wp_onField
    by (rule wp_mono[OF ss.safeD[OF assms vm(1,2)]])
      (use vm in \<open>auto simp: engine_ready_def stack_items_def frame_def\<close>)
qed

lemma hsafe_onA [safe_rules]:
  assumes "ssafe k m P"
  shows "hsafe k (onA m) P"
proof (rule hs.safeI)
  fix vm assume "engine_ready vm" "stack_items vm + k < 2 ^ 31"
  then have vm: "sready (astack vm)" "length (stk (astack vm)) + k < 2 ^ 31" "engine_ready vm"
    by (auto simp: engine_ready_def stack_items_def)
  show "wp False (onA m) (\<lambda>x t. P x \<and> engine_ready t \<and> frame t = frame vm
      \<and> stack_items t \<le> stack_items vm + k) vm"
    unfolding onA_def wp_onField
    by (rule wp_mono[OF ss.safeD[OF assms vm(1,2)]])
      (use vm in \<open>auto simp: engine_ready_def stack_items_def frame_def\<close>)
qed

lemma hsafe_modify [safe_rules]:
  "hsafe 0 (modifyP (condStack_update f)) (\<lambda>_. True)"
  "hsafe 0 (modifyP (numOps_update g)) (\<lambda>_. True)"
  "hsafe 0 (modifyP (sigCache_update h)) (\<lambda>_. True)"
  by (rule hs.safeI; simp add: engine_ready_def stack_items_def frame_def)+

lemma hsafe_basic [safe_rules]:
  "hsafe 0 (failWhen b e) (\<lambda>_. True)" "hsafe 0 (getP f) (\<lambda>_. True)" "hsafe 0 (retP x) (\<lambda>_. True)"
  by (simp_all add: hs.safe_failWhen hs.safe_get hs.safe_ret)

lemmas hsafe_struct [safe_rules] = hs.safe_bind hs.safe_then hs.safe_if hs.safe_option hs.safe_fail

lemma hsafe_ifFlag [safe_rules]:
  assumes "hsafe j m P" and "hsafe k n P"
  shows "hsafe (0 + max j k) (ifFlag flag m n) P"
  unfolding ifFlag_def by (rule safe_rules assms)+

lemma hsafe_subScript [safe_rules]: "hsafe 0 subScript (\<lambda>_. True)"
  by (rule hs.safeI) (auto simp: subScript_def engine_ready_def)

lemma hsafe_currentTxIn [safe_rules]: "hsafe 0 currentTxIn (\<lambda>_. True)"
  by (rule hs.safeI) (simp add: currentTxIn_def engine_ready_def)

lemma hsafe_liftE [safe_rules]: "hsafe 0 (liftE r) (\<lambda>_. True)"
  by (rule hs.safe_liftE) simp

lemma hsafe_checks [safe_rules]:
  "hsafe 0 (checkHashTypeEncoding t) (\<lambda>_. True)" "hsafe 0 (checkPubKeyEncoding k) (\<lambda>_. True)"
  by (rule hs.safeI; simp add: checkHashTypeEncoding_def checkPubKeyEncoding_def ifFlag_def Let_def)+

lemma hsafe_checkDER: "hsafe 0 (checkDER sig) (\<lambda>_. True)"
  by (rule hs.safeI) (auto simp: checkDER_def ifFlag_def Let_def)

lemma calcSignatureHash_total:
  "idx < length (tx_TxIn mtx) \<Longrightarrow> calcSignatureHash sha script t mtx idx \<noteq> None"
  by (simp add: calcSignatureHash_def signedCopy_def shallowCopyTx_def Let_def)

lemma hsafe_scriptSigHash [safe_rules]: "hsafe 0 (scriptSigHash C script t) (\<lambda>_. True)"
  by (rule hs.safeI)
    (auto simp: scriptSigHash_def engine_ready_def Let_def dest: calcSignatureHash_total split: option.split)

lemma hsafe_verifySig [safe_rules]: "hsafe 0 (verifySig C hash sg pk) (\<lambda>_. True)"
  by (rule hs.safeI)
    (auto simp: verifySig_def engine_ready_def stack_items_def frame_def Let_def split: option.split)

section \<open>Handlers\<close>

text \<open>No handler leaves more than three items more than it found.\<close>

lemma hsafe_handlerI: "hsafe j m (\<lambda>_. True) \<Longrightarrow> j \<le> k \<Longrightarrow> hsafe k m (\<lambda>_. True)"
  by (rule hs.safe_weaken)

lemma hsafe_pops [safe_rules]:
  "hsafe 0 peekNum5 (\<lambda>_. True)" "hsafe 0 popIfBool (\<lambda>_. True)"
  "hsafe 0 (abstractVerify op c) (\<lambda>_. True)" "hsafe 0 (checkSignatureEncoding sig) (\<lambda>_. True)"
  unfolding peekNum5_def popIfBool_def abstractVerify_def checkSignatureEncoding_def
  by ((rule hsafe_handlerI, (rule safe_rules hsafe_checkDER | force)+)[1])+

lemma hsafe_compare [safe_rules]:
  "hsafe 1 (opcodeEqual op) (\<lambda>_. True)" "hsafe 1 (opcodeNumEqual op) (\<lambda>_. True)"
  unfolding opcodeEqual_def opcodeNumEqual_def
  by ((rule hsafe_handlerI, (rule safe_rules | force)+)[1])+

lemma hsafe_opcodeN: "hsafe 1 (opcodeN op) (\<lambda>_. True)"
  unfolding opcodeN_def
  by (intro hsafe_onD ssafe_PushInt less_le_trans[OF _ unsigned_greater_eq]) simp

lemma hsafe_opcodeCodeSeparator: "hsafe 0 (opcodeCodeSeparator op) (\<lambda>_. True)"
  by (rule hs.safeI) (simp add: opcodeCodeSeparator_def engine_ready_def stack_items_def frame_def)

lemma hsafe_constants:
  "hsafe 3 (opcodeDisabled op) (\<lambda>_. True)" "hsafe 3 (opcodeReserved op) (\<lambda>_. True)"
  "hsafe 3 (opcodeInvalid op) (\<lambda>_. True)" "hsafe 3 (opcodeFalse op) (\<lambda>_. True)"
  "hsafe 3 (opcodePushData op) (\<lambda>_. True)" "hsafe 3 (opcode1Negate op) (\<lambda>_. True)"
  "hsafe 3 (opcodeNop op) (\<lambda>_. True)"
  unfolding opcodeDisabled_def opcodeReserved_def opcodeInvalid_def opcodeFalse_def
    opcodePushData_def opcode1Negate_def opcodeNop_def
  by ((rule hsafe_handlerI, (rule safe_rules | force)+)[1])+

lemma hsafe_flow:
  "hsafe 3 (opcodeIf op) (\<lambda>_. True)" "hsafe 3 (opcodeNotIf op) (\<lambda>_. True)"
  "hsafe 3 (opcodeElse op) (\<lambda>_. True)" "hsafe 3 (opcodeEndif op) (\<lambda>_. True)"
  "hsafe 3 (opcodeVerify op) (\<lambda>_. True)" "hsafe 3 (opcodeReturn op) (\<lambda>_. True)"
  "hsafe 3 (opcodeCheckLockTimeVerify op) (\<lambda>_. True)" "hsafe 3 (opcodeCheckSequenceVerify op) (\<lambda>_. True)"
  unfolding opcodeIf_def opcodeNotIf_def opcodeElse_def opcodeEndif_def opcodeVerify_def
    opcodeReturn_def opcodeCheckLockTimeVerify_def opcodeCheckSequenceVerify_def Let_def
    pushCond_def
  by ((rule hsafe_handlerI, (rule safe_rules | force)+)[1])+

lemma hsafe_stack:
  "hsafe 3 (opcodeToAltStack op) (\<lambda>_. True)" "hsafe 3 (opcodeFromAltStack op) (\<lambda>_. True)"
  "hsafe 3 (opcode2Drop op) (\<lambda>_. True)" "hsafe 3 (opcode2Dup op) (\<lambda>_. True)"
  "hsafe 3 (opcode3Dup op) (\<lambda>_. True)" "hsafe 3 (opcode2Over op) (\<lambda>_. True)"
  "hsafe 3 (opcode2Rot op) (\<lambda>_. True)" "hsafe 3 (opcode2Swap op) (\<lambda>_. True)"
  "hsafe 3 (opcodeIfDup op) (\<lambda>_. True)" "hsafe 3 (opcodeDepth op) (\<lambda>_. True)"
  "hsafe 3 (opcodeDrop op) (\<lambda>_. True)" "hsafe 3 (opcodeDup op) (\<lambda>_. True)"
  "hsafe 3 (opcodeNip op) (\<lambda>_. True)" "hsafe 3 (opcodeOver op) (\<lambda>_. True)"
  "hsafe 3 (opcodePick op) (\<lambda>_. True)" "hsafe 3 (opcodeRoll op) (\<lambda>_. True)"
  "hsafe 3 (opcodeRot op) (\<lambda>_. True)" "hsafe 3 (opcodeSwap op) (\<lambda>_. True)"
  "hsafe 3 (opcodeTuck op) (\<lambda>_. True)" "hsafe 3 (opcodeSize op) (\<lambda>_. True)"
  "hsafe 3 (opcodeEqualVerify op) (\<lambda>_. True)"
  unfolding opcodeToAltStack_def opcodeFromAltStack_def opcode2Drop_def opcode2Dup_def
    opcode3Dup_def opcode2Over_def opcode2Rot_def opcode2Swap_def opcodeIfDup_def opcodeDepth_def
    opcodeDrop_def opcodeDup_def opcodeNip_def opcodeOver_def opcodePick_def opcodeRoll_def
    opcodeRot_def opcodeSwap_def opcodeTuck_def opcodeSize_def opcodeEqualVerify_def
  by ((rule hsafe_handlerI, (rule safe_rules | force)+)[1])+

lemma hsafe_arith:
  "hsafe 3 (opcode1Add op) (\<lambda>_. True)" "hsafe 3 (opcode1Sub op) (\<lambda>_. True)"
  "hsafe 3 (opcodeNegate op) (\<lambda>_. True)" "hsafe 3 (opcodeAbs op) (\<lambda>_. True)"
  "hsafe 3 (opcodeNot op) (\<lambda>_. True)" "hsafe 3 (opcode0NotEqual op) (\<lambda>_. True)"
  "hsafe 3 (opcodeAdd op) (\<lambda>_. True)" "hsafe 3 (opcodeSub op) (\<lambda>_. True)"
  "hsafe 3 (opcodeBoolAnd op) (\<lambda>_. True)" "hsafe 3 (opcodeBoolOr op) (\<lambda>_. True)"
  "hsafe 3 (opcodeNumEqualVerify op) (\<lambda>_. True)" "hsafe 3 (opcodeNumNotEqual op) (\<lambda>_. True)"
  "hsafe 3 (opcodeLessThan op) (\<lambda>_. True)" "hsafe 3 (opcodeGreaterThan op) (\<lambda>_. True)"
  "hsafe 3 (opcodeLessThanOrEqual op) (\<lambda>_. True)" "hsafe 3 (opcodeGreaterThanOrEqual op) (\<lambda>_. True)"
  "hsafe 3 (opcodeMin op) (\<lambda>_. True)" "hsafe 3 (opcodeMax op) (\<lambda>_. True)"
  "hsafe 3 (opcodeWithin op) (\<lambda>_. True)"
  unfolding opcode1Add_def opcode1Sub_def opcodeNegate_def opcodeAbs_def opcodeNot_def
    opcode0NotEqual_def opcodeAdd_def opcodeSub_def opcodeBoolAnd_def opcodeBoolOr_def
    opcodeNumEqualVerify_def opcodeNumNotEqual_def opcodeLessThan_def opcodeGreaterThan_def
    opcodeLessThanOrEqual_def opcodeGreaterThanOrEqual_def opcodeMin_def opcodeMax_def
    opcodeWithin_def
  by ((rule hsafe_handlerI, (rule safe_rules | force)+)[1])+

lemma hsafe_hash:
  "hsafe 3 (opcodeRipeMD160 C op) (\<lambda>_. True)" "hsafe 3 (opcodeSHA1 C op) (\<lambda>_. True)"
  "hsafe 3 (opcodeSHA256 C op) (\<lambda>_. True)" "hsafe 3 (opcodeHash160 C op) (\<lambda>_. True)"
  "hsafe 3 (opcodeHash256 C op) (\<lambda>_. True)"
  unfolding opcodeRipeMD160_def opcodeSHA1_def opcodeSHA256_def opcodeHash160_def opcodeHash256_def
  by ((rule hsafe_handlerI, (rule safe_rules | force)+)[1])+

lemma hsafe_multiSigTryKey [safe_rules]: "hsafe 0 (multiSigTryKey C script pk t sg) (\<lambda>_. True)"
  unfolding multiSigTryKey_def by (rule hsafe_handlerI, (rule safe_rules | force)+)

lemma hsafe_multiSigTry [safe_rules]: "hsafe 0 (multiSigTry C script pk info) (\<lambda>_. True)"
  unfolding multiSigTry_def Let_def by (rule hsafe_handlerI, (rule safe_rules | force)+)

text \<open>The loop of \<open>OP\_CHECKMULTISIG\<close> stays inside both slices.\<close>

lemma hsafe_multiSigLoop:
  "signatureIdx + numSignatures = length sigs \<Longrightarrow> pubKeyIdx + n = length pubKeys + 1 \<Longrightarrow>
     hsafe 0 (multiSigLoop C script pubKeys n numSignatures pubKeyIdx signatureIdx sigs) (\<lambda>_. True)"
proof (induction C script pubKeys n numSignatures pubKeyIdx signatureIdx sigs rule: multiSigLoop.induct)
  case (1 C script pubKeys numSignatures pubKeyIdx signatureIdx sigs)
  then show ?case by (simp add: hs.safe_ret)
next
  case (2 C script pubKeys n numSignatures pubKeyIdx signatureIdx sigs)
  have loop: "hsafe 0 (multiSigLoop C script pubKeys n (if valid then numSignatures - 1 else numSignatures)
      (pubKeyIdx + 1) (if valid then signatureIdx + 1 else signatureIdx) (sigs[signatureIdx := info']))
      (\<lambda>_. True)" if "numSignatures \<noteq> 0" "\<not> n < numSignatures" for valid info'
    by (rule "2.IH") (use that "2.prems" in auto)
  show ?case
    unfolding multiSigLoop.simps case_prod_beta
    by (rule hsafe_handlerI, (rule safe_rules loop hs.safe_index[where P = "\<lambda>_. True"] | use 2 in force)+)
qed

lemma hsafe_collectPop: "hsafe 0 (collectP n (onD PopByteArray)) (\<lambda>xs. length xs = n)"
  using hs.safe_collect[OF hsafe_onD[OF ssafe_Pop], of n] by simp

lemma hsafe_checkSigs [safe_rules]:
  "hsafe 1 (opcodeCheckSig C op) (\<lambda>_. True)" "hsafe 1 (opcodeCheckMultiSig C op) (\<lambda>_. True)"
  unfolding opcodeCheckSig_def opcodeCheckMultiSig_def Let_def
  by ((rule hsafe_handlerI, (rule safe_rules hsafe_multiSigLoop hsafe_collectPop | force)+)[1])+

lemma hsafe_checkSigVerify:
  "hsafe 1 (opcodeCheckSigVerify C op) (\<lambda>_. True)" "hsafe 1 (opcodeCheckMultiSigVerify C op) (\<lambda>_. True)"
  unfolding opcodeCheckSigVerify_def opcodeCheckMultiSigVerify_def
  by ((rule hsafe_handlerI, (rule safe_rules | force)+)[1])+

lemmas hsafe_small = hsafe_opcodeN hsafe_opcodeCodeSeparator hsafe_compare hsafe_checkSigs
  hsafe_checkSigVerify

lemma hsafe_opfunc: "hsafe 3 (opfunc C v op) (\<lambda>_. True)"
proof -
  have "\<forall>h \<in> snd ` set (opTable C). hsafe 3 (h op) (\<lambda>_. True)"
    by (simp add: opTable_def hsafe_constants hsafe_flow hsafe_stack hsafe_arith hsafe_hash
        hsafe_small[THEN hsafe_handlerI])
  then have "hsafe 3 (h op) (\<lambda>_. True)" if "map_of (opTable C) v = Some h" for h
    using map_of_SomeD[OF that] by force
  then show ?thesis
    by (auto simp: opfunc_def hsafe_constants hsafe_opcodeN[THEN hsafe_handlerI] split: option.split)
qed

end
