(* ===== verification/ScriptEngine.thy ===== *)
theory ScriptEngine
  imports ScriptSafety ScriptStandard
begin

text \<open>
  The execution of scripts, engine.go: one step, the loop, and the construction of an engine for
  an input of a transaction, with the pay-to-script-hash and witness rules. The results: execution
  of an engine made by \<open>NewEngine\<close> ends, without a panic or a blocked lock; the invariant of the
  engine between steps; the limit on the stack; what a branch that is not executed leaves alone;
  outputs that cannot be spent.
\<close>

section \<open>Definitions\<close>

definition executeOpcode :: "crypto \<Rightarrow> parsedOpcode \<Rightarrow> unit vm" where
  "executeOpcode C pop =
     thenP (failWhen (isDisabled pop) ErrDisabledOpcode)
     (thenP (failWhen (alwaysIllegal pop) ErrReservedOpcode)
     (thenP (if pop_value pop > OP_16
             then thenP (modifyP (numOps_update (\<lambda>n. n + 1)))
                  (bindP (getP numOps) (\<lambda>n. failWhen (n > MaxOpsPerScript) ErrTooManyOperations))
             else failWhen (length (pop_data pop) > MaxScriptElementSize) ErrElementTooBig)
     (bindP (getP isBranchExecuting) (\<lambda>executing.
      if \<not> executing \<and> \<not> isConditional pop then retP ()
      else
        bindP (getP (\<lambda>vm. verifyMinimalData (dstack vm))) (\<lambda>minimal.
        thenP (if minimal \<and> executing \<and> pop_value pop \<le> OP_PUSHDATA4
               then liftE (checkMinimalDataPush pop) else retP ())
        (opfunc C (pop_value pop) pop))))))"

text \<open>
  \<open>validPC\<close>: the first branch of the source sets the named result, but the function ends with
  \<open>return nil\<close>, so it has no effect; the second indexes \<open>vm.scripts\<close> past its end.
\<close>

definition validPC :: "unit vm" where
  "validPC =
     bindP (getP scripts) (\<lambda>ss. bindP (getP scriptIdx) (\<lambda>i.
       if length ss < i
       then bindP (indexP ss (int i)) (\<lambda>script. bindP (getP scriptOff) (\<lambda>off.
            failWhen (off \<ge> length script) ErrInvalidProgramCounter))
       else retP ()))"

definition curPC :: "(nat \<times> nat) vm" where
  "curPC = thenP validPC (bindP (getP scriptIdx) (\<lambda>i. bindP (getP scriptOff) (\<lambda>off. retP (i, off))))"

definition GetStack :: "bytes list vm" where "GetStack = onD getStack"

definition SetStack :: "bytes list \<Rightarrow> unit vm" where "SetStack data = onD (setStack data)"

definition GetAltStack :: "bytes list vm" where "GetAltStack = onA getStack"

definition SetAltStack :: "bytes list \<Rightarrow> unit vm" where "SetAltStack data = onA (setStack data)"

definition appendScript :: "parsedOpcode list \<Rightarrow> unit vm" where
  "appendScript pops = modifyP (\<lambda>vm. vm\<lparr>scripts := scripts vm @ [pops]\<rparr>)"

definition verifyWitnessProgram :: "crypto \<Rightarrow> bytes list \<Rightarrow> unit vm" where
  "verifyWitnessProgram C witness =
     thenP (bindP (getP (\<lambda>vm. isWitnessVersionActive vm 0)) (\<lambda>active.
       if active
       then bindP (getP witnessProgram) (\<lambda>wp.
            let program = (case wp of Some p \<Rightarrow> p | None \<Rightarrow> []) in
            if length program = payToWitnessPubKeyHashDataSize
            then thenP (failWhen (length witness \<noteq> 2) ErrWitnessProgramMismatch)
                 (bindP (liftE (payToPubKeyHashScript program)) (\<lambda>pkScript.
                  bindP (liftE (parseOrErr pkScript)) (\<lambda>pops.
                  thenP (appendScript pops) (SetStack witness))))
            else if length program = payToWitnessScriptHashDataSize
            then thenP (failWhen (length witness = 0) ErrWitnessProgramEmpty)
                 (bindP (lastP witness) (\<lambda>witnessScript.
                  thenP (failWhen (length witnessScript > MaxScriptSize) ErrScriptTooBig)
                  (thenP (failWhen (c_sha256 C witnessScript \<noteq> program) ErrWitnessProgramMismatch)
                  (bindP (liftE (parseOrErr witnessScript)) (\<lambda>pops.
                   thenP (appendScript pops) (SetStack (take (length witness - 1) witness)))))))
            else failP ErrWitnessProgramWrongLength)
       else ifFlag ScriptVerifyDiscourageUpgradeableWitnessProgram
              (failP ErrDiscourageUpgradableWitnessProgram)
              (modifyP (witnessProgram_update (\<lambda>_. None)))))
     (bindP (getP (\<lambda>vm. isWitnessVersionActive vm 0)) (\<lambda>active.
       if active
       then bindP GetStack (\<lambda>items.
            forP items (\<lambda>witElement. failWhen (length witElement > MaxScriptElementSize) ErrElementTooBig))
       else retP ()))"

definition CheckErrorCondition :: "bool \<Rightarrow> unit vm" where
  "CheckErrorCondition finalScript =
     bindP (getP (\<lambda>vm. scriptIdx vm < length (scripts vm))) (\<lambda>unfinished.
     thenP (failWhen unfinished ErrScriptUnfinished)
     (bindP (getP (\<lambda>vm. isWitnessVersionActive vm 0)) (\<lambda>active.
     bindP (onD Depth) (\<lambda>depth.
     thenP (failWhen (finalScript \<and> active \<and> depth \<noteq> 1) ErrEvalFalse)
     (bindP (getP (\<lambda>vm. hasFlag vm ScriptVerifyCleanStack)) (\<lambda>clean.
     thenP (if finalScript \<and> clean \<and> depth \<noteq> 1 then failP ErrCleanStack
            else failWhen (depth < 1) ErrEmptyStack)
     (bindP (onD PopBool) (\<lambda>v. failWhen (\<not> v) ErrEvalFalse))))))))"

text \<open>
  The parts of \<open>Step\<close> that move on to the next script: choosing what to run next, skipping a script
  of length zero, and both with what comes before them.
\<close>

definition advanceScript :: "crypto \<Rightarrow> nat \<Rightarrow> bool \<Rightarrow> bytes option \<Rightarrow> unit vm" where
  "advanceScript C i p2sh prog =
     (if i = 0 \<and> p2sh
      then thenP (modifyP (scriptIdx_update Suc))
           (bindP GetStack (\<lambda>items. modifyP (savedFirstStack_update (\<lambda>_. items))))
      else if i = 1 \<and> p2sh
      then thenP (modifyP (scriptIdx_update Suc))
           (thenP (CheckErrorCondition False)
           (bindP (getP savedFirstStack) (\<lambda>saved.
            bindP (lastP saved) (\<lambda>script.
            bindP (liftE (parseOrErr script)) (\<lambda>pops.
            thenP (appendScript pops) (SetStack (take (length saved - 1) saved)))))))
      else if (i = 1 \<and> prog \<noteq> None) \<or> (i = 2 \<and> prog \<noteq> None \<and> p2sh)
      then thenP (modifyP (scriptIdx_update Suc))
           (bindP currentTxIn (\<lambda>ti. verifyWitnessProgram C (witItems ti)))
      else modifyP (scriptIdx_update Suc))"

definition skipEmptyScript :: "bool vm" where
  "skipEmptyScript =
     bindP (getP scripts) (\<lambda>ss. bindP (getP scriptIdx) (\<lambda>j. bindP (getP scriptOff) (\<lambda>off.
     thenP
       (if j < length ss \<and> off \<ge> length (ss ! j) then modifyP (scriptIdx_update Suc) else retP ())
     (thenP (modifyP (lastCodeSep_update (\<lambda>_. 0)))
     (getP (\<lambda>vm. scriptIdx vm \<ge> length (scripts vm)))))))"

definition nextScript :: "crypto \<Rightarrow> bool vm" where
  "nextScript C =
     bindP (getP condStack) (\<lambda>cs.
     thenP (failWhen (length cs \<noteq> 0) ErrUnbalancedConditional)
     (thenP (onA (bindP Depth (\<lambda>n. ignoreErrP (DropN n))))
     (thenP (modifyP (\<lambda>vm. vm\<lparr>numOps := 0, scriptOff := 0\<rparr>))
     (bindP (getP scriptIdx) (\<lambda>i. bindP (getP bip16) (\<lambda>p2sh. bindP (getP witnessProgram) (\<lambda>prog.
     thenP (advanceScript C i p2sh prog) skipEmptyScript)))))))"

definition Step :: "crypto \<Rightarrow> bool vm" where
  "Step C =
     thenP validPC
     (bindP (getP scripts) (\<lambda>ss. bindP (getP scriptIdx) (\<lambda>i. bindP (getP scriptOff) (\<lambda>off.
     bindP (indexP ss (int i)) (\<lambda>script. bindP (indexP script (int off)) (\<lambda>opcode.
     thenP (modifyP (scriptOff_update Suc))
     (thenP (executeOpcode C opcode)
     (bindP (onD Depth) (\<lambda>d. bindP (onA Depth) (\<lambda>a.
     thenP (failWhen (s32 (d + a) > MaxStackSize) ErrStackOverflow)
     (bindP (getP scriptOff) (\<lambda>off'.
      if off' \<ge> length script then nextScript C else retP False))))))))))))"

text \<open>The loop of \<open>Execute\<close>: \<open>None\<close> is a loop that does not end.\<close>

partial_function (option) executeLoop :: "crypto \<Rightarrow> Engine \<Rightarrow> (unit, Engine) res option" where
  "executeLoop C vm =
     (case Step C vm of
        Ok done vm' \<Rightarrow> if done then Some (Ok () vm') else executeLoop C vm'
      | Err e vm' \<Rightarrow> Some (Err e vm')
      | Panic \<Rightarrow> Some Panic
      | Deadlock \<Rightarrow> Some Deadlock)"

definition Execute :: "crypto \<Rightarrow> Engine \<Rightarrow> (unit, Engine) res option" where
  "Execute C vm =
     map_option (\<lambda>r. bindP (\<lambda>_. r) (\<lambda>_. CheckErrorCondition True) vm) (executeLoop C vm)"

text \<open>The zero value of the engine with the fields \<open>NewEngine\<close> sets first.\<close>

definition emptyStack :: stack where
  "emptyStack = \<lparr>stk = [], stkMutex = False, verifyMinimalData = False\<rparr>"

definition initEngine ::
  "MsgTx \<Rightarrow> nat \<Rightarrow> ScriptFlags \<Rightarrow> SigCache option \<Rightarrow> TxSigHashes option \<Rightarrow> i64 \<Rightarrow> Engine" where
  "initEngine mtx idx fl sc hc amount =
     \<lparr>scripts = [], scriptIdx = 0, scriptOff = 0, lastCodeSep = 0, dstack = emptyStack,
      astack = emptyStack, tx = mtx, txIdx = idx, condStack = [], numOps = 0, flags = fl,
      sigCache = sc, hashCache = hc, bip16 = False, savedFirstStack = [], witnessVersion = 0,
      witnessProgram = None, inputAmount = amount\<rparr>"

text \<open>The two iterations of the loop that parses the scripts.\<close>

definition parseChecked :: "bytes \<Rightarrow> ErrorCode + parsedOpcode list" where
  "parseChecked scr = bindE (failIf (length scr > MaxScriptSize) ErrScriptTooBig) (\<lambda>_. parseOrErr scr)"

text \<open>The witness program of an input; \<open>None\<close> is \<open>witProgram = nil\<close>.\<close>

definition findWitnessProgram ::
  "bytes \<Rightarrow> bytes \<Rightarrow> parsedOpcode list \<Rightarrow> parsedOpcode list \<Rightarrow> bytes list \<Rightarrow> bool
    \<Rightarrow> ErrorCode + bytes option" where
  "findWitnessProgram scriptSig scriptPubKey sigPops pkPops witness p2sh =
     (if isWitnessProgram pkPops
      then bindE (failIf (length scriptSig \<noteq> 0) ErrWitnessMalleated) (\<lambda>_. Inr (Some scriptPubKey))
      else if length witness \<noteq> 0 \<and> p2sh
      then if length sigPops = 1 \<and> canonicalPush (sigPops ! 0) \<and> IsWitnessProgram (pop_data (sigPops ! 0))
           then Inr (Some (pop_data (sigPops ! 0)))
           else Inl ErrWitnessMalleatedP2SH
      else Inr None)"

text \<open>The engine with its scripts, program counter and stacks.\<close>

definition startEngine :: "bytes \<Rightarrow> parsedOpcode list \<Rightarrow> parsedOpcode list \<Rightarrow> Engine \<Rightarrow> Engine" where
  "startEngine scriptSig sigPops pkPops vm =
     (let stk = emptyStack\<lparr>verifyMinimalData := hasFlag vm ScriptVerifyMinimalData\<rparr> in
      vm\<lparr>scripts := [sigPops, pkPops], scriptIdx := (if length scriptSig = 0 then 1 else 0),
         bip16 := (hasFlag vm ScriptBip16 \<and> isScriptHash pkPops), dstack := stk, astack := stk\<rparr>)"

text \<open>The part of \<open>NewEngine\<close> under the flag for witness verification.\<close>

definition setWitnessProgram :: "bytes option \<Rightarrow> bytes list \<Rightarrow> Engine \<Rightarrow> ErrorCode + Engine" where
  "setWitnessProgram witProgram witness vm =
     (case witProgram of
        Some prog \<Rightarrow> bindE (ExtractWitnessProgramInfo prog) (\<lambda>(version, program).
                     Inr (vm\<lparr>witnessVersion := version, witnessProgram := Some program\<rparr>))
      | None \<Rightarrow> bindE (failIf (witnessProgram vm = None \<and> length witness \<noteq> 0) ErrWitnessUnexpected) (\<lambda>_. Inr vm))"

definition NewEngine ::
  "bytes \<Rightarrow> MsgTx \<Rightarrow> int \<Rightarrow> ScriptFlags \<Rightarrow> SigCache option \<Rightarrow> TxSigHashes option \<Rightarrow> i64
    \<Rightarrow> ErrorCode + Engine" where
  "NewEngine scriptPubKey mtx idx fl sc hc amount =
     bindE (failIf (idx < 0 \<or> idx \<ge> int (length (tx_TxIn mtx))) ErrInvalidIndex) (\<lambda>_.
     let ti = tx_TxIn mtx ! nat idx; scriptSig = SignatureScript ti;
         vm = initEngine mtx (nat idx) fl sc hc amount in
     bindE (failIf (length scriptSig = 0 \<and> length scriptPubKey = 0) ErrEvalFalse) (\<lambda>_.
     bindE (failIf (hasFlag vm ScriptVerifyCleanStack
                    \<and> (\<not> hasFlag vm ScriptBip16 \<and> \<not> hasFlag vm ScriptVerifyWitness)) ErrInvalidFlags) (\<lambda>_.
     bindE (failIf (hasFlag vm ScriptVerifySigPushOnly \<and> \<not> IsPushOnlyScript scriptSig) ErrNotPushOnly) (\<lambda>_.
     bindE (parseChecked scriptSig) (\<lambda>sigPops.
     bindE (parseChecked scriptPubKey) (\<lambda>pkPops.
     let p2sh = hasFlag vm ScriptBip16 \<and> isScriptHash pkPops in
     bindE (failIf (p2sh \<and> \<not> isPushOnly sigPops) ErrNotPushOnly) (\<lambda>_.
     let vm1 = startEngine scriptSig sigPops pkPops vm in
     if \<not> hasFlag vm ScriptVerifyWitness then Inr vm1
     else
       bindE (failIf (\<not> hasFlag vm ScriptBip16) ErrInvalidFlags) (\<lambda>_.
       bindE (findWitnessProgram scriptSig scriptPubKey sigPops pkPops (witItems ti) p2sh) (\<lambda>witProgram.
       setWitnessProgram witProgram (witItems ti) vm1)))))))))"

section \<open>One opcode\<close>

lemma hsafe_executeOpcode: "hsafe 3 (executeOpcode C op) (\<lambda>_. True)"
  unfolding executeOpcode_def by (rule hsafe_handlerI, (rule safe_rules hsafe_opfunc | force)+)

lemma isBranchExecuting_numOps [simp]: "isBranchExecuting (numOps_update f vm) = isBranchExecuting vm"
  by (simp add: isBranchExecuting_def)

text \<open>\<open>OP\_HASH160\<close> only succeeds on a stack that is not empty.\<close>

lemma hash160_needs_item:
  assumes "sready (dstack vm)" and "isBranchExecuting vm" and "pop_value op = OP_HASH160"
    and "executeOpcode C op vm = Ok () vm'"
  shows "stk (dstack vm) \<noteq> []"
proof
  assume "stk (dstack vm) = []"
  then have "PopByteArray (dstack vm) = Err ErrInvalidStackOperation ((dstack vm)\<lparr>stkMutex := True\<rparr>)"
    using assms(1) by (rule PopByteArray_empty[rotated])
  then have "wp True (opcodeHash160 C op) (\<lambda>_ _. False) v" if "dstack v = dstack vm" for v
    using that by (simp add: opcodeHash160_def onD_def) (simp add: wp_def)
  then have "wp True (executeOpcode C op) (\<lambda>_ _. False) vm"
    using assms(2,3) by (simp add: executeOpcode_def opfunc_simps)
  with assms(4) show False by (simp add: wp_def)
qed

section \<open>Operations between scripts\<close>

lemma wp_Depth: "sready s \<Longrightarrow> wp E Depth Q s = Q (int (length (stk s))) s"
  by (simp add: wp_def Depth_apply sready_def)

lemma wp_getStack: "sready s \<Longrightarrow> wp E getStack Q s = Q (stk s) s"
  by (simp add: wp_def getStack_apply)

lemma wp_setStack:
  "sready s \<Longrightarrow> length data < 2 ^ 31 \<Longrightarrow> wp E (setStack data) Q s = Q () (s\<lparr>stk := data\<rparr>)"
  by (simp add: wp_def setStack_apply)

lemma wp_dropAll:
  "sready s \<Longrightarrow> wp E (bindP Depth (\<lambda>n. ignoreErrP (DropN n))) Q s = Q () (s\<lparr>stk := []\<rparr>)"
  using drop_everything[of s] by (simp only: wp_def) simp

lemma wp_forFail:
  "wp E (forP xs (\<lambda>x. failWhen (f x) e)) Q = (\<lambda>s. list_all (\<lambda>x. \<not> f x) xs \<longrightarrow> Q () s)"
  by (induction xs) (simp_all add: imp_conjL del: failWhen_apply)

lemma wp_CheckErrorCondition:
  assumes "sready (dstack vm)" and "\<And>d. sready d \<Longrightarrow> Q () (vm\<lparr>dstack := d\<rparr>)"
  shows "wp False (CheckErrorCondition b) Q vm"
proof -
  have "wp False PopBool (\<lambda>v d. sready d) (dstack vm)"
    by (rule wp_mono[OF ss.safeD[OF ssafe_PopBool assms(1)]]) (use assms(1) in \<open>auto simp: sready_def\<close>)
  then have "wp False PopBool (\<lambda>v d. \<not> \<not> v \<longrightarrow> Q () (vm\<lparr>dstack := d\<rparr>)) (dstack vm)"
    by (rule wp_mono) (use assms(2) in auto)
  then show ?thesis
    using assms(1) by (simp add: CheckErrorCondition_def onD_def wp_Depth)
qed

text \<open>The fields that moving to the next script does not change.\<close>

definition outer :: "Engine \<Rightarrow> Engine" where
  "outer vm = vm\<lparr>scripts := [], dstack := emptyStack, witnessProgram := None\<rparr>"

lemma wp_verifyWitnessProgram:
  assumes "sready (dstack vm)" and "length witness < 2 ^ 31"
  shows "wp False (verifyWitnessProgram C witness)
     (\<lambda>_ t. outer t = outer vm \<and> sready (dstack t)
        \<and> (scripts t = scripts vm \<and> dstack t = dstack vm
           \<or> (\<exists>pops. scripts t = scripts vm @ [pops]) \<and> length (stk (dstack t)) \<le> length witness)) vm"
proof -
  have r: "sready ((dstack vm)\<lparr>stk := data\<rparr>)" if "length data \<le> length witness" for data
    using assms that by (simp add: sready_def)
  then show ?thesis
    using assms
    by (auto simp: verifyWitnessProgram_def Let_def SetStack_def GetStack_def appendScript_def onD_def lastP_def
        ifFlag_def isWitnessVersionActive_def outer_def wp_setStack wp_getStack wp_forFail)
qed

section \<open>The invariant between steps\<close>

definition maxItems :: nat where "maxItems = unat maxWitnessItemsPerInput"

definition curIn :: "Engine \<Rightarrow> TxIn" where "curIn vm = tx_TxIn (tx vm) ! txIdx vm"

text \<open>What holds whenever an opcode has been executed or is about to be.\<close>

definition base_inv :: "Engine \<Rightarrow> bool" where
  "base_inv vm \<longleftrightarrow> engine_ready vm \<and> length (witItems (curIn vm)) \<le> maxItems
     \<and> scriptIdx vm \<le> 3 \<and> length (scripts vm) = max 2 (Suc (scriptIdx vm))
     \<and> length (savedFirstStack vm) \<le> 1000 \<and> (bip16 vm \<longrightarrow> isScriptHash (scripts vm ! 1))"

text \<open>
  The invariant of a running engine: it points at an instruction; the stacks are within the limit,
  except that a script starts with the stack it is given and an empty alternate stack; a script
  starts outside every conditional; a pay-to-script-hash engine has the stack of the signature script saved when the
  public key script starts, and after its first instruction that stack is known not to be empty.
\<close>

definition run_inv :: "Engine \<Rightarrow> bool" where
  "run_inv vm \<longleftrightarrow> base_inv vm
     \<and> (if scriptOff vm = 0 then stk (astack vm) = [] \<and> stack_items vm \<le> maxItems else stack_items vm \<le> 1000)
     \<and> scriptOff vm < length (scripts vm ! scriptIdx vm) \<and> (scriptOff vm = 0 \<longrightarrow> condStack vm = [])
     \<and> (bip16 vm \<and> scriptIdx vm = 1 \<longrightarrow>
          (if scriptOff vm = 0 then savedFirstStack vm = stk (dstack vm) else savedFirstStack vm \<noteq> []))"

definition ended :: "Engine \<Rightarrow> bool" where
  "ended vm \<longleftrightarrow> sready (dstack vm) \<and> length (scripts vm) \<le> scriptIdx vm"

text \<open>Progress: a step enters a later script or moves forward in the current one.\<close>

definition position :: "Engine \<Rightarrow> nat \<times> nat" where
  "position vm = (4 - scriptIdx vm, length (scripts vm ! scriptIdx vm) - scriptOff vm)"

lemma maxItems_bound: "maxItems + 3 < 2 ^ 31" "1000 \<le> maxItems"
  by (simp_all add: maxItems_def maxWitnessItemsPerInput_def)

text \<open>The state after \<open>scriptIdx\<close> has been advanced, before scripts of length zero are skipped.\<close>

definition moved :: "nat \<Rightarrow> Engine \<Rightarrow> bool" where
  "moved i vm \<longleftrightarrow> sready (dstack vm) \<and> sready (astack vm) \<and> stk (astack vm) = []
     \<and> length (stk (dstack vm)) \<le> maxItems \<and> txIdx vm < length (tx_TxIn (tx vm))
     \<and> length (witItems (curIn vm)) \<le> maxItems \<and> i \<le> 3 \<and> scriptIdx vm = Suc i \<and> scriptOff vm = 0
     \<and> condStack vm = [] \<and> length (scripts vm) \<in> {max 2 (Suc i), Suc (Suc i)}
     \<and> (i = 3 \<longrightarrow> length (scripts vm) = 4)
     \<and> length (savedFirstStack vm) \<le> 1000 \<and> (bip16 vm \<longrightarrow> isScriptHash (scripts vm ! 1))
     \<and> (bip16 vm \<and> i = 0 \<longrightarrow> savedFirstStack vm = stk (dstack vm))"

text \<open>The state when the script \<open>i\<close> has ended.\<close>

definition boundary :: "nat \<Rightarrow> Engine \<Rightarrow> bool" where
  "boundary i vm \<longleftrightarrow> sready (dstack vm) \<and> sready (astack vm) \<and> stk (astack vm) = []
     \<and> length (stk (dstack vm)) \<le> 1000 \<and> txIdx vm < length (tx_TxIn (tx vm))
     \<and> length (witItems (curIn vm)) \<le> maxItems \<and> i \<le> 3 \<and> scriptIdx vm = i \<and> scriptOff vm = 0
     \<and> condStack vm = [] \<and> length (scripts vm) = max 2 (Suc i)
     \<and> length (savedFirstStack vm) \<le> 1000 \<and> (bip16 vm \<longrightarrow> isScriptHash (scripts vm ! 1))
     \<and> (bip16 vm \<and> i = 1 \<longrightarrow> savedFirstStack vm \<noteq> [])"

lemma wp_skipEmptyScript:
  "moved i vm \<Longrightarrow> wp False skipEmptyScript
     (\<lambda>done u. if done then ended u else run_inv u \<and> scriptIdx u = Suc i) vm"
  using maxItems_bound
  by (auto simp: skipEmptyScript_def moved_def ended_def run_inv_def base_inv_def engine_ready_def
      stack_items_def curIn_def max_def split: if_splits)

lemma outer_fields:
  assumes "outer u = outer vm"
  shows "astack u = astack vm" "tx u = tx vm" "txIdx u = txIdx vm" "condStack u = condStack vm"
    "scriptIdx u = scriptIdx vm" "scriptOff u = scriptOff vm" "bip16 u = bip16 vm"
    "savedFirstStack u = savedFirstStack vm"
  using arg_cong[OF assms, of astack] arg_cong[OF assms, of tx] arg_cong[OF assms, of txIdx]
    arg_cong[OF assms, of condStack] arg_cong[OF assms, of scriptIdx] arg_cong[OF assms, of scriptOff]
    arg_cong[OF assms, of bip16] arg_cong[OF assms, of savedFirstStack]
  by (simp_all add: outer_def)

lemma advance_p2sh:
  assumes "boundary 1 vm" and "bip16 vm"
  shows "wp False (advanceScript C 1 True wp') (\<lambda>_. moved 1) vm"
  unfolding advanceScript_def
  using assms maxItems_bound
  by (auto simp: boundary_def moved_def lastP_def appendScript_def SetStack_def onD_def wp_setStack
      curIn_def sready_def nth_append intro!: wp_CheckErrorCondition)

lemma advance_witness:
  assumes "boundary i vm" and "i = 1 \<or> i = 2"
  shows "wp False (thenP (modifyP (scriptIdx_update Suc))
           (bindP currentTxIn (\<lambda>ti. verifyWitnessProgram C (witItems ti)))) (\<lambda>_. moved i) vm"
proof -
  let ?v = "scriptIdx_update Suc vm"
  have "sready (dstack ?v)" "length (witItems (curIn ?v)) < 2 ^ 31"
    using assms maxItems_bound by (auto simp: boundary_def curIn_def)
  from wp_verifyWitnessProgram[OF this, of C]
  have "wp False (verifyWitnessProgram C (witItems (curIn ?v))) (\<lambda>_. moved i) ?v"
  proof (rule wp_mono)
    fix u assume u: "outer u = outer ?v \<and> sready (dstack u)
        \<and> (scripts u = scripts ?v \<and> dstack u = dstack ?v
           \<or> (\<exists>pops. scripts u = scripts ?v @ [pops]) \<and> length (stk (dstack u)) \<le> length (witItems (curIn ?v)))"
    then show "moved i u"
      using assms maxItems_bound outer_fields[of u ?v] by (auto simp: boundary_def moved_def curIn_def nth_append)
  qed
  then show ?thesis using assms(1) by (simp add: currentTxIn_def curIn_def boundary_def)
qed

lemma wp_advanceScript:
  assumes "boundary i vm"
  shows "wp False (advanceScript C i (bip16 vm) (witnessProgram vm)) (\<lambda>_. moved i) vm"
proof -
  have plain: "moved i (scriptIdx_update Suc vm)" if "\<not> (i = 0 \<and> bip16 vm)"
    using assms that maxItems_bound by (auto simp: boundary_def moved_def curIn_def)
  have first: "wp False (advanceScript C 0 True (witnessProgram vm)) (\<lambda>_. moved 0) vm"
    if "i = 0" "bip16 vm"
    using assms that maxItems_bound
    by (auto simp: advanceScript_def boundary_def moved_def curIn_def GetStack_def onD_def wp_getStack)
  show ?thesis
    using plain first advance_p2sh[of vm C] advance_witness[of i vm C] assms
    by (cases "i = 0 \<and> bip16 vm"; cases "i = 1 \<and> bip16 vm") (auto simp: advanceScript_def)
qed

lemma wp_nextScript:
  assumes "base_inv vm" and "stack_items vm \<le> 1000"
    and "bip16 vm \<and> scriptIdx vm = 1 \<longrightarrow> savedFirstStack vm \<noteq> []"
  shows "wp False (nextScript C)
     (\<lambda>done u. if done then ended u else run_inv u \<and> scriptIdx u = Suc (scriptIdx vm)) vm"
proof -
  let ?v = "vm\<lparr>astack := (astack vm)\<lparr>stk := []\<rparr>, numOps := 0, scriptOff := 0\<rparr>"
  have b: "boundary (scriptIdx vm) ?v" if "condStack vm = []"
    using assms that
    by (auto simp: boundary_def base_inv_def engine_ready_def stack_items_def sready_def curIn_def)
  have adv: "wp False (advanceScript C (scriptIdx vm) (bip16 vm) (witnessProgram vm))
      (\<lambda>_. moved (scriptIdx vm)) ?v" if "condStack vm = []"
    using wp_advanceScript[OF b[OF that], of C] by simp
  have "wp False (advanceScript C (scriptIdx vm) (bip16 vm) (witnessProgram vm))
      (\<lambda>_. wp False skipEmptyScript
        (\<lambda>done u. if done then ended u else run_inv u \<and> scriptIdx u = Suc (scriptIdx vm))) ?v"
    if "condStack vm = []"
    by (rule wp_mono[OF adv[OF that]]) (rule wp_skipEmptyScript)
  moreover have "sready (astack vm)" using assms(1) by (simp add: base_inv_def engine_ready_def)
  ultimately show ?thesis
    by (simp add: nextScript_def onA_def wp_dropAll[unfolded wp_bind] split del: if_split)
qed

section \<open>A step\<close>

lemma frame_fields:
  assumes "frame u = frame vm"
  shows "scripts u = scripts vm" "scriptIdx u = scriptIdx vm" "scriptOff u = scriptOff vm" "tx u = tx vm"
    "txIdx u = txIdx vm" "flags u = flags vm" "bip16 u = bip16 vm" "savedFirstStack u = savedFirstStack vm"
    "witnessProgram u = witnessProgram vm" "witnessVersion u = witnessVersion vm"
  using arg_cong[OF assms, of scripts] arg_cong[OF assms, of scriptIdx] arg_cong[OF assms, of scriptOff]
    arg_cong[OF assms, of tx] arg_cong[OF assms, of txIdx] arg_cong[OF assms, of flags]
    arg_cong[OF assms, of bip16] arg_cong[OF assms, of savedFirstStack]
    arg_cong[OF assms, of witnessProgram] arg_cong[OF assms, of witnessVersion]
  by (simp_all add: frame_def)

text \<open>Executing the instruction at the program counter.\<close>

lemma wp_execute:
  fixes C op
  defines "m \<equiv> executeOpcode C op"
  assumes "run_inv vm" and "op = scripts vm ! scriptIdx vm ! scriptOff vm"
  shows "wp False m (\<lambda>_ u. base_inv u \<and> frame u = frame (scriptOff_update Suc vm)
      \<and> stack_items u \<le> maxItems + 3
      \<and> (bip16 u \<and> scriptIdx u = 1 \<longrightarrow> savedFirstStack u \<noteq> [])) (scriptOff_update Suc vm)"
proof -
  let ?v = "scriptOff_update Suc vm"
  have v: "base_inv vm" "engine_ready ?v" "stack_items ?v + 3 < 2 ^ 31" "stack_items ?v \<le> maxItems"
    using assms(2) maxItems_bound
    by (auto simp: run_inv_def base_inv_def engine_ready_def stack_items_def split: if_splits)
  have ok: "wp False m (\<lambda>_ u. True \<and> engine_ready u \<and> frame u = frame ?v \<and> stack_items u \<le> stack_items ?v + 3) ?v"
    unfolding m_def by (rule hs.safeD[OF hsafe_executeOpcode v(2,3)])
  have saved: "savedFirstStack vm \<noteq> []" if "m ?v = Ok () u" "bip16 vm" "scriptIdx vm = 1" for u
  proof (cases "scriptOff vm = 0")
    case True
    have "stk (dstack ?v) \<noteq> []"
      using that assms(2,3) True v(2) unfolding m_def
      by (intro hash160_needs_item[of ?v op C])
        (auto simp: run_inv_def base_inv_def isScriptHash_def engine_ready_def isBranchExecuting_def)
    with that True assms(2) show ?thesis by (auto simp: run_inv_def)
  next
    case False
    with that assms(2) show ?thesis by (auto simp: run_inv_def)
  qed
  have "wp True m (\<lambda>_ u. bip16 vm \<and> scriptIdx vm = 1 \<longrightarrow> savedFirstStack vm \<noteq> []) ?v"
    using saved by (intro wp_trueI) auto
  from wp_conj[OF ok this] show ?thesis
  proof (rule wp_mono)
    fix u assume u: "(True \<and> engine_ready u \<and> frame u = frame ?v \<and> stack_items u \<le> stack_items ?v + 3)
      \<and> (bip16 vm \<and> scriptIdx vm = 1 \<longrightarrow> savedFirstStack vm \<noteq> [])"
    then have "frame u = frame ?v" by simp
    from frame_fields[OF this] u v
    show "base_inv u \<and> frame u = frame ?v \<and> stack_items u \<le> maxItems + 3
      \<and> (bip16 u \<and> scriptIdx u = 1 \<longrightarrow> savedFirstStack u \<noteq> [])"
      by (simp add: base_inv_def curIn_def)
  qed
qed

lemma wp_Step:
  assumes "run_inv vm"
  shows "wp False (Step C) (\<lambda>done u. if done then ended u
      else run_inv u \<and> (position u, position vm) \<in> less_than <*lex*> less_than) vm"
proof -
  let ?ss = "scripts vm" and ?i = "scriptIdx vm" and ?off = "scriptOff vm"
  let ?post = "\<lambda>done u. if done then ended u
      else run_inv u \<and> (position u, position vm) \<in> less_than <*lex*> less_than"
  let ?op = "?ss ! ?i ! ?off" and ?v = "scriptOff_update Suc vm"
  have pc: "?i < length ?ss" "?off < length (?ss ! ?i)" "?i \<le> 3"
    using assms by (auto simp: run_inv_def base_inv_def engine_ready_def)
  have "wp False (executeOpcode C ?op) (\<lambda>_. wp False (bindP (onD Depth) (\<lambda>d. bindP (onA Depth) (\<lambda>a.
     thenP (failWhen (s32 (d + a) > MaxStackSize) ErrStackOverflow)
     (bindP (getP scriptOff) (\<lambda>off'.
      if off' \<ge> length (?ss ! ?i) then nextScript C else retP False))))) ?post) ?v"
  proof (rule wp_mono[OF wp_execute[OF assms refl]])
    fix u assume u: "base_inv u \<and> frame u = frame ?v \<and> stack_items u \<le> maxItems + 3
      \<and> (bip16 u \<and> scriptIdx u = 1 \<longrightarrow> savedFirstStack u \<noteq> [])"
    note f = frame_fields[of u ?v]
    have r: "sready (dstack u)" "sready (astack u)" using u by (auto simp: base_inv_def engine_ready_def)
    have size: "s32 (int (length (stk (dstack u))) + int (length (stk (astack u)))) = int (stack_items u)"
      using u maxItems_bound by (simp add: stack_items_def)
    have stay: "?post False u" if "stack_items u \<le> 1000" "Suc ?off < length (?ss ! ?i)"
      using u f that maxItems_bound pc by (auto simp: run_inv_def position_def)
    have next_ok: "wp False (nextScript C) ?post u" if "stack_items u \<le> 1000"
      by (rule wp_mono[OF wp_nextScript[of u C]]) (use u f that pc in \<open>auto simp: position_def split: if_splits\<close>)
    show "wp False (bindP (onD Depth) (\<lambda>d. bindP (onA Depth) (\<lambda>a.
     thenP (failWhen (s32 (d + a) > MaxStackSize) ErrStackOverflow)
     (bindP (getP scriptOff) (\<lambda>off'.
      if off' \<ge> length (?ss ! ?i) then nextScript C else retP False))))) ?post u"
      using r size stay next_ok u f by (simp add: onD_def onA_def wp_Depth MaxStackSize_def)
  qed
  then show ?thesis using pc by (simp add: Step_def validPC_def)
qed

section \<open>Execution\<close>

lemma executeLoop_returns:
  "run_inv vm \<Longrightarrow> \<exists>r. executeLoop C vm = Some r \<and> r \<noteq> Panic \<and> r \<noteq> Deadlock \<and> (\<forall>x u. r = Ok x u \<longrightarrow> ended u)"
proof (induction vm rule: wf_induct_rule[OF wf_inv_image[of "less_than <*lex*> less_than" position]])
  case 1
  then show ?case by (simp add: wf_lex_prod)
next
  case (2 vm)
  note step = wp_Step[OF 2(2), of C]
  show ?case
  proof (cases "Step C vm")
    case (Ok d u)
    with step have u: "if d then ended u else run_inv u \<and> (position u, position vm) \<in> less_than <*lex*> less_than"
      by (simp add: wp_def)
    show ?thesis
    proof (cases d)
      case True
      with Ok u show ?thesis by (subst executeLoop.simps) simp
    next
      case False
      then show ?thesis using Ok u 2(1)[of u] by (subst executeLoop.simps) simp
    qed
  qed (use step in \<open>subst executeLoop.simps, auto simp: wp_def\<close>)+
qed

lemma parse_nonempty: "parseOrErr scr = Inr pops \<Longrightarrow> scr \<noteq> [] \<Longrightarrow> pops \<noteq> []"
  by (auto simp: parseOrErr_iff)

lemma setWitnessProgram_Inr:
  "setWitnessProgram w witness vm = Inr u \<Longrightarrow> \<exists>v prog. u = vm\<lparr>witnessVersion := v, witnessProgram := prog\<rparr>"
  by (cases vm) (auto simp: setWitnessProgram_def bindE_eq_Inr split: option.splits)

lemma bind_failIf: "bindE (failIf b e) f = Inr v \<longleftrightarrow> \<not> b \<and> f () = Inr v"
  by (auto simp: bindE_eq_Inr)

lemma bindE_InrE: "bindE m f = Inr y \<Longrightarrow> (\<And>x. m = Inr x \<Longrightarrow> f x = Inr y \<Longrightarrow> thesis) \<Longrightarrow> thesis"
  by (auto simp: bindE_eq_Inr)

lemma NewEngine_Inr:
  assumes "NewEngine scriptPubKey mtx idx fl sc hc amount = Inr vm"
  defines "scriptSig \<equiv> SignatureScript (tx_TxIn mtx ! nat idx)"
  shows "\<exists>sigPops pkPops v prog. 0 \<le> idx \<and> nat idx < length (tx_TxIn mtx)
    \<and> parseOrErr scriptSig = Inr sigPops \<and> parseOrErr scriptPubKey = Inr pkPops
    \<and> (scriptSig = [] \<longrightarrow> scriptPubKey \<noteq> [])
    \<and> vm = (startEngine scriptSig sigPops pkPops (initEngine mtx (nat idx) fl sc hc amount))
             \<lparr>witnessVersion := v, witnessProgram := prog\<rparr>"
proof -
  let ?i = "initEngine mtx (nat idx) fl sc hc amount" and ?w = "witItems (tx_TxIn mtx ! nat idx)"
  from assms(1) obtain sigPops pkPops where p: "0 \<le> idx" "nat idx < length (tx_TxIn mtx)"
    "parseOrErr scriptSig = Inr sigPops" "parseOrErr scriptPubKey = Inr pkPops"
    "scriptSig = [] \<longrightarrow> scriptPubKey \<noteq> []"
    and rest: "(if \<not> hasFlag ?i ScriptVerifyWitness then Inr (startEngine scriptSig sigPops pkPops ?i)
       else bindE (failIf (\<not> hasFlag ?i ScriptBip16) ErrInvalidFlags) (\<lambda>_.
            bindE (findWitnessProgram scriptSig scriptPubKey sigPops pkPops ?w
              (hasFlag ?i ScriptBip16 \<and> isScriptHash pkPops)) (\<lambda>witProgram.
            setWitnessProgram witProgram ?w (startEngine scriptSig sigPops pkPops ?i)))) = Inr vm"
    unfolding NewEngine_def Let_def bind_failIf parseChecked_def scriptSig_def[symmetric]
    by (elim conjE bindE_InrE) (rule that, auto)
  then have "vm = startEngine scriptSig sigPops pkPops ?i
     \<or> (\<exists>w. setWitnessProgram w ?w (startEngine scriptSig sigPops pkPops ?i) = Inr vm)"
    by (auto simp: bind_failIf bindE_eq_Inr split: if_splits)
  then have "\<exists>v prog. vm = (startEngine scriptSig sigPops pkPops ?i)\<lparr>witnessVersion := v, witnessProgram := prog\<rparr>"
    using setWitnessProgram_Inr by (fastforce simp: startEngine_def Let_def initEngine_def)
  then show ?thesis using p by blast
qed

lemma run_inv_NewEngine:
  assumes "NewEngine scriptPubKey mtx idx fl sc hc amount = Inr vm"
    and "length (witItems (tx_TxIn mtx ! nat idx)) \<le> maxItems"
  shows "run_inv vm"
  using NewEngine_Inr[OF assms(1)] assms(2)
  by (cases "SignatureScript (tx_TxIn mtx ! nat idx) = []")
    (auto simp: startEngine_def initEngine_def emptyStack_def Let_def run_inv_def base_inv_def engine_ready_def
      stack_items_def sready_def curIn_def dest: parse_nonempty)

lemma Execute_ended:
  assumes "run_inv vm"
  shows "\<exists>r. Execute C vm = Some r \<and> r \<noteq> Panic \<and> r \<noteq> Deadlock"
proof -
  obtain r where r: "executeLoop C vm = Some r" "r \<noteq> Panic" "r \<noteq> Deadlock" "\<And>x u. r = Ok x u \<Longrightarrow> ended u"
    using executeLoop_returns[OF assms, of C] by blast
  have "wp False (CheckErrorCondition True) (\<lambda>_ _. True) u" if "ended u" for u
    using that by (intro wp_CheckErrorCondition) (auto simp: ended_def)
  then show ?thesis
    using r wp_safe by (cases r) (force simp: Execute_def bindP_def)+
qed

text \<open>A transaction and cryptographic functions for examples.\<close>

definition toyCrypto :: crypto where
  "toyCrypto = \<lparr>c_sha256 = toyHash, c_sha1 = toyHash, c_ripemd160 = take 20, c_ParsePubKey = \<lambda>_. None,
     c_ParseSignature = \<lambda>_. None, c_ParseDERSignature = \<lambda>_. None, c_Verify = \<lambda>_ _ _. False, c_pick = \<lambda>_. 0\<rparr>"

definition spendTx :: "bytes \<Rightarrow> MsgTx" where
  "spendTx sig = \<lparr>tx_Version = 1,
     tx_TxIn = [\<lparr>PreviousOutPoint = \<lparr>op_Hash = zeroHash, op_Index = 0\<rparr>, SignatureScript = sig, Witness = None, Sequence = 0\<rparr>],
     tx_TxOut = [], tx_LockTime = 0\<rparr>"

definition spendEngine :: "parsedOpcode list \<Rightarrow> bytes \<Rightarrow> parsedOpcode list \<Rightarrow> Engine" where
  "spendEngine sigPops sig pkPops = startEngine sig sigPops pkPops (initEngine (spendTx sig) 0 0 None None 0)"

abbreviation plainOp :: "u8 \<Rightarrow> parsedOpcode" where
  "plainOp v \<equiv> \<lparr>pop_opcode = OpcodeArray v, pop_data = []\<rparr>"

lemma spend_NewEngine:
  assumes "op_length (OpcodeArray v) = 1"
  shows "NewEngine [v] (spendTx [OP_1]) 0 0 None None 0 = Inr (spendEngine [plainOp OP_1] [OP_1] [plainOp v])"
proof -
  have "op_length (OpcodeArray OP_1) = 1" by (simp add: OpcodeArray_def)
  from parse_AddOp[OF parseOrErr_Nil this] parse_AddOp[OF parseOrErr_Nil assms] show ?thesis
    by (simp add: NewEngine_def spendTx_def spendEngine_def hasFlag_def initEngine_def parseChecked_def Let_def
        MaxScriptSize_def ScriptVerifyCleanStack_def ScriptVerifySigPushOnly_def
        ScriptBip16_def ScriptVerifyWitness_def bindE_def)
qed

lemma one_byte: "op_length (OpcodeArray OP_1) = 1" "op_length (OpcodeArray OP_RETURN) = 1"
  by (simp_all add: OpcodeArray_def)

text \<open>C9: execution ends. For every engine that \<open>NewEngine\<close> makes, whatever the scripts, the transaction, the flags, the
  caches and the cryptographic functions, the loop of \<open>Execute\<close> runs to its end, with a normal
  result or an error value. (A decoded transaction has at most \<open>maxWitnessItemsPerInput\<close> witness
  items in an input.)\<close>

theorem Execute_terminates:
  assumes "NewEngine scriptPubKey mtx idx fl sc hc amount = Inr vm"
    and "length (witItems (tx_TxIn mtx ! nat idx)) \<le> unat maxWitnessItemsPerInput"
  shows "\<exists>r. Execute C vm = Some r"
  using Execute_ended[OF run_inv_NewEngine[OF assms(1)]] assms(2) by (auto simp: maxItems_def)

theorem Execute_terminates_witness:
  "\<exists>vm r. NewEngine [OP_1] (spendTx [OP_1]) 0 0 None None 0 = Inr vm \<and> Execute toyCrypto vm = Some r"
  using Execute_terminates[OF spend_NewEngine[OF one_byte(1)]] spend_NewEngine[OF one_byte(1)] by (auto simp: spendTx_def witItems_def)

text \<open>C8: execution is safe. An engine made by \<open>NewEngine\<close> never indexes a slice out of range, and never blocks on the
  lock of a stack that an earlier failed operation left locked.\<close>

theorem Execute_no_panic:
  assumes "NewEngine scriptPubKey mtx idx fl sc hc amount = Inr vm"
    and "length (witItems (tx_TxIn mtx ! nat idx)) \<le> unat maxWitnessItemsPerInput"
  shows "Execute C vm \<noteq> Some Panic \<and> Execute C vm \<noteq> Some Deadlock"
  using Execute_ended[OF run_inv_NewEngine[OF assms(1)], of C] assms(2) by (auto simp: maxItems_def)

theorem Execute_no_panic_witness:
  "\<exists>vm. NewEngine [OP_1] (spendTx [OP_1]) 0 0 None None 0 = Inr vm
     \<and> Execute toyCrypto vm \<noteq> Some Panic \<and> Execute toyCrypto vm \<noteq> Some Deadlock"
  using Execute_no_panic[OF spend_NewEngine[OF one_byte(1)]] spend_NewEngine[OF one_byte(1)] by (auto simp: spendTx_def witItems_def)

text \<open>The states an engine goes through.\<close>

inductive reachable :: "crypto \<Rightarrow> Engine \<Rightarrow> Engine \<Rightarrow> bool" for C vm where
  start: "reachable C vm vm"
| step: "reachable C vm u \<Longrightarrow> Step C u = Ok False w \<Longrightarrow> reachable C vm w"

lemma run_inv_reachable: "reachable C vm u \<Longrightarrow> run_inv vm \<Longrightarrow> run_inv u"
proof (induction rule: reachable.induct)
  case (step u w)
  then show ?case using wp_Ok[OF wp_Step[of u C] step(2)] by simp
qed

text \<open>C28: the invariant of the engine. In every state between two steps of an engine made by \<open>NewEngine\<close>: the program
  counter is at an instruction; the offset of the last code separator is inside the script; a script
  starts outside every conditional and with an empty alternate stack; the two stacks together have at
  most 1000 items, or, at the start of a script, at most as many as the largest witness; both locks
  are free.\<close>

theorem engine_invariant:
  assumes "NewEngine scriptPubKey mtx idx fl sc hc amount = Inr vm"
    and "length (witItems (tx_TxIn mtx ! nat idx)) \<le> unat maxWitnessItemsPerInput"
    and "reachable C vm u"
  shows "scriptIdx u < length (scripts u) \<and> scriptOff u < length (scripts u ! scriptIdx u)
    \<and> lastCodeSep u \<le> scriptOff u
    \<and> (scriptOff u = 0 \<longrightarrow> condStack u = [] \<and> stk (astack u) = [])
    \<and> length (stk (dstack u)) + length (stk (astack u))
        \<le> (if scriptOff u = 0 then unat maxWitnessItemsPerInput else 1000)
    \<and> \<not> stkMutex (dstack u) \<and> \<not> stkMutex (astack u)"
  using run_inv_reachable[OF assms(3) run_inv_NewEngine[OF assms(1)]] assms(2)
  by (auto simp: maxItems_def run_inv_def base_inv_def engine_ready_def sready_def stack_items_def)

theorem engine_invariant_witness:
  "\<exists>vm. NewEngine [OP_1] (spendTx [OP_1]) 0 0 None None 0 = Inr vm \<and> reachable toyCrypto vm vm
     \<and> scriptIdx vm < length (scripts vm) \<and> scriptOff vm < length (scripts vm ! scriptIdx vm)"
  using engine_invariant[OF spend_NewEngine[OF one_byte(1)] _ reachable.start] spend_NewEngine[OF one_byte(1)] reachable.start
  by (fastforce simp: spendTx_def witItems_def)

section \<open>Branches that are not executed\<close>

text \<open>An instruction in a branch that is not executed changes neither stack, whatever the instruction is; only the
  count of operations and, for a conditional, the conditional stack can change.\<close>

theorem skipped_branch_keeps_stacks:
  assumes "\<not> isBranchExecuting vm" and "executeOpcode C op vm = Ok () u"
  shows "\<exists>n cs. u = vm\<lparr>numOps := n, condStack := cs\<rparr> \<and> (\<not> isConditional op \<longrightarrow> cs = condStack vm)"
proof -
  have cond: "wp True (opfunc C (pop_value op) op) (\<lambda>_ u. \<exists>cs. u = v\<lparr>condStack := cs\<rparr>) v"
    if "isConditional op" "\<not> isBranchExecuting v" for v
  proof -
    have "opfunc C OP_IF = opcodeIf" "opfunc C OP_NOTIF = opcodeNotIf" "opfunc C OP_ELSE = opcodeElse"
      "opfunc C OP_ENDIF = opcodeEndif" by (simp_all add: opfunc_def opTable_def)
    moreover have "wp True (opcodeElse op) (\<lambda>_ u. \<exists>cs. u = v\<lparr>condStack := cs\<rparr>) v"
      by (auto simp: opcodeElse_def Let_def intro: exI[of _ "condStack v"])
    moreover have "\<exists>cs. condStack_update f v = v\<lparr>condStack := cs\<rparr>" for f
      by (rule exI[of _ "f (condStack v)"]) (cases v, simp)
    ultimately show ?thesis
      using that by (auto simp: isConditional_def opcodeIf_def opcodeNotIf_def opcodeEndif_def pushCond_def)
  qed
  define P where "P u \<longleftrightarrow> (\<exists>n cs. u = vm\<lparr>numOps := n, condStack := cs\<rparr>
      \<and> (\<not> isConditional op \<longrightarrow> cs = condStack vm))" for u
  have count: "numOps_update Suc vm = vm\<lparr>numOps := Suc (numOps vm)\<rparr>" by (cases vm) simp
  have keep: "P (vm\<lparr>numOps := n\<rparr>)" "P vm" for n
    unfolding P_def by (rule exI[of _ n] exI[of _ "numOps vm"], rule exI[of _ "condStack vm"], simp)+
  have conds: "\<exists>n csa. vm\<lparr>condStack := cs\<rparr> = vm\<lparr>numOps := n, condStack := csa\<rparr>" for cs
    by (rule exI[of _ "numOps vm"], rule exI[of _ cs]) simp
  have run: "wp True (opfunc C (pop_value op) op) (\<lambda>_. P) v"
    if "isConditional op" "v = vm \<or> v = vm\<lparr>numOps := n\<rparr>" for n v
    by (rule wp_mono[OF cond]) (use that assms(1) conds in \<open>auto simp: isBranchExecuting_def P_def\<close>)
  have "wp True (executeOpcode C op) (\<lambda>_. P) vm"
    unfolding executeOpcode_def using assms(1) keep run[of vm] run[of "vm\<lparr>numOps := Suc (numOps vm)\<rparr>" "Suc (numOps vm)"] by (simp add: count)
  from wp_Ok[OF this assms(2)] show ?thesis by (simp add: P_def)
qed

theorem skipped_branch_keeps_stacks_witness:
  "\<exists>n cs. executeOpcode toyCrypto (plainOp OP_DROP) ((spendEngine [] [] [])\<lparr>condStack := [OpCondFalse]\<rparr>)
     = Ok () ((spendEngine [] [] [])\<lparr>numOps := n, condStack := cs\<rparr>) \<and> cs = [OpCondFalse]"
proof -
  let ?vm = "(spendEngine [] [] [])\<lparr>condStack := [OpCondFalse]\<rparr>"
  have off: "\<not> isBranchExecuting ?vm" by (simp add: isBranchExecuting_def OpCondFalse_def OpCondTrue_def)
  have "\<exists>u. executeOpcode toyCrypto (plainOp OP_DROP) ?vm = Ok () u"
    by (simp add: executeOpcode_def bindP_def thenP_def isDisabled_def alwaysIllegal_def isConditional_def
        isBranchExecuting_def OpCondFalse_def OpCondTrue_def MaxOpsPerScript_def spendEngine_def startEngine_def
        initEngine_def Let_def)
  then obtain u where u: "executeOpcode toyCrypto (plainOp OP_DROP) ?vm = Ok () u" by blast
  from skipped_branch_keeps_stacks[OF off u] u show ?thesis
    by (auto simp: isConditional_def)
qed

section \<open>Stepping past the end, and outputs that cannot be spent\<close>

text \<open>\<open>Step\<close> on an engine that has run all its scripts panics; \<open>validPC\<close> does not report the program counter
  past the end, because the error of its first branch is dropped.\<close>

theorem Step_past_end_panics:
  assumes "length (scripts vm) \<le> scriptIdx vm"
  shows "Step C vm = Panic"
  using assms by (simp add: Step_def validPC_def bindP_def thenP_def)

theorem Step_past_end_panics_witness:
  "Step toyCrypto ((spendEngine [] [] [])\<lparr>scriptIdx := 2\<rparr>) = Panic"
  by (rule Step_past_end_panics) (simp add: spendEngine_def startEngine_def initEngine_def Let_def)

definition doomed :: "Engine \<Rightarrow> bool" where
  "doomed vm \<longleftrightarrow> scriptIdx vm \<le> 1 \<and> length (scripts vm) = 2 \<and> scripts vm ! 1 \<noteq> []
     \<and> pop_value (scripts vm ! 1 ! 0) = OP_RETURN \<and> \<not> bip16 vm \<and> (scriptIdx vm = 1 \<longrightarrow> scriptOff vm = 0)"

lemma return_fails:
  assumes "pop_value op = OP_RETURN" and "condStack vm = []"
  shows "wp False (executeOpcode C op) (\<lambda>_ _. False) vm"
  using assms by (simp add: executeOpcode_def opfunc_simps opcodeReturn_def isBranchExecuting_def)

lemma next_after_first:
  assumes "scriptIdx vm = 0" and "\<not> bip16 vm" and "sready (astack vm)" and "doomed vm"
  shows "wp False (nextScript C) (\<lambda>done u. \<not> done \<and> doomed u) vm"
  using assms
  by (simp add: nextScript_def advanceScript_def skipEmptyScript_def onA_def wp_dropAll[unfolded wp_bind] doomed_def)

lemma wp_Step_doomed:
  assumes "run_inv vm" and "doomed vm"
  shows "wp False (Step C) (\<lambda>done u. \<not> done \<and> doomed u) vm"
proof -
  let ?ss = "scripts vm" and ?i = "scriptIdx vm" and ?off = "scriptOff vm"
  let ?op = "?ss ! ?i ! ?off" and ?v = "scriptOff_update Suc vm"
  let ?tail = "bindP (onD Depth) (\<lambda>d. bindP (onA Depth) (\<lambda>a.
     thenP (failWhen (s32 (d + a) > MaxStackSize) ErrStackOverflow)
     (bindP (getP scriptOff) (\<lambda>off'.
      if off' \<ge> length (?ss ! ?i) then nextScript C else retP False)))) :: bool vm"
  have pc: "?i < length ?ss" "?off < length (?ss ! ?i)"
    using assms(1) by (auto simp: run_inv_def base_inv_def engine_ready_def)
  have "wp False (executeOpcode C ?op) (\<lambda>_. wp False ?tail (\<lambda>done u. \<not> done \<and> doomed u)) ?v"
  proof (cases "?i = 1")
    case True
    then have "pop_value ?op = OP_RETURN" "condStack ?v = []"
      using assms by (auto simp: doomed_def run_inv_def)
    from return_fails[OF this] show ?thesis by (rule wp_mono) simp
  next
    case False
    with assms(2) have i: "?i = 0" by (auto simp: doomed_def)
    show ?thesis
    proof (rule wp_mono[OF wp_execute[OF assms(1) refl]])
      fix u assume u: "base_inv u \<and> frame u = frame ?v \<and> stack_items u \<le> maxItems + 3
        \<and> (bip16 u \<and> scriptIdx u = 1 \<longrightarrow> savedFirstStack u \<noteq> [])"
      note f = frame_fields[of u ?v]
      have r: "sready (dstack u)" "sready (astack u)" using u by (auto simp: base_inv_def engine_ready_def)
      have d: "doomed u" using assms(2) u f i by (simp add: doomed_def)
      show "wp False ?tail (\<lambda>done u. \<not> done \<and> doomed u) u"
        using r d next_after_first[of u C] u f i assms(2)
        by (simp add: onD_def onA_def wp_Depth doomed_def)
    qed
  qed
  then show ?thesis using pc by (simp add: Step_def validPC_def)
qed

lemma executeLoop_doomed:
  "run_inv vm \<Longrightarrow> doomed vm \<Longrightarrow> executeLoop C vm = Some r \<Longrightarrow> r \<noteq> Ok () u"
proof (induction vm rule: wf_induct_rule[OF wf_inv_image[of "less_than <*lex*> less_than" position]])
  case 1
  then show ?case by (simp add: wf_lex_prod)
next
  case (2 vm)
  show ?case
  proof (cases "Step C vm")
    case (Ok d w)
    with wp_Step[OF 2(2), of C] wp_Step_doomed[OF 2(2,3), of C]
    have "\<not> d" "run_inv w" "doomed w" "(position w, position vm) \<in> less_than <*lex*> less_than"
      by (auto simp: wp_def)
    with Ok 2(1)[of w] 2(4) show ?thesis by (simp add: executeLoop.simps[of C vm])
  qed (use 2(4) in \<open>auto simp: executeLoop.simps[of C vm]\<close>)
qed

text \<open>C29: an output that \<open>IsUnspendable\<close> reports can be dropped from the set of unspent outputs: no input, no flags and no
  signatures make the execution of its script succeed.\<close>

theorem unspendable_never_succeeds:
  assumes "IsUnspendable scriptPubKey"
    and "NewEngine scriptPubKey mtx idx fl sc hc amount = Inr vm"
    and "length (witItems (tx_TxIn mtx ! nat idx)) \<le> unat maxWitnessItemsPerInput"
  shows "Execute C vm \<noteq> Some (Ok () u)"
proof -
  have r: "run_inv vm" using run_inv_NewEngine[OF assms(2)] assms(3) by (simp add: maxItems_def)
  have "doomed vm"
    using NewEngine_Inr[OF assms(2)] assms(1)
    by (auto simp: IsUnspendable_def doomed_def startEngine_def initEngine_def isScriptHash_def Let_def)
  from executeLoop_doomed[OF r this, of C] show ?thesis
    by (auto simp: Execute_def bindP_def split: res.splits)
qed

theorem unspendable_never_succeeds_witness:
  "IsUnspendable [OP_RETURN] \<and> (\<exists>vm. NewEngine [OP_RETURN] (spendTx [OP_1]) 0 0 None None 0 = Inr vm
     \<and> (\<forall>u. Execute toyCrypto vm \<noteq> Some (Ok () u)))"
proof -
  have "IsUnspendable [OP_RETURN]"
    using parse_AddOp[OF parseOrErr_Nil one_byte(2)] by (simp add: IsUnspendable_def)
  with unspendable_never_succeeds[OF this spend_NewEngine[OF one_byte(2)]] spend_NewEngine[OF one_byte(2)]
  show ?thesis by (auto simp: spendTx_def witItems_def)
qed

end
