(* ===== verification/ScriptTransparency.thy ===== *)
theory ScriptTransparency
  imports ScriptEngine
begin

text \<open>
  The signature cache does not change the result of an execution. The locale \<open>simulation\<close> is the
  contract of a computation that does not look at a part of its state: run on the state without
  that part it gives the same result. It is interpreted for the engine without its signature cache,
  all handlers are shown to satisfy it, and with them a step and the loop.
\<close>

section \<open>Computations that ignore a part of the state\<close>

locale simulation =
  fixes sound :: "'s \<Rightarrow> bool"
    and forget :: "'s \<Rightarrow> 's"
  assumes sound_forget: "sound (forget s)"
    and forget_forget: "forget (forget s) = forget s"
begin

definition sim :: "('a, 's) prog \<Rightarrow> ('a \<Rightarrow> bool) \<Rightarrow> bool" where
  "sim m P \<longleftrightarrow> (\<forall>s. sound s \<longrightarrow>
     m (forget s) = map_res id forget (m s) \<and> (\<forall>x t. m s = Ok x t \<longrightarrow> sound t \<and> P x))"

lemma simI:
  "(\<And>s. sound s \<Longrightarrow> m (forget s) = map_res id forget (m s)) \<Longrightarrow>
   (\<And>s x t. sound s \<Longrightarrow> m s = Ok x t \<Longrightarrow> sound t \<and> P x) \<Longrightarrow> sim m P"
  by (simp add: sim_def)

lemma simD:
  assumes "sim m P" and "sound s"
  shows "m (forget s) = map_res id forget (m s)" and "m s = Ok x t \<Longrightarrow> sound t \<and> P x"
  using assms by (simp_all add: sim_def)

lemma sim_fixed: "sim m P \<Longrightarrow> map_res id forget (m (forget s)) = m (forget s)"
  using simD(1)[of m P "forget s"] by (simp add: sound_forget forget_forget)

lemma sim_weaken: "sim m P \<Longrightarrow> (\<And>x. P x \<Longrightarrow> Q x) \<Longrightarrow> sim m Q"
  by (auto simp: sim_def)

lemma sim_bind:
  assumes m: "sim m P" and f: "\<And>x. P x \<Longrightarrow> sim (f x) Q"
  shows "sim (bindP m f) Q"
proof (rule simI)
  fix s assume s: "sound s"
  then show "bindP m f (forget s) = map_res id forget (bindP m f s)"
    using simD[OF m s] simD(1)[OF f] by (cases "m s") (auto simp: bindP_def)
next
  fix s x t assume "sound s" "bindP m f s = Ok x t"
  then show "sound t \<and> Q x"
    unfolding bindP_eq_Ok using simD(2)[OF m] simD(2)[OF f] by blast
qed

lemma sim_then: "sim m (\<lambda>_. True) \<Longrightarrow> sim n Q \<Longrightarrow> sim (thenP m n) Q"
  unfolding thenP_def by (rule sim_bind)

lemma sim_ret: "P x \<Longrightarrow> sim (retP x) P"
  by (simp add: sim_def)

lemma sim_fail: "sim (failP e) P"
  by (simp add: sim_def)

lemma sim_panic: "sim panicP P"
  by (simp add: sim_def)

lemma sim_failWhen: "(\<not> b \<Longrightarrow> P ()) \<Longrightarrow> sim (failWhen b e) P"
  by (simp add: sim_def)

lemma sim_liftE: "(\<And>x. r = Inr x \<Longrightarrow> P x) \<Longrightarrow> sim (liftE r) P"
  by (cases r) (simp_all add: sim_def)

lemma sim_index: "(\<And>x. P x) \<Longrightarrow> sim (indexP xs i) P"
  by (auto simp: sim_def)

lemma sim_get: "(\<And>s. f (forget s) = f s) \<Longrightarrow> (\<And>s. sound s \<Longrightarrow> P (f s)) \<Longrightarrow> sim (getP f) P"
  by (simp add: sim_def)

lemma sim_modify:
  "(\<And>s. f (forget s) = forget (f s)) \<Longrightarrow> (\<And>s. sound s \<Longrightarrow> sound (f s)) \<Longrightarrow> sim (modifyP f) (\<lambda>_. True)"
  by (simp add: sim_def)

lemma sim_onField:
  assumes "\<And>s. get (forget s) = get s" and "\<And>s t. upd (\<lambda>_. t) (forget s) = forget (upd (\<lambda>_. t) s)"
    and "\<And>s t. sound s \<Longrightarrow> sound (upd (\<lambda>_. t) s)"
  shows "sim (onField get upd m) (\<lambda>_. True)"
proof (rule simI)
  fix s
  show "onField get upd m (forget s) = map_res id forget (onField get upd m s)"
    using assms(1,2) by (cases "m (get s)") (auto simp: onField_def)
next
  fix s x t assume "sound s" "onField get upd m s = Ok x t"
  then show "sound t \<and> True"
    using assms(3) by (auto simp: onField_def split: res.splits)
qed

lemma sim_if: "(b \<Longrightarrow> sim m P) \<Longrightarrow> (\<not> b \<Longrightarrow> sim n P) \<Longrightarrow> sim (if b then m else n) P"
  by simp

lemma sim_option:
  "(r = None \<Longrightarrow> sim m P) \<Longrightarrow> (\<And>x. r = Some x \<Longrightarrow> sim (f x) P) \<Longrightarrow>
     sim (case r of None \<Rightarrow> m | Some x \<Rightarrow> f x) P"
  by (cases r) simp_all

lemma sim_collect: "sim m (\<lambda>_. True) \<Longrightarrow> sim (collectP n m) (\<lambda>_. True)"
  by (induction n) (auto intro!: sim_ret sim_bind)

lemma sim_for: "(\<And>x. sim (f x) (\<lambda>_. True)) \<Longrightarrow> sim (forP xs f) (\<lambda>_. True)"
  by (induction xs) (auto intro!: sim_ret sim_then)

end

section \<open>The engine without its cache\<close>

definition forgetCache :: "Engine \<Rightarrow> Engine" where
  "forgetCache vm = vm\<lparr>sigCache := None\<rparr>"

definition cache_sound :: "crypto \<Rightarrow> Engine \<Rightarrow> bool" where
  "cache_sound C vm \<longleftrightarrow> (case sigCache vm of None \<Rightarrow> True | Some sc \<Rightarrow> sound_cache (c_Verify C) sc)"

interpretation cs: simulation "cache_sound C" forgetCache for C
  by unfold_locales (simp_all add: cache_sound_def forgetCache_def)

named_theorems sim_rules \<open>computations that ignore the signature cache\<close>

lemmas sim_struct [sim_rules] = cs.sim_bind cs.sim_then cs.sim_fail cs.sim_panic cs.sim_if cs.sim_option

lemma forget_selectors [simp]:
  "scripts (forgetCache vm) = scripts vm" "scriptIdx (forgetCache vm) = scriptIdx vm"
  "scriptOff (forgetCache vm) = scriptOff vm" "lastCodeSep (forgetCache vm) = lastCodeSep vm"
  "dstack (forgetCache vm) = dstack vm" "astack (forgetCache vm) = astack vm" "tx (forgetCache vm) = tx vm"
  "txIdx (forgetCache vm) = txIdx vm" "condStack (forgetCache vm) = condStack vm"
  "numOps (forgetCache vm) = numOps vm" "flags (forgetCache vm) = flags vm"
  "hashCache (forgetCache vm) = hashCache vm" "bip16 (forgetCache vm) = bip16 vm"
  "savedFirstStack (forgetCache vm) = savedFirstStack vm" "witnessVersion (forgetCache vm) = witnessVersion vm"
  "witnessProgram (forgetCache vm) = witnessProgram vm" "inputAmount (forgetCache vm) = inputAmount vm"
  by (simp_all add: forgetCache_def)

lemma forget_predicates [simp]:
  "hasFlag (forgetCache vm) fl = hasFlag vm fl" "isBranchExecuting (forgetCache vm) = isBranchExecuting vm"
  "isWitnessVersionActive (forgetCache vm) n = isWitnessVersionActive vm n"
  "parseSig C (forgetCache vm) sig = parseSig C vm sig"
  by (simp_all add: hasFlag_def isBranchExecuting_def isWitnessVersionActive_def parseSig_def)

lemma sim_basic [sim_rules]:
  "cs.sim C (failWhen b e) (\<lambda>_. True)" "cs.sim C (retP x) (\<lambda>_. True)" "cs.sim C (liftE r) (\<lambda>_. True)"
  "cs.sim C (indexP xs i) (\<lambda>_. True)"
  "(\<And>vm. f (forgetCache vm) = f vm) \<Longrightarrow> cs.sim C (getP f) (\<lambda>_. True)"
  by (auto intro: cs.sim_failWhen cs.sim_ret cs.sim_liftE cs.sim_index cs.sim_get)

lemma sim_fields [sim_rules]:
  "cs.sim C (onD m) (\<lambda>_. True)" "cs.sim C (onA n) (\<lambda>_. True)"
  unfolding onD_def onA_def by (rule cs.sim_onField; simp add: forgetCache_def cache_sound_def)+

lemma sim_updates [sim_rules]:
  "cs.sim C (modifyP (condStack_update f)) (\<lambda>_. True)" "cs.sim C (modifyP (numOps_update g)) (\<lambda>_. True)"
  "cs.sim C (modifyP (scriptIdx_update g)) (\<lambda>_. True)" "cs.sim C (modifyP (scriptOff_update g)) (\<lambda>_. True)"
  "cs.sim C (modifyP (savedFirstStack_update h)) (\<lambda>_. True)"
  "cs.sim C (modifyP (witnessProgram_update k)) (\<lambda>_. True)"
  "cs.sim C (modifyP (lastCodeSep_update g)) (\<lambda>_. True)"
  "cs.sim C (modifyP (\<lambda>vm. vm\<lparr>numOps := 0, scriptOff := 0\<rparr>)) (\<lambda>_. True)"
  "cs.sim C (modifyP (\<lambda>vm. vm\<lparr>lastCodeSep := scriptOff vm\<rparr>)) (\<lambda>_. True)"
  "cs.sim C (modifyP (\<lambda>vm. vm\<lparr>scripts := scripts vm @ [pops]\<rparr>)) (\<lambda>_. True)"
  by (rule cs.sim_modify; simp add: forgetCache_def cache_sound_def)+

lemma sim_ifFlag [sim_rules]: "cs.sim C m P \<Longrightarrow> cs.sim C n P \<Longrightarrow> cs.sim C (ifFlag fl m n) P"
  unfolding ifFlag_def by (rule sim_rules | simp)+

section \<open>Handlers\<close>

lemma sim_parts [sim_rules]:
  "cs.sim C peekNum5 (\<lambda>_. True)" "cs.sim C popIfBool (\<lambda>_. True)" "cs.sim C (abstractVerify op c) (\<lambda>_. True)"
  "cs.sim C currentTxIn (\<lambda>_. True)" "cs.sim C subScript (\<lambda>_. True)" "cs.sim C (opcodeEqual op) (\<lambda>_. True)"
  "cs.sim C (opcodeNumEqual op) (\<lambda>_. True)" "cs.sim C (checkHashTypeEncoding ht) (\<lambda>_. True)"
  "cs.sim C (checkPubKeyEncoding pk) (\<lambda>_. True)" "cs.sim C (checkDER sig) (\<lambda>_. True)"
  unfolding peekNum5_def popIfBool_def abstractVerify_def currentTxIn_def subScript_def opcodeEqual_def
    opcodeNumEqual_def checkHashTypeEncoding_def checkPubKeyEncoding_def checkDER_def Let_def
  by (rule sim_rules | simp)+

lemma sim_checkSignatureEncoding [sim_rules]: "cs.sim C (checkSignatureEncoding sig) (\<lambda>_. True)"
  unfolding checkSignatureEncoding_def by (rule sim_rules | simp)+

lemma sim_constants:
  "cs.sim C (opcodeDisabled op) (\<lambda>_. True)" "cs.sim C (opcodeReserved op) (\<lambda>_. True)"
  "cs.sim C (opcodeInvalid op) (\<lambda>_. True)" "cs.sim C (opcodeFalse op) (\<lambda>_. True)"
  "cs.sim C (opcodePushData op) (\<lambda>_. True)" "cs.sim C (opcode1Negate op) (\<lambda>_. True)"
  "cs.sim C (opcodeN op) (\<lambda>_. True)" "cs.sim C (opcodeNop op) (\<lambda>_. True)"
  unfolding opcodeDisabled_def opcodeReserved_def opcodeInvalid_def opcodeFalse_def
    opcodePushData_def opcode1Negate_def opcodeN_def opcodeNop_def
  by (rule sim_rules | simp)+

lemma sim_flow:
  "cs.sim C (opcodeIf op) (\<lambda>_. True)" "cs.sim C (opcodeNotIf op) (\<lambda>_. True)"
  "cs.sim C (opcodeElse op) (\<lambda>_. True)" "cs.sim C (opcodeEndif op) (\<lambda>_. True)"
  "cs.sim C (opcodeVerify op) (\<lambda>_. True)" "cs.sim C (opcodeReturn op) (\<lambda>_. True)"
  "cs.sim C (opcodeCheckLockTimeVerify op) (\<lambda>_. True)" "cs.sim C (opcodeCheckSequenceVerify op) (\<lambda>_. True)"
  unfolding opcodeIf_def opcodeNotIf_def opcodeElse_def opcodeEndif_def opcodeVerify_def
    opcodeReturn_def opcodeCheckLockTimeVerify_def opcodeCheckSequenceVerify_def Let_def
    pushCond_def
  by (rule sim_rules | simp)+

lemma sim_stack:
  "cs.sim C (opcodeToAltStack op) (\<lambda>_. True)" "cs.sim C (opcodeFromAltStack op) (\<lambda>_. True)"
  "cs.sim C (opcode2Drop op) (\<lambda>_. True)" "cs.sim C (opcode2Dup op) (\<lambda>_. True)"
  "cs.sim C (opcode3Dup op) (\<lambda>_. True)" "cs.sim C (opcode2Over op) (\<lambda>_. True)"
  "cs.sim C (opcode2Rot op) (\<lambda>_. True)" "cs.sim C (opcode2Swap op) (\<lambda>_. True)"
  "cs.sim C (opcodeIfDup op) (\<lambda>_. True)" "cs.sim C (opcodeDepth op) (\<lambda>_. True)"
  "cs.sim C (opcodeDrop op) (\<lambda>_. True)" "cs.sim C (opcodeDup op) (\<lambda>_. True)"
  "cs.sim C (opcodeNip op) (\<lambda>_. True)" "cs.sim C (opcodeOver op) (\<lambda>_. True)"
  "cs.sim C (opcodePick op) (\<lambda>_. True)" "cs.sim C (opcodeRoll op) (\<lambda>_. True)"
  "cs.sim C (opcodeRot op) (\<lambda>_. True)" "cs.sim C (opcodeSwap op) (\<lambda>_. True)"
  "cs.sim C (opcodeTuck op) (\<lambda>_. True)" "cs.sim C (opcodeSize op) (\<lambda>_. True)"
  "cs.sim C (opcodeEqualVerify op) (\<lambda>_. True)"
  unfolding opcodeToAltStack_def opcodeFromAltStack_def opcode2Drop_def opcode2Dup_def
    opcode3Dup_def opcode2Over_def opcode2Rot_def opcode2Swap_def opcodeIfDup_def opcodeDepth_def
    opcodeDrop_def opcodeDup_def opcodeNip_def opcodeOver_def opcodePick_def opcodeRoll_def
    opcodeRot_def opcodeSwap_def opcodeTuck_def opcodeSize_def opcodeEqualVerify_def
  by (rule sim_rules | simp)+

lemma sim_arith:
  "cs.sim C (opcode1Add op) (\<lambda>_. True)" "cs.sim C (opcode1Sub op) (\<lambda>_. True)"
  "cs.sim C (opcodeNegate op) (\<lambda>_. True)" "cs.sim C (opcodeAbs op) (\<lambda>_. True)"
  "cs.sim C (opcodeNot op) (\<lambda>_. True)" "cs.sim C (opcode0NotEqual op) (\<lambda>_. True)"
  "cs.sim C (opcodeAdd op) (\<lambda>_. True)" "cs.sim C (opcodeSub op) (\<lambda>_. True)"
  "cs.sim C (opcodeBoolAnd op) (\<lambda>_. True)" "cs.sim C (opcodeBoolOr op) (\<lambda>_. True)"
  "cs.sim C (opcodeNumEqualVerify op) (\<lambda>_. True)" "cs.sim C (opcodeNumNotEqual op) (\<lambda>_. True)"
  "cs.sim C (opcodeLessThan op) (\<lambda>_. True)" "cs.sim C (opcodeGreaterThan op) (\<lambda>_. True)"
  "cs.sim C (opcodeLessThanOrEqual op) (\<lambda>_. True)" "cs.sim C (opcodeGreaterThanOrEqual op) (\<lambda>_. True)"
  "cs.sim C (opcodeMin op) (\<lambda>_. True)" "cs.sim C (opcodeMax op) (\<lambda>_. True)"
  "cs.sim C (opcodeWithin op) (\<lambda>_. True)"
  unfolding opcode1Add_def opcode1Sub_def opcodeNegate_def opcodeAbs_def opcodeNot_def
    opcode0NotEqual_def opcodeAdd_def opcodeSub_def opcodeBoolAnd_def opcodeBoolOr_def
    opcodeNumEqualVerify_def opcodeNumNotEqual_def opcodeLessThan_def opcodeGreaterThan_def
    opcodeLessThanOrEqual_def opcodeGreaterThanOrEqual_def opcodeMin_def opcodeMax_def
    opcodeWithin_def
  by (rule sim_rules | simp)+

lemma sim_hash:
  "cs.sim C (opcodeRipeMD160 C op) (\<lambda>_. True)" "cs.sim C (opcodeSHA1 C op) (\<lambda>_. True)"
  "cs.sim C (opcodeSHA256 C op) (\<lambda>_. True)" "cs.sim C (opcodeHash160 C op) (\<lambda>_. True)"
  "cs.sim C (opcodeHash256 C op) (\<lambda>_. True)" "cs.sim C (opcodeCodeSeparator op) (\<lambda>_. True)"
  unfolding opcodeRipeMD160_def opcodeSHA1_def opcodeSHA256_def opcodeHash160_def opcodeHash256_def
    opcodeCodeSeparator_def
  by (rule sim_rules | simp)+


section \<open>Signature checks\<close>

definition sha_size :: "crypto \<Rightarrow> bool" where
  "sha_size C \<longleftrightarrow> (\<forall>b. length (c_sha256 C b) = HashSize)"

lemma copyHash_id: "length h = HashSize \<Longrightarrow> copyHash h = h"
  by (simp add: copyHash_def)

lemma sim_scriptSigHash:
  assumes "sha_size C"
  shows "cs.sim C (scriptSigHash C script ht) (\<lambda>h. length h = HashSize)"
proof -
  have "length h = HashSize" if "calcSignatureHash (c_sha256 C) script ht mtx idx = Some h" for mtx idx h
    using that assms
    by (auto simp: sha_size_def calcSignatureHash_def DoubleHashH_def zeroHash_def split: if_splits)
  moreover have "length h = HashSize"
    if "calcWitnessSignatureHash (c_sha256 C) script hs ht mtx idx amt = Inr h" for mtx idx hs amt h
    using that assms
    by (auto simp: sha_size_def calcWitnessSignatureHash_def DoubleHashH_def Let_def bindE_eq_Inr split: if_splits)
  moreover note len = calculation
  show ?thesis
    unfolding scriptSigHash_def
    by (rule cs.simI)
      (auto simp: bindP_def Let_def dest: len split: if_splits option.splits sum.splits)
qed

lemma sim_verifySig:
  assumes "length hash = HashSize"
  shows "cs.sim C (verifySig C hash sg pk) (\<lambda>_. True)"
proof (rule cs.simI)
  fix vm assume s: "cache_sound C vm"
  show "verifySig C hash sg pk (forgetCache vm) = map_res id forgetCache (verifySig C hash sg pk vm)"
    using s sigcache.present_sound[of "c_Verify C" _ hash sg pk]
    by (auto simp: verifySig_def bindP_def thenP_def cache_sound_def copyHash_id[OF assms] Let_def
        forgetCache_def split: option.splits)
next
  fix vm x t assume "cache_sound C vm" "verifySig C hash sg pk vm = Ok x t"
  then show "cache_sound C t \<and> True"
    using sigcache.insert_sound[of "c_Verify C" _ sg hash pk]
    by (auto simp: verifySig_def bindP_def thenP_def cache_sound_def copyHash_id[OF assms] Let_def
        split: option.splits if_splits)
qed

lemma sim_multiSigTry:
  assumes "sha_size C"
  shows "cs.sim C (multiSigTry C script pk info) (\<lambda>_. True)"
  unfolding multiSigTry_def multiSigTryKey_def Let_def
  by (rule sim_rules sim_scriptSigHash[OF assms] sim_verifySig | simp)+

lemma sim_multiSigLoop:
  assumes "sha_size C"
  shows "cs.sim C (multiSigLoop C script pubKeys n numSigs i j sigs) (\<lambda>_. True)"
proof (induction n arbitrary: numSigs i j sigs)
  case 0
  then show ?case by (simp add: cs.sim_ret)
next
  case (Suc n)
  show ?case
    unfolding multiSigLoop.simps case_prod_beta by (rule sim_rules sim_multiSigTry[OF assms] Suc.IH | simp)+
qed

lemma sim_checkSigs:
  assumes "sha_size C"
  shows "cs.sim C (opcodeCheckSig C op) (\<lambda>_. True)" "cs.sim C (opcodeCheckMultiSig C op) (\<lambda>_. True)"
  unfolding opcodeCheckSig_def opcodeCheckMultiSig_def Let_def
  by (rule sim_rules sim_scriptSigHash[OF assms] sim_verifySig sim_multiSigLoop[OF assms] cs.sim_collect | simp)+

lemma sim_opfunc:
  assumes "sha_size C"
  shows "cs.sim C (opfunc C v op) (\<lambda>_. True)"
proof -
  have "cs.sim C (opcodeCheckSigVerify C op) (\<lambda>_. True)" "cs.sim C (opcodeCheckMultiSigVerify C op) (\<lambda>_. True)"
    unfolding opcodeCheckSigVerify_def opcodeCheckMultiSigVerify_def
    by (rule sim_rules sim_checkSigs[OF assms])+
  then have "\<forall>h \<in> snd ` set (opTable C). cs.sim C (h op) (\<lambda>_. True)"
    by (simp add: opTable_def sim_constants sim_flow sim_stack sim_arith sim_hash sim_parts sim_checkSigs[OF assms])
  then have "cs.sim C (h op) (\<lambda>_. True)" if "map_of (opTable C) v = Some h" for h
    using map_of_SomeD[OF that] by force
  then show ?thesis
    by (auto simp: opfunc_def sim_constants split: option.split)
qed

section \<open>Steps and executions\<close>

lemma sim_executeOpcode:
  assumes "sha_size C"
  shows "cs.sim C (executeOpcode C op) (\<lambda>_. True)"
  unfolding executeOpcode_def by (rule sim_rules sim_opfunc[OF assms] | simp)+

lemma sim_between [sim_rules]:
  "cs.sim C (CheckErrorCondition b) (\<lambda>_. True)" "cs.sim C validPC (\<lambda>_. True)"
  "cs.sim C skipEmptyScript (\<lambda>_. True)" "cs.sim C (SetStack items) (\<lambda>_. True)" "cs.sim C GetStack (\<lambda>_. True)"
  "cs.sim C (appendScript pops) (\<lambda>_. True)" "cs.sim C (lastP xs) (\<lambda>_. True)"
  unfolding CheckErrorCondition_def validPC_def skipEmptyScript_def SetStack_def GetStack_def appendScript_def
    lastP_def
  by (rule sim_rules | simp)+

lemma sim_nextScript: "cs.sim C (nextScript C) (\<lambda>_. True)"
  unfolding nextScript_def advanceScript_def verifyWitnessProgram_def Let_def
  by (rule sim_rules cs.sim_for | simp)+

lemma sim_Step:
  assumes "sha_size C"
  shows "cs.sim C (Step C) (\<lambda>_. True)"
  unfolding Step_def by (rule sim_rules sim_executeOpcode[OF assms] sim_nextScript | simp)+

abbreviation forgetRes :: "('a, Engine) res \<Rightarrow> ('a, Engine) res" where
  "forgetRes \<equiv> map_res id forgetCache"

lemma executeLoop_sim:
  assumes "sha_size C"
  shows "run_inv vm \<Longrightarrow> cache_sound C vm \<Longrightarrow>
    executeLoop C (forgetCache vm) = map_option forgetRes (executeLoop C vm)
    \<and> (\<forall>x u. executeLoop C vm = Some (Ok x u) \<longrightarrow> cache_sound C u)"
proof (induction vm rule: wf_induct_rule[OF wf_inv_image[of "less_than <*lex*> less_than" position]])
  case 1
  then show ?case by (simp add: wf_lex_prod)
next
  case (2 vm)
  note sim = cs.simD[OF sim_Step[OF assms] 2(3)] and step = wp_Step[OF 2(2), of C]
  show ?case
  proof (cases "Step C vm")
    case (Ok d w)
    have "cache_sound C w" using sim(2)[OF Ok] by simp
    moreover have "\<not> d \<longrightarrow> run_inv w \<and> (position w, position vm) \<in> less_than <*lex*> less_than"
      using step Ok by (simp add: wp_def)
    ultimately show ?thesis
      using 2(1)[of w] Ok sim(1) by (simp add: executeLoop.simps[of C vm] executeLoop.simps[of C "forgetCache vm"])
  qed (use sim(1) in \<open>auto simp: executeLoop.simps[of C vm] executeLoop.simps[of C "forgetCache vm"]\<close>)
qed

lemma Execute_sim:
  assumes "sha_size C" and "run_inv vm" and "cache_sound C vm"
  shows "Execute C (forgetCache vm) = map_option forgetRes (Execute C vm)"
proof -
  obtain r where r: "executeLoop C vm = Some r" using executeLoop_returns[OF assms(2), of C] by blast
  then have f: "executeLoop C (forgetCache vm) = Some (forgetRes r)"
    and s: "\<And>x u. r = Ok x u \<Longrightarrow> cache_sound C u"
    using executeLoop_sim[OF assms] by auto
  show ?thesis
    using r f s cs.simD(1)[OF sim_between(1)] by (cases r) (auto simp: Execute_def bindP_def)
qed

lemma map_sum_bindE: "map_sum id f (bindE m g) = bindE m (\<lambda>x. map_sum id f (g x))"
  by (cases m) (simp_all add: bindE_def)

lemma NewEngine_cache:
  "NewEngine pk mtx idx fl None hc amount = map_sum id forgetCache (NewEngine pk mtx idx fl sc hc amount)"
proof -
  have i: "initEngine mtx n fl None hc amount = forgetCache (initEngine mtx n fl sc hc amount)" for n
    by (simp add: initEngine_def forgetCache_def)
  have st: "startEngine scriptSig sigPops pkPops (forgetCache vm) = forgetCache (startEngine scriptSig sigPops pkPops vm)"
    for scriptSig sigPops pkPops vm
    by (simp add: startEngine_def Let_def forgetCache_def hasFlag_def)
  have w: "setWitnessProgram prog wit (forgetCache vm) = map_sum id forgetCache (setWitnessProgram prog wit vm)"
    for prog wit vm
    by (auto simp: setWitnessProgram_def bindE_def forgetCache_def failIf_def split: option.split sum.split)
  show ?thesis
    by (simp add: NewEngine_def Let_def map_sum_bindE i st w if_distrib[of "map_sum id forgetCache"]
        cong: if_cong)
qed

text \<open>C10: the signature cache is transparent. If the cache only holds verified signatures, which is what \<open>Add\<close> maintains,
  and SHA-256 has its size, then an engine with the cache and an engine without one make the same
  decision: \<open>NewEngine\<close> gives the same error or engine, and \<open>Execute\<close> the same success or error and
  the same final state, apart from the cache.\<close>

theorem signature_cache_transparent:
  assumes "\<forall>b. length (c_sha256 C b) = HashSize" and "sound_cache (c_Verify C) sc"
    and "NewEngine scriptPubKey mtx idx fl (Some sc) hc amount = Inr vm"
    and "length (witItems (tx_TxIn mtx ! nat idx)) \<le> unat maxWitnessItemsPerInput"
  shows "\<exists>vm'. NewEngine scriptPubKey mtx idx fl None hc amount = Inr vm'
    \<and> Execute C vm' = map_option (map_res id (\<lambda>v. v\<lparr>sigCache := None\<rparr>)) (Execute C vm)"
proof -
  have "sigCache vm = Some sc"
    using NewEngine_Inr[OF assms(3)] by (auto simp: startEngine_def initEngine_def Let_def)
  then have "cache_sound C vm" using assms(2) by (simp add: cache_sound_def)
  moreover have "run_inv vm" using run_inv_NewEngine[OF assms(3)] assms(4) by (simp add: maxItems_def)
  ultimately have "Execute C (forgetCache vm) = map_option forgetRes (Execute C vm)"
    using assms(1) by (intro Execute_sim) (auto simp: sha_size_def)
  moreover have "NewEngine scriptPubKey mtx idx fl None hc amount = Inr (forgetCache vm)"
    using NewEngine_cache[of scriptPubKey mtx idx fl hc amount "Some sc"] assms(3) by simp
  moreover have "forgetCache = (\<lambda>v. v\<lparr>sigCache := None\<rparr>)" by (simp add: fun_eq_iff forgetCache_def)
  ultimately show ?thesis by auto
qed

theorem signature_cache_transparent_witness:
  "\<exists>vm vm'. NewEngine [OP_1] (spendTx [OP_1]) 0 0 (Some (NewSigCache 10)) None 0 = Inr vm
     \<and> NewEngine [OP_1] (spendTx [OP_1]) 0 0 None None 0 = Inr vm'
     \<and> Execute toyCrypto vm' = map_option (map_res id (\<lambda>v. v\<lparr>sigCache := None\<rparr>)) (Execute toyCrypto vm)"
proof -
  obtain vm where vm: "NewEngine [OP_1] (spendTx [OP_1]) 0 0 (Some (NewSigCache 10)) None 0 = Inr vm"
    using NewEngine_cache[of "[OP_1]" "spendTx [OP_1]" 0 0 None 0 "Some (NewSigCache 10)"]
      spend_NewEngine[OF one_byte(1)]
    by (cases "NewEngine [OP_1] (spendTx [OP_1]) 0 0 (Some (NewSigCache 10)) None 0") auto
  have "\<forall>b. length (c_sha256 toyCrypto b) = HashSize"
    by (auto simp: toyCrypto_def toyHash_def HashSize_def min_def)
  moreover have "sound_cache (c_Verify toyCrypto) (NewSigCache 10)"
    by (simp add: sound_cache_def NewSigCache_def)
  ultimately show ?thesis
    using signature_cache_transparent[OF _ _ vm] vm by (auto simp: spendTx_def witItems_def)
qed

end
