(* ===== verification/ScriptMultiSig.thy ===== *)
theory ScriptMultiSig
  imports ScriptEngine "HOL-Library.Sublist"
begin

text \<open>
  What \<open>OP\_CHECKMULTISIG\<close> decides: the specification is that the signatures, in their order, are
  valid under some of the public keys, in their order. The loop of the handler is refined to a
  greedy matching, which finds such keys whenever there are some.
\<close>

section \<open>Greedy matching\<close>

fun greedy :: "('s \<Rightarrow> 'k \<Rightarrow> bool) \<Rightarrow> 's list \<Rightarrow> 'k list \<Rightarrow> bool" where
  "greedy V [] ks = True"
| "greedy V (s # ss) [] = False"
| "greedy V (s # ss) (k # ks) = (if V s k then greedy V ss ks else greedy V (s # ss) ks)"

definition matches :: "('s \<Rightarrow> 'k \<Rightarrow> bool) \<Rightarrow> 's list \<Rightarrow> 'k list \<Rightarrow> bool" where
  "matches V ss ks \<longleftrightarrow> (\<exists>ks'. subseq ks' ks \<and> list_all2 V ss ks')"

lemma matches_Nil [simp]: "matches V [] ks"
  unfolding matches_def by (rule exI[of _ "[]"]) simp

lemma matches_Nil2 [simp]: "matches V (s # ss) [] = False"
  by (auto simp: matches_def dest: list_emb_Nil2)

text \<open>A match can be assumed to use the first key that fits its first signature.\<close>

lemma matches_Cons:
  "matches V (s # ss) (k # ks) \<longleftrightarrow> (if V s k then matches V ss ks else matches V (s # ss) ks)"
proof -
  have drop: "matches V (s # ss) ks \<Longrightarrow> matches V ss ks"
    unfolding matches_def by (metis list_all2_Cons1 subseq_Cons')
  have "matches V (s # ss) (k # ks) \<longleftrightarrow> (V s k \<and> matches V ss ks) \<or> matches V (s # ss) ks"
  proof
    assume "matches V (s # ss) (k # ks)"
    then obtain k' ks' where m: "subseq (k' # ks') (k # ks)" "V s k'" "list_all2 V ss ks'"
      by (auto simp: matches_def list_all2_Cons1)
    show "(V s k \<and> matches V ss ks) \<or> matches V (s # ss) ks"
      using m by (auto simp: matches_def list_all2_Cons1 subseq_Cons2_iff split: if_splits)
  next
    assume "(V s k \<and> matches V ss ks) \<or> matches V (s # ss) ks"
    then show "matches V (s # ss) (k # ks)"
      unfolding matches_def
      by (metis list_all2_Cons list_emb_Cons subseq_Cons2)
  qed
  with drop show ?thesis by auto
qed

lemma greedy_iff_matches: "greedy V ss ks \<longleftrightarrow> matches V ss ks"
  by (induction V ss ks rule: greedy.induct) (auto simp: matches_Cons)

lemma greedy_length: "greedy V ss ks \<Longrightarrow> length ss \<le> length ks"
  by (induction V ss ks rule: greedy.induct) (auto split: if_splits)

lemma subseq_rev: "subseq xs ys \<Longrightarrow> subseq (rev xs) (rev ys)"
  by (induction xs ys rule: list_emb.induct) (auto intro: list_emb_append_mono subseq_rev_drop_many)

lemma matches_rev: "matches V (rev ss) (rev ks) \<longleftrightarrow> matches V ss ks"
proof -
  have "matches V (rev ss) (rev ks)" if "matches V ss ks" for ss ks
    using that unfolding matches_def by (metis list_all2_rev subseq_rev)
  from this[of ss ks] this[of "rev ss" "rev ks"] show ?thesis by auto
qed

section \<open>One signature and one key\<close>

text \<open>A signature with its hash type is valid under a serialized key, for the transaction and the rules
  of the engine.\<close>

definition signs :: "crypto \<Rightarrow> Engine \<Rightarrow> parsedOpcode list \<Rightarrow> bytes \<Rightarrow> bytes \<Rightarrow> bool" where
  "signs C vm script rawSig pubKey \<longleftrightarrow> rawSig \<noteq> [] \<and>
     (\<exists>sg pk h. parseSig C vm (butlast rawSig) = Some sg \<and> c_ParsePubKey C pubKey = Some pk
        \<and> scriptSigHash C script (ucast (last rawSig)) vm = Ok h vm \<and> c_Verify C sg h pk)"

definition info_ok :: "crypto \<Rightarrow> Engine \<Rightarrow> parsedSigInfo \<Rightarrow> bool" where
  "info_ok C vm info \<longleftrightarrow>
     psi_parsedSignature info = (if psi_parsed info then parseSig C vm (butlast (psi_signature info)) else None)"

lemma keeps_state:
  "wp True (checkHashTypeEncoding ht) (\<lambda>_ u. u = vm) vm" "wp True (checkPubKeyEncoding pk) (\<lambda>_ u. u = vm) vm"
  "wp True (checkSignatureEncoding sig) (\<lambda>_ u. u = vm) vm" "wp True (scriptSigHash C script ht) (\<lambda>_ u. u = vm) vm"
  by (auto simp: checkHashTypeEncoding_def checkPubKeyEncoding_def checkSignatureEncoding_def checkDER_def
      scriptSigHash_def ifFlag_def Let_def split: option.split)

lemma wp_keep:
  assumes "wp True m (\<lambda>_ u. u = vm) vm" and "\<And>x. m vm = Ok x vm \<Longrightarrow> Q x vm"
  shows "wp True m Q vm"
  using assms by (auto simp: wp_def split: res.splits)

lemma wp_multiSigTryKey:
  assumes "sigCache vm = None"
  shows "wp True (multiSigTryKey C script pk ht sg) (\<lambda>valid u. u = vm \<and> valid =
      (\<exists>p h. c_ParsePubKey C pk = Some p \<and> scriptSigHash C script ht vm = Ok h vm \<and> c_Verify C sg h p)) vm"
proof -
  let ?valid = "\<exists>p h. c_ParsePubKey C pk = Some p \<and> scriptSigHash C script ht vm = Ok h vm \<and> c_Verify C sg h p"
  have v: "wp True (verifySig C h sg p) (\<lambda>valid u. u = vm \<and> valid = c_Verify C sg h p) vm" for h p
    using assms by (simp add: verifySig_def)
  have "wp True (scriptSigHash C script ht) (\<lambda>h. wp True (verifySig C h sg p) (\<lambda>valid u. u = vm \<and> valid = ?valid)) vm"
    if "c_ParsePubKey C pk = Some p" for p
    by (rule wp_keep[OF keeps_state(4)], rule wp_mono[OF v]) (use that in auto)
  then show ?thesis
    unfolding multiSigTryKey_def wp_then
    by (intro wp_keep[OF keeps_state(2)]) (auto split: option.split)
qed

lemma wp_multiSigTry:
  assumes "sigCache vm = None" and "info_ok C vm info"
  shows "wp True (multiSigTry C script pk info) (\<lambda>(valid, info') u. u = vm
      \<and> valid = signs C vm script (psi_signature info) pk
      \<and> psi_signature info' = psi_signature info \<and> info_ok C vm info') vm"
proof (cases "psi_signature info = []")
  case True
  then show ?thesis using assms(2) by (simp add: multiSigTry_def signs_def)
next
  case Cons: False
  let ?raw = "psi_signature info" and ?ht = "ucast (last (psi_signature info)) :: SigHashType"
  have last: "?raw ! (length ?raw - 1) = last ?raw" "take (length ?raw - 1) ?raw = butlast ?raw"
    using Cons by (simp_all add: last_conv_nth butlast_conv_take)
  have key: "wp True (bindP (multiSigTryKey C script pk ?ht sg) (\<lambda>valid. retP (valid, i))) (\<lambda>(valid, info') u. u = vm
      \<and> valid = signs C vm script ?raw pk \<and> psi_signature info' = ?raw \<and> info_ok C vm info') vm"
    if "parseSig C vm (butlast ?raw) = Some sg" "psi_signature i = ?raw" "info_ok C vm i" for sg i
    unfolding wp_bind
    by (rule wp_mono[OF wp_multiSigTryKey[OF assms(1)]]) (use that Cons in \<open>auto simp: signs_def\<close>)
  have no: "signs C vm script ?raw pk = False" if "parseSig C vm (butlast ?raw) = None"
    using that by (simp add: signs_def)
  show ?thesis
  proof (cases "psi_parsed info")
    case True
    with assms(2) key[of _ info] no Cons show ?thesis
      unfolding multiSigTry_def Let_def last by (auto simp: info_ok_def split: option.split)
  next
    case False
    have "wp True (bindP (getP (\<lambda>vm. parseSig C vm (butlast ?raw))) (\<lambda>parsed.
              case parsed of
                None \<Rightarrow> retP (False, info\<lparr>psi_parsed := True\<rparr>)
              | Some sg \<Rightarrow>
                  bindP (multiSigTryKey C script pk ?ht sg) (\<lambda>valid.
                  retP (valid, info\<lparr>psi_parsed := True, psi_parsedSignature := Some sg\<rparr>))))
       (\<lambda>(valid, info') u. u = vm
      \<and> valid = signs C vm script ?raw pk \<and> psi_signature info' = ?raw \<and> info_ok C vm info') vm"
      using key no assms(2) False by (cases "parseSig C vm (butlast ?raw)") (auto simp: info_ok_def)
    then show ?thesis
      using False Cons unfolding multiSigTry_def Let_def last
      by (simp del: wp_bind) (rule wp_keep[OF keeps_state(1)], rule wp_keep[OF keeps_state(3)])
  qed
qed

section \<open>The loop\<close>

text \<open>The loop is the greedy matching of what is left of the signatures with what is left of the keys.\<close>

lemma wp_multiSigLoop:
  assumes "sigCache vm = None"
  shows "\<lbrakk>list_all (info_ok C vm) sigs; signatureIdx + numSignatures = length sigs; pubKeyIdx + n = length pubKeys + 1\<rbrakk>
    \<Longrightarrow> wp True (multiSigLoop C script pubKeys n numSignatures pubKeyIdx signatureIdx sigs)
      (\<lambda>success u. u = vm \<and> success = greedy (signs C vm script)
         (drop signatureIdx (map psi_signature sigs)) (drop pubKeyIdx pubKeys)) vm"
proof (induction n arbitrary: numSignatures pubKeyIdx signatureIdx sigs)
  case 0
  then have "drop pubKeyIdx pubKeys = []" "length (drop signatureIdx (map psi_signature sigs)) = numSignatures"
    by auto
  then show ?case by (cases "drop signatureIdx (map psi_signature sigs)") auto
next
  case (Suc n)
  let ?V = "signs C vm script" and ?ss = "drop signatureIdx (map psi_signature sigs)"
  have len: "length ?ss = numSignatures" "length (drop pubKeyIdx pubKeys) = n" using Suc.prems by auto
  consider "numSignatures = 0" | "n < numSignatures" | "0 < numSignatures" "numSignatures \<le> n" by linarith
  then show ?case
  proof cases
    case 1
    with len show ?thesis by auto
  next
    case 2
    then have "\<not> greedy ?V ?ss (drop pubKeyIdx pubKeys)" using greedy_length[of ?V ?ss "drop pubKeyIdx pubKeys"] len by auto
    with 2 show ?thesis by auto
  next
    case 3
    let ?info = "sigs ! signatureIdx" and ?key = "pubKeys ! pubKeyIdx"
    have idx: "signatureIdx < length sigs" "pubKeyIdx < length pubKeys" using 3 Suc.prems by auto
    then have ok: "info_ok C vm ?info" using Suc.prems(1) by (simp add: list_all_length)
    have ds: "?ss = psi_signature ?info # drop (Suc signatureIdx) (map psi_signature sigs)"
      "drop pubKeyIdx pubKeys = ?key # drop (Suc pubKeyIdx) pubKeys"
      using idx by (simp_all add: Cons_nth_drop_Suc[symmetric])
    have upd: "map psi_signature (sigs[signatureIdx := i]) = map psi_signature sigs"
      if "psi_signature i = psi_signature ?info" for i
      using that idx by (simp add: map_update list_update_same_conv)
    have "wp True (multiSigTry C script ?key ?info) (\<lambda>p. wp True (multiSigLoop C script pubKeys n
             (if fst p then numSignatures - 1 else numSignatures) (pubKeyIdx + 1)
             (if fst p then signatureIdx + 1 else signatureIdx) (sigs[signatureIdx := snd p]))
        (\<lambda>success u. u = vm \<and> success = greedy ?V ?ss (drop pubKeyIdx pubKeys))) vm"
    proof (rule wp_mono[OF wp_multiSigTry[OF assms ok]])
      fix p u assume p: "(case p of (valid, info') \<Rightarrow> \<lambda>u. u = vm \<and> valid = ?V (psi_signature ?info) ?key
        \<and> psi_signature info' = psi_signature ?info \<and> info_ok C vm info') u"
      then have u: "u = vm" by (cases p) simp
      have "list_all (info_ok C vm) (sigs[signatureIdx := snd p])"
        using p Suc.prems(1) idx(1) by (auto simp: list_all_length nth_list_update)
      then have "wp True (multiSigLoop C script pubKeys n
             (if fst p then numSignatures - 1 else numSignatures) (pubKeyIdx + 1)
             (if fst p then signatureIdx + 1 else signatureIdx) (sigs[signatureIdx := snd p]))
        (\<lambda>success u. u = vm \<and> success = greedy ?V (drop (if fst p then signatureIdx + 1 else signatureIdx)
           (map psi_signature (sigs[signatureIdx := snd p]))) (drop (pubKeyIdx + 1) pubKeys)) vm"
        by (rule Suc.IH) (use 3 Suc.prems in auto)
      moreover have "greedy ?V (drop (if fst p then signatureIdx + 1 else signatureIdx)
           (map psi_signature (sigs[signatureIdx := snd p]))) (drop (pubKeyIdx + 1) pubKeys)
         = greedy ?V ?ss (drop pubKeyIdx pubKeys)"
        using p upd[of "snd p"] ds by (cases p) auto
      ultimately show "wp True (multiSigLoop C script pubKeys n
             (if fst p then numSignatures - 1 else numSignatures) (pubKeyIdx + 1)
             (if fst p then signatureIdx + 1 else signatureIdx) (sigs[signatureIdx := snd p]))
        (\<lambda>success u. u = vm \<and> success = greedy ?V ?ss (drop pubKeyIdx pubKeys)) u"
        using u by simp
    qed
    then show ?thesis using 3 idx by (simp add: case_prod_beta)
  qed
qed

section \<open>The handler\<close>

lemma PopInt_encode:
  assumes "sready s" and "stk s = xs @ [encode_num n]" and "abs n < 2 ^ 31"
  shows "PopInt s = Ok n (s\<lparr>stk := xs\<rparr>)"
proof -
  have "makeScriptNum (encode_num n) q 4 = Inr n" for q
    using encode_num_length[of n 3] assms(3) makeScriptNum_value[of 4 "encode_num n" q] by simp
  with PopByteArray_snoc[OF assms(1,2)] show ?thesis
    by (simp add: PopInt_def bindP_apply defaultScriptNumLen_def)
qed

lemma collect_pops:
  "sready (dstack vm) \<Longrightarrow> stk (dstack vm) = xs @ ys \<Longrightarrow>
     collectP (length ys) (onD PopByteArray) vm = Ok (rev ys) (vm\<lparr>dstack := (dstack vm)\<lparr>stk := xs\<rparr>\<rparr>)"
proof (induction ys arbitrary: vm rule: rev_induct)
  case Nil
  then show ?case by (cases "dstack vm") simp
next
  case (snoc y ys)
  let ?u = "vm\<lparr>dstack := (dstack vm)\<lparr>stk := xs @ ys\<rparr>\<rparr>"
  have "onD PopByteArray vm = Ok y ?u"
    using PopByteArray_snoc[of "dstack vm" "xs @ ys" y] snoc.prems by (simp add: onD_def onField_def)
  moreover have "collectP (length ys) (onD PopByteArray) ?u = Ok (rev ys) (?u\<lparr>dstack := (dstack ?u)\<lparr>stk := xs\<rparr>\<rparr>)"
    using snoc.prems by (intro snoc.IH) (auto simp: sready_def)
  ultimately show ?case by (simp add: bindP_apply)
qed

text \<open>\<open>signs\<close> does not depend on the stack or the count of operations.\<close>

lemma signs_frame:
  "signs C (vm\<lparr>numOps := n, dstack := d\<rparr>) script rawSig pubKey = signs C vm script rawSig pubKey"
proof -
  have "scriptSigHash C script ht (vm\<lparr>numOps := n, dstack := d\<rparr>) = Ok h (vm\<lparr>numOps := n, dstack := d\<rparr>)
      \<longleftrightarrow> scriptSigHash C script ht vm = Ok h vm" for ht h
    by (auto simp: scriptSigHash_def bindP_def isWitnessVersionActive_def Let_def split: option.splits sum.splits)
  then show ?thesis by (simp add: signs_def parseSig_def hasFlag_def)
qed

definition multiSigScript :: "Engine \<Rightarrow> bytes list \<Rightarrow> parsedOpcode list" where
  "multiSigScript vm sigs =
     (let sub = drop (lastCodeSep vm) (scripts vm ! scriptIdx vm) in
      if isWitnessVersionActive vm 0 then sub else foldl removeOpcodeByData sub (rev sigs))"

lemma wp_applied: "m vm = Ok x u \<Longrightarrow> wp E m Q vm = Q x u"
  by (simp add: wp_def)

text \<open>The loop and what follows it, once all operands have been popped.\<close>

lemma wp_multiSigDecide:
  fixes n rest sigs keys
  assumes "sready (dstack vm)" and "sigCache vm = None"
  defines "v \<equiv> vm\<lparr>numOps := n, dstack := (dstack vm)\<lparr>stk := rest\<rparr>\<rparr>"
  shows "wp True (multiSigLoop C script (rev keys) (length keys + 1) (length sigs) 0 0
        (map (\<lambda>s. \<lparr>psi_signature = s, psi_parsedSignature = None, psi_parsed = False\<rparr>) (rev sigs)))
      (\<lambda>success. wp True (bindP (getP (\<lambda>vm. hasFlag vm ScriptVerifyNullFail)) (\<lambda>nullFail.
         thenP (failWhen (\<not> success \<and> nullFail \<and> list_ex (\<lambda>s. length s > 0) (rev sigs)) ErrNullFail)
         (onD (PushBool success))))
       (\<lambda>_ u. stk (dstack u) = rest @ [fromBool (matches (signs C vm script) sigs keys)])) v"
    (is "wp True (multiSigLoop _ _ _ _ _ _ _ ?infos) (\<lambda>success. wp True (?end success) ?good) v")
proof (rule wp_mono[OF wp_multiSigLoop])
  fix success u
  assume "u = v \<and> success = greedy (signs C v script) (drop 0 (map psi_signature ?infos)) (drop 0 (rev keys))"
  moreover have "map psi_signature ?infos = rev sigs" by (simp add: comp_def)
  moreover have "signs C v = signs C vm" unfolding v_def by (intro ext) (rule signs_frame)
  ultimately have "u = v" "success = matches (signs C vm script) sigs keys"
    by (simp_all add: greedy_iff_matches matches_rev)
  moreover have "\<not> stkMutex (dstack vm)" using assms(1) by (simp add: sready_def)
  ultimately show "wp True (?end success) ?good u"
    by (simp add: onD_def PushBool_def v_def) (simp add: wp_def PushByteArray_apply)
qed (use assms(2) in \<open>auto simp: info_ok_def list_all_length v_def\<close>)

text \<open>C11: \<open>OP\_CHECKMULTISIG\<close> on a stack that holds a dummy item, signatures, their number, keys and their number, in an
  engine without a signature cache: if no encoding rule is violated, these items are replaced by one
  boolean, which is true exactly if there are keys among the given ones, in the given order, under
  which all signatures, in their order, are valid for the part of the script that is signed.\<close>

theorem checkMultiSig_correct:
  assumes "sready (dstack vm)" and "sigCache vm = None"
    and "stk (dstack vm) = rest @ [dummy] @ sigs @ [encode_num (int (length sigs))] @ keys
           @ [encode_num (int (length keys))]"
    and "opcodeCheckMultiSig C op vm = Ok () u"
  shows "stk (dstack u) = rest @ [fromBool (\<exists>ks. subseq ks keys
           \<and> list_all2 (signs C vm (multiSigScript vm sigs)) sigs ks)]"
proof -
  let ?d = "\<lambda>xs. (dstack vm)\<lparr>stk := xs\<rparr>" and ?ks = "rest @ [dummy] @ sigs @ [encode_num (int (length sigs))]"
  let ?good = "\<lambda>_ u. stk (dstack u) = rest @ [fromBool (matches (signs C vm (multiSigScript vm sigs)) sigs keys)]"
  have len: "length sigs < 2 ^ 31" "length keys < 2 ^ 31" using assms(1,3) by (auto simp: sready_def)
  have pop1: "onD PopInt vm = Ok (int (length keys)) (vm\<lparr>dstack := ?d (?ks @ keys)\<rparr>)"
    using PopInt_encode[of "dstack vm" "?ks @ keys" "int (length keys)"] assms(1,3) len
    by (simp add: onD_def onField_def)
  let ?v = "\<lambda>n xs. vm\<lparr>numOps := n, dstack := ?d xs\<rparr>"
  have r: "sready (?d xs)" if "length xs \<le> length (stk (dstack vm))" for xs
    using assms(1) that by (auto simp: sready_def)
  have pop2: "collectP (length keys) (onD PopByteArray) (?v n (?ks @ keys)) = Ok (rev keys) (?v n ?ks)" for n
    using collect_pops[of "?v n (?ks @ keys)" ?ks keys] r assms(3) by simp
  have pop3: "onD PopInt (?v n ?ks) = Ok (int (length sigs)) (?v n (rest @ [dummy] @ sigs))" for n
    using PopInt_encode[of "?d ?ks" "rest @ [dummy] @ sigs" "int (length sigs)"] r assms(3) len
    by (simp add: onD_def onField_def)
  have pop4: "collectP (length sigs) (onD PopByteArray) (?v n (rest @ [dummy] @ sigs)) = Ok (rev sigs) (?v n (rest @ [dummy]))" for n
    using collect_pops[of "?v n (rest @ [dummy] @ sigs)" "rest @ [dummy]" sigs] r assms(3) by simp
  have pop5: "onD PopByteArray (?v n (rest @ [dummy])) = Ok dummy (?v n rest)" for n
    using PopByteArray_snoc[of "?d (rest @ [dummy])" rest dummy] r assms(3) by (simp add: onD_def onField_def)
  have cnt: "numOps_update f (vm\<lparr>dstack := d\<rparr>) = vm\<lparr>numOps := f (numOps vm), dstack := d\<rparr>" for f d
    by (cases vm) simp
  have i32: "Int32 (int (length keys)) = int (length keys)" "Int32 (int (length sigs)) = int (length sigs)"
    using len by (simp_all add: Int32_def maxInt32_def minInt32_def)
  have w: "isWitnessVersionActive (?v n xs) 0 = isWitnessVersionActive vm 0" for n xs
    by (simp add: isWitnessVersionActive_def)
  have sub: "wp True subScript Q (?v n xs)"
    if "Q (drop (lastCodeSep vm) (scripts vm ! scriptIdx vm)) (?v n xs)" for Q n xs
    using that by (simp add: subScript_def)
  have scr: "(if isWitnessVersionActive vm 0 then drop (lastCodeSep vm) (scripts vm ! scriptIdx vm)
       else foldl removeOpcodeByData (drop (lastCodeSep vm) (scripts vm ! scriptIdx vm)) (rev sigs))
     = multiSigScript vm sigs"
    by (simp add: multiSigScript_def)
  have "wp True (opcodeCheckMultiSig C op) ?good vm"
    unfolding opcodeCheckMultiSig_def Let_def wp_bind wp_then wp_applied[of "onD PopInt", OF pop1] i32 wp_failWhen
      wp_modify cnt wp_get nat_int wp_applied[of "collectP (length keys) (onD PopByteArray)", OF pop2]
      wp_applied[of "onD PopInt", OF pop3] wp_applied[of "collectP (length sigs) (onD PopByteArray)", OF pop4]
      wp_applied[of "onD PopByteArray", OF pop5]
    by (intro impI sub)
      (simp only: w scr wp_multiSigDecide[OF assms(1,2), unfolded wp_bind wp_then wp_get wp_failWhen])
  from wp_Ok[OF this assms(4)] show ?thesis by (simp add: matches_def)
qed

theorem checkMultiSig_correct_witness:
  "\<exists>u. opcodeCheckMultiSig toyCrypto (plainOp OP_CHECKMULTISIG)
       ((spendEngine [] [] [])\<lparr>scriptIdx := 0, dstack := emptyStack\<lparr>stk := [[], [], []]\<rparr>\<rparr>) = Ok () u
     \<and> stk (dstack u) = [fromBool True]"
proof -
  let ?vm = "(spendEngine [] [] [])\<lparr>scriptIdx := 0, dstack := emptyStack\<lparr>stk := [[], [], []]\<rparr>\<rparr>"
  have zero: "encode_num 0 = []" by (simp add: encode_num_def)
  have pop: "onD PopInt v = Ok 0 (v\<lparr>dstack := emptyStack\<lparr>stk := xs\<rparr>\<rparr>)"
    "onD PopByteArray v = Ok [] (v\<lparr>dstack := emptyStack\<lparr>stk := xs\<rparr>\<rparr>)"
    if "dstack v = emptyStack\<lparr>stk := xs @ [[]]\<rparr>" "length xs < 9" for v xs
    using PopInt_encode[of "emptyStack\<lparr>stk := xs @ [[]]\<rparr>" xs 0] that
      PopByteArray_snoc[of "emptyStack\<lparr>stk := xs @ [[]]\<rparr>" xs "[]"]
    by (simp_all add: onD_def onField_def zero sready_def emptyStack_def)
  have "onD (PushBool True) v = Ok () (v\<lparr>dstack := emptyStack\<lparr>stk := [fromBool True]\<rparr>\<rparr>)"
    if "dstack v = emptyStack\<lparr>stk := []\<rparr>" for v
    using that by (simp add: onD_def onField_def PushBool_def PushByteArray_apply emptyStack_def)
  then have "\<exists>u. opcodeCheckMultiSig toyCrypto (plainOp OP_CHECKMULTISIG) ?vm = Ok () u"
    using pop[of _ "[[], []]"] pop[of _ "[[]]"] pop[of _ "[]"]
    by (simp add: opcodeCheckMultiSig_def thenP_def bindP_def spendEngine_def startEngine_def initEngine_def
        Let_def Int32_def maxInt32_def minInt32_def MaxPubKeysPerMultiSig_def MaxOpsPerScript_def subScript_def
        hasFlag_def ScriptStrictMultiSig_def ScriptVerifyNullFail_def isWitnessVersionActive_def)
  then obtain u where u: "opcodeCheckMultiSig toyCrypto (plainOp OP_CHECKMULTISIG) ?vm = Ok () u" by blast
  from checkMultiSig_correct[of ?vm "[]" "[]" "[]" "[]", OF _ _ _ u] u show ?thesis
    by (auto simp: zero sready_def emptyStack_def spendEngine_def startEngine_def initEngine_def Let_def)
qed

end
