(* ===== verification/ScriptDER.thy ===== *)
theory ScriptDER
  imports ScriptEngine
begin

text \<open>
  The signature encoding rule of \<open>checkSignatureEncoding\<close> (BIP 66) against a grammar: a signature is
  a sequence of two positive integers in their shortest form, and nothing else.
\<close>

section \<open>The grammar\<close>

text \<open>A positive integer in its shortest form: not empty, the sign bit clear, and no zero byte in front
  unless the next byte has its sign bit set.\<close>

definition der_int :: "bytes \<Rightarrow> bool" where
  "der_int v \<longleftrightarrow> v \<noteq> [] \<and> hd v AND 0x80 = 0 \<and> (length v > 1 \<and> hd v = 0 \<longrightarrow> v ! 1 AND 0x80 \<noteq> 0)"

definition der_sig :: "bytes \<Rightarrow> bytes \<Rightarrow> bytes" where
  "der_sig r s =
     [0x30, word_of_nat (4 + length r + length s), 0x02, word_of_nat (length r)] @ r
     @ [0x02, word_of_nat (length s)] @ s"

definition valid_der :: "bytes \<Rightarrow> bytes \<Rightarrow> bytes \<Rightarrow> bool" where
  "valid_der sig r s \<longleftrightarrow> sig = der_sig r s \<and> der_int r \<and> der_int s \<and> 8 \<le> length sig \<and> length sig \<le> 72"

section \<open>The checks\<close>

text \<open>The conditions under which \<open>checkDER\<close> succeeds, read off its accesses.\<close>

definition der_checks :: "bytes \<Rightarrow> bool" where
  "der_checks sig \<longleftrightarrow>
     (let n = length sig; r = unat (sig ! 3); s = unat (sig ! (5 + r)) in
      8 \<le> n \<and> n \<le> 72 \<and> sig ! 0 = 0x30 \<and> unat (sig ! 1) = n - 2 \<and> 5 + r < n \<and> 6 + r + s = n \<and> sig ! 2 = 0x02
      \<and> r \<noteq> 0 \<and> sig ! 4 AND 0x80 = 0 \<and> (r > 1 \<and> sig ! 4 = 0 \<longrightarrow> sig ! 5 AND 0x80 \<noteq> 0)
      \<and> sig ! (4 + r) = 0x02 \<and> s \<noteq> 0 \<and> sig ! (6 + r) AND 0x80 = 0
      \<and> (s > 1 \<and> sig ! (6 + r) = 0 \<longrightarrow> sig ! (7 + r) AND 0x80 \<noteq> 0))"

lemma succeeds:
  "bindP (indexP xs i) f vm = Ok () vm \<longleftrightarrow> 0 \<le> i \<and> i < int (length xs) \<and> f (xs ! nat i) vm = Ok () vm"
  "thenP (failWhen b e) m vm = Ok () vm \<longleftrightarrow> \<not> b \<and> m vm = Ok () vm"
  "thenP (if c then bindP (indexP xs i) (\<lambda>x. failWhen (P x) e) else retP ()) m vm = Ok () vm
     \<longleftrightarrow> (c \<longrightarrow> 0 \<le> i \<and> i < int (length xs) \<and> \<not> P (xs ! nat i)) \<and> m vm = Ok () vm"
  "ifFlag fl (failWhen b e) (retP ()) vm = Ok () vm \<longleftrightarrow> (hasFlag vm fl \<longrightarrow> \<not> b)"
  by (auto simp: bindP_def thenP_def ifFlag_def split: if_splits)

lemma checkDER_iff:
  "checkDER sig vm = Ok () vm \<longleftrightarrow> der_checks sig
     \<and> (hasFlag vm ScriptVerifyLowS \<longrightarrow> be_int (drop (6 + unat (sig ! 3)) sig) \<le> halfOrder)"
proof -
  define r where "r = unat (sig ! 3)"
  define s where "s = unat (sig ! (5 + r))"
  define l where "l = unat (sig ! 1)"
  have u: "uint (sig ! nat 3) = int r" "uint (sig ! nat 1) = int l" by (simp_all add: r_def l_def)
  have i: "nat (4 + int r) = 4 + r" "nat (4 + int r + 1) = 5 + r" "nat (4 + int r + 1 + 1) = 6 + r"
    "nat (4 + int r + 1 + 1 + 1) = 7 + r" by auto
  have us: "uint (sig ! (5 + r)) = int s" by (simp add: s_def)
  show ?thesis
    unfolding checkDER_def der_checks_def Let_def succeeds r_def[symmetric] s_def[symmetric] l_def[symmetric] u i us
    by (rule iffI; elim conjE; intro conjI impI) (simp_all split del: if_split, auto)
qed

section \<open>Equivalence\<close>

lemma unat_small: "n < 256 \<Longrightarrow> unat (word_of_nat n :: u8) = n"
  by (simp add: unat_of_nat)

lemma der_sig_checks:
  assumes "valid_der sig r s"
  shows "der_checks sig" and "unat (sig ! 3) = length r" and "drop (6 + length r) sig = s"
proof -
  have len: "6 + length r + length s = length sig" "length sig \<le> 72" "8 \<le> length sig"
    using assms by (auto simp: valid_der_def der_sig_def)
  have u: "unat (word_of_nat (length r) :: u8) = length r" "unat (word_of_nat (length s) :: u8) = length s"
    "unat (word_of_nat (4 + length r + length s) :: u8) = 4 + length r + length s"
    by (rule unat_small, use len in linarith)+
  have nth: "sig ! 0 = 0x30" "sig ! 1 = word_of_nat (4 + length r + length s)" "sig ! 2 = 0x02"
    "sig ! 3 = word_of_nat (length r)"
    using assms by (auto simp: valid_der_def der_sig_def numeral_eq_Suc)
  have rs: "sig ! (4 + length r) = 0x02" "sig ! (5 + length r) = word_of_nat (length s)"
    "k < length r \<Longrightarrow> sig ! (4 + k) = r ! k" "k < length s \<Longrightarrow> sig ! (6 + length r + k) = s ! k" for k
    using assms by (auto simp: valid_der_def der_sig_def nth_append nth_Cons' numeral_eq_Suc)
  show "unat (sig ! 3) = length r" using nth u by simp
  have "sig = ([0x30, sig ! 1, 0x02, sig ! 3] @ r @ [0x02, word_of_nat (length s)]) @ s"
    using assms nth by (simp add: valid_der_def der_sig_def)
  moreover have "length ([0x30, sig ! 1, 0x02, sig ! 3] @ r @ [0x02, word_of_nat (length s)]) = 6 + length r"
    by simp
  ultimately show "drop (6 + length r) sig = s" by (metis append_eq_conv_conj)
  show "der_checks sig"
    using assms len u nth rs(1,2) rs(3)[of 0] rs(3)[of 1] rs(4)[of 0] rs(4)[of 1]
    by (auto simp: der_checks_def Let_def valid_der_def der_int_def hd_conv_nth)
qed

lemma checks_der_sig:
  assumes "der_checks sig"
  shows "\<exists>r s. valid_der sig r s"
proof -
  define rl where "rl = unat (sig ! 3)"
  define sl where "sl = unat (sig ! (5 + rl))"
  let ?r = "take rl (drop 4 sig)" and ?s = "drop (6 + rl) sig"
  have c: "8 \<le> length sig" "length sig \<le> 72" "sig ! 0 = 0x30" "unat (sig ! 1) = length sig - 2" "6 + rl + sl = length sig"
    "sig ! 2 = 0x02" "rl \<noteq> 0" "sig ! (4 + rl) = 0x02" "sl \<noteq> 0"
    using assms by (simp_all add: der_checks_def Let_def rl_def sl_def)
  have "sig = take 4 sig @ ?r @ take 2 (drop (4 + rl) sig) @ ?s"
  proof -
    have "drop 4 sig = ?r @ drop (4 + rl) sig"
      using append_take_drop_id[of rl "drop 4 sig"] by (simp add: add.commute)
    moreover have "drop (4 + rl) sig = take 2 (drop (4 + rl) sig) @ ?s"
      using append_take_drop_id[of 2 "drop (4 + rl) sig"] by simp
    ultimately show ?thesis using append_take_drop_id[of 4 sig] by metis
  qed
  moreover have "take 4 sig = [sig ! 0, sig ! 1, sig ! 2, sig ! 3]"
    using c(1) by (intro nth_equalityI) (auto simp: numeral_eq_Suc less_Suc_eq)
  moreover have "take 2 (drop (4 + rl) sig) = [sig ! (4 + rl), sig ! (5 + rl)]"
    using c by (intro nth_equalityI) (auto simp: numeral_eq_Suc less_Suc_eq)
  moreover have "length ?r = rl" "length ?s = sl" using c by auto
  moreover have "sig ! 1 = word_of_nat (4 + rl + sl)" "sig ! 3 = word_of_nat rl" "sig ! (5 + rl) = word_of_nat sl"
  proof -
    have "unat (word_of_nat (4 + rl + sl) :: u8) = 4 + rl + sl" by (rule unat_small) (use c in linarith)
    then show "sig ! 1 = word_of_nat (4 + rl + sl)" using c by (simp only: word_unat_eq_iff)
  qed (simp_all add: rl_def sl_def)
  ultimately have "sig = der_sig ?r ?s" using c by (simp add: der_sig_def)
  moreover have "der_int ?r" "der_int ?s"
  proof -
    have k: "sig ! 4 AND 0x80 = 0" "rl > 1 \<and> sig ! 4 = 0 \<longrightarrow> sig ! 5 AND 0x80 \<noteq> 0"
      "sig ! (6 + rl) AND 0x80 = 0" "sl > 1 \<and> sig ! (6 + rl) = 0 \<longrightarrow> sig ! (7 + rl) AND 0x80 \<noteq> 0"
      using assms unfolding der_checks_def Let_def rl_def[symmetric] sl_def[symmetric] by blast+
    have r: "?r \<noteq> []" "hd ?r = sig ! 4" "rl > 1 \<Longrightarrow> ?r ! 1 = sig ! 5" "length ?r = rl"
      using c by (auto simp: hd_conv_nth)
    have s: "?s \<noteq> []" "hd ?s = sig ! (6 + rl)" "sl > 1 \<Longrightarrow> ?s ! 1 = sig ! (7 + rl)" "length ?s = sl"
      using c by (auto simp: hd_conv_nth add.commute)
    show "der_int ?r" using k r unfolding der_int_def by metis
    show "der_int ?s" using k s unfolding der_int_def by metis
  qed
  ultimately show ?thesis using c by (auto simp: valid_der_def)
qed

text \<open>C12: the signature encoding rule. With strict encoding of signatures switched on, \<open>checkSignatureEncoding\<close> accepts exactly
  the byte strings of the grammar: a sequence of two positive integers \<open>r\<close> and \<open>s\<close> in shortest form,
  8 to 72 bytes in all, and if low \<open>s\<close> values are required, \<open>s\<close> is at most half of the group order.\<close>

theorem checkSignatureEncoding_iff:
  assumes "hasFlag vm ScriptVerifyDERSignatures \<or> hasFlag vm ScriptVerifyLowS \<or> hasFlag vm ScriptVerifyStrictEncoding"
  shows "checkSignatureEncoding sig vm = Ok () vm \<longleftrightarrow>
    (\<exists>r s. valid_der sig r s \<and> (hasFlag vm ScriptVerifyLowS \<longrightarrow> be_int s \<le> halfOrder))"
proof -
  have "checkSignatureEncoding sig vm = checkDER sig vm"
    using assms by (auto simp: checkSignatureEncoding_def bindP_def)
  moreover have "der_checks sig \<longleftrightarrow> (\<exists>r s. valid_der sig r s)"
    using der_sig_checks(1) checks_der_sig by blast
  moreover have "drop (6 + unat (sig ! 3)) sig = s" if "valid_der sig r s" for r s
    using der_sig_checks(2,3)[OF that] by simp
  ultimately show ?thesis by (auto simp: checkDER_iff)
qed

theorem checkSignatureEncoding_iff_witness:
  "hasFlag ((spendEngine [] [] [])\<lparr>flags := ScriptVerifyDERSignatures\<rparr>) ScriptVerifyDERSignatures
   \<and> checkSignatureEncoding [0x30, 6, 2, 1, 5, 2, 1, 7] ((spendEngine [] [] [])\<lparr>flags := ScriptVerifyDERSignatures\<rparr>)
       = Ok () ((spendEngine [] [] [])\<lparr>flags := ScriptVerifyDERSignatures\<rparr>)"
proof -
  let ?vm = "(spendEngine [] [] [])\<lparr>flags := ScriptVerifyDERSignatures\<rparr>"
  have f: "hasFlag ?vm ScriptVerifyDERSignatures" "\<not> hasFlag ?vm ScriptVerifyLowS"
    by (simp_all add: hasFlag_def ScriptVerifyDERSignatures_def ScriptVerifyLowS_def)
  have "valid_der [0x30, 6, 2, 1, 5, 2, 1, 7] [5] [7]"
    by (simp add: valid_der_def der_sig_def der_int_def)
  with checkSignatureEncoding_iff[of ?vm "[0x30, 6, 2, 1, 5, 2, 1, 7]"] f show ?thesis by auto
qed

end
