(* ===== verification/WireBlock.thy ===== *)
theory WireBlock
  imports WireTx
begin

text \<open>
  \<^verbatim>\<open>pkg/chain/wire/blockheader.go\<close>, \<^verbatim>\<open>msgblock.go\<close> and \<^verbatim>\<open>invvect.go\<close>: block headers, blocks with
  the locations of their transactions, and inventory vectors. A time stamp is its Unix seconds.
\<close>

section \<open>Data\<close>

record BlockHeader =
  bh_Version :: i32
  bh_PrevBlock :: bytes
  bh_MerkleRoot :: bytes
  bh_Timestamp :: int
  bh_Bits :: u32
  bh_Nonce :: u32

record MsgBlock =
  bl_Header :: BlockHeader
  bl_Transactions :: "MsgTx list"

record TxLoc =
  TxStart :: nat
  TxLen :: nat

record InvVect =
  iv_Type :: u32
  iv_Hash :: bytes

definition MaxBlockPayload :: u32 where "MaxBlockPayload = 4000000"

definition minTxPayload :: nat where "minTxPayload = 10"

definition maxTxPerBlock :: u64 where
  "maxTxPerBlock = of_nat (unat MaxBlockPayload div minTxPayload + 1)"

definition blockHeaderLen :: nat where "blockHeaderLen = 80"

section \<open>Headers and inventory vectors\<close>

definition readBlockHeader :: "BlockHeader reader" where
  "readBlockHeader =
     bindR readInt32 (\<lambda>v. bindR readHash (\<lambda>p. bindR readHash (\<lambda>m.
     bindR readUint32Time (\<lambda>t. bindR readUint32 (\<lambda>b. bindR readUint32 (\<lambda>n.
     retR \<lparr>bh_Version = v, bh_PrevBlock = p, bh_MerkleRoot = m, bh_Timestamp = t, bh_Bits = b,
           bh_Nonce = n\<rparr>))))))"

definition writeBlockHeader :: "BlockHeader \<Rightarrow> bytes" where
  "writeBlockHeader bh =
     (let sec = word_of_int (bh_Timestamp bh) in
      writeInt32 (bh_Version bh) @ writeHash (bh_PrevBlock bh) @ writeHash (bh_MerkleRoot bh)
      @ writeUint32 sec @ writeUint32 (bh_Bits bh) @ writeUint32 (bh_Nonce bh))"

definition BlockHash :: "(bytes \<Rightarrow> bytes) \<Rightarrow> BlockHeader \<Rightarrow> bytes" where
  "BlockHash sha h = DoubleHashH sha (writeBlockHeader h)"

definition readInvVect :: "InvVect reader" where
  "readInvVect = bindR readInvType (\<lambda>t. bindR readHash (\<lambda>h. retR \<lparr>iv_Type = t, iv_Hash = h\<rparr>))"

definition writeInvVect :: "InvVect \<Rightarrow> bytes" where
  "writeInvVect iv = writeInvType (iv_Type iv) @ writeHash (iv_Hash iv)"

section \<open>Blocks\<close>

definition AddTransaction :: "MsgBlock \<Rightarrow> MsgTx \<Rightarrow> MsgBlock" where
  "AddTransaction msg tx = msg\<lparr>bl_Transactions := bl_Transactions msg @ [tx]\<rparr>"

definition ClearTransactions :: "MsgBlock \<Rightarrow> MsgBlock" where
  "ClearTransactions msg = msg\<lparr>bl_Transactions := []\<rparr>"

definition block_BtcDecode :: "MessageEncoding \<Rightarrow> MsgBlock reader" where
  "block_BtcDecode enc =
     bindR readBlockHeader (\<lambda>h.
     bindR ReadVarInt (\<lambda>txCount.
     bindR (guardR (\<not> txCount > maxTxPerBlock) (MessageError ''MsgBlock.BtcDecode'')) (\<lambda>_.
     bindR (readN (unat txCount) (tx_BtcDecode enc)) (\<lambda>txs.
     retR \<lparr>bl_Header = h, bl_Transactions = txs\<rparr>))))"

definition block_BtcEncode :: "MessageEncoding \<Rightarrow> MsgBlock \<Rightarrow> bytes" where
  "block_BtcEncode enc msg = writeBlockHeader (bl_Header msg)
     @ WriteVarInt (of_nat (length (bl_Transactions msg)))
     @ concat (map (tx_BtcEncode enc) (bl_Transactions msg))"

definition block_Deserialize :: "MsgBlock reader" where
  "block_Deserialize = block_BtcDecode WitnessEncoding"

definition block_DeserializeNoWitness :: "MsgBlock reader" where
  "block_DeserializeNoWitness = block_BtcDecode BaseEncoding"

definition block_Serialize :: "MsgBlock \<Rightarrow> bytes" where
  "block_Serialize msg = block_BtcEncode WitnessEncoding msg"

definition block_SerializeNoWitness :: "MsgBlock \<Rightarrow> bytes" where
  "block_SerializeNoWitness msg = block_BtcEncode BaseEncoding msg"

text \<open>
  The loop of \<open>DeserializeTxLoc\<close>: \<open>fullLen - r.Len()\<close> before and after each transaction.
\<close>

fun readTxsLoc :: "nat \<Rightarrow> nat \<Rightarrow> (MsgTx \<times> TxLoc) list reader" where
  "readTxsLoc fullLen 0 = retR []"
| "readTxsLoc fullLen (Suc n) = (\<lambda>r.
     let txStart = fullLen - length r in
     bindR tx_Deserialize (\<lambda>tx. \<lambda>r'.
       let loc = \<lparr>TxStart = txStart, TxLen = (fullLen - length r') - txStart\<rparr> in
       bindR (readTxsLoc fullLen n) (\<lambda>rest. retR ((tx, loc) # rest)) r') r)"

definition DeserializeTxLoc :: "(MsgBlock \<times> TxLoc list) reader" where
  "DeserializeTxLoc = (\<lambda>r. let fullLen = length r in
     bindR readBlockHeader (\<lambda>h.
     bindR ReadVarInt (\<lambda>txCount.
     bindR (guardR (\<not> txCount > maxTxPerBlock) (MessageError ''MsgBlock.DeserializeTxLoc'')) (\<lambda>_.
     bindR (readTxsLoc fullLen (unat txCount)) (\<lambda>tls.
     retR (\<lparr>bl_Header = h, bl_Transactions = map fst tls\<rparr>, map snd tls))))) r)"

definition block_SerializeSize :: "MsgBlock \<Rightarrow> nat" where
  "block_SerializeSize msg = foldl (\<lambda>n tx. n + tx_SerializeSize tx)
     (blockHeaderLen + VarIntSerializeSize (of_nat (length (bl_Transactions msg))))
     (bl_Transactions msg)"

definition block_SerializeSizeStripped :: "MsgBlock \<Rightarrow> nat" where
  "block_SerializeSizeStripped msg = foldl (\<lambda>n tx. n + tx_SerializeSizeStripped tx)
     (blockHeaderLen + VarIntSerializeSize (of_nat (length (bl_Transactions msg))))
     (bl_Transactions msg)"

definition TxHashes :: "(bytes \<Rightarrow> bytes) \<Rightarrow> MsgBlock \<Rightarrow> bytes list" where
  "TxHashes sha msg = map (TxHash sha) (bl_Transactions msg)"

section \<open>Codecs\<close>

definition ok_BlockHeader :: "BlockHeader \<Rightarrow> bool" where
  "ok_BlockHeader bh \<longleftrightarrow> is_hash (bh_PrevBlock bh) \<and> is_hash (bh_MerkleRoot bh)
     \<and> 0 \<le> bh_Timestamp bh \<and> bh_Timestamp bh < 2 ^ 32"

lemma word_of_int_range:
  "0 \<le> t \<Longrightarrow> t < 4294967296 \<Longrightarrow> uint (word_of_int t :: u32) = t"
  by (simp add: uint_word_of_int)

lemma readUint32Time_iff:
  "readUint32Time bs = Inr (t, rest) \<longleftrightarrow>
     0 \<le> t \<and> t < 4294967296 \<and> bs = writeUint32 (word_of_int t) @ rest"
proof
  assume "readUint32Time bs = Inr (t, rest)"
  then show "0 \<le> t \<and> t < 4294967296 \<and> bs = writeUint32 (word_of_int t) @ rest"
    using uint_lt2p [where ?'a = 32]
    by (auto simp: readUint32Time_def bindR_eq_Inr uint_iff writeUint32_def)
next
  assume "0 \<le> t \<and> t < 4294967296 \<and> bs = writeUint32 (word_of_int t) @ rest"
  then show "readUint32Time bs = Inr (t, rest)"
    by (simp add: readUint32Time_def writeUint32_def word_of_int_range)
qed

interpretation headerc: canonical_codec writeBlockHeader readBlockHeader ok_BlockHeader
proof unfold_locales
  fix x rest assume ok: "ok_BlockHeader x"
  then have "readUint32Time (writeUint32 (word_of_int (bh_Timestamp x)) @ r)
      = Inr (bh_Timestamp x, r)" for r
    unfolding readUint32Time_iff by (simp add: ok_BlockHeader_def)
  with ok show "readBlockHeader (writeBlockHeader x @ rest) = Inr (x, rest)"
    by (simp add: readBlockHeader_def writeBlockHeader_def ok_BlockHeader_def hashc.decode_encode
        element_defs)
next
  fix bs x rest assume "readBlockHeader bs = Inr (x, rest)"
  then show "ok_BlockHeader x \<and> bs = writeBlockHeader x @ rest"
    by (auto simp: readBlockHeader_def writeBlockHeader_def ok_BlockHeader_def bindR_eq_Inr
        hashc.decode_iff readUint32Time_iff uint_iff element_defs)
qed

interpretation invvectc: canonical_codec writeInvVect readInvVect "\<lambda>iv. is_hash (iv_Hash iv)"
  by unfold_locales
    (auto simp: readInvVect_def writeInvVect_def bindR_eq_Inr hashc.decode_iff uint_iff
      element_defs hashc.decode_encode)

lemma length_writeBlockHeader: "ok_BlockHeader h \<Longrightarrow> length (writeBlockHeader h) = blockHeaderLen"
  by (simp add: writeBlockHeader_def ok_BlockHeader_def blockHeaderLen_def HashSize_def element_defs)

definition ok_block :: "(MsgTx \<Rightarrow> bool) \<Rightarrow> MsgBlock \<Rightarrow> bool" where
  "ok_block ok msg \<longleftrightarrow> ok_BlockHeader (bl_Header msg)
     \<and> length (bl_Transactions msg) \<le> unat maxTxPerBlock \<and> list_all ok (bl_Transactions msg)"

lemma block_BtcDecode_alt:
  "block_BtcDecode enc = bindR readBlockHeader (\<lambda>h.
     bindR (readVarCount maxTxPerBlock ''MsgBlock.BtcDecode'') (\<lambda>n.
     bindR (readN n (tx_BtcDecode enc)) (\<lambda>txs.
     retR \<lparr>bl_Header = h, bl_Transactions = txs\<rparr>)))"
  by (rule ext)
    (auto simp: block_BtcDecode_def readVarCount_def bindR_def bindE_def split: sum.splits)

interpretation blockbase: canonical_codec
  "block_BtcEncode BaseEncoding" "block_BtcDecode BaseEncoding" "ok_block ok_tx_base"
  by unfold_locales
    (auto simp: block_BtcDecode_alt block_BtcEncode_def ok_block_def headerc.decode_encode
      readVarCount_encode txbase.decode_list bindR_eq_Inr headerc.decode_iff readVarCount_iff
      txbase.decode_list_canonical)

interpretation blockwit: codec
  "block_BtcEncode WitnessEncoding" "block_BtcDecode WitnessEncoding" "ok_block ok_tx_witness"
  by unfold_locales
    (auto simp: block_BtcDecode_alt block_BtcEncode_def ok_block_def headerc.decode_encode
      readVarCount_encode txwit.decode_list)

lemma block_sizes:
  assumes "ok_BlockHeader (bl_Header msg)"
    and "list_all (\<lambda>tx. list_all ok_TxIn (tx_TxIn tx)) (bl_Transactions msg)"
  shows "length (block_Serialize msg) = block_SerializeSize msg"
    and "length (block_SerializeNoWitness msg) = block_SerializeSizeStripped msg"
proof -
  from assms(2) have "sum_list (map (\<lambda>tx. length (tx_BtcEncode WitnessEncoding tx)) (bl_Transactions msg))
      = sum_list (map tx_SerializeSize (bl_Transactions msg))"
    and "sum_list (map (\<lambda>tx. length (tx_BtcEncode BaseEncoding tx)) (bl_Transactions msg))
      = sum_list (map tx_SerializeSizeStripped (bl_Transactions msg))"
    by (induction "bl_Transactions msg" arbitrary: msg)
      (auto simp: tx_sizes [unfolded tx_Serialize_def tx_SerializeNoWitness_def] list_all_iff
        intro!: arg_cong [where f = sum_list] map_cong)
  with assms(1) show "length (block_Serialize msg) = block_SerializeSize msg"
    and "length (block_SerializeNoWitness msg) = block_SerializeSizeStripped msg"
    by (simp_all add: block_Serialize_def block_SerializeNoWitness_def block_BtcEncode_def
        block_SerializeSize_def block_SerializeSizeStripped_def length_writeBlockHeader foldl_plus
        length_concat_map comp_def)
qed

section \<open>Transaction locations\<close>

lemma local_Uints [local_intros]:
  "local_reader Uint8" "local_reader (Uint16 bo)" "local_reader (Uint32 bo)" "local_reader (Uint64 bo)"
  by (auto simp: uint_defs getUint_def intro!: local_intros)

lemma local_ReadVarInt [local_intros]: "local_reader ReadVarInt"
  by (auto simp: ReadVarInt_def Let_def intro!: local_intros)

lemma local_readTxWitness [local_intros]: "local_reader readTxWitness"
  unfolding readTxWitness_def readScript_def by (intro local_intros)

lemma local_readWitnesses [local_intros]: "local_reader (readWitnesses tis)"
  by (induction tis) (simp_all only: readWitnesses.simps, (intro local_intros | assumption)+)

lemma local_tx_BtcDecode [local_intros]: "local_reader (tx_BtcDecode enc)"
  unfolding tx_BtcDecode_alt readTxBody_def readVarCount_def readTxIn_def readTxOut_def
    readOutPoint_def readScript_def element_defs
  by (intro local_intros)

lemma readTxsLoc_correct:
  assumes "readTxsLoc (length raw) n r = Inr (tls, rest)" and "raw = done @ r"
  shows "length tls = n \<and> readN n tx_Deserialize r = Inr (map fst tls, rest)
     \<and> (\<forall>i < n. tx_Deserialize (subslice raw (TxStart (snd (tls ! i))) (TxLen (snd (tls ! i))))
           = Inr (fst (tls ! i), []))"
  using assms
proof (induction n arbitrary: r tls "done")
  case 0
  then show ?case by simp
next
  case (Suc n)
  from Suc.prems(1) obtain tx r' tls' where tx: "tx_Deserialize r = Inr (tx, r')"
    and rec: "readTxsLoc (length raw) n r' = Inr (tls', rest)"
    and tls: "tls = (tx, \<lparr>TxStart = length raw - length r,
        TxLen = (length raw - length r') - (length raw - length r)\<rparr>) # tls'"
    by (auto simp: Let_def bindR_eq_Inr)
  have "local_reader tx_Deserialize"
    unfolding tx_Deserialize_def by (rule local_tx_BtcDecode)
  with tx obtain pre where pre: "r = pre @ r'" "\<And>s. tx_Deserialize (pre @ s) = Inr (tx, s)"
    by (blast elim: local_readerD)
  have raw: "raw = (done @ pre) @ r'" using Suc.prems(2) pre(1) by simp
  note IH = Suc.IH [OF rec raw]
  have loc: "subslice raw (length raw - length r) ((length raw - length r') - (length raw - length r))
      = pre"
    using Suc.prems(2) pre(1) by (simp add: subslice_def)
  show ?case
  proof (intro conjI allI impI)
    show "length tls = Suc n" using IH tls by simp
    show "readN (Suc n) tx_Deserialize r = Inr (map fst tls, rest)"
      using IH tls tx by simp
    fix i assume "i < Suc n"
    then show "tx_Deserialize (subslice raw (TxStart (snd (tls ! i))) (TxLen (snd (tls ! i))))
        = Inr (fst (tls ! i), [])"
      using IH tls loc pre(2) [of "[]"] by (cases i) simp_all
  qed
qed

lemma readTxsLoc_complete:
  "readN n tx_Deserialize r = Inr (txs, rest) \<Longrightarrow>
     \<exists>tls. readTxsLoc fullLen n r = Inr (tls, rest) \<and> map fst tls = txs"
proof (induction n arbitrary: r txs)
  case 0
  then show ?case by auto
next
  case (Suc n)
  then obtain tx r' txs' where tx: "tx_Deserialize r = Inr (tx, r')" "txs = tx # txs'"
    and rec: "readN n tx_Deserialize r' = Inr (txs', rest)"
    by (auto simp: bindR_eq_Inr)
  from Suc.IH [OF rec] obtain tls where "readTxsLoc fullLen n r' = Inr (tls, rest)" "map fst tls = txs'"
    by blast
  with tx show ?case by (simp add: Let_def)
qed

lemma DeserializeTxLoc_sound:
  assumes "DeserializeTxLoc raw = Inr ((msg, locs), rest)"
  shows "block_Deserialize raw = Inr (msg, rest) \<and> length locs = length (bl_Transactions msg)
     \<and> (\<forall>i < length locs. tx_Deserialize (subslice raw (TxStart (locs ! i)) (TxLen (locs ! i)))
           = Inr (bl_Transactions msg ! i, []))"
proof -
  from assms obtain h r1 txCount r2 tls where h: "readBlockHeader raw = Inr (h, r1)"
    and c: "ReadVarInt r1 = Inr (txCount, r2)" "\<not> txCount > maxTxPerBlock"
    and t: "readTxsLoc (length raw) (unat txCount) r2 = Inr (tls, rest)"
    and msg: "msg = \<lparr>bl_Header = h, bl_Transactions = map fst tls\<rparr>" "locs = map snd tls"
    by (auto simp: DeserializeTxLoc_def Let_def bindR_eq_Inr split: if_splits)
  have "raw = (writeBlockHeader h @ WriteVarInt txCount) @ r2"
    using h c by (simp add: headerc.decode_iff varint.decode_iff)
  note tls = readTxsLoc_correct [OF t this]
  then have "block_Deserialize raw = Inr (msg, rest)"
    using h c msg by (simp add: block_Deserialize_def block_BtcDecode_def tx_Deserialize_def)
  with tls msg show ?thesis by simp
qed

lemma DeserializeTxLoc_complete:
  assumes "block_Deserialize raw = Inr (msg, rest)"
  shows "\<exists>locs. DeserializeTxLoc raw = Inr ((msg, locs), rest)"
proof -
  from assms obtain h r1 txCount r2 txs where h: "readBlockHeader raw = Inr (h, r1)"
    and c: "ReadVarInt r1 = Inr (txCount, r2)" "\<not> txCount > maxTxPerBlock"
    and t: "readN (unat txCount) tx_Deserialize r2 = Inr (txs, rest)"
    and msg: "msg = \<lparr>bl_Header = h, bl_Transactions = txs\<rparr>"
    by (auto simp: block_Deserialize_def block_BtcDecode_def tx_Deserialize_def bindR_eq_Inr
        split: if_splits)
  from readTxsLoc_complete [OF t] obtain tls where
    "readTxsLoc (length raw) (unat txCount) r2 = Inr (tls, rest)" "map fst tls = txs" by blast
  with h c msg show ?thesis by (simp add: DeserializeTxLoc_def Let_def)
qed

section \<open>Properties\<close>

text \<open>Blocks without witness data: decoding is exactly the inverse of encoding, on every
  block whose header time fits 32 bits and whose transactions are within the limits.\<close>
theorem block_base_roundtrip:
  "block_BtcDecode BaseEncoding bs = Inr (msg, rest) \<longleftrightarrow>
     ok_block ok_tx_base msg \<and> bs = block_BtcEncode BaseEncoding msg @ rest"
  by (rule blockbase.decode_iff)

text \<open>C36: a serialized block is read back by \<open>Deserialize\<close>, and the two size functions are the
  lengths of the two serializations.\<close>
theorem block_serialize_roundtrip:
  assumes "ok_block ok_tx_witness msg"
  shows "block_Deserialize (block_Serialize msg @ rest) = Inr (msg, rest)
     \<and> length (block_Serialize msg) = block_SerializeSize msg
     \<and> length (block_SerializeNoWitness msg) = block_SerializeSizeStripped msg"
proof -
  have "list_all (\<lambda>tx. list_all ok_TxIn (tx_TxIn tx)) (bl_Transactions msg)"
    using assms by (auto simp: ok_block_def list_all_iff ok_tx_witness_def ok_tx_parts_def)
  with assms show ?thesis
    by (simp add: block_Deserialize_def block_Serialize_def blockwit.decode_encode
        block_sizes [unfolded block_Serialize_def] ok_block_def)
qed

definition sampleHeader :: BlockHeader where
  "sampleHeader = \<lparr>bh_Version = 2, bh_PrevBlock = replicate 32 1, bh_MerkleRoot = replicate 32 2,
     bh_Timestamp = 1588888888, bh_Bits = 0x1d00ffff, bh_Nonce = 42\<rparr>"

definition sampleBlock :: MsgBlock where
  "sampleBlock = \<lparr>bl_Header = sampleHeader, bl_Transactions = [sampleTx None None]\<rparr>"

lemma sampleBlock_ok: "ok_block ok_tx_witness sampleBlock"
  by (simp add: sampleBlock_def sampleHeader_def ok_block_def ok_BlockHeader_def maxTxPerBlock_def
      MaxBlockPayload_def minTxPayload_def ok_tx_witness_def sample_simps)

theorem block_serialize_roundtrip_witness:
  "block_Deserialize (block_Serialize sampleBlock) = Inr (sampleBlock, [])"
  using block_serialize_roundtrip [OF sampleBlock_ok, of "[]"] by simp

text \<open>C37: \<open>DeserializeTxLoc\<close> succeeds exactly when \<open>Deserialize\<close> does and reads the same
  block; it reports one location per transaction, and each location delimits bytes of the input
  that decode to that transaction with nothing left over.\<close>
theorem DeserializeTxLoc_correct:
  "(block_Deserialize raw = Inr (msg, rest) \<longleftrightarrow> (\<exists>locs. DeserializeTxLoc raw = Inr ((msg, locs), rest)))
   \<and> (\<forall>locs. DeserializeTxLoc raw = Inr ((msg, locs), rest) \<longrightarrow>
        length locs = length (bl_Transactions msg)
        \<and> (\<forall>i < length locs. tx_Deserialize (subslice raw (TxStart (locs ! i)) (TxLen (locs ! i)))
              = Inr (bl_Transactions msg ! i, [])))"
proof (intro conjI allI impI)
  show "block_Deserialize raw = Inr (msg, rest) \<longleftrightarrow>
      (\<exists>locs. DeserializeTxLoc raw = Inr ((msg, locs), rest))"
    using DeserializeTxLoc_sound DeserializeTxLoc_complete by blast
next
  fix locs assume "DeserializeTxLoc raw = Inr ((msg, locs), rest)"
  from DeserializeTxLoc_sound [OF this] show "length locs = length (bl_Transactions msg)"
    and "\<And>i. i < length locs \<Longrightarrow>
      tx_Deserialize (subslice raw (TxStart (locs ! i)) (TxLen (locs ! i)))
        = Inr (bl_Transactions msg ! i, [])"
    by blast+
qed

theorem DeserializeTxLoc_correct_witness:
  "\<exists>locs. DeserializeTxLoc (block_Serialize sampleBlock) = Inr ((sampleBlock, locs), [])
     \<and> length locs = 1
     \<and> tx_Deserialize (subslice (block_Serialize sampleBlock) (TxStart (locs ! 0)) (TxLen (locs ! 0)))
         = Inr (sampleTx None None, [])"
proof -
  have "block_Deserialize (block_Serialize sampleBlock @ []) = Inr (sampleBlock, [])"
    unfolding block_Deserialize_def block_Serialize_def
    by (rule blockwit.decode_encode) (rule sampleBlock_ok)
  then obtain locs where l: "DeserializeTxLoc (block_Serialize sampleBlock) = Inr ((sampleBlock, locs), [])"
    using DeserializeTxLoc_correct [of "block_Serialize sampleBlock" sampleBlock "[]"] by auto
  with DeserializeTxLoc_correct [of "block_Serialize sampleBlock" sampleBlock "[]"]
  have "length locs = 1 \<and> tx_Deserialize (subslice (block_Serialize sampleBlock) (TxStart (locs ! 0))
      (TxLen (locs ! 0))) = Inr (sampleTx None None, [])"
    by (auto simp: sampleBlock_def)
  with l show ?thesis by blast
qed

end
