(* ===== verification/ChainBase.thy ===== *)
theory ChainBase
  imports ScriptBase WireBlock
begin

text \<open>
  Vocabulary of the block chain package (\<open>pkg/chain\<close>): its errors as values and the high level
  transactions and blocks of \<open>pkg/util\<close>. A function that fails gives \<open>Inl\<close> of the error it returns,
  and \<open>Inl GoPanic\<close> where the code panics. Times are Unix times in seconds, heights are integers that
  are brought into the range of \<open>int32\<close> (\<open>s32\<close>) where the code adds to them.
\<close>

section \<open>Errors\<close>

datatype (plugins only: code) RuleErrorCode =
    ErrDuplicateBlock | ErrBlockTooBig | ErrBlockWeightTooHigh | ErrBlockVersionTooOld
  | ErrInvalidTime | ErrTimeTooOld | ErrTimeTooNew | ErrDifficultyTooLow | ErrUnexpectedDifficulty
  | ErrHighHash | ErrBadMerkleRoot | ErrBadCheckpoint | ErrForkTooOld | ErrCheckpointTimeTooOld
  | ErrNoTransactions | ErrNoTxInputs | ErrNoTxOutputs | ErrTxTooBig | ErrBadTxOutValue
  | ErrDuplicateTxInputs | ErrBadTxInput | ErrMissingTxOut | ErrUnfinalizedTx | ErrDuplicateTx
  | ErrOverwriteTx | ErrImmatureSpend | ErrSpendTooHigh | ErrBadFees | ErrTooManySigOps
  | ErrFirstTxNotCoinbase | ErrMultipleCoinbases | ErrBadCoinbaseScriptLen | ErrBadCoinbaseValue
  | ErrMissingCoinbaseHeight | ErrBadCoinbaseHeight | ErrScriptMalformed | ErrScriptValidation
  | ErrUnexpectedWitness | ErrInvalidWitnessCommitment | ErrWitnessCommitmentMismatch
  | ErrPreviousBlockUnknown | ErrInvalidAncestorBlock | ErrPrevBlockNotBest | ErrBlacklisted

text \<open>The error types of the package: rule violations, failed assertions, unknown deployments,
  malformed database values (\<open>errDeserialize\<close>, and \<open>database.DBError\<close> with the code for corruption),
  blocks outside of the main chain, errors of \<open>fmt.Errorf\<close>; and the panic.\<close>

datatype cerror =
    RuleError RuleErrorCode | AssertError | DeploymentError nat | DeserializeError | CorruptionError
  | NotInMainChainError | OtherError | GoPanic

type_synonym 'a cres = "cerror + 'a"

section \<open>Parameters of a network\<close>

text \<open>The fields of \<open>Params\<close> (\<open>pkg/chain/config/params-defs.go\<close>) that the consensus code reads.\<close>

record ConsensusDeployment =
  BitNumber :: u8
  StartTime :: u64
  ExpireTime :: u64

record Checkpoint =
  cp_Height :: int
  cp_Hash :: bytes

record Params =
  Net :: u32
  GenesisHash :: bytes
  PowLimit :: int
  BIP0034Height :: int
  BIP0065Height :: int
  BIP0066Height :: int
  CoinbaseMaturity :: u16
  SubsidyReductionInterval :: int
  Checkpoints :: "Checkpoint list"
  RuleChangeActivationThreshold :: u32
  MinerConfirmationWindow :: u32
  Deployments :: "ConsensusDeployment list"

section \<open>High level transactions\<close>

text \<open>
  \<open>util.Tx\<close> (\<open>pkg/util/tx.go\<close>) keeps the hashes it has computed. \<open>HasWitness\<close> looks at the wrong
  cache: it tests \<open>txHashWitness\<close> and reads \<open>txHasWitness\<close>, so after \<open>WitnessHash\<close> it dereferences
  a nil pointer.
\<close>

record Tx =
  ut_msgTx :: MsgTx
  ut_txHash :: "bytes option"
  ut_txHashWitness :: "bytes option"
  ut_txHasWitness :: "bool option"
  ut_txIndex :: int

definition TxIndexUnknown :: int where "TxIndexUnknown = -1"

definition ut_NewTx :: "MsgTx \<Rightarrow> Tx" where
  "ut_NewTx msg = \<lparr>ut_msgTx = msg, ut_txHash = None, ut_txHashWitness = None, ut_txHasWitness = None,
     ut_txIndex = TxIndexUnknown\<rparr>"

definition ut_Hash :: "(bytes \<Rightarrow> bytes) \<Rightarrow> Tx \<Rightarrow> bytes \<times> Tx" where
  "ut_Hash sha t =
     (case ut_txHash t of
        Some h \<Rightarrow> (h, t)
      | None \<Rightarrow> let h = TxHash sha (ut_msgTx t) in (h, t\<lparr>ut_txHash := Some h\<rparr>))"

definition ut_WitnessHash :: "(bytes \<Rightarrow> bytes) \<Rightarrow> Tx \<Rightarrow> bytes \<times> Tx" where
  "ut_WitnessHash sha t =
     (case ut_txHashWitness t of
        Some h \<Rightarrow> (h, t)
      | None \<Rightarrow> let h = WitnessHash sha (ut_msgTx t) in (h, t\<lparr>ut_txHashWitness := Some h\<rparr>))"

definition ut_HasWitness :: "Tx \<Rightarrow> (bool \<times> Tx) cres" where
  "ut_HasWitness t =
     (if ut_txHashWitness t \<noteq> None
      then (case ut_txHasWitness t of Some b \<Rightarrow> Inr (b, t) | None \<Rightarrow> Inl GoPanic)
      else let b = HasWitness (ut_msgTx t) in Inr (b, t\<lparr>ut_txHasWitness := Some b\<rparr>))"

definition ut_SetIndex :: "int \<Rightarrow> Tx \<Rightarrow> Tx" where
  "ut_SetIndex i t = t\<lparr>ut_txIndex := i\<rparr>"

text \<open>The calls on a transaction, and the caches they leave behind.\<close>

datatype txCall = CallHash | CallWitnessHash | CallSetIndex int

fun txStep :: "(bytes \<Rightarrow> bytes) \<Rightarrow> txCall \<Rightarrow> Tx \<Rightarrow> Tx" where
  "txStep sha CallHash t = snd (ut_Hash sha t)"
| "txStep sha CallWitnessHash t = snd (ut_WitnessHash sha t)"
| "txStep sha (CallSetIndex i) t = ut_SetIndex i t"

definition tx_cached :: "(bytes \<Rightarrow> bytes) \<Rightarrow> Tx \<Rightarrow> bool" where
  "tx_cached sha t \<longleftrightarrow>
     (ut_txHash t = None \<or> ut_txHash t = Some (TxHash sha (ut_msgTx t)))
     \<and> (ut_txHashWitness t = None \<or> ut_txHashWitness t = Some (WitnessHash sha (ut_msgTx t)))
     \<and> (ut_txHasWitness t = None)"

lemma tx_cached_step: "tx_cached sha t \<Longrightarrow> tx_cached sha (txStep sha c t)"
  by (cases c) (auto simp: tx_cached_def ut_Hash_def ut_WitnessHash_def ut_SetIndex_def Let_def split: option.splits)

lemma txStep_msg: "ut_msgTx (txStep sha c t) = ut_msgTx t"
  by (cases c) (auto simp: ut_Hash_def ut_WitnessHash_def ut_SetIndex_def Let_def split: option.split)

lemma tx_cached_run:
  "tx_cached sha (fold (txStep sha) cs (ut_NewTx msg)) \<and> ut_msgTx (fold (txStep sha) cs (ut_NewTx msg)) = msg"
proof (induction cs rule: rev_induct)
  case Nil
  then show ?case by (simp add: tx_cached_def ut_NewTx_def)
next
  case (snoc c cs)
  then show ?case by (simp add: tx_cached_step txStep_msg)
qed

text \<open>The hash caches of \<open>util.Tx\<close>. After any calls on a new transaction, \<open>Hash\<close> and \<open>WitnessHash\<close> give the hashes
  of the message, while \<open>HasWitness\<close> panics as soon as \<open>WitnessHash\<close> has been called once.\<close>

theorem util_tx_hash_caches:
  "fst (ut_Hash sha (fold (txStep sha) cs (ut_NewTx msg))) = TxHash sha msg
   \<and> fst (ut_WitnessHash sha (fold (txStep sha) cs (ut_NewTx msg))) = WitnessHash sha msg
   \<and> ut_HasWitness (snd (ut_WitnessHash sha (fold (txStep sha) cs (ut_NewTx msg)))) = Inl GoPanic"
  using tx_cached_run[of sha cs msg]
  by (auto simp: tx_cached_def ut_Hash_def ut_WitnessHash_def ut_HasWitness_def Let_def split: option.splits)

section \<open>Blocks with their height\<close>

text \<open>\<open>util.Block\<close>: the message, its transactions and the height set by the caller; the serialized
  forms it caches are those of the message.\<close>

record Block =
  msgBlock :: MsgBlock
  blockHeightOf :: int

abbreviation Transactions :: "Block \<Rightarrow> MsgTx list" where
  "Transactions blk \<equiv> bl_Transactions (msgBlock blk)"

abbreviation Header :: "Block \<Rightarrow> BlockHeader" where
  "Header blk \<equiv> bl_Header (msgBlock blk)"

section \<open>Coinbase transactions\<close>

definition chainZeroHash :: bytes where "chainZeroHash = replicate HashSize 0"

definition IsCoinBaseTx :: "MsgTx \<Rightarrow> bool" where
  "IsCoinBaseTx msgTx =
     (case tx_TxIn msgTx of
        [ti] \<Rightarrow> op_Index (PreviousOutPoint ti) = 0xffffffff \<and> op_Hash (PreviousOutPoint ti) = chainZeroHash
      | _ \<Rightarrow> False)"

definition isNullOutpoint :: "OutPoint \<Rightarrow> bool" where
  "isNullOutpoint outpoint = (op_Index outpoint = 0xffffffff \<and> op_Hash outpoint = chainZeroHash)"

end
