(* ===== verification/ChainNode.thy ===== *)
theory ChainNode
  imports ChainBase BigInt
begin

text \<open>
  The block index and the view of the main chain (\<open>pkg/chain/blockindex.go\<close>, \<open>chainview.go\<close>, the work
  calculation of \<open>difficulty.go\<close>). The fields of a node that come from its header never change, so a node
  is a value together with its ancestors, and comparison of pointers is comparison of these values;
  the fields that do change, the status and the accumulated work, are kept beside it by node.
\<close>

section \<open>Work\<close>

definition CompactToBig :: "u32 \<Rightarrow> int" where
  "CompactToBig compact =
     (let mantissa = compact AND 0x007fffff; isNegative = (compact AND 0x00800000 \<noteq> 0);
          exponent = unat (drop_bit 24 compact);
          bn = (if exponent \<le> 3 then uint (drop_bit (8 * (3 - exponent)) mantissa)
                else push_bit (8 * (exponent - 3)) (uint mantissa))
      in if isNegative then - bn else bn)"

definition CalcWork :: "u32 \<Rightarrow> int" where
  "CalcWork bits =
     (let difficultyNum = CompactToBig bits in
      if difficultyNum \<le> 0 then 0 else 2 ^ 256 div (difficultyNum + 1))"

section \<open>Nodes\<close>

datatype BlockNode = BlockNode (nd_parent: "BlockNode option") (nd_hash: bytes) (nd_height: int) (nd_version: i32)
  (nd_bits: u32) (nd_nonce: u32) (nd_timestamp: int) (nd_merkleRoot: bytes)

lemma size_parent [termination_simp]: "nd_parent n = Some p \<Longrightarrow> size p < size n"
  by (cases n) auto

text \<open>The fields that change. \<open>nw_workSum\<close> is \<open>nil\<close> for a node without parent.\<close>

record nodeFields =
  nw_workSum :: "BlockNode \<Rightarrow> int option"
  nw_status :: "BlockNode \<Rightarrow> u8"

definition NewBlockNode ::
  "(bytes \<Rightarrow> bytes) \<Rightarrow> BlockHeader \<Rightarrow> BlockNode option \<Rightarrow> nodeFields \<Rightarrow> BlockNode \<times> nodeFields" where
  "NewBlockNode sha header parent nf =
     (let node = BlockNode parent (BlockHash sha header)
                   (case parent of None \<Rightarrow> 0 | Some p \<Rightarrow> s32 (nd_height p + 1))
                   (bh_Version header) (bh_Bits header) (bh_Nonce header) (bh_Timestamp header) (bh_MerkleRoot header)
      in (node,
          case parent of
            None \<Rightarrow> nf\<lparr>nw_workSum := (nw_workSum nf)(node := None), nw_status := (nw_status nf)(node := 0)\<rparr>
          | Some p \<Rightarrow>
              let parentWork = CalcWork (nd_bits p) in
              nf\<lparr>nw_workSum := (nw_workSum nf)(p := Some parentWork, node := Some (parentWork + CalcWork (bh_Bits header))),
                     nw_status := (nw_status nf)(node := 0)\<rparr>))"

definition node_Header :: "BlockNode \<Rightarrow> BlockHeader" where
  "node_Header node = \<lparr>bh_Version = nd_version node,
     bh_PrevBlock = (case nd_parent node of None \<Rightarrow> chainZeroHash | Some p \<Rightarrow> nd_hash p),
     bh_MerkleRoot = nd_merkleRoot node, bh_Timestamp = nd_timestamp node, bh_Bits = nd_bits node,
     bh_Nonce = nd_nonce node\<rparr>"

function walkTo :: "int \<Rightarrow> BlockNode \<Rightarrow> BlockNode option" where
  "walkTo height n =
     (if nd_height n = height then Some n
      else case nd_parent n of None \<Rightarrow> None | Some p \<Rightarrow> walkTo height p)"
  by auto
termination by (relation "measure (\<lambda>(h, n). size n)") (auto simp: size_parent)

declare walkTo.simps [simp del]

definition Ancestor :: "BlockNode \<Rightarrow> int \<Rightarrow> BlockNode option" where
  "Ancestor node height = (if height < 0 \<or> height > nd_height node then None else walkTo height node)"

definition RelativeAncestor :: "BlockNode \<Rightarrow> int \<Rightarrow> BlockNode option" where
  "RelativeAncestor node distance = Ancestor node (s32 (nd_height node - distance))"

definition medianTimeBlocks :: nat where "medianTimeBlocks = 11"

fun pastTimestamps :: "nat \<Rightarrow> BlockNode option \<Rightarrow> int list" where
  "pastTimestamps (Suc k) (Some n) = nd_timestamp n # pastTimestamps k (nd_parent n)"
| "pastTimestamps _ _ = []"

text \<open>\<open>CalcPastMedianTime\<close>; the call on a nil node panics.\<close>

definition CalcPastMedianTime :: "BlockNode \<Rightarrow> int" where
  "CalcPastMedianTime node =
     (let timestamps = sort (pastTimestamps medianTimeBlocks (Some node)) in timestamps ! (length timestamps div 2))"

section \<open>The index\<close>

definition statusDataStored :: u8 where "statusDataStored = 1"
definition statusValid :: u8 where "statusValid = 2"
definition statusValidateFailed :: u8 where "statusValidateFailed = 4"
definition statusInvalidAncestor :: u8 where "statusInvalidAncestor = 8"

definition HaveData :: "u8 \<Rightarrow> bool" where "HaveData status = (status AND statusDataStored \<noteq> 0)"
definition KnownValid :: "u8 \<Rightarrow> bool" where "KnownValid status = (status AND statusValid \<noteq> 0)"
definition KnownInvalid :: "u8 \<Rightarrow> bool" where
  "KnownInvalid status = (status AND (statusValidateFailed OR statusInvalidAncestor) \<noteq> 0)"

record blockIndex =
  bi_index :: "bytes \<rightharpoonup> BlockNode"
  bi_dirty :: "BlockNode list"
  bi_fields :: nodeFields

definition bi_HaveBlock :: "blockIndex \<Rightarrow> bytes \<Rightarrow> bool" where
  "bi_HaveBlock bi hash = (bi_index bi hash \<noteq> None)"

definition bi_LookupNode :: "blockIndex \<Rightarrow> bytes \<Rightarrow> BlockNode option" where
  "bi_LookupNode bi hash = bi_index bi hash"

definition bi_addNode :: "BlockNode \<Rightarrow> blockIndex \<Rightarrow> blockIndex" where
  "bi_addNode node bi = bi\<lparr>bi_index := (bi_index bi)(nd_hash node \<mapsto> node)\<rparr>"

definition bi_AddNode :: "BlockNode \<Rightarrow> blockIndex \<Rightarrow> blockIndex" where
  "bi_AddNode node bi = (bi_addNode node bi)\<lparr>bi_dirty := List.insert node (bi_dirty bi)\<rparr>"

definition bi_NodeStatus :: "blockIndex \<Rightarrow> BlockNode \<Rightarrow> u8" where
  "bi_NodeStatus bi node = nw_status (bi_fields bi) node"

definition bi_SetStatusFlags :: "BlockNode \<Rightarrow> u8 \<Rightarrow> blockIndex \<Rightarrow> blockIndex" where
  "bi_SetStatusFlags node flags bi = bi\<lparr>bi_fields := (bi_fields bi)\<lparr>nw_status :=
     (nw_status (bi_fields bi))(node := nw_status (bi_fields bi) node OR flags)\<rparr>,
     bi_dirty := List.insert node (bi_dirty bi)\<rparr>"

definition bi_UnsetStatusFlags :: "BlockNode \<Rightarrow> u8 \<Rightarrow> blockIndex \<Rightarrow> blockIndex" where
  "bi_UnsetStatusFlags node flags bi = bi\<lparr>bi_fields := (bi_fields bi)\<lparr>nw_status :=
     (nw_status (bi_fields bi))(node := nw_status (bi_fields bi) node AND NOT flags)\<rparr>,
     bi_dirty := List.insert node (bi_dirty bi)\<rparr>"

section \<open>The view of a chain\<close>

text \<open>A view is the slice of nodes by height; the entries can be nil while the tip is being set.\<close>

type_synonym chainView = "BlockNode option list"

definition cv_genesis :: "chainView \<Rightarrow> BlockNode option" where
  "cv_genesis c = (if length c = 0 then None else c ! 0)"

definition cv_tip :: "chainView \<Rightarrow> BlockNode option" where
  "cv_tip c = (if length c = 0 then None else c ! (length c - 1))"

text \<open>The loop of \<open>setTip\<close>: it walks back until the view already has the node; an index out of range panics.\<close>

function fillView :: "BlockNode \<Rightarrow> chainView \<Rightarrow> chainView cres" where
  "fillView node c =
     (if nd_height node < 0 \<or> nd_height node \<ge> int (length c) then Inl GoPanic
      else if c ! nat (nd_height node) = Some node then Inr c
      else let c' = c[nat (nd_height node) := Some node] in
           case nd_parent node of None \<Rightarrow> Inr c' | Some p \<Rightarrow> fillView p c')"
  by auto
termination by (relation "measure (\<lambda>(n, c). size n)") (auto simp: size_parent)

declare fillView.simps [simp del]

definition cv_setTip :: "BlockNode option \<Rightarrow> chainView \<Rightarrow> chainView cres" where
  "cv_setTip tip c =
     (case tip of
        None \<Rightarrow> Inr []
      | Some node \<Rightarrow>
          let needed = s32 (nd_height node + 1) in
          if needed < 0 then Inl GoPanic
          else fillView node (take (nat needed) (c @ replicate (nat needed - length c) None)))"

definition newChainView :: "BlockNode option \<Rightarrow> chainView cres" where
  "newChainView tip = cv_setTip tip []"

definition cv_height :: "chainView \<Rightarrow> int" where
  "cv_height c = s32 (int (length c) - 1)"

definition cv_nodeByHeight :: "chainView \<Rightarrow> int \<Rightarrow> BlockNode option" where
  "cv_nodeByHeight c height = (if height < 0 \<or> height \<ge> s32 (int (length c)) then None else c ! nat height)"

definition cv_Equals :: "chainView \<Rightarrow> chainView \<Rightarrow> bool" where
  "cv_Equals c other = (length c = length other \<and> cv_tip c = cv_tip other)"

definition cv_contains :: "chainView \<Rightarrow> BlockNode \<Rightarrow> bool" where
  "cv_contains c node = (cv_nodeByHeight c (nd_height node) = Some node)"

definition cv_next :: "chainView \<Rightarrow> BlockNode option \<Rightarrow> BlockNode option" where
  "cv_next c node =
     (case node of
        None \<Rightarrow> None
      | Some n \<Rightarrow> if \<not> cv_contains c n then None else cv_nodeByHeight c (s32 (nd_height n + 1)))"

function walkFork :: "chainView \<Rightarrow> BlockNode \<Rightarrow> BlockNode option" where
  "walkFork c node =
     (if cv_contains c node then Some node
      else case nd_parent node of None \<Rightarrow> None | Some p \<Rightarrow> walkFork c p)"
  by auto
termination by (relation "measure (\<lambda>(c, n). size n)") (auto simp: size_parent)

declare walkFork.simps [simp del]

definition cv_findFork :: "chainView \<Rightarrow> BlockNode option \<Rightarrow> BlockNode option" where
  "cv_findFork c node =
     (case node of
        None \<Rightarrow> None
      | Some n \<Rightarrow>
          let chainHeight = cv_height c in
          case (if nd_height n > chainHeight then Ancestor n chainHeight else Some n) of
            None \<Rightarrow> None
          | Some m \<Rightarrow> walkFork c m)"


text \<open>The part of \<open>connectBestChain\<close> that decides whether a block that does not extend the main chain makes its branch the new main chain: whether
  the comparison of the accumulated work goes past the early return. The work of the tip is a pointer, and comparing with nil panics.\<close>

definition causesReorganize :: "BlockNode \<Rightarrow> BlockNode \<Rightarrow> nodeFields \<Rightarrow> (bool \<times> nodeFields) cres" where
  "causesReorganize node tip nf =
     (let nf' = nf\<lparr>nw_workSum := (nw_workSum nf)(node := Some (CalcWork (nd_bits node)))\<rparr> in
      case nw_workSum nf' tip of
        None \<Rightarrow> Inl GoPanic
      | Some w \<Rightarrow> Inr (\<not> CalcWork (nd_bits node) \<le> w, nf'))"

section \<open>Chains of nodes\<close>

text \<open>The ancestors of a node from the first one to itself, and well-formed nodes: heights count the ancestors and stay
  below the largest \<open>int32\<close>.\<close>

function chainOf :: "BlockNode \<Rightarrow> BlockNode list" where
  "chainOf n = (case nd_parent n of None \<Rightarrow> [] | Some p \<Rightarrow> chainOf p) @ [n]"
  by auto
termination by (relation "measure size") (auto simp: size_parent)

declare chainOf.simps [simp del]

definition wf_node :: "BlockNode \<Rightarrow> bool" where
  "wf_node n \<longleftrightarrow> length (chainOf n) < 2 ^ 31 - 1 \<and> (\<forall>i < length (chainOf n). nd_height (chainOf n ! i) = int i)"

lemma chainOf_None: "nd_parent n = None \<Longrightarrow> chainOf n = [n]"
  and chainOf_Some: "nd_parent n = Some p \<Longrightarrow> chainOf n = chainOf p @ [n]"
  by (simp_all add: chainOf.simps[of n])

lemma chainOf_nonempty [simp]: "chainOf n \<noteq> []"
  by (subst chainOf.simps) simp

lemma length_chainOf: "0 < length (chainOf n)"
  by simp

lemma last_chainOf [simp]: "last (chainOf n) = n"
  by (subst chainOf.simps) simp

lemma self_in_chainOf [simp]: "n \<in> set (chainOf n)"
  by (subst chainOf.simps) simp

lemma chainOf_nth: "i < length (chainOf t) \<Longrightarrow> chainOf (chainOf t ! i) = take (Suc i) (chainOf t)"
proof (induction t rule: chainOf.induct)
  case (1 t)
  show ?case
  proof (cases "nd_parent t")
    case None
    with 1(2) show ?thesis by (simp add: chainOf_None)
  next
    case (Some p)
    show ?thesis
    proof (cases "i < length (chainOf p)")
      case True
      with 1(1)[OF Some] Some show ?thesis by (simp add: chainOf_Some nth_append)
    next
      case False
      with 1(2) Some have "i = length (chainOf p)" by (simp add: chainOf_Some)
      with Some show ?thesis by (simp add: chainOf_Some nth_append)
    qed
  qed
qed

lemma wf_nth:
  assumes "wf_node t" "n \<in> set (chainOf t)"
  shows "wf_node n" "chainOf t ! nat (nd_height n) = n" "nat (nd_height n) < length (chainOf t)"
proof -
  from assms(2) obtain i where i: "i < length (chainOf t)" "chainOf t ! i = n" by (auto simp: in_set_conv_nth)
  then have h: "nd_height n = int i" using assms(1) by (auto simp: wf_node_def)
  show "chainOf t ! nat (nd_height n) = n" "nat (nd_height n) < length (chainOf t)" using h i by simp_all
  have "chainOf n = take (Suc i) (chainOf t)" using chainOf_nth[OF i(1)] i(2) by simp
  then show "wf_node n" using assms(1) i(1) by (auto simp: wf_node_def)
qed

lemma wf_height: "wf_node n \<Longrightarrow> nd_height n = int (length (chainOf n)) - 1"
  unfolding wf_node_def by (metis chainOf_nonempty last_chainOf last_conv_nth length_greater_0_conv of_nat_1 of_nat_diff One_nat_def Suc_leI diff_less zero_less_one)

lemma wf_range: "wf_node n \<Longrightarrow> 0 \<le> nd_height n \<and> nd_height n < 2 ^ 31 - 2"
proof -
  assume a: "wf_node n"
  have "int (length (chainOf n)) < 2147483647" using a by (simp add: wf_node_def)
  moreover have "1 \<le> int (length (chainOf n))" using length_chainOf[of n] by linarith
  ultimately show ?thesis unfolding wf_height[OF a] by simp
qed

lemma wf_parent: "wf_node n \<Longrightarrow> nd_parent n = Some p \<Longrightarrow> wf_node p \<and> nd_height p = nd_height n - 1"
proof -
  assume a: "wf_node n" "nd_parent n = Some p"
  have "p \<in> set (chainOf n)" using a(2) by (simp add: chainOf_Some)
  then have "wf_node p" using wf_nth(1) a(1) by blast
  then show ?thesis using wf_height[of p] wf_height[OF a(1)] a(2) by (simp add: chainOf_Some)
qed

lemma Ancestor_chain:
  assumes "wf_node n"
  shows "Ancestor n h = (if 0 \<le> h \<and> h \<le> nd_height n then Some (chainOf n ! nat h) else None)"
proof -
  have "walkTo h n = Some (chainOf n ! nat h)" if "0 \<le> h" "h \<le> nd_height n" using assms that
  proof (induction h n rule: walkTo.induct)
    case (1 h n)
    show ?case
    proof (cases "nd_height n = h")
      case True
      then show ?thesis using wf_nth(2)[OF 1(2), of n] by (simp add: walkTo.simps[of h n])
    next
      case False
      then have "0 < nd_height n" using 1 by linarith
      then obtain p where p: "nd_parent n = Some p" 
        using wf_height[OF 1(2)] by (cases "nd_parent n") (auto simp: chainOf_None)
      note wp = wf_parent[OF 1(2) p]
      then have "walkTo h p = Some (chainOf p ! nat h)" using 1(1)[OF False p] 1(3,4) False by simp
      moreover have "nat h < length (chainOf p)" using wp wf_height[of p] 1(3,4) False by simp
      ultimately show ?thesis using False p by (simp add: walkTo.simps[of h n] chainOf_Some nth_append)
    qed
  qed
  then show ?thesis by (auto simp: Ancestor_def)
qed

section \<open>The view is the chain of its tip\<close>

lemma fillView_chain:
  assumes "wf_node n" and "wf_node t" and "nd_height n < int (length c)"
    and "\<forall>i < length c. i \<le> nat (nd_height n) \<longrightarrow> c ! i = None \<or> i < length (chainOf t) \<and> (\<forall>j \<le> i. c ! j = Some (chainOf t ! j))"
  shows "fillView n c = Inr (map Some (chainOf n) @ drop (length (chainOf n)) c)"
  using assms
proof (induction n c rule: fillView.induct)
  case (1 n c)
  let ?h = "nat (nd_height n)"
  have h: "int ?h = nd_height n" "length (chainOf n) = Suc ?h" "?h < length c"
    using wf_range[OF 1(2)] wf_height[OF 1(2)] 1(4) length_chainOf[of n] by linarith+
  have guard: "\<not> (nd_height n < 0 \<or> nd_height n \<ge> int (length c))" using wf_range[OF 1(2)] 1(4) by simp
  show ?case
  proof (cases "c ! ?h = Some n")
    case True
    then have t: "?h < length (chainOf t)" "\<forall>j \<le> ?h. c ! j = Some (chainOf t ! j)" using 1(5) h(3) by auto
    with True have "chainOf t ! ?h = n" by simp
    then have "chainOf n = take (Suc ?h) (chainOf t)" using chainOf_nth[OF t(1)] by simp
    then have "map Some (chainOf n) = take (Suc ?h) c"
      using t h by (intro nth_equalityI) auto
    then show ?thesis using True by (subst fillView.simps, subst if_not_P[OF guard]) (simp add: h(2))
  next
    case False
    let ?c = "c[?h := Some n]"
    show ?thesis
    proof (cases "nd_parent n")
      case None
      then have "?h = 0" using h(2) by (simp add: chainOf_None)
      then show ?thesis using False None h(3)
        by (subst fillView.simps, subst if_not_P[OF guard]) (cases c; simp add: chainOf_None)
    next
      case (Some p)
      note wp = wf_parent[OF 1(2) Some]
      have hp: "nat (nd_height p) < ?h" using wp wf_range[of p] by auto
      have "fillView p ?c = Inr (map Some (chainOf p) @ drop (length (chainOf p)) ?c)"
      proof (rule 1(1)[OF guard False _ Some])
        show "\<forall>i < length ?c. i \<le> nat (nd_height p) \<longrightarrow> ?c ! i = None \<or> i < length (chainOf t) \<and> (\<forall>j \<le> i. ?c ! j = Some (chainOf t ! j))"
          using 1(5) hp by auto
      qed (use wp 1(3,4) in auto)
      moreover have "length (chainOf p) = ?h" using h(2) Some by (simp add: chainOf_Some)
      moreover have "drop ?h ?c = Some n # drop (Suc ?h) c" using h(3) by (simp add: drop_update_swap flip: Cons_nth_drop_Suc)
      ultimately show ?thesis using False Some
        by (subst fillView.simps, subst if_not_P[OF guard]) (simp add: chainOf_Some Let_def)
    qed
  qed
qed

text \<open>A view is valid if it is empty or the chain of some node.\<close>

definition view_of :: "BlockNode option \<Rightarrow> chainView" where
  "view_of t = (case t of None \<Rightarrow> [] | Some n \<Rightarrow> map Some (chainOf n))"

definition wf_tip :: "BlockNode option \<Rightarrow> bool" where
  "wf_tip t = (case t of None \<Rightarrow> True | Some n \<Rightarrow> wf_node n)"

lemma setTip_view:
  assumes "wf_tip t" and "wf_tip t'"
  shows "cv_setTip t' (view_of t) = Inr (view_of t')"
proof (cases t')
  case (Some n)
  with assms(2) have n: "wf_node n" by (simp add: wf_tip_def)
  let ?k = "length (chainOf n)"
  let ?c = "take ?k (view_of t @ replicate (?k - length (view_of t)) None)"
  have k: "s32 (nd_height n + 1) = int ?k" using wf_range[OF n] wf_height[OF n] by simp
  obtain u where u: "wf_node u" "\<forall>i < length (view_of t). view_of t ! i = Some (chainOf u ! i)" "length (view_of t) \<le> length (chainOf u)"
  proof (cases t)
    case None
    with n that[of n] show ?thesis by (simp add: view_of_def)
  next
    case (Some m)
    with assms(1) that[of m] show ?thesis by (simp add: view_of_def wf_tip_def)
  qed
  have "fillView n ?c = Inr (map Some (chainOf n) @ drop ?k ?c)"
    by (rule fillView_chain[OF n u(1)]) (use u(2,3) wf_height[OF n] in \<open>auto simp: nth_append\<close>)
  then show ?thesis using Some k by (simp add: cv_setTip_def view_of_def)
qed (simp add: cv_setTip_def view_of_def)


text \<open>C24: the view of the main chain. After any sequence of \<open>SetTip\<close> on a new view, also to shorter chains and to other branches, the view is
  exactly the chain of the last tip, and no call panics.\<close>

theorem set_tips_view:
  assumes "list_all wf_tip ts" and "ts \<noteq> []"
  shows "foldE (\<lambda>c t. cv_setTip t c) [] ts = Inr (view_of (last ts))"
proof -
  have "foldE (\<lambda>c t. cv_setTip t c) (view_of t0) ts = Inr (view_of (last (t0 # ts)))" if "wf_tip t0" for t0
    using assms(1) that
  proof (induction ts arbitrary: t0)
    case (Cons t ts)
    then show ?case by (simp add: setTip_view del: last.simps) (simp add: last_ConsR)
  qed simp
  from this[of None] show ?thesis using assms(2) by (simp add: wf_tip_def view_of_def last_ConsR)
qed

lemma s32_view: "wf_node t \<Longrightarrow> cv_height (view_of (Some t)) = nd_height t \<and> s32 (int (length (view_of (Some t)))) = nd_height t + 1"
  using wf_range[of t] wf_height[of t] by (simp add: cv_height_def view_of_def)

lemma contains_iff: "wf_node t \<Longrightarrow> wf_node n \<Longrightarrow> cv_contains (view_of (Some t)) n \<longleftrightarrow> n \<in> set (chainOf t)"
  unfolding cv_contains_def cv_nodeByHeight_def
proof -
  assume t: "wf_node t" and n: "wf_node n"
  have l: "int (length (chainOf t)) = nd_height t + 1" using wf_height[OF t] by simp
  show "((if nd_height n < 0 \<or> nd_height n \<ge> s32 (int (length (view_of (Some t)))) then None else view_of (Some t) ! nat (nd_height n)) = Some n)
    \<longleftrightarrow> n \<in> set (chainOf t)"
  proof
    assume "(if nd_height n < 0 \<or> nd_height n \<ge> s32 (int (length (view_of (Some t)))) then None else view_of (Some t) ! nat (nd_height n)) = Some n"
    then have "nat (nd_height n) < length (chainOf t)" "map Some (chainOf t) ! nat (nd_height n) = Some n"
      using s32_view[OF t] l by (auto simp: view_of_def split: if_splits)
    then show "n \<in> set (chainOf t)" by (simp add: in_set_conv_nth) blast
  next
    assume "n \<in> set (chainOf t)"
    then show "(if nd_height n < 0 \<or> nd_height n \<ge> s32 (int (length (view_of (Some t)))) then None else view_of (Some t) ! nat (nd_height n)) = Some n"
      using wf_nth(2,3)[OF t, of n] s32_view[OF t] l wf_range[OF n] by (auto simp: view_of_def)
  qed
qed

definition highest_in :: "BlockNode set \<Rightarrow> BlockNode option \<Rightarrow> bool" where
  "highest_in S r = (case r of None \<Rightarrow> S = {} | Some f \<Rightarrow> f \<in> S \<and> (\<forall>g \<in> S. nd_height g \<le> nd_height f))"

lemma walkFork_spec:
  assumes "wf_node t" and "wf_node n"
  shows "highest_in (set (chainOf n) \<inter> set (chainOf t)) (walkFork (view_of (Some t)) n)"
  using assms
proof (induction "view_of (Some t)" n rule: walkFork.induct)
  case (1 n)
  have up: "nd_height g \<le> nd_height n" if "g \<in> set (chainOf n)" for g
    using wf_nth(3)[OF 1(3) that] wf_height[OF 1(3)] wf_range[OF wf_nth(1)[OF 1(3) that]] by linarith
  show ?case
  proof (cases "cv_contains (view_of (Some t)) n")
    case True
    then show ?thesis using contains_iff[OF 1(2,3)] up by (simp add: walkFork.simps[of _ n] highest_in_def)
  next
    case False
    then have n: "n \<notin> set (chainOf t)" using contains_iff[OF 1(2,3)] by simp
    show ?thesis
    proof (cases "nd_parent n")
      case None
      then show ?thesis using False n by (simp add: walkFork.simps[of _ n] chainOf_None highest_in_def)
    next
      case (Some p)
      have "set (chainOf n) \<inter> set (chainOf t) = set (chainOf p) \<inter> set (chainOf t)" using n Some by (simp add: chainOf_Some)
      then show ?thesis using 1(1)[OF False Some 1(2)] wf_parent[OF 1(3) Some] False Some by (simp add: walkFork.simps[of _ n])
    qed
  qed
qed

text \<open>C25: the fork point. On the view of a chain, \<open>FindFork\<close> of a node gives the highest node that the chain of the view and the chain of the
  node have in common, and nil exactly if they have none.\<close>

theorem findFork_highest_common:
  assumes "wf_node t" and "wf_node n"
  shows "highest_in (set (chainOf n) \<inter> set (chainOf t)) (cv_findFork (view_of (Some t)) (Some n))"
proof (cases "nd_height n > nd_height t")
  case False
  then show ?thesis using walkFork_spec[OF assms] s32_view[OF assms(1)] by (simp add: cv_findFork_def)
next
  case True
  let ?i = "nat (nd_height t)"
  let ?m = "chainOf n ! ?i"
  have i: "?i < length (chainOf n)" "length (chainOf t) = Suc ?i"
    using True wf_range[OF assms(1)] wf_height[OF assms(1)] wf_height[OF assms(2)] by linarith+
  have a: "Ancestor n (nd_height t) = Some ?m" using True wf_range[OF assms(1)] by (simp add: Ancestor_chain[OF assms(2)])
  have m: "wf_node ?m" "chainOf ?m = take (Suc ?i) (chainOf n)" using wf_nth(1)[OF assms(2)] i(1) chainOf_nth[OF i(1)] by auto
  have "set (chainOf n) \<inter> set (chainOf t) = set (chainOf ?m) \<inter> set (chainOf t)"
  proof -
    have "g \<in> set (take (Suc ?i) (chainOf n))" if "g \<in> set (chainOf n)" "g \<in> set (chainOf t)" for g
      using wf_nth(2,3)[OF assms(2) that(1)] wf_nth(3)[OF assms(1) that(2)] i
      by (metis in_set_conv_nth length_take min_def nth_take not_less_eq_eq linorder_not_less Suc_leI)
    then show ?thesis unfolding m(2) using set_take_subset by fastforce
  qed
  then show ?thesis using walkFork_spec[OF assms(1) m(1)] True a s32_view[OF assms(1)] by (simp add: cv_findFork_def)
qed


section \<open>Accumulated work\<close>

text \<open>The nodes that the code builds and the work sums it gives them: the genesis node, whose work \<open>createChainState\<close> sets, nodes on top of
  others, and the comparison of a node of a side chain with a tip, where \<open>connectBestChain\<close> overwrites the sum of the node.\<close>

inductive built :: "(bytes \<Rightarrow> bytes) \<Rightarrow> nodeFields \<Rightarrow> BlockNode set \<Rightarrow> bool" for sha where
  genesis: "NewBlockNode sha header None nf = (g, nf1) \<Longrightarrow>
     built sha (nf1\<lparr>nw_workSum := (nw_workSum nf1)(g := Some (CalcWork (nd_bits g)))\<rparr>) {g}"
| extend: "built sha nf S \<Longrightarrow> p \<in> S \<Longrightarrow> NewBlockNode sha header (Some p) nf = (n, nf') \<Longrightarrow> n \<notin> S
     \<Longrightarrow> built sha nf' (insert n S)"
| compare: "built sha nf S \<Longrightarrow> side \<in> S \<Longrightarrow> causesReorganize side tip nf = Inr (r, nf') \<Longrightarrow> built sha nf' S"

inductive_cases builtE: "built sha nf S"

lemma CalcWork_nonneg: "0 \<le> CalcWork b"
  unfolding CalcWork_def Let_def by (auto intro!: pos_imp_zdiv_nonneg_iff[THEN iffD2])

lemma built_work:
  assumes "built sha nf S" and "n \<in> S"
  shows "nw_workSum nf n = Some (CalcWork (nd_bits n))
    \<or> (\<exists>p. nd_parent n = Some p \<and> nw_workSum nf n = Some (CalcWork (nd_bits p) + CalcWork (nd_bits n)))"
  using assms
proof (induction arbitrary: n rule: built.induct)
  case (genesis header nf g nf1)
  then show ?case by simp
next
  case (extend nf S p header m nf')
  from extend.hyps(3) have m: "nd_parent m = Some p" "nd_bits m = bh_Bits header"
    "nw_workSum nf' = (nw_workSum nf)(p := Some (CalcWork (nd_bits p)), m := Some (CalcWork (nd_bits p) + CalcWork (nd_bits m)))"
    by (auto simp: NewBlockNode_def Let_def)
  show ?case
  proof (cases "n = m")
    case True
    with m show ?thesis by simp
  next
    case False
    with extend show ?thesis using m(3) by auto
  qed
next
  case (compare nf S side tip r nf')
  then have "nw_workSum nf' = (nw_workSum nf)(side := Some (CalcWork (nd_bits side)))"
    by (auto simp: causesReorganize_def Let_def split: option.splits)
  with compare.IH[OF compare.prems] show ?case by simp
qed

text \<open>C40: the accumulated work is not accumulated. However long the chain of a node is, its \<open>workSum\<close> is its own work or that of itself and its
  parent, since \<open>initBlockNode\<close> overwrites the sum of the parent with the work of the parent alone. As a
  consequence a block whose own work does not exceed the work of the tip never causes a
  reorganization, whatever the length of its branch.\<close>

theorem workSum_of_two_blocks:
  assumes "built sha nf S" and "n \<in> S"
  shows "(nw_workSum nf n = Some (CalcWork (nd_bits n))
      \<or> (\<exists>p. nd_parent n = Some p \<and> nw_workSum nf n = Some (CalcWork (nd_bits p) + CalcWork (nd_bits n))))
    \<and> (\<forall>side. CalcWork (nd_bits side) \<le> CalcWork (nd_bits n) \<longrightarrow> (\<exists>nf'. causesReorganize side n nf = Inr (False, nf')))"
proof -
  obtain w where "nw_workSum nf n = Some w" "CalcWork (nd_bits n) \<le> w"
    using built_work[OF assms] CalcWork_nonneg by fastforce
  then have "\<exists>nf'. causesReorganize side n nf = Inr (False, nf')" if "CalcWork (nd_bits side) \<le> CalcWork (nd_bits n)" for side
    using that by (auto simp: causesReorganize_def Let_def)
  with built_work[OF assms] show ?thesis by blast
qed

text \<open>Three blocks of the same difficulty.\<close>

definition headerOn :: "bytes \<Rightarrow> u32 \<Rightarrow> BlockHeader" where
  "headerOn prev nonce = \<lparr>bh_Version = 2, bh_PrevBlock = prev, bh_MerkleRoot = replicate 32 2, bh_Timestamp = 1588888888,
     bh_Bits = 0x1d00ffff, bh_Nonce = nonce\<rparr>"

definition noFields :: nodeFields where
  "noFields = \<lparr>nw_workSum = (\<lambda>_. None), nw_status = (\<lambda>_. 0)\<rparr>"

definition node0 :: BlockNode where "node0 = fst (NewBlockNode (\<lambda>b. b) (headerOn (replicate 32 0) 0) None noFields)"
definition node1 :: BlockNode where "node1 = fst (NewBlockNode (\<lambda>b. b) (headerOn (nd_hash node0) 1) (Some node0) noFields)"
definition node2 :: BlockNode where "node2 = fst (NewBlockNode (\<lambda>b. b) (headerOn (nd_hash node1) 2) (Some node1) noFields)"

lemma wf_nodes: "wf_node node0" "wf_node node1" "wf_node node2" "chainOf node2 = [node0, node1, node2]"
  "nd_parent node2 = Some node1" "nd_parent node1 = Some node0" "nd_parent node0 = None"
proof -
  have p: "nd_parent node2 = Some node1" "nd_parent node1 = Some node0" "nd_parent node0 = None"
    by (simp_all add: node0_def node1_def node2_def NewBlockNode_def Let_def)
  have h: "nd_height node0 = 0" "nd_height node1 = 1" "nd_height node2 = 2"
    by (simp_all add: node0_def node1_def node2_def NewBlockNode_def Let_def)
  have c: "chainOf node0 = [node0]" "chainOf node1 = [node0, node1]" "chainOf node2 = [node0, node1, node2]"
    using p by (simp_all add: chainOf_None chainOf_Some)
  have two: "i < Suc (Suc 0) \<longleftrightarrow> i = 0 \<or> i = 1" and three: "i < Suc (Suc (Suc 0)) \<longleftrightarrow> i = 0 \<or> i = 1 \<or> i = 2" for i :: nat
    by auto
  show "wf_node node0" unfolding wf_node_def c using h by simp
  show "wf_node node1" unfolding wf_node_def c using h by (auto simp: two)
  show "wf_node node2" unfolding wf_node_def c using h by (auto simp: three)
  show "chainOf node2 = [node0, node1, node2]" by (rule c)
  show "nd_parent node2 = Some node1" "nd_parent node1 = Some node0" "nd_parent node0 = None" by (rule p)+
qed

theorem set_tips_view_witness:
  "list_all wf_tip [Some node2, Some node0, Some node1] \<and> foldE (\<lambda>c t. cv_setTip t c) [] [Some node2, Some node0, Some node1] = Inr [Some node0, Some node1]"
proof -
  have "view_of (Some node1) = [Some node0, Some node1]" using wf_nodes by (simp add: view_of_def chainOf_None chainOf_Some)
  with set_tips_view[of "[Some node2, Some node0, Some node1]"] wf_nodes show ?thesis by (simp add: wf_tip_def)
qed

theorem findFork_highest_common_witness:
  "wf_node node1 \<and> wf_node node2
   \<and> highest_in (set (chainOf node2) \<inter> set (chainOf node1)) (cv_findFork (view_of (Some node1)) (Some node2))"
  using findFork_highest_common[OF wf_nodes(2,3)] wf_nodes by simp

theorem workSum_of_two_blocks_witness:
  "\<exists>nf. built (\<lambda>b. b) nf {node2, node1, node0}
     \<and> (\<exists>nf'. causesReorganize node2 node1 nf = Inr (False, nf'))"
proof -
  have distinct: "node1 \<noteq> node0" "node2 \<noteq> node0" "node2 \<noteq> node1"
    using wf_nodes by (metis option.distinct(1) option.sel)+
  obtain nf0 where "NewBlockNode (\<lambda>b. b) (headerOn (replicate 32 0) 0) None noFields = (node0, nf0)"
    by (simp add: node0_def NewBlockNode_def Let_def)
  from built.genesis[OF this] obtain nf1 where b0: "built (\<lambda>b. b) nf1 {node0}" by blast
  have n1: "fst (NewBlockNode (\<lambda>b. b) (headerOn (nd_hash node0) 1) (Some node0) nf1) = node1"
    by (simp add: node1_def NewBlockNode_def Let_def)
  then obtain nf2 where "NewBlockNode (\<lambda>b. b) (headerOn (nd_hash node0) 1) (Some node0) nf1 = (node1, nf2)"
    by (metis prod.collapse)
  from built.extend[OF b0 _ this] distinct have b1: "built (\<lambda>b. b) nf2 {node1, node0}" by simp
  have "fst (NewBlockNode (\<lambda>b. b) (headerOn (nd_hash node1) 2) (Some node1) nf2) = node2"
    by (simp add: node2_def NewBlockNode_def Let_def)
  then obtain nf3 where "NewBlockNode (\<lambda>b. b) (headerOn (nd_hash node1) 2) (Some node1) nf2 = (node2, nf3)"
    by (metis prod.collapse)
  from built.extend[OF b1 _ this] distinct have b2: "built (\<lambda>b. b) nf3 {node2, node1, node0}" by simp
  have "nd_bits node2 = nd_bits node1" by (simp add: node1_def node2_def NewBlockNode_def Let_def headerOn_def)
  with workSum_of_two_blocks[OF b2, of node1] b2 show ?thesis by auto
qed

end
