(* ===== verification/ChainCompress.thy ===== *)
theory ChainCompress
  imports ChainBase BigInt ScriptParse ScriptSigCache
begin

text \<open>
  Compression of transaction outputs for the database (\<open>pkg/chain/compress.go\<close>): variable length
  quantities, amounts, scripts. A function that writes into a buffer of sufficient size is the function
  that gives the bytes it writes; the size functions are exact, so the buffers the callers allocate are
  of sufficient size. Parsing of public keys is the parameter \<open>parse\<close>.
\<close>

section \<open>Variable length quantities\<close>

function vlqDigits :: "u8 \<Rightarrow> u64 \<Rightarrow> bytes" where
  "vlqDigits highBitMask n =
     (ucast (n AND 0x7f) OR highBitMask) # (if n \<le> 0x7f then [] else vlqDigits 0x80 (drop_bit 7 n - 1))"
  by auto

lemma vlq_shift:
  fixes n :: u64
  assumes "\<not> n \<le> 0x7f"
  shows "unat (drop_bit 7 n) = unat n div 128" and "0 < unat n div 128"
    and "unat (drop_bit 7 n - 1) = unat n div 128 - 1"
proof -
  show d: "unat (drop_bit 7 n) = unat n div 128" by (simp add: unat_drop_bit_eq drop_bit_eq_div unat_div)
  have "128 \<le> unat n" using assms by (simp add: word_le_nat_alt)
  then show p: "0 < unat n div 128" by (simp add: div_greater_zero_iff)
  then have "1 \<le> drop_bit 7 n" using d by (simp add: word_le_nat_alt)
  then show "unat (drop_bit 7 n - 1) = unat n div 128 - 1" using d by (simp add: unat_sub)
qed

termination vlqDigits
  by (relation "measure (\<lambda>(m, n). unat n)") (use vlq_shift in \<open>force simp: word_le_nat_alt\<close>)+

declare vlqDigits.simps [simp del]

definition putVLQ :: "u64 \<Rightarrow> bytes" where
  "putVLQ n = rev (vlqDigits 0 n)"

function serializeSizeVLQ :: "u64 \<Rightarrow> nat" where
  "serializeSizeVLQ n = (if n > 0x7f then Suc (serializeSizeVLQ (drop_bit 7 n - 1)) else 1)"
  by auto

termination serializeSizeVLQ
  by (relation "measure unat") (use vlq_shift in \<open>force simp: not_le\<close>)+

declare serializeSizeVLQ.simps [simp del]

fun vlqLoop :: "u64 \<Rightarrow> nat \<Rightarrow> bytes \<Rightarrow> u64 \<times> nat" where
  "vlqLoop n sz [] = (n, sz)"
| "vlqLoop n sz (val # rest) =
     (let n' = push_bit 7 n OR ucast (val AND 0x7f) in
      if val AND 0x80 \<noteq> 0x80 then (n', Suc sz) else vlqLoop (n' + 1) (Suc sz) rest)"

definition deserializeVLQ :: "bytes \<Rightarrow> u64 \<times> nat" where
  "deserializeVLQ serialized = vlqLoop 0 0 serialized"

section \<open>Amounts\<close>

text \<open>The loop that strips factors of ten, at most nine.\<close>

fun stripTens :: "nat \<Rightarrow> u64 \<Rightarrow> u64 \<Rightarrow> u64 \<times> u64" where
  "stripTens 0 amount exponent = (amount, exponent)"
| "stripTens (Suc k) amount exponent =
     (if amount mod 10 = 0 then stripTens k (amount div 10) (exponent + 1) else (amount, exponent))"

definition compressTxOutAmount :: "u64 \<Rightarrow> u64" where
  "compressTxOutAmount amount =
     (if amount = 0 then 0
      else let (amount', exponent) = stripTens 9 amount 0 in
        if exponent < 9 then 1 + 10 * (9 * (amount' div 10) + amount' mod 10 - 1) + exponent
        else 10 + 10 * (amount' - 1))"

definition decompressTxOutAmount :: "u64 \<Rightarrow> u64" where
  "decompressTxOutAmount amount =
     (if amount = 0 then 0
      else let a = amount - 1; exponent = a mod 10; a' = a div 10;
               n = (if exponent < 9 then (a' div 9) * 10 + (a' mod 9 + 1) else a' + 1)
        in ((*) 10 ^^ unat exponent) n)"

section \<open>Scripts\<close>

definition numSpecialScripts :: u64 where "numSpecialScripts = 6"

definition PubKey_SerializeUncompressed :: "PublicKey \<Rightarrow> bytes" where
  "PubKey_SerializeUncompressed p =
     (let pad = (\<lambda>b. replicate (32 - length b) 0 @ b) in
      0x04 # pad (bigBytes (pk_X p)) @ pad (bigBytes (pk_Y p)))"

definition cs_isPubKeyHash :: "bytes \<Rightarrow> bytes option" where
  "cs_isPubKeyHash script =
     (if length script = 25 \<and> script ! 0 = OP_DUP \<and> script ! 1 = OP_HASH160 \<and> script ! 2 = OP_DATA_20
         \<and> script ! 23 = OP_EQUALVERIFY \<and> script ! 24 = OP_CHECKSIG
      then Some (take 20 (drop 3 script)) else None)"

definition cs_isScriptHash :: "bytes \<Rightarrow> bytes option" where
  "cs_isScriptHash script =
     (if length script = 23 \<and> script ! 0 = OP_HASH160 \<and> script ! 1 = OP_DATA_20 \<and> script ! 22 = OP_EQUAL
      then Some (take 20 (drop 2 script)) else None)"

definition cs_isPubKey :: "(bytes \<Rightarrow> PublicKey option) \<Rightarrow> bytes \<Rightarrow> bytes option" where
  "cs_isPubKey parse script =
     (if length script = 35 \<and> script ! 0 = OP_DATA_33 \<and> script ! 34 = OP_CHECKSIG
         \<and> (script ! 1 = 0x02 \<or> script ! 1 = 0x03) \<and> parse (take 33 (drop 1 script)) \<noteq> None
      then Some (take 33 (drop 1 script))
      else if length script = 67 \<and> script ! 0 = OP_DATA_65 \<and> script ! 66 = OP_CHECKSIG
         \<and> script ! 1 = 0x04 \<and> parse (take 65 (drop 1 script)) \<noteq> None
      then Some (take 65 (drop 1 script))
      else None)"

definition compressedScriptSize :: "(bytes \<Rightarrow> PublicKey option) \<Rightarrow> bytes \<Rightarrow> nat" where
  "compressedScriptSize parse pkScript =
     (if cs_isPubKeyHash pkScript \<noteq> None then 21
      else if cs_isScriptHash pkScript \<noteq> None then 21
      else if cs_isPubKey parse pkScript \<noteq> None then 33
      else serializeSizeVLQ (of_nat (length pkScript) + numSpecialScripts) + length pkScript)"

text \<open>The case distinction on the format byte has no other branch: \<open>cs_isPubKey\<close> only gives keys of the
  formats 2, 3 and 4.\<close>

definition putCompressedScript :: "(bytes \<Rightarrow> PublicKey option) \<Rightarrow> bytes \<Rightarrow> bytes" where
  "putCompressedScript parse pkScript =
     (case cs_isPubKeyHash pkScript of
        Some h \<Rightarrow> 0 # h
      | None \<Rightarrow>
        (case cs_isScriptHash pkScript of
           Some h \<Rightarrow> 1 # h
         | None \<Rightarrow>
           (case cs_isPubKey parse pkScript of
              Some key \<Rightarrow>
                (if key ! 0 = 0x02 \<or> key ! 0 = 0x03 then key ! 0 # take 32 (drop 1 key)
                 else (key ! 0 OR (key ! 64 AND 0x01)) # take 32 (drop 1 key))
            | None \<Rightarrow> putVLQ (of_nat (length pkScript) + numSpecialScripts) @ pkScript)))"

definition decodeCompressedScriptSize :: "bytes \<Rightarrow> int" where
  "decodeCompressedScriptSize serialized =
     (let (scriptSize, bytesRead) = deserializeVLQ serialized in
      if bytesRead = 0 then 0
      else if scriptSize = 0 then 21
      else if scriptSize = 1 then 21
      else if scriptSize \<in> {2, 3, 4, 5} then 33
      else sint (scriptSize - numSpecialScripts + of_nat bytesRead))"

text \<open>\<open>decompressScript\<close>; slicing past the end of the argument panics. \<open>None\<close> is \<open>nil\<close>.\<close>

definition sliceC :: "bytes \<Rightarrow> nat \<Rightarrow> nat \<Rightarrow> bytes cres" where
  "sliceC b from to = (if from \<le> to \<and> to \<le> length b then Inr (take (to - from) (drop from b)) else Inl GoPanic)"

definition decompressScript :: "(bytes \<Rightarrow> PublicKey option) \<Rightarrow> bytes \<Rightarrow> bytes option cres" where
  "decompressScript parse compressed =
     (if length compressed = 0 then Inr None
      else let (encodedScriptSize, bytesRead) = deserializeVLQ compressed in
        if encodedScriptSize = 0
        then bindE (sliceC compressed bytesRead (bytesRead + 20)) (\<lambda>h.
             Inr (Some ([OP_DUP, OP_HASH160, OP_DATA_20] @ h @ [OP_EQUALVERIFY, OP_CHECKSIG])))
        else if encodedScriptSize = 1
        then bindE (sliceC compressed bytesRead (bytesRead + 20)) (\<lambda>h.
             Inr (Some ([OP_HASH160, OP_DATA_20] @ h @ [OP_EQUAL])))
        else if encodedScriptSize = 2 \<or> encodedScriptSize = 3
        then bindE (sliceC compressed bytesRead (bytesRead + 32)) (\<lambda>x.
             Inr (Some ([OP_DATA_33, ucast encodedScriptSize] @ x @ [OP_CHECKSIG])))
        else if encodedScriptSize = 4 \<or> encodedScriptSize = 5
        then let x = take 32 (drop 1 compressed @ replicate 32 0) in
             (case parse (ucast (encodedScriptSize - 2) # x) of
                None \<Rightarrow> Inr None
              | Some key \<Rightarrow> Inr (Some (OP_DATA_65 # PubKey_SerializeUncompressed key @ [OP_CHECKSIG])))
        else let scriptSize = sint (encodedScriptSize - numSpecialScripts) in
             if scriptSize < 0 then Inl GoPanic
             else bindE (sliceC compressed bytesRead (bytesRead + nat scriptSize)) (\<lambda>scr. Inr (Some scr)))"

section \<open>Outputs\<close>

definition compressedTxOutSize :: "(bytes \<Rightarrow> PublicKey option) \<Rightarrow> u64 \<Rightarrow> bytes \<Rightarrow> nat" where
  "compressedTxOutSize parse amount pkScript =
     serializeSizeVLQ (compressTxOutAmount amount) + compressedScriptSize parse pkScript"

definition putCompressedTxOut :: "(bytes \<Rightarrow> PublicKey option) \<Rightarrow> u64 \<Rightarrow> bytes \<Rightarrow> bytes" where
  "putCompressedTxOut parse amount pkScript =
     putVLQ (compressTxOutAmount amount) @ putCompressedScript parse pkScript"

text \<open>A decoded output: amount, script, number of bytes read. A size that is negative as an \<open>int\<close> makes the slice expression panic; otherwise the script lies within
  the length of the slice.\<close>

definition decodeCompressedTxOut ::
  "(bytes \<Rightarrow> PublicKey option) \<Rightarrow> bytes \<Rightarrow> (u64 \<times> bytes option \<times> nat) cres" where
  "decodeCompressedTxOut parse serialized =
     (let (compressedAmount, bytesRead) = deserializeVLQ serialized in
      if bytesRead \<ge> length serialized then Inl DeserializeError
      else let scriptSize = decodeCompressedScriptSize (drop bytesRead serialized) in
        if int (length serialized - bytesRead) < scriptSize then Inl DeserializeError
        else if scriptSize < 0 then Inl GoPanic
        else bindE (decompressScript parse (take (nat scriptSize) (drop bytesRead serialized))) (\<lambda>script.
             Inr (decompressTxOutAmount compressedAmount, script, bytesRead + nat scriptSize)))"


section \<open>Round trips\<close>

lemma low_bits: "(0x7f :: u64) = mask 7" "(0x7f :: u8) = mask 7"
  by (simp_all add: mask_eq_exp_minus_1)

lemma bit_80: "bit (0x80 :: u8) k \<longleftrightarrow> k = 7"
  using bit_exp_iff[where 'a = u8, of 7 k] by (auto simp: bit_simps)

lemma bit_80_int: "bit (0x80 :: int) k \<longleftrightarrow> k = 7"
  using bit_exp_iff[where 'a = int, of 7 k] by auto

lemma vlq_byte:
  fixes n :: u64
  shows "(ucast (n AND 0x7f) OR 0x80 :: u8) AND 0x80 = 0x80" and "(ucast (n AND 0x7f) :: u8) AND 0x80 = 0"
    and "ucast ((ucast (n AND 0x7f) OR 0x80 :: u8) AND 0x7f) = n AND 0x7f"
    and "ucast ((ucast (n AND 0x7f) :: u8) AND 0x7f) = n AND 0x7f"
    and "push_bit 7 (drop_bit 7 n) OR n AND 0x7f = n"
  unfolding low_bits by (rule bit_word_eqI; auto simp: bit_simps bit_80 bit_80_int)+

lemma vlq_small: "(n :: u64) \<le> 0x7f \<Longrightarrow> n AND 0x7f = n"
  unfolding low_bits and_mask_mod_2p by (simp add: mask_eq_exp_minus_1 word_le_def)

lemma vlqDigits_more:
  "vlqLoop 0 s (rev (vlqDigits 0x80 n) @ rest) = vlqLoop (n + 1) (s + length (vlqDigits 0x80 n)) rest"
proof (induction "0x80 :: u8" n arbitrary: s rest rule: vlqDigits.induct)
  case (1 n)
  show ?case
  proof (cases "n \<le> 0x7f")
    case True
    then show ?thesis by (simp add: vlqDigits.simps[of _ n] vlq_byte Let_def) (simp add: vlq_small)
  next
    case False
    then show ?thesis using 1[OF False] by (simp add: vlqDigits.simps[of _ n] vlq_byte Let_def)
  qed
qed

lemma vlq_roundtrip: "deserializeVLQ (putVLQ n @ rest) = (n, length (putVLQ n))"
proof (cases "n \<le> 0x7f")
  case True
  then show ?thesis
    by (simp add: deserializeVLQ_def putVLQ_def vlqDigits.simps[of _ n] vlq_byte Let_def) (simp add: vlq_small)
next
  case False
  then show ?thesis
    using vlqDigits_more[of 0 "drop_bit 7 n - 1"]
    by (simp add: deserializeVLQ_def putVLQ_def vlqDigits.simps[of _ n] vlq_byte Let_def)
qed

lemma length_vlqDigits: "length (vlqDigits m n) = serializeSizeVLQ n"
proof (induction m n rule: vlqDigits.induct)
  case (1 m n)
  then show ?case
    by (cases "n \<le> 0x7f") (simp_all add: vlqDigits.simps[of m n] serializeSizeVLQ.simps[of n] flip: not_le)
qed

lemma length_putVLQ [simp]: "length (putVLQ n) = serializeSizeVLQ n"
  by (simp add: putVLQ_def length_vlqDigits)

lemma serializeSizeVLQ_pos [simp]: "serializeSizeVLQ n \<noteq> 0" "0 < serializeSizeVLQ n"
  by (simp_all add: serializeSizeVLQ.simps[of n])

lemma putVLQ_nonempty [simp]: "putVLQ n \<noteq> []"
  using serializeSizeVLQ_pos(2)[of n] by (simp flip: length_putVLQ)


text \<open>Amounts, on natural numbers.\<close>

lemma unat_ten: "unat ((a :: u64) mod 10) = unat a mod 10" "unat (a div 10) = unat a div 10"
  "unat (a mod 9) = unat a mod 9" "unat (a div 9) = unat a div 9"
  by (simp_all add: unat_mod unat_div)

lemma stripTens_spec:
  assumes "stripTens k a e = (a', e')" and "a \<noteq> 0"
  obtains j where "j \<le> k" and "e' = e + of_nat j" and "unat a = unat a' * 10 ^ j" and "a' \<noteq> 0"
    and "j < k \<Longrightarrow> unat a' mod 10 \<noteq> 0"
  using assms
proof (induction k arbitrary: a e thesis)
  case 0
  then show ?case by (intro "0.prems"(1)[of 0]) auto
next
  case (Suc k)
  show ?case
  proof (cases "a mod 10 = 0")
    case True
    then have d: "10 dvd unat a" using unat_ten(1)[of a] by auto
    then have nz: "a div 10 \<noteq> 0" using Suc.prems(3) by (auto simp: word_unat_eq_iff unat_ten)
    from True Suc.prems(2) have "stripTens k (a div 10) (e + 1) = (a', e')" by simp
    from Suc.IH[OF _ this nz] obtain j where j: "j \<le> k" "e' = e + 1 + of_nat j" "unat (a div 10) = unat a' * 10 ^ j" "a' \<noteq> 0"
      "j < k \<Longrightarrow> unat a' mod 10 \<noteq> 0" by blast
    have "unat a = unat a' * 10 ^ Suc j" using d j(3) by (auto simp: unat_ten)
    with j show ?thesis by (intro Suc.prems(1)[of "Suc j"]) auto
  next
    case False
    then have "unat a mod 10 \<noteq> 0" by (auto simp: word_unat_eq_iff unat_ten)
    with False Suc.prems show ?thesis by (intro Suc.prems(1)[of 0]) auto
  qed
qed


lemma funpow_times: "((*) (x :: 'a::comm_monoid_mult) ^^ k) y = x ^ k * y"
  by (induction k) (simp_all add: ac_simps)

lemma unat_nat64: "n < 2 ^ 64 \<Longrightarrow> unat (word_of_nat n :: u64) = n"
  by (simp add: unat_of_nat)

lemma decompress_unat:
  assumes "unat c = Suc m"
  shows "decompressTxOutAmount c =
    (if m mod 10 < 9 then 10 ^ (m mod 10) * word_of_nat (m div 10 div 9 * 10 + (m div 10 mod 9 + 1))
     else 10 ^ 9 * word_of_nat (m div 10 + 1))"
proof -
  define a where "a = c - 1"
  have c: "c \<noteq> 0" using assms by auto
  then have a: "unat a = m" using assms unat_minus_one[of c] by (simp add: a_def)
  have less: "a mod 10 < 9 \<longleftrightarrow> m mod 10 < 9" by (simp add: word_less_nat_alt unat_ten a)
  have 9: "m mod 10 = 9" if "\<not> m mod 10 < 9" using that by presburger
  have w: "a div 10 = word_of_nat (m div 10)" "a div 10 div 9 = word_of_nat (m div 10 div 9)"
    "a div 10 mod 9 = word_of_nat (m div 10 mod 9)"
    by (simp_all add: unat_ten[symmetric] a[symmetric])
  show ?thesis
    unfolding decompressTxOutAmount_def Let_def a_def[symmetric] less w(2,3) funpow_times unat_ten a
    using c 9 w(1) by (cases "m mod 10 < 9") (simp_all add: algebra_simps)
qed

lemma amount_roundtrip:
  assumes "9 * unat amount + 10 < 2 ^ 64"
  shows "decompressTxOutAmount (compressTxOutAmount amount) = amount"
proof (cases "amount = 0")
  case False
  obtain a' e' where st: "stripTens 9 amount 0 = (a', e')" by fastforce
  from stripTens_spec[OF st False] obtain j where j: "j \<le> 9" "e' = of_nat j" "unat amount = unat a' * 10 ^ j" "a' \<noteq> 0"
    "j < 9 \<Longrightarrow> unat a' mod 10 \<noteq> 0" by (metis add_0)
  define A n d where "A = unat a'" and "n = A div 10" and "d = A mod 10"
  have A: "A = 10 * n + d" "d < 10" by (simp_all add: n_def d_def)
  have w: "a' = word_of_nat A" "a' div 10 = word_of_nat n" "a' mod 10 = word_of_nat d"
    by (simp_all add: n_def d_def A_def unat_ten[symmetric])
  have le: "A \<le> unat amount" using j(3) by (simp add: A_def)
  have e: "(word_of_nat j :: u64) < 9 \<longleftrightarrow> j < 9" using j(1) by (simp add: word_less_nat_alt unat_of_nat)
  have am: "amount = 10 ^ j * word_of_nat A"
  proof -
    have "amount = word_of_nat (unat a' * 10 ^ j)" by (simp flip: j(3))
    then show ?thesis by (simp add: A_def ac_simps)
  qed
  show ?thesis
  proof (cases "j < 9")
    case True
    let ?m = "10 * (9 * n + d - 1) + j"
    have d: "0 < d" using j(5)[OF True] by (simp add: d_def A_def)
    have "compressTxOutAmount amount = word_of_nat (Suc ?m)"
      using False True d by (simp add: compressTxOutAmount_def st e w(2,3) j(2) of_nat_diff)
    moreover have "Suc ?m < 2 ^ 64" using assms le A(1,2) d True by simp
    ultimately have u: "unat (compressTxOutAmount amount) = Suc ?m" by (metis unat_nat64)
    have "?m mod 10 = j" "?m div 10 = 9 * n + (d - 1)" using True d by auto
    moreover have "(9 * n + (d - 1)) div 9 * 10 + ((9 * n + (d - 1)) mod 9 + 1) = A"
    proof -
      obtain k where "d = Suc k" "k < 9" using A(2) d by (cases d) auto
      then show ?thesis using A(1) by simp
    qed
    ultimately have "decompressTxOutAmount (compressTxOutAmount amount) = 10 ^ j * word_of_nat A"
      unfolding decompress_unat[OF u] using True by presburger
    then show ?thesis by (simp flip: am)
  next
    case False
    then have j9: "j = 9" using j(1) by simp
    have A0: "0 < A" using j(4) by (simp add: A_def unat_gt_0)
    have "compressTxOutAmount amount = word_of_nat (Suc (10 * A - 1))"
      using \<open>amount \<noteq> 0\<close> False A0 by (simp add: compressTxOutAmount_def st e w(1) j(2) of_nat_diff algebra_simps)
    moreover have "Suc (10 * A - 1) < 2 ^ 64" using assms le j(3) j9 by (simp add: A_def)
    ultimately have u: "unat (compressTxOutAmount amount) = Suc (10 * A - 1)" by (metis unat_nat64)
    have "(10 * A - 1) mod 10 = 9 \<and> (10 * A - 1) div 10 + 1 = A"
    proof -
      obtain B where "A = Suc B" using A0 gr0_implies_Suc by blast
      then have "10 * A - 1 = 10 * B + 9" by simp
      then show ?thesis using \<open>A = Suc B\<close> by simp
    qed
    then have "decompressTxOutAmount (compressTxOutAmount amount) = 10 ^ j * word_of_nat A"
      unfolding decompress_unat[OF u] j9 by simp
    then show ?thesis by (simp flip: am)
  qed
qed (simp add: compressTxOutAmount_def decompressTxOutAmount_def)


text \<open>Scripts of the special forms, taken apart.\<close>

lemma list_split3: "a + k \<le> length s \<Longrightarrow> s = take a s @ take k (drop a s) @ drop (a + k) s"
  by (metis append_take_drop_id drop_drop add.commute)

lemma take_few:
  "1 \<le> length s \<Longrightarrow> take 1 s = [s ! 0]" "2 \<le> length s \<Longrightarrow> take 2 s = [s ! 0, s ! 1]"
  "3 \<le> length s \<Longrightarrow> take 3 s = [s ! 0, s ! 1, s ! 2]"
  by (rule nth_equalityI; auto simp: less_Suc_eq numeral_eq_Suc)+

lemma drop_few:
  "length s = n + 1 \<Longrightarrow> drop n s = [s ! n]" "length s = n + 2 \<Longrightarrow> drop n s = [s ! n, s ! (n + 1)]"
  by (rule nth_equalityI; auto simp: less_Suc_eq numeral_eq_Suc)+

lemma cs_isPubKeyHash_Some:
  "cs_isPubKeyHash s = Some h \<Longrightarrow>
     s = [OP_DUP, OP_HASH160, OP_DATA_20] @ h @ [OP_EQUALVERIFY, OP_CHECKSIG] \<and> length h = 20"
  using list_split3[of 3 20 s] take_few(3)[of s] drop_few(2)[of s 23]
  by (auto simp: cs_isPubKeyHash_def split: if_splits)

lemma cs_isScriptHash_Some:
  "cs_isScriptHash s = Some h \<Longrightarrow> s = [OP_HASH160, OP_DATA_20] @ h @ [OP_EQUAL] \<and> length h = 20"
  using list_split3[of 2 20 s] take_few(2)[of s] drop_few(1)[of s 22]
  by (auto simp: cs_isScriptHash_def split: if_splits)

text \<open>The law of key parsing that decompression relies on: a valid uncompressed key is found again from its first coordinate and the
  parity of the second.\<close>

definition parse_law :: "(bytes \<Rightarrow> PublicKey option) \<Rightarrow> bool" where
  "parse_law parse \<longleftrightarrow>
     (\<forall>x y. length x = 32 \<longrightarrow> length y = 32 \<longrightarrow> parse (0x04 # x @ y) \<noteq> None \<longrightarrow>
        (\<exists>key. parse ((0x02 OR (y ! 31 AND 0x01)) # x) = Some key
               \<and> PubKey_SerializeUncompressed key = 0x04 # x @ y))"

lemma cs_isPubKey_Some:
  assumes "cs_isPubKey parse s = Some key"
  obtains (compressed) f x where "s = [OP_DATA_33, f] @ x @ [OP_CHECKSIG]" "key = f # x" "f = 0x02 \<or> f = 0x03" "length x = 32"
  | (uncompressed) x y where "s = [OP_DATA_65, 0x04] @ x @ y @ [OP_CHECKSIG]" "key = 0x04 # x @ y"
      "length x = 32" "length y = 32" "parse (0x04 # x @ y) \<noteq> None"
proof (cases "length s = 35")
  case True
  with assms show thesis
    using list_split3[of 2 32 s] take_few(2)[of s] drop_few(1)[of s 34] list_split3[of 1 33 s] take_few(1)[of s]
    by (intro compressed[of "s ! 1" "take 32 (drop 2 s)"]) (auto simp: cs_isPubKey_def split: if_splits)
next
  case False
  with assms have s: "length s = 67" "s ! 0 = OP_DATA_65" "s ! 66 = OP_CHECKSIG" "s ! 1 = 0x04"
    "parse (take 65 (drop 1 s)) \<noteq> None" "key = take 65 (drop 1 s)"
    by (auto simp: cs_isPubKey_def split: if_splits)
  let ?x = "take 32 (drop 2 s)" and ?y = "take 32 (drop 34 s)"
  have e: "s = [OP_DATA_65, 0x04] @ ?x @ ?y @ [OP_CHECKSIG]"
    using list_split3[of 2 32 s] take_few(2)[of s] list_split3[of 0 32 "drop 34 s"] drop_few(1)[of s 66] s by simp
  have t: "take 65 (drop 1 ([a, b] @ x @ y @ [c])) = b # x @ y" if "length x = 32" "length y = 32" for a b c and x y :: bytes
    using that by (simp add: take_Cons')
  have "length ?x = 32" "length ?y = 32" using s(1) by simp_all
  moreover from t[OF this] have "take 65 (drop 1 s) = 0x04 # ?x @ ?y" by (metis e)
  ultimately show thesis using s e by (intro uncompressed[of ?x ?y]) simp_all
qed


lemma deserialize_special:
  "deserializeVLQ (0 # r) = (0, 1)" "deserializeVLQ (1 # r) = (1, 1)" "deserializeVLQ (2 # r) = (2, 1)"
  "deserializeVLQ (3 # r) = (3, 1)" "deserializeVLQ (4 # r) = (4, 1)" "deserializeVLQ (5 # r) = (5, 1)"
  by (simp_all add: deserializeVLQ_def)

lemma low_bit_cases: "(w :: u8) AND 0x01 = 0 \<or> w AND 0x01 = 1"
  by (cases "bit w 0") (auto simp: and_one_eq odd_iff_mod_2_eq_one even_iff_mod_2_eq_zero bit_0)

text \<open>The forms of a compressed script, with what decompression makes of them.\<close>

lemma putCompressedScript_cases:
  assumes "parse_law parse"
  obtains (special) v d where "putCompressedScript parse s = v # d" "length d + 1 = compressedScriptSize parse s"
      "v < 6" "length d = (if v < 2 then 20 else 32)" "decompressScript parse (v # d) = Inr (Some s)"
  | (plain) "putCompressedScript parse s = putVLQ (of_nat (length s + 6)) @ s"
      "compressedScriptSize parse s = length (putVLQ (of_nat (length s + 6))) + length s"
proof (cases "cs_isPubKeyHash s")
  case (Some h)
  with cs_isPubKeyHash_Some[OF Some] show thesis
    by (intro special[of 0 h])
      (auto simp: putCompressedScript_def compressedScriptSize_def decompressScript_def deserialize_special sliceC_def)
next
  case None
  note n1 = None
  show thesis
  proof (cases "cs_isScriptHash s")
    case (Some h)
    with n1 cs_isScriptHash_Some[OF Some] show thesis
      by (intro special[of 1 h])
        (auto simp: putCompressedScript_def compressedScriptSize_def decompressScript_def deserialize_special sliceC_def)
  next
    case None
    note n2 = None
    show thesis
    proof (cases "cs_isPubKey parse s")
      case (Some key)
      then show thesis
      proof (cases rule: cs_isPubKey_Some)
        case (compressed f x)
        then show thesis
          using n1 n2 Some
          by (intro special[of f x])
            (auto simp: putCompressedScript_def compressedScriptSize_def decompressScript_def deserialize_special sliceC_def)
      next
        case (uncompressed x y)
        let ?v = "0x04 OR (y ! 31 AND 0x01) :: u8"
        have "(0x04 # x @ y) ! 64 = y ! 31" using uncompressed by (simp add: nth_append)
        then have put: "putCompressedScript parse s = ?v # x"
          using n1 n2 Some uncompressed by (simp add: putCompressedScript_def)
        obtain k where k: "parse ((0x02 OR (y ! 31 AND 0x01)) # x) = Some k"
          "PubKey_SerializeUncompressed k = 0x04 # x @ y"
          using assms(1) uncompressed unfolding parse_law_def by blast
        have "decompressScript parse (?v # x) = Inr (Some s)"
          using low_bit_cases[of "y ! 31"] k uncompressed
          by (auto simp: decompressScript_def deserialize_special)
        then show thesis
          using put n1 n2 Some uncompressed low_bit_cases[of "y ! 31"]
          by (intro special[of ?v x]) (auto simp: compressedScriptSize_def)
      qed
    next
      case None
      then show thesis
        using n1 n2 by (intro plain) (simp_all add: putCompressedScript_def compressedScriptSize_def numSpecialScripts_def algebra_simps)
    qed
  qed
qed


lemma serializeSizeVLQ_le: "serializeSizeVLQ n \<le> Suc (unat n)"
proof (induction n rule: serializeSizeVLQ.induct)
  case (1 n)
  then show ?case
    using vlq_shift(2,3)[of n] by (cases "n \<le> 0x7f") (auto simp: serializeSizeVLQ.simps[of n] not_le)
qed

lemma decode_script:
  assumes "parse_law parse" and "length s < 2 ^ 32"
  shows "decodeCompressedScriptSize (putCompressedScript parse s @ rest) = int (compressedScriptSize parse s)"
    and "decompressScript parse (putCompressedScript parse s) = Inr (Some s)"
    and "length (putCompressedScript parse s) = compressedScriptSize parse s"
proof -
  have "decodeCompressedScriptSize (putCompressedScript parse s @ rest) = int (compressedScriptSize parse s)
    \<and> decompressScript parse (putCompressedScript parse s) = Inr (Some s)
    \<and> length (putCompressedScript parse s) = compressedScriptSize parse s"
    using assms(1)
  proof (cases rule: putCompressedScript_cases[of parse s])
    case (special v d)
    have "unat v < 6" using special(3) by (simp add: word_less_nat_alt)
    then have "v = 0 \<or> v = 1 \<or> v = 2 \<or> v = 3 \<or> v = 4 \<or> v = 5"
      by (auto simp: word_unat_eq_iff)
    then have "decodeCompressedScriptSize ((v # d) @ rest) = 1 + (if v < 2 then 20 else 32)"
      by (auto simp: decodeCompressedScriptSize_def deserialize_special)
    with special show ?thesis by (cases "v < 2") simp_all
  next
    case plain
    let ?n = "of_nat (length s + 6) :: u64"
    let ?k = "serializeSizeVLQ ?n"
    have n: "unat ?n = length s + 6" using assms(2) by (intro unat_nat64) simp
    then have ne: "?n \<noteq> 0" "?n \<noteq> 1" "?n \<noteq> 2" "?n \<noteq> 3" "?n \<noteq> 4" "?n \<noteq> 5" by (auto simp del: of_nat_add)
    have k: "?k \<le> length s + 7" using serializeSizeVLQ_le[of ?n] n by simp
    have pos: "0 < ?k" by (subst serializeSizeVLQ.simps) simp
    have "?n - numSpecialScripts = of_nat (length s)" by (simp add: numSpecialScripts_def)
    moreover have si: "sint (of_nat m :: u64) = int m" if "m < 2 ^ 63" for m
      using that by (simp add: sint_uint uint_nat unat_nat64 signed_take_bit_int_eq_self)
    ultimately have e: "sint (?n - numSpecialScripts + of_nat ?k) = int (length s + ?k)" "sint (?n - numSpecialScripts) = int (length s)"
      using assms(2) k by (simp_all flip: of_nat_add)
    have "decodeCompressedScriptSize (putVLQ ?n @ s @ rest) = int (length s + ?k)"
      using ne pos by (simp add: decodeCompressedScriptSize_def vlq_roundtrip e(1) del: of_nat_add)
    moreover have "decompressScript parse (putVLQ ?n @ s) = Inr (Some s)"
      using ne pos by (simp add: decompressScript_def vlq_roundtrip e(2) sliceC_def del: of_nat_add)
    ultimately show ?thesis using plain by (simp del: of_nat_add)
  qed
  then show "decodeCompressedScriptSize (putCompressedScript parse s @ rest) = int (compressedScriptSize parse s)"
    and "decompressScript parse (putCompressedScript parse s) = Inr (Some s)"
    and "length (putCompressedScript parse s) = compressedScriptSize parse s"
    by simp_all
qed

lemma compressed_txout:
  assumes "parse_law parse" and "length s < 2 ^ 32" and "9 * unat amount + 10 < 2 ^ 64"
  shows "decodeCompressedTxOut parse (putCompressedTxOut parse amount s @ rest) = Inr (amount, Some s, compressedTxOutSize parse amount s)"
    and "length (putCompressedTxOut parse amount s) = compressedTxOutSize parse amount s"
proof -
  show len: "length (putCompressedTxOut parse amount s) = compressedTxOutSize parse amount s"
    using decode_script(3)[OF assms(1,2)] by (simp add: putCompressedTxOut_def compressedTxOutSize_def)
  have "0 < compressedScriptSize parse s"
    by (simp add: compressedScriptSize_def serializeSizeVLQ.simps[of "of_nat _ + _"])
  then show "decodeCompressedTxOut parse (putCompressedTxOut parse amount s @ rest) = Inr (amount, Some s, compressedTxOutSize parse amount s)"
    using decode_script(1)[OF assms(1,2), of rest] decode_script(2,3)[OF assms(1,2)] amount_roundtrip[OF assms(3)]
    by (simp add: decodeCompressedTxOut_def putCompressedTxOut_def vlq_roundtrip compressedTxOutSize_def)
qed


text \<open>C27: the compressed form of an output. Under the law of key parsing, for every script of less than \<open>2^32\<close> bytes and
  every amount up to a ninth of the range of \<open>uint64\<close>, decoding what \<open>putCompressedTxOut\<close> wrote gives the
  amount and the script back, whatever follows it, and \<open>compressedTxOutSize\<close> is the exact size.\<close>

theorem compressed_txout_roundtrip:
  assumes "parse_law parse" and "length pkScript < 2 ^ 32" and "9 * unat amount + 10 < 2 ^ 64"
  shows "decodeCompressedTxOut parse (putCompressedTxOut parse amount pkScript @ rest)
           = Inr (amount, Some pkScript, compressedTxOutSize parse amount pkScript)
    \<and> length (putCompressedTxOut parse amount pkScript) = compressedTxOutSize parse amount pkScript"
  using compressed_txout[OF assms] by simp

text \<open>An instance of the law: the keys whose second coordinate is zero.\<close>

definition toyParse :: "bytes \<Rightarrow> PublicKey option" where
  "toyParse b =
     (if length b = 65 \<and> b ! 0 = 0x04 \<and> drop 33 b = replicate 32 0
      then Some \<lparr>pk_X = be_int (take 32 (drop 1 b)), pk_Y = 0\<rparr>
      else if length b = 33 \<and> b ! 0 = 0x02 then Some \<lparr>pk_X = be_int (drop 1 b), pk_Y = 0\<rparr> else None)"

lemma pad_bigBytes:
  assumes "length x = 32"
  shows "replicate (32 - length (bigBytes (be_int x))) 0 @ bigBytes (be_int x) = x"
proof -
  have "length (bigBytes (be_int x)) \<le> 32"
    using be_int_less[of x] assms length_bigBytes[of "be_int x" 32] by simp
  then show ?thesis using assms by (intro be_int_inject) simp_all
qed

lemma toyParse_law: "parse_law toyParse"
proof -
  have "toyParse ((0x02 OR (y ! 31 AND 0x01)) # x) = Some \<lparr>pk_X = be_int x, pk_Y = 0\<rparr>
     \<and> PubKey_SerializeUncompressed \<lparr>pk_X = be_int x, pk_Y = 0\<rparr> = 0x04 # x @ y"
    if "length x = 32" "length y = 32" "toyParse (0x04 # x @ y) \<noteq> None" for x y
  proof -
    have y: "y = replicate 32 0" using that by (auto simp: toyParse_def split: if_splits)
    then have "y ! 31 = 0" by simp
    then show ?thesis using that(1) pad_bigBytes[OF that(1)] y
      by (simp add: toyParse_def PubKey_SerializeUncompressed_def Let_def)
  qed
  then show ?thesis unfolding parse_law_def by blast
qed

theorem compressed_txout_roundtrip_witness:
  "decodeCompressedTxOut toyParse (putCompressedTxOut toyParse 50000000 ([OP_DATA_65, 0x04] @ replicate 32 7 @ replicate 32 0 @ [OP_CHECKSIG]) @ [9])
     = Inr (50000000, Some ([OP_DATA_65, 0x04] @ replicate 32 7 @ replicate 32 0 @ [OP_CHECKSIG]),
         compressedTxOutSize toyParse 50000000 ([OP_DATA_65, 0x04] @ replicate 32 7 @ replicate 32 0 @ [OP_CHECKSIG]))"
  using compressed_txout_roundtrip[OF toyParse_law, of "[OP_DATA_65, 0x04] @ replicate 32 7 @ replicate 32 0 @ [OP_CHECKSIG]" 50000000 "[9]"]
  by simp

end
