(* ===== verification/ChainStore.thy ===== *)
theory ChainStore
  imports ChainCompress "HOL-Library.AList" "HOL-Library.List_Lexorder"
begin

text \<open>
  How the chain state is stored (\<open>pkg/chain/chainio.go\<close>): entries of the set of unspent outputs, the
  journal of the outputs each block spends, and the best chain state. A bucket of the database is an
  association list from keys to values; \<open>Put\<close>, \<open>Get\<close> and \<open>Delete\<close> are its operations and never fail, and
  \<open>Cursor.Seek\<close> finds the least key that is not below the given one.
\<close>

section \<open>Buckets\<close>

type_synonym bucket = "(bytes \<times> bytes) list"

record DB =
  utxoSetBucket :: bucket
  spendJournalBucket :: bucket
  hashIndexBucket :: bucket
  heightIndexBucket :: bucket
  chainState :: "bytes option"
  utxoSetVersion :: "bytes option"
  spendJournalVersion :: "bytes option"

definition cursorSeek :: "bytes \<Rightarrow> bucket \<Rightarrow> (bytes \<times> bytes) option" where
  "cursorSeek key b =
     foldr (\<lambda>kv best. if fst kv < key then best
                      else case best of None \<Rightarrow> Some kv
                           | Some kv' \<Rightarrow> if fst kv' < fst kv then Some kv' else Some kv) b None"

section \<open>Entries of the set of unspent outputs\<close>

record UtxoEntry =
  ue_amount :: i64
  ue_pkScript :: bytes
  ue_blockHeight :: int
  ue_packedFlags :: u8

definition tfCoinBase :: u8 where "tfCoinBase = 1"
definition tfSpent :: u8 where "tfSpent = 2"
definition tfModified :: u8 where "tfModified = 4"

definition ue_isModified :: "UtxoEntry \<Rightarrow> bool" where
  "ue_isModified entry = (ue_packedFlags entry AND tfModified = tfModified)"

definition ue_IsCoinBase :: "UtxoEntry \<Rightarrow> bool" where
  "ue_IsCoinBase entry = (ue_packedFlags entry AND tfCoinBase = tfCoinBase)"

definition ue_IsSpent :: "UtxoEntry \<Rightarrow> bool" where
  "ue_IsSpent entry = (ue_packedFlags entry AND tfSpent = tfSpent)"

definition ue_Spend :: "UtxoEntry \<Rightarrow> UtxoEntry" where
  "ue_Spend entry =
     (if ue_IsSpent entry then entry
      else entry\<lparr>ue_packedFlags := ue_packedFlags entry OR (tfSpent OR tfModified)\<rparr>)"

definition ue_Clone :: "UtxoEntry option \<Rightarrow> UtxoEntry option" where
  "ue_Clone entry = map_option (\<lambda>e. \<lparr>ue_amount = ue_amount e, ue_pkScript = ue_pkScript e,
     ue_blockHeight = ue_blockHeight e, ue_packedFlags = ue_packedFlags e\<rparr>) entry"

text \<open>The flags as bits.\<close>

lemma flag_bits:
  "ue_IsCoinBase e \<longleftrightarrow> bit (ue_packedFlags e) 0" "ue_IsSpent e \<longleftrightarrow> bit (ue_packedFlags e) 1"
  "ue_isModified e \<longleftrightarrow> bit (ue_packedFlags e) 2"
proof -
  have b: "w AND 2 ^ k = 2 ^ k \<longleftrightarrow> bit w k" if "k < 8" for w :: u8 and k
  proof
    assume "w AND 2 ^ k = 2 ^ k"
    then have "bit (w AND 2 ^ k) k = bit (2 ^ k :: u8) k" by simp
    with that show "bit w k" by (simp add: bit_simps)
  next
    assume "bit w k"
    with that show "w AND 2 ^ k = 2 ^ k" by (intro bit_word_eqI) (auto simp: bit_simps)
  qed
  show "ue_IsCoinBase e \<longleftrightarrow> bit (ue_packedFlags e) 0" "ue_IsSpent e \<longleftrightarrow> bit (ue_packedFlags e) 1"
    "ue_isModified e \<longleftrightarrow> bit (ue_packedFlags e) 2"
    using b[of 0] b[of 1] b[of 2]
    by (simp_all add: ue_IsCoinBase_def ue_IsSpent_def ue_isModified_def tfCoinBase_def tfSpent_def tfModified_def)
qed

lemma bit_flags [simp]:
  "bit tfCoinBase k \<longleftrightarrow> k = 0" "bit tfSpent k \<longleftrightarrow> k = 1" "bit tfModified k \<longleftrightarrow> k = 2"
  using bit_exp_iff[where 'a = u8, of 0 k] bit_exp_iff[where 'a = u8, of 1 k] bit_exp_iff[where 'a = u8, of 2 k]
  by (auto simp: tfCoinBase_def tfSpent_def tfModified_def possible_bit_word)

lemma Spend_simps [simp]:
  "ue_IsSpent (ue_Spend e)" "ue_amount (ue_Spend e) = ue_amount e" "ue_pkScript (ue_Spend e) = ue_pkScript e"
  "ue_blockHeight (ue_Spend e) = ue_blockHeight e" "ue_IsCoinBase (ue_Spend e) = ue_IsCoinBase e"
  by (auto simp: ue_Spend_def flag_bits bit_simps)

text \<open>A key of the bucket: the hash and the index as a variable length quantity.\<close>

definition outpointKey :: "OutPoint \<Rightarrow> bytes" where
  "outpointKey outpoint = op_Hash outpoint @ putVLQ (ucast (op_Index outpoint))"

definition utxoEntryHeaderCode :: "UtxoEntry \<Rightarrow> u64 cres" where
  "utxoEntryHeaderCode entry =
     (if ue_IsSpent entry then Inl AssertError
      else Inr (push_bit 1 (word_of_int (ue_blockHeight entry)) OR (if ue_IsCoinBase entry then 1 else 0)))"

text \<open>\<open>None\<close> is \<open>nil\<close>, for a spent entry.\<close>

definition serializeUtxoEntry :: "(bytes \<Rightarrow> PublicKey option) \<Rightarrow> UtxoEntry \<Rightarrow> bytes option cres" where
  "serializeUtxoEntry parse entry =
     (if ue_IsSpent entry then Inr None
      else bindE (utxoEntryHeaderCode entry) (\<lambda>headerCode.
           Inr (Some (putVLQ headerCode @ putCompressedTxOut parse (ue_amount entry) (ue_pkScript entry)))))"

definition orEmpty :: "bytes option \<Rightarrow> bytes" where
  "orEmpty b = (case b of None \<Rightarrow> [] | Some x \<Rightarrow> x)"

definition deserializeUtxoEntry :: "(bytes \<Rightarrow> PublicKey option) \<Rightarrow> bytes \<Rightarrow> UtxoEntry cres" where
  "deserializeUtxoEntry parse serialized =
     (let (code, offset) = deserializeVLQ serialized in
      if offset \<ge> length serialized then Inl DeserializeError
      else case decodeCompressedTxOut parse (drop offset serialized) of
             Inl GoPanic \<Rightarrow> Inl GoPanic
           | Inl e \<Rightarrow> Inl DeserializeError
           | Inr (amount, pkScript, _) \<Rightarrow>
               Inr \<lparr>ue_amount = amount, ue_pkScript = orEmpty pkScript,
                    ue_blockHeight = s32 (uint (drop_bit 1 code)),
                    ue_packedFlags = (if code AND 1 \<noteq> 0 then tfCoinBase else 0)\<rparr>)"

definition dbFetchUtxoEntryByHash :: "(bytes \<Rightarrow> PublicKey option) \<Rightarrow> DB \<Rightarrow> bytes \<Rightarrow> UtxoEntry option cres" where
  "dbFetchUtxoEntryByHash parse db hash =
     (case cursorSeek (outpointKey \<lparr>op_Hash = hash, op_Index = 0\<rparr>) (utxoSetBucket db) of
        None \<Rightarrow> Inr None
      | Some (cursorKey, val) \<Rightarrow>
          if length cursorKey < HashSize then Inr None
          else if hash \<noteq> take HashSize cursorKey then Inr None
          else map_sum id Some (deserializeUtxoEntry parse val))"

definition asCorruption :: "'a cres \<Rightarrow> 'a cres" where
  "asCorruption r = (case r of Inl DeserializeError \<Rightarrow> Inl CorruptionError | _ \<Rightarrow> r)"

definition dbFetchUtxoEntry :: "(bytes \<Rightarrow> PublicKey option) \<Rightarrow> DB \<Rightarrow> OutPoint \<Rightarrow> UtxoEntry option cres" where
  "dbFetchUtxoEntry parse db outpoint =
     (case map_of (utxoSetBucket db) (outpointKey outpoint) of
        None \<Rightarrow> Inr None
      | Some serializedUtxo \<Rightarrow>
          if length serializedUtxo = 0 then Inl AssertError
          else asCorruption (map_sum id Some (deserializeUtxoEntry parse serializedUtxo)))"

section \<open>The spend journal\<close>

record SpentTxOut =
  st_Amount :: i64
  st_PkScript :: bytes
  st_Height :: int
  st_IsCoinBase :: bool

definition spentTxOutHeaderCode :: "SpentTxOut \<Rightarrow> u64" where
  "spentTxOutHeaderCode stxo =
     push_bit 1 (word_of_int (st_Height stxo)) OR (if st_IsCoinBase stxo then 1 else 0)"

definition spentTxOutSerializeSize :: "(bytes \<Rightarrow> PublicKey option) \<Rightarrow> SpentTxOut \<Rightarrow> nat" where
  "spentTxOutSerializeSize parse stxo =
     serializeSizeVLQ (spentTxOutHeaderCode stxo) + (if st_Height stxo > 0 then serializeSizeVLQ 0 else 0)
     + compressedTxOutSize parse (st_Amount stxo) (st_PkScript stxo)"

definition putSpentTxOut :: "(bytes \<Rightarrow> PublicKey option) \<Rightarrow> SpentTxOut \<Rightarrow> bytes" where
  "putSpentTxOut parse stxo =
     putVLQ (spentTxOutHeaderCode stxo) @ (if st_Height stxo > 0 then putVLQ 0 else [])
     @ putCompressedTxOut parse (st_Amount stxo) (st_PkScript stxo)"

text \<open>The decoded output with the number of bytes it took; every error of the source becomes an
  \<open>errDeserialize\<close> of the caller.\<close>

definition decodeSpentTxOut :: "(bytes \<Rightarrow> PublicKey option) \<Rightarrow> bytes \<Rightarrow> (SpentTxOut \<times> nat) cres" where
  "decodeSpentTxOut parse serialized =
     (if length serialized = 0 then Inl DeserializeError
      else let (code, offset) = deserializeVLQ serialized in
        if offset \<ge> length serialized then Inl DeserializeError
        else let isCoinBase = (code AND 1 \<noteq> 0); height = s32 (uint (drop_bit 1 code));
                 offset' = offset + (if height > 0 then snd (deserializeVLQ (drop offset serialized)) else 0) in
          if height > 0 \<and> offset' \<ge> length serialized then Inl DeserializeError
          else case decodeCompressedTxOut parse (drop offset' serialized) of
                 Inl GoPanic \<Rightarrow> Inl GoPanic
               | Inl e \<Rightarrow> Inl DeserializeError
               | Inr (amount, pkScript, bytesRead) \<Rightarrow>
                   Inr (\<lparr>st_Amount = amount, st_PkScript = orEmpty pkScript, st_Height = height,
                         st_IsCoinBase = isCoinBase\<rparr>, offset' + bytesRead))"

text \<open>The two nested loops fill the slice of outputs from its end, one per input.\<close>

fun readSpent :: "(bytes \<Rightarrow> PublicKey option) \<Rightarrow> nat \<Rightarrow> bytes \<Rightarrow> SpentTxOut list \<Rightarrow> SpentTxOut list cres" where
  "readSpent parse 0 serialized acc = Inr acc"
| "readSpent parse (Suc n) serialized acc =
     bindE (decodeSpentTxOut parse serialized) (\<lambda>(stxo, k). readSpent parse n (drop k serialized) (stxo # acc))"

definition deserializeSpendJournalEntry ::
  "(bytes \<Rightarrow> PublicKey option) \<Rightarrow> bytes \<Rightarrow> MsgTx list \<Rightarrow> SpentTxOut list cres" where
  "deserializeSpendJournalEntry parse serialized txns =
     (let numStxos = sum_list (map (\<lambda>tx. length (tx_TxIn tx)) txns) in
      if length serialized = 0
      then if numStxos \<noteq> 0 then Inl AssertError else Inr []
      else readSpent parse numStxos serialized [])"

definition serializeSpendJournalEntry :: "(bytes \<Rightarrow> PublicKey option) \<Rightarrow> SpentTxOut list \<Rightarrow> bytes" where
  "serializeSpendJournalEntry parse stxos = concat (map (putSpentTxOut parse) (rev stxos))"

definition dbFetchSpendJournalEntry ::
  "(bytes \<Rightarrow> bytes) \<Rightarrow> (bytes \<Rightarrow> PublicKey option) \<Rightarrow> DB \<Rightarrow> Block \<Rightarrow> SpentTxOut list cres" where
  "dbFetchSpendJournalEntry sha parse db blk =
     (if length (Transactions blk) = 0 then Inl GoPanic
      else asCorruption (deserializeSpendJournalEntry parse
             (orEmpty (map_of (spendJournalBucket db) (BlockHash sha (Header blk)))) (drop 1 (Transactions blk))))"

definition dbPutSpendJournalEntry ::
  "(bytes \<Rightarrow> PublicKey option) \<Rightarrow> bytes \<Rightarrow> SpentTxOut list \<Rightarrow> DB \<Rightarrow> DB" where
  "dbPutSpendJournalEntry parse blockHash stxos db =
     db\<lparr>spendJournalBucket := AList.update blockHash (serializeSpendJournalEntry parse stxos) (spendJournalBucket db)\<rparr>"

definition dbRemoveSpendJournalEntry :: "bytes \<Rightarrow> DB \<Rightarrow> DB" where
  "dbRemoveSpendJournalEntry blockHash db =
     db\<lparr>spendJournalBucket := AList.delete blockHash (spendJournalBucket db)\<rparr>"

section \<open>Round trips\<close>

text \<open>What can be stored: a height that is not negative, an amount and a script within the bounds of the
  compressed form.\<close>

definition storable :: "i64 \<Rightarrow> bytes \<Rightarrow> int \<Rightarrow> bool" where
  "storable a s h \<longleftrightarrow> 9 * unat a + 10 < 2 ^ 64 \<and> length s < 2 ^ 32 \<and> 0 \<le> h \<and> h < 2 ^ 31"

lemma header_code:
  fixes c :: bool
  assumes "0 \<le> h" "h < 2 ^ 31"
  defines "code \<equiv> push_bit 1 (word_of_int h) OR (if c then 1 else 0) :: u64"
  shows "s32 (uint (drop_bit 1 code)) = h" and "code AND 1 \<noteq> 0 \<longleftrightarrow> c"
proof -
  have code: "code = word_of_int (2 * h + of_bool c)"
    by (cases c) (simp_all add: code_def or_one_eq mult.commute)
  have u: "uint code = 2 * h + of_bool c"
  proof -
    have "0 \<le> 2 * h + of_bool c" "2 * h + of_bool c < 2 ^ 64" using assms(1,2) by (cases c; simp)+
    then show ?thesis unfolding code by (simp only: uint_word_of_int) simp
  qed
  have "uint (drop_bit 1 code) = h"
    by (simp add: drop_bit_eq_div uint_div u)
  then show "s32 (uint (drop_bit 1 code)) = h" using assms(1,2) by simp
  have "code AND 1 \<noteq> 0 \<longleftrightarrow> bit code 0" by (auto simp: and_one_eq bit_0 mod2_eq_if)
  then show "code AND 1 \<noteq> 0 \<longleftrightarrow> c" by (cases c) (simp_all add: code_def bit_simps bit_0)
qed

lemma utxo_entry_roundtrip:
  assumes "parse_law parse" and "storable (ue_amount e) (ue_pkScript e) (ue_blockHeight e)" and "\<not> ue_IsSpent e"
  shows "\<exists>b. serializeUtxoEntry parse e = Inr (Some b) \<and> b \<noteq> []
    \<and> deserializeUtxoEntry parse b = Inr (e\<lparr>ue_packedFlags := if ue_IsCoinBase e then tfCoinBase else 0\<rparr>)"
proof -
  let ?c = "push_bit 1 (word_of_int (ue_blockHeight e)) OR (if ue_IsCoinBase e then 1 else 0) :: u64"
  let ?b = "putVLQ ?c @ putCompressedTxOut parse (ue_amount e) (ue_pkScript e)"
  have b: "0 \<le> ue_blockHeight e" "ue_blockHeight e < 2 ^ 31" "length (ue_pkScript e) < 2 ^ 32" "9 * unat (ue_amount e) + 10 < 2 ^ 64"
    using assms(2) by (simp_all add: storable_def)
  have "0 < compressedTxOutSize parse (ue_amount e) (ue_pkScript e)"
    by (simp add: compressedTxOutSize_def compressedScriptSize_def serializeSizeVLQ.simps[of "of_nat _ + _"])
  then have "deserializeUtxoEntry parse ?b = Inr (e\<lparr>ue_packedFlags := if ue_IsCoinBase e then tfCoinBase else 0\<rparr>)"
    using compressed_txout(1)[OF assms(1) b(3,4), of "[]"] compressed_txout(2)[OF assms(1) b(3,4)] header_code[OF b(1,2), of "ue_IsCoinBase e"]
    by (auto simp: deserializeUtxoEntry_def vlq_roundtrip orEmpty_def)
  moreover have "serializeUtxoEntry parse e = Inr (Some ?b)"
    using assms(3) by (simp add: serializeUtxoEntry_def utxoEntryHeaderCode_def)
  moreover have "?b \<noteq> []" by simp
  ultimately show ?thesis by blast
qed


definition storable_stxo :: "SpentTxOut \<Rightarrow> bool" where
  "storable_stxo stxo \<longleftrightarrow> storable (st_Amount stxo) (st_PkScript stxo) (st_Height stxo)"

lemma spent_roundtrip:
  assumes "parse_law parse" and "storable_stxo stxo"
  shows "decodeSpentTxOut parse (putSpentTxOut parse stxo @ rest) = Inr (stxo, length (putSpentTxOut parse stxo))"
    and "length (putSpentTxOut parse stxo) = spentTxOutSerializeSize parse stxo"
proof -
  have b: "0 \<le> st_Height stxo" "st_Height stxo < 2 ^ 31" "length (st_PkScript stxo) < 2 ^ 32" "9 * unat (st_Amount stxo) + 10 < 2 ^ 64"
    using assms(2) by (simp_all add: storable_stxo_def storable_def)
  note out = compressed_txout(1)[OF assms(1) b(3,4), of rest] compressed_txout(2)[OF assms(1) b(3,4)]
  note code = header_code[OF b(1,2), of "st_IsCoinBase stxo", folded spentTxOutHeaderCode_def]
  have ne: "compressedTxOutSize parse (st_Amount stxo) (st_PkScript stxo) \<noteq> 0"
    by (simp add: compressedTxOutSize_def)
  show "decodeSpentTxOut parse (putSpentTxOut parse stxo @ rest) = Inr (stxo, length (putSpentTxOut parse stxo))"
  proof (cases "0 < st_Height stxo")
    case True
    with out code ne show ?thesis
      by (simp add: decodeSpentTxOut_def putSpentTxOut_def vlq_roundtrip orEmpty_def Let_def)
  next
    case False
    with out code ne show ?thesis
      by (simp add: decodeSpentTxOut_def putSpentTxOut_def vlq_roundtrip orEmpty_def Let_def)
  qed
  show "length (putSpentTxOut parse stxo) = spentTxOutSerializeSize parse stxo"
    using out by (simp add: putSpentTxOut_def spentTxOutSerializeSize_def)
qed

lemma readSpent_roundtrip:
  assumes "parse_law parse" and "list_all storable_stxo stxos"
  shows "readSpent parse (length stxos) (serializeSpendJournalEntry parse stxos @ rest) acc = Inr (stxos @ acc)"
  using assms(2)
proof (induction stxos arbitrary: acc rule: rev_induct)
  case (snoc x xs)
  then show ?case
    using spent_roundtrip(1)[OF assms(1), of x "serializeSpendJournalEntry parse xs @ rest"]
    by (simp add: serializeSpendJournalEntry_def)
qed (simp add: serializeSpendJournalEntry_def)

text \<open>C26: the spend journal. What \<open>dbPutSpendJournalEntry\<close> stores for a block is read back by \<open>dbFetchSpendJournalEntry\<close>, if the
  number of spent outputs is the number of inputs of the block without its coinbase and each can be stored
  (a height of at least zero, bounds on amount and script).\<close>

theorem spend_journal_roundtrip:
  assumes "parse_law parse" and "list_all storable_stxo stxos" and "Transactions blk = coinbase # txs"
    and "length stxos = sum_list (map (\<lambda>tx. length (tx_TxIn tx)) txs)"
  shows "dbFetchSpendJournalEntry sha parse (dbPutSpendJournalEntry parse (BlockHash sha (Header blk)) stxos db) blk
    = Inr stxos"
proof (cases "stxos = []")
  case True
  with assms(3,4) show ?thesis
    by (auto simp: dbFetchSpendJournalEntry_def dbPutSpendJournalEntry_def deserializeSpendJournalEntry_def
        serializeSpendJournalEntry_def update_conv orEmpty_def asCorruption_def)
next
  case False
  then have "serializeSpendJournalEntry parse stxos \<noteq> []"
    by (cases stxos rule: rev_cases) (simp_all add: serializeSpendJournalEntry_def putSpentTxOut_def)
  with assms(3,4) readSpent_roundtrip[OF assms(1,2), of "[]" "[]"] show ?thesis
    by (simp add: dbFetchSpendJournalEntry_def dbPutSpendJournalEntry_def deserializeSpendJournalEntry_def
        update_conv orEmpty_def asCorruption_def)
qed

definition sampleSpend :: Block where
  "sampleSpend = \<lparr>msgBlock = \<lparr>bl_Header = sampleHeader, bl_Transactions = [NewMsgTx 1, sampleTx None None]\<rparr>, blockHeightOf = 5\<rparr>"

theorem spend_journal_roundtrip_witness:
  "dbFetchSpendJournalEntry (\<lambda>b. take 32 b) toyParse
     (dbPutSpendJournalEntry toyParse (BlockHash (\<lambda>b. take 32 b) (Header sampleSpend))
        (replicate (length (tx_TxIn (sampleTx None None))) \<lparr>st_Amount = 700, st_PkScript = [OP_1], st_Height = 3, st_IsCoinBase = True\<rparr>)
        \<lparr>utxoSetBucket = [], spendJournalBucket = [], hashIndexBucket = [], heightIndexBucket = [], chainState = None,
         utxoSetVersion = None, spendJournalVersion = None\<rparr>) sampleSpend
   = Inr (replicate (length (tx_TxIn (sampleTx None None))) \<lparr>st_Amount = 700, st_PkScript = [OP_1], st_Height = 3, st_IsCoinBase = True\<rparr>)"
  by (rule spend_journal_roundtrip[OF toyParse_law])
    (auto simp: sampleSpend_def storable_stxo_def storable_def list_all_iff)

section \<open>The block index and the best chain state\<close>

definition dbPutBlockIndex :: "bytes \<Rightarrow> int \<Rightarrow> DB \<Rightarrow> DB" where
  "dbPutBlockIndex hash height db =
     (let serializedHeight = PutUint32 LittleEndian (word_of_int height) in
      db\<lparr>hashIndexBucket := AList.update hash serializedHeight (hashIndexBucket db),
         heightIndexBucket := AList.update serializedHeight hash (heightIndexBucket db)\<rparr>)"

definition dbRemoveBlockIndex :: "bytes \<Rightarrow> int \<Rightarrow> DB \<Rightarrow> DB" where
  "dbRemoveBlockIndex hash height db =
     (let serializedHeight = PutUint32 LittleEndian (word_of_int height) in
      db\<lparr>hashIndexBucket := AList.delete hash (hashIndexBucket db),
         heightIndexBucket := AList.delete serializedHeight (heightIndexBucket db)\<rparr>)"

definition getUint32 :: "bytes \<Rightarrow> u32 cres" where
  "getUint32 b = (if length b < 4 then Inl GoPanic else Inr (le_word (take 4 b)))"

definition getUint64 :: "bytes \<Rightarrow> u64 cres" where
  "getUint64 b = (if length b < 8 then Inl GoPanic else Inr (le_word (take 8 b)))"

definition dbFetchHeightByHash :: "DB \<Rightarrow> bytes \<Rightarrow> int cres" where
  "dbFetchHeightByHash db hash =
     (case map_of (hashIndexBucket db) hash of
        None \<Rightarrow> Inl NotInMainChainError
      | Some serializedHeight \<Rightarrow> bindE (getUint32 serializedHeight) (\<lambda>h. Inr (s32 (uint h))))"

definition dbFetchHashByHeight :: "DB \<Rightarrow> int \<Rightarrow> bytes cres" where
  "dbFetchHashByHeight db height =
     (case map_of (heightIndexBucket db) (PutUint32 LittleEndian (word_of_int height)) of
        None \<Rightarrow> Inl NotInMainChainError
      | Some hashBytes \<Rightarrow> Inr (take HashSize (hashBytes @ replicate HashSize 0)))"

record bestChainState =
  bcs_hash :: bytes
  bcs_height :: u32
  bcs_totalTxns :: u64
  bcs_workSum :: int

definition serializeBestChainState :: "bestChainState \<Rightarrow> bytes" where
  "serializeBestChainState state =
     (let workSumBytes = bigBytes (bcs_workSum state) in
      bcs_hash state @ PutUint32 LittleEndian (bcs_height state) @ PutUint64 LittleEndian (bcs_totalTxns state)
      @ PutUint32 LittleEndian (of_nat (length workSumBytes)) @ workSumBytes)"

definition deserializeBestChainState :: "bytes \<Rightarrow> bestChainState cres" where
  "deserializeBestChainState serializedData =
     (if length serializedData < HashSize + 16 then Inl CorruptionError
      else bindE (getUint32 (drop HashSize serializedData)) (\<lambda>height.
           bindE (getUint64 (drop (HashSize + 4) serializedData)) (\<lambda>totalTxns.
           bindE (getUint32 (drop (HashSize + 12) serializedData)) (\<lambda>workSumBytesLen.
           let rest = drop (HashSize + 16) serializedData in
           if (of_nat (length rest) :: u32) < workSumBytesLen then Inl CorruptionError
           else if length rest < unat workSumBytesLen then Inl GoPanic
           else Inr \<lparr>bcs_hash = take HashSize serializedData, bcs_height = height, bcs_totalTxns = totalTxns,
                     bcs_workSum = be_int (take (unat workSumBytesLen) rest)\<rparr>))))"

definition dbPutVersion :: "u32 \<Rightarrow> bytes" where
  "dbPutVersion version = PutUint32 LittleEndian version"

definition dbFetchVersion :: "bytes option \<Rightarrow> u32 cres" where
  "dbFetchVersion serialized = (case serialized of None \<Rightarrow> Inr 0 | Some b \<Rightarrow> getUint32 b)"

definition dbFetchOrCreateVersion :: "bytes option \<Rightarrow> u32 \<Rightarrow> (u32 \<times> bytes option) cres" where
  "dbFetchOrCreateVersion stored defaultVersion =
     bindE (dbFetchVersion stored) (\<lambda>version.
     if version = 0 then Inr (defaultVersion, Some (dbPutVersion defaultVersion)) else Inr (version, stored))"


text \<open>The little-endian integers that are stored are read back.\<close>

lemma getUint_put [simp]:
  "getUint32 (PutUint32 LittleEndian w @ rest) = Inr w" "getUint64 (PutUint64 LittleEndian v @ rest) = Inr v"
  by (simp_all add: getUint32_def getUint64_def PutUint32_def PutUint64_def putUint_def)

lemma best_state_roundtrip:
  assumes "length (bcs_hash st) = HashSize" and "0 \<le> bcs_workSum st" and "bcs_workSum st < 2 ^ 256"
  shows "deserializeBestChainState (serializeBestChainState st) = Inr st"
proof -
  let ?b = "bigBytes (bcs_workSum st)"
  have "\<bar>bcs_workSum st\<bar> < 256 ^ 32" using assms by simp
  then have "length ?b \<le> 32" by (simp only: length_bigBytes)
  then have u: "unat (of_nat (length ?b) :: u32) = length ?b" by (simp add: unat_of_nat)
  have l: "length (PutUint32 LittleEndian x) = 4" "length (PutUint64 LittleEndian y) = 8" for x y
    by (simp_all add: PutUint32_def PutUint64_def putUint_def)
  have d: "drop HashSize (serializeBestChainState st) = PutUint32 LittleEndian (bcs_height st) @ PutUint64 LittleEndian (bcs_totalTxns st)
      @ PutUint32 LittleEndian (of_nat (length ?b)) @ ?b"
    using assms(1) by (simp add: serializeBestChainState_def Let_def)
  have "drop (HashSize + k) (serializeBestChainState st) = drop k (drop HashSize (serializeBestChainState st))" for k
    by (simp add: add.commute)
  then show ?thesis
    using assms(1,2) u l d by (simp add: deserializeBestChainState_def) (simp add: serializeBestChainState_def Let_def)
qed

end
