(* ===== verification/ChainUtxo.thy ===== *)
theory ChainUtxo
  imports ChainStore
begin

text \<open>
  Views of the set of unspent transaction outputs (\<open>pkg/chain/utxoviewpoint.go\<close>). The map of a view is an
  association list; a key can be present with a nil entry, which says that the output is known not to
  exist. The abstract state of a view is the partial function from outpoints to coins; connecting a
  transaction removes the coins it spends and adds those it creates, and disconnecting a block with
  the outputs it spent restores the state before it.
\<close>

section \<open>Definitions\<close>

record UtxoViewpoint =
  vw_entries :: "(OutPoint \<times> UtxoEntry option) list"
  vw_bestHash :: bytes

definition NewUtxoViewpoint :: UtxoViewpoint where
  "NewUtxoViewpoint = \<lparr>vw_entries = [], vw_bestHash = chainZeroHash\<rparr>"

definition SetBestHash :: "bytes \<Rightarrow> UtxoViewpoint \<Rightarrow> UtxoViewpoint" where
  "SetBestHash hash view = view\<lparr>vw_bestHash := hash\<rparr>"

definition LookupEntry :: "UtxoViewpoint \<Rightarrow> OutPoint \<Rightarrow> UtxoEntry option" where
  "LookupEntry view outpoint =
     (case map_of (vw_entries view) outpoint of Some (Some entry) \<Rightarrow> Some entry | _ \<Rightarrow> None)"

definition setEntry :: "OutPoint \<Rightarrow> UtxoEntry option \<Rightarrow> UtxoViewpoint \<Rightarrow> UtxoViewpoint" where
  "setEntry outpoint entry view = view\<lparr>vw_entries := AList.update outpoint entry (vw_entries view)\<rparr>"

definition addTxOut :: "OutPoint \<Rightarrow> TxOut \<Rightarrow> bool \<Rightarrow> int \<Rightarrow> UtxoViewpoint \<Rightarrow> UtxoViewpoint" where
  "addTxOut outpoint txOut isCoinBase blockHeight view =
     (if IsUnspendable (PkScript txOut) then view
      else setEntry outpoint
             (Some \<lparr>ue_amount = Value txOut, ue_pkScript = PkScript txOut, ue_blockHeight = blockHeight,
                    ue_packedFlags = (if isCoinBase then tfModified OR tfCoinBase else tfModified)\<rparr>) view)"

definition outPoint :: "(bytes \<Rightarrow> bytes) \<Rightarrow> MsgTx \<Rightarrow> nat \<Rightarrow> OutPoint" where
  "outPoint sha tx i = \<lparr>op_Hash = TxHash sha tx, op_Index = of_nat i\<rparr>"

definition view_AddTxOut :: "(bytes \<Rightarrow> bytes) \<Rightarrow> MsgTx \<Rightarrow> u32 \<Rightarrow> int \<Rightarrow> UtxoViewpoint \<Rightarrow> UtxoViewpoint" where
  "view_AddTxOut sha tx txOutIdx blockHeight view =
     (if txOutIdx \<ge> of_nat (length (tx_TxOut tx)) then view
      else addTxOut \<lparr>op_Hash = TxHash sha tx, op_Index = txOutIdx\<rparr> (tx_TxOut tx ! unat txOutIdx) (IsCoinBaseTx tx)
             blockHeight view)"

definition AddTxOuts :: "(bytes \<Rightarrow> bytes) \<Rightarrow> MsgTx \<Rightarrow> int \<Rightarrow> UtxoViewpoint \<Rightarrow> UtxoViewpoint" where
  "AddTxOuts sha tx blockHeight view =
     fold (\<lambda>(i, txOut). addTxOut (outPoint sha tx i) txOut (IsCoinBaseTx tx) blockHeight)
       (enumerate 0 (tx_TxOut tx)) view"

definition spentOf :: "UtxoEntry \<Rightarrow> SpentTxOut" where
  "spentOf entry = \<lparr>st_Amount = ue_amount entry, st_PkScript = ue_pkScript entry,
     st_Height = ue_blockHeight entry, st_IsCoinBase = ue_IsCoinBase entry\<rparr>"

text \<open>One iteration of the loop over the inputs; \<open>stxos\<close> is \<open>None\<close> if the caller passes \<open>nil\<close>.\<close>

definition spendInput ::
  "UtxoViewpoint \<times> SpentTxOut list option \<Rightarrow> TxIn \<Rightarrow> (UtxoViewpoint \<times> SpentTxOut list option) cres" where
  "spendInput = (\<lambda>(view, stxos) txIn.
     case LookupEntry view (PreviousOutPoint txIn) of
       None \<Rightarrow> Inl AssertError
     | Some entry \<Rightarrow>
         Inr (setEntry (PreviousOutPoint txIn) (Some (ue_Spend entry)) view,
              map_option (\<lambda>s. s @ [spentOf entry]) stxos))"

definition connectTransaction ::
  "(bytes \<Rightarrow> bytes) \<Rightarrow> int \<Rightarrow> UtxoViewpoint \<times> SpentTxOut list option \<Rightarrow> MsgTx
     \<Rightarrow> (UtxoViewpoint \<times> SpentTxOut list option) cres" where
  "connectTransaction sha blockHeight = (\<lambda>(view, stxos) tx.
     if IsCoinBaseTx tx then Inr (AddTxOuts sha tx blockHeight view, stxos)
     else bindE (foldE spendInput (view, stxos) (tx_TxIn tx)) (\<lambda>(view', stxos').
          Inr (AddTxOuts sha tx blockHeight view', stxos')))"

definition connectTransactions ::
  "(bytes \<Rightarrow> bytes) \<Rightarrow> Block \<Rightarrow> UtxoViewpoint \<times> SpentTxOut list option
     \<Rightarrow> (UtxoViewpoint \<times> SpentTxOut list option) cres" where
  "connectTransactions sha blk st =
     bindE (foldE (connectTransaction sha (blockHeightOf blk)) st (Transactions blk)) (\<lambda>(view, stxos).
     Inr (SetBestHash (BlockHash sha (Header blk)) view, stxos))"

definition MaxOutputsPerBlock :: nat where
  "MaxOutputsPerBlock = 4000000 div (4 * MinTxOutPayload)"

definition fetchEntryByHash ::
  "(bytes \<Rightarrow> PublicKey option) \<Rightarrow> DB \<Rightarrow> UtxoViewpoint \<Rightarrow> bytes \<Rightarrow> UtxoEntry option cres" where
  "fetchEntryByHash parse db view hash =
     (case List.find (\<lambda>i. LookupEntry view \<lparr>op_Hash = hash, op_Index = of_nat i\<rparr> \<noteq> None) [0..<MaxOutputsPerBlock] of
        Some i \<Rightarrow> Inr (LookupEntry view \<lparr>op_Hash = hash, op_Index = of_nat i\<rparr>)
      | None \<Rightarrow> dbFetchUtxoEntryByHash parse db hash)"

definition countSpentOutputs :: "Block \<Rightarrow> nat cres" where
  "countSpentOutputs blk =
     (if length (Transactions blk) = 0 then Inl GoPanic
      else Inr (sum_list (map (\<lambda>tx. length (tx_TxIn tx)) (drop 1 (Transactions blk)))))"

text \<open>The loop that marks the outputs a transaction had created as spent.\<close>

definition unmakeOutputs :: "(bytes \<Rightarrow> bytes) \<Rightarrow> int \<Rightarrow> bool \<Rightarrow> MsgTx \<Rightarrow> UtxoViewpoint \<Rightarrow> UtxoViewpoint" where
  "unmakeOutputs sha blockHeight isCoinBase tx view =
     fold (\<lambda>(i, txOut) v.
             if IsUnspendable (PkScript txOut) then v
             else let entry = (case LookupEntry v (outPoint sha tx i) of
                                 Some e \<Rightarrow> e
                               | None \<Rightarrow> \<lparr>ue_amount = Value txOut, ue_pkScript = PkScript txOut,
                                          ue_blockHeight = blockHeight,
                                          ue_packedFlags = (if isCoinBase then tfCoinBase else 0)\<rparr>)
                  in setEntry (outPoint sha tx i) (Some (ue_Spend entry)) v)
       (enumerate 0 (tx_TxOut tx)) view"

text \<open>
  The restoration of one spent output. The outputs are taken from the end of the slice, so the state holds it
  reversed; taking one from the empty slice panics. An output without a height (the legacy format)
  is completed from an entry of the \<^emph>\<open>spending\<close> transaction, as the source has it; the source also keeps the completed height
  in the slice of its caller, the model completes such an output again if the slice is used again.
\<close>

definition restoreInput ::
  "(bytes \<Rightarrow> PublicKey option) \<Rightarrow> DB \<Rightarrow> bytes \<Rightarrow> UtxoViewpoint \<times> SpentTxOut list \<Rightarrow> TxIn
     \<Rightarrow> (UtxoViewpoint \<times> SpentTxOut list) cres" where
  "restoreInput parse db txHash = (\<lambda>(view, stk) txIn.
     case stk of
       [] \<Rightarrow> Inl GoPanic
     | stxo # rest \<Rightarrow>
         let view1 = (case LookupEntry view (PreviousOutPoint txIn) of
                        Some e \<Rightarrow> view
                      | None \<Rightarrow> setEntry (PreviousOutPoint txIn)
                          (Some \<lparr>ue_amount = 0, ue_pkScript = [], ue_blockHeight = 0, ue_packedFlags = 0\<rparr>) view) in
         bindE (if st_Height stxo = 0
                then bindE (fetchEntryByHash parse db view1 txHash) (\<lambda>utxo.
                     case utxo of
                       None \<Rightarrow> Inl AssertError
                     | Some u \<Rightarrow> Inr (stxo\<lparr>st_Height := ue_blockHeight u, st_IsCoinBase := ue_IsCoinBase u\<rparr>))
                else Inr stxo) (\<lambda>stxo'.
         Inr (setEntry (PreviousOutPoint txIn)
                (Some \<lparr>ue_amount = st_Amount stxo', ue_pkScript = st_PkScript stxo', ue_blockHeight = st_Height stxo',
                       ue_packedFlags = (if st_IsCoinBase stxo' then tfModified OR tfCoinBase else tfModified)\<rparr>) view1,
              rest)))"

definition disconnectTransaction ::
  "(bytes \<Rightarrow> bytes) \<Rightarrow> (bytes \<Rightarrow> PublicKey option) \<Rightarrow> DB \<Rightarrow> int \<Rightarrow> UtxoViewpoint \<times> SpentTxOut list \<Rightarrow> nat \<times> MsgTx
     \<Rightarrow> (UtxoViewpoint \<times> SpentTxOut list) cres" where
  "disconnectTransaction sha parse db blockHeight = (\<lambda>(view, stk) (txIdx, tx).
     let view1 = unmakeOutputs sha blockHeight (txIdx = 0) tx view in
     if txIdx = 0 then Inr (view1, stk)
     else foldE (restoreInput parse db (TxHash sha tx)) (view1, stk) (rev (tx_TxIn tx)))"

definition disconnectTransactions ::
  "(bytes \<Rightarrow> bytes) \<Rightarrow> (bytes \<Rightarrow> PublicKey option) \<Rightarrow> DB \<Rightarrow> Block \<Rightarrow> SpentTxOut list \<Rightarrow> UtxoViewpoint
     \<Rightarrow> UtxoViewpoint cres" where
  "disconnectTransactions sha parse db blk stxos view =
     bindE (countSpentOutputs blk) (\<lambda>numSpent.
     bindE (failIf (length stxos \<noteq> numSpent) AssertError) (\<lambda>_.
     bindE (foldE (disconnectTransaction sha parse db (blockHeightOf blk)) (view, rev stxos)
              (rev (enumerate 0 (Transactions blk)))) (\<lambda>(view', stk).
     Inr (SetBestHash (bh_PrevBlock (Header blk)) view'))))"

definition RemoveEntry :: "OutPoint \<Rightarrow> UtxoViewpoint \<Rightarrow> UtxoViewpoint" where
  "RemoveEntry outpoint view = view\<lparr>vw_entries := AList.delete outpoint (vw_entries view)\<rparr>"

text \<open>\<open>commit\<close>: the entries that are nil or modified and spent are deleted; of the others, the flag is flipped.\<close>

definition commit :: "UtxoViewpoint \<Rightarrow> UtxoViewpoint" where
  "commit view = view\<lparr>vw_entries :=
     concat (map (\<lambda>(outpoint, entry).
       case entry of
         None \<Rightarrow> []
       | Some e \<Rightarrow> if ue_isModified e \<and> ue_IsSpent e then []
                   else [(outpoint, Some (e\<lparr>ue_packedFlags := ue_packedFlags e XOR tfModified\<rparr>))])
       (vw_entries view))\<rparr>"

section \<open>Loading entries\<close>

definition fetchUtxosMain ::
  "(bytes \<Rightarrow> PublicKey option) \<Rightarrow> DB \<Rightarrow> OutPoint list \<Rightarrow> UtxoViewpoint \<Rightarrow> UtxoViewpoint cres" where
  "fetchUtxosMain parse db outpoints view =
     foldE (\<lambda>v outpoint. bindE (dbFetchUtxoEntry parse db outpoint) (\<lambda>entry. Inr (setEntry outpoint entry v)))
       view outpoints"

definition inView :: "UtxoViewpoint \<Rightarrow> OutPoint \<Rightarrow> bool" where
  "inView view outpoint = (map_of (vw_entries view) outpoint \<noteq> None)"

definition fetchUtxos ::
  "(bytes \<Rightarrow> PublicKey option) \<Rightarrow> DB \<Rightarrow> OutPoint list \<Rightarrow> UtxoViewpoint \<Rightarrow> UtxoViewpoint cres" where
  "fetchUtxos parse db outpoints view =
     fetchUtxosMain parse db (filter (\<lambda>outpoint. \<not> inView view outpoint) outpoints) view"

text \<open>\<open>fetchInputUtxos\<close>: the inputs that refer to an earlier transaction of the block add its outputs to the view; \<open>txInFlight\<close>
  maps a hash to the last position of a transaction with it.\<close>

definition txInFlight :: "(bytes \<Rightarrow> bytes) \<Rightarrow> MsgTx list \<Rightarrow> bytes \<Rightarrow> nat option" where
  "txInFlight sha txs = map_of (rev (map (\<lambda>(i, tx). (TxHash sha tx, i)) (enumerate 0 txs)))"

definition collectInput ::
  "(bytes \<Rightarrow> bytes) \<Rightarrow> Block \<Rightarrow> nat \<Rightarrow> TxIn \<Rightarrow> UtxoViewpoint \<times> OutPoint list \<Rightarrow> UtxoViewpoint \<times> OutPoint list" where
  "collectInput sha blk i txIn = (\<lambda>(view, needed).
     let known = (if inView view (PreviousOutPoint txIn) then (view, needed)
                  else (view, List.insert (PreviousOutPoint txIn) needed)) in
     case txInFlight sha (Transactions blk) (op_Hash (PreviousOutPoint txIn)) of
       Some inFlightIndex \<Rightarrow>
         if i \<ge> inFlightIndex
         then (AddTxOuts sha (Transactions blk ! inFlightIndex) (blockHeightOf blk) view, needed)
         else known
     | None \<Rightarrow> known)"

definition fetchInputUtxos ::
  "(bytes \<Rightarrow> bytes) \<Rightarrow> (bytes \<Rightarrow> PublicKey option) \<Rightarrow> DB \<Rightarrow> Block \<Rightarrow> UtxoViewpoint \<Rightarrow> UtxoViewpoint cres" where
  "fetchInputUtxos sha parse db blk view =
     (if length (Transactions blk) = 0 then Inl GoPanic
      else let (view', needed) =
             fold (\<lambda>(i, tx) st. fold (collectInput sha blk i) (tx_TxIn tx) st)
               (enumerate 0 (drop 1 (Transactions blk))) (view, [])
           in fetchUtxosMain parse db needed view')"

definition FetchUtxoView ::
  "(bytes \<Rightarrow> bytes) \<Rightarrow> (bytes \<Rightarrow> PublicKey option) \<Rightarrow> DB \<Rightarrow> MsgTx \<Rightarrow> UtxoViewpoint cres" where
  "FetchUtxoView sha parse db tx =
     (let outs = map (\<lambda>i. outPoint sha tx i) [0..<length (tx_TxOut tx)];
          ins = (if IsCoinBaseTx tx then [] else map PreviousOutPoint (tx_TxIn tx))
      in fetchUtxosMain parse db (remdups (outs @ ins)) NewUtxoViewpoint)"

text \<open>Writing a view to the database.\<close>

definition putEntry ::
  "(bytes \<Rightarrow> PublicKey option) \<Rightarrow> bucket \<Rightarrow> OutPoint \<times> UtxoEntry option \<Rightarrow> bucket cres" where
  "putEntry parse b = (\<lambda>(outpoint, entry).
     case entry of
       None \<Rightarrow> Inr b
     | Some e \<Rightarrow>
         if \<not> ue_isModified e then Inr b
         else if ue_IsSpent e then Inr (AList.delete (outpointKey outpoint) b)
         else bindE (serializeUtxoEntry parse e) (\<lambda>serialized.
              Inr (AList.update (outpointKey outpoint) (orEmpty serialized) b)))"

definition dbPutUtxoView :: "(bytes \<Rightarrow> PublicKey option) \<Rightarrow> UtxoViewpoint \<Rightarrow> DB \<Rightarrow> DB cres" where
  "dbPutUtxoView parse view db =
     bindE (foldE (putEntry parse) (utxoSetBucket db) (vw_entries view)) (\<lambda>b. Inr (db\<lparr>utxoSetBucket := b\<rparr>))"


section \<open>The abstract state\<close>

text \<open>A coin: amount, script, height of its block, whether it is from a coinbase.\<close>

type_synonym coin = "i64 \<times> bytes \<times> int \<times> bool"

definition coin_of :: "UtxoEntry \<Rightarrow> coin" where
  "coin_of e = (ue_amount e, ue_pkScript e, ue_blockHeight e, ue_IsCoinBase e)"

definition coin_of_spent :: "SpentTxOut \<Rightarrow> coin" where
  "coin_of_spent s = (st_Amount s, st_PkScript s, st_Height s, st_IsCoinBase s)"

definition utxos :: "UtxoViewpoint \<Rightarrow> OutPoint \<rightharpoonup> coin" where
  "utxos view op =
     (case LookupEntry view op of Some e \<Rightarrow> if ue_IsSpent e then None else Some (coin_of e) | None \<Rightarrow> None)"

text \<open>The coins a transaction creates, and the ones it spends.\<close>

definition created :: "(bytes \<Rightarrow> bytes) \<Rightarrow> int \<Rightarrow> MsgTx \<Rightarrow> (OutPoint \<times> coin) list" where
  "created sha h tx =
     map (\<lambda>(i, to'). (outPoint sha tx i, (Value to', PkScript to', h, IsCoinBaseTx tx)))
       (filter (\<lambda>(i, to'). \<not> IsUnspendable (PkScript to')) (enumerate 0 (tx_TxOut tx)))"

definition inputs :: "MsgTx \<Rightarrow> OutPoint list" where
  "inputs tx = (if IsCoinBaseTx tx then [] else map PreviousOutPoint (tx_TxIn tx))"

definition putAll :: "('a \<times> 'b) list \<Rightarrow> ('a \<rightharpoonup> 'b) \<Rightarrow> 'a \<rightharpoonup> 'b" where
  "putAll xs m = fold (\<lambda>(k, v) m. m(k \<mapsto> v)) xs m"

definition dropAll :: "'a list \<Rightarrow> ('a \<rightharpoonup> 'b) \<Rightarrow> 'a \<rightharpoonup> 'b" where
  "dropAll ks m = (\<lambda>k. if k \<in> set ks then None else m k)"

definition connect_spec :: "(bytes \<Rightarrow> bytes) \<Rightarrow> int \<Rightarrow> MsgTx \<Rightarrow> (OutPoint \<rightharpoonup> coin) \<Rightarrow> OutPoint \<rightharpoonup> coin" where
  "connect_spec sha h tx m = putAll (created sha h tx) (dropAll (inputs tx) m)"

lemma LookupEntry_setEntry [simp]:
  "LookupEntry (setEntry op e view) op' = (if op' = op then e else LookupEntry view op')"
  by (auto simp: LookupEntry_def setEntry_def update_conv' split: option.split)

lemma LookupEntry_SetBestHash [simp]: "LookupEntry (SetBestHash h view) op = LookupEntry view op"
  by (simp add: LookupEntry_def SetBestHash_def)

lemma utxos_SetBestHash [simp]: "utxos (SetBestHash h view) = utxos view"
  by (simp add: utxos_def fun_eq_iff)

lemma utxos_setEntry:
  "utxos (setEntry op e view) = (utxos view)(op := (case e of Some x \<Rightarrow> if ue_IsSpent x then None else Some (coin_of x) | None \<Rightarrow> None))"
  by (auto simp: utxos_def fun_eq_iff)

lemma utxos_addTxOut:
  "utxos (addTxOut op to' cb h view) =
     (if IsUnspendable (PkScript to') then utxos view else (utxos view)(op \<mapsto> (Value to', PkScript to', h, cb)))"
  by (auto simp: addTxOut_def utxos_setEntry coin_of_def flag_bits bit_simps)

lemma utxos_AddTxOuts: "utxos (AddTxOuts sha tx h view) = putAll (created sha h tx) (utxos view)"
proof -
  have "utxos (fold (\<lambda>(i, to'). addTxOut (outPoint sha tx i) to' (IsCoinBaseTx tx) h) xs view) =
    fold (\<lambda>(k, v) m. m(k \<mapsto> v))
      (map (\<lambda>(i, to'). (outPoint sha tx i, (Value to', PkScript to', h, IsCoinBaseTx tx)))
       (filter (\<lambda>(i, to'). \<not> IsUnspendable (PkScript to')) xs)) (utxos view)" for xs
    by (induction xs arbitrary: view) (auto simp: utxos_addTxOut)
  then show ?thesis by (simp add: AddTxOuts_def putAll_def created_def)
qed

lemma putAll_apply: "putAll xs m k = (case map_of (rev xs) k of Some v \<Rightarrow> Some v | None \<Rightarrow> m k)"
  unfolding putAll_def by (induction xs arbitrary: m rule: rev_induct) auto

lemma putAll_Cons [simp]: "putAll ((k, v) # xs) m = putAll xs (m(k \<mapsto> v))" and putAll_Nil [simp]: "putAll [] m = m"
  by (simp_all add: putAll_def)

text \<open>Spending the inputs: the abstract state loses them, and the journal receives the coins.\<close>

lemma spendInputs:
  assumes "foldE spendInput (view, stxos) ins = Inr (view', stxos')"
  shows "utxos view' = dropAll (map PreviousOutPoint ins) (utxos view)"
  using assms
proof (induction ins arbitrary: view stxos)
  case Nil
  then show ?case by (simp add: dropAll_def)
next
  case (Cons ti ins)
  from Cons.prems obtain e where e: "LookupEntry view (PreviousOutPoint ti) = Some e"
    by (auto simp: spendInput_def split: option.splits)
  let ?v = "setEntry (PreviousOutPoint ti) (Some (ue_Spend e)) view"
  have "utxos ?v = dropAll [PreviousOutPoint ti] (utxos view)"
    by (auto simp: utxos_setEntry dropAll_def)
  moreover from Cons.prems e have "foldE spendInput (?v, map_option (\<lambda>s. s @ [spentOf e]) stxos) ins = Inr (view', stxos')"
    by (simp add: spendInput_def)
  from Cons.IH[OF this] have "utxos view' = dropAll (map PreviousOutPoint ins) (utxos ?v)" .
  ultimately show ?case by (auto simp: dropAll_def fun_eq_iff)
qed

lemma connectTransaction_utxos:
  assumes "connectTransaction sha h (view, stxos) tx = Inr (view', stxos')"
  shows "utxos view' = connect_spec sha h tx (utxos view)"
  using assms spendInputs[of view stxos "tx_TxIn tx"]
  by (auto simp: connectTransaction_def connect_spec_def inputs_def utxos_AddTxOuts dropAll_def bindE_eq_Inr split: if_splits prod.splits)

lemma connectAll_utxos:
  assumes "foldE (connectTransaction sha h) (view, stxos) txs = Inr (view', stxos')"
  shows "utxos view' = fold (connect_spec sha h) txs (utxos view)"
  using assms
proof (induction txs arbitrary: view stxos)
  case (Cons tx txs)
  then obtain v s where "connectTransaction sha h (view, stxos) tx = Inr (v, s)" "foldE (connectTransaction sha h) (v, s) txs = Inr (view', stxos')"
    by (auto simp: bindE_eq_Inr)
  with Cons.IH connectTransaction_utxos show ?case by fastforce
qed simp


section \<open>Disconnecting a block\<close>

text \<open>What the checks on a block establish before it is connected: a transaction spends existing coins, each once, and creates no coin
  that exists. Coins have a height, that is, none is from the genesis block.\<close>

fun valid_spends :: "(bytes \<Rightarrow> bytes) \<Rightarrow> int \<Rightarrow> MsgTx list \<Rightarrow> (OutPoint \<rightharpoonup> coin) \<Rightarrow> bool" where
  "valid_spends sha h [] m = True"
| "valid_spends sha h (tx # txs) m =
     (distinct (inputs tx)
      \<and> list_all (\<lambda>op. case m op of Some (a, s, height, cb) \<Rightarrow> height \<noteq> 0 | None \<Rightarrow> False) (inputs tx)
      \<and> list_all (\<lambda>(op, c). dropAll (inputs tx) m op = None) (created sha h tx)
      \<and> valid_spends sha h txs (connect_spec sha h tx m))"

lemma spendInputs_journal:
  assumes "foldE spendInput (view, Some s) ins = Inr (view', Some s')"
    and "distinct (map PreviousOutPoint ins)" and "\<forall>ti \<in> set ins. utxos view (PreviousOutPoint ti) \<noteq> None"
  shows "\<exists>new. s' = s @ new \<and> map Some (map coin_of_spent new) = map (utxos view \<circ> PreviousOutPoint) ins"
  using assms
proof (induction ins arbitrary: view s)
  case (Cons ti ins)
  from Cons.prems obtain e where e: "LookupEntry view (PreviousOutPoint ti) = Some e"
    by (auto simp: spendInput_def split: option.splits)
  then have c: "utxos view (PreviousOutPoint ti) = Some (coin_of_spent (spentOf e))"
    using Cons.prems(3) by (auto simp: utxos_def coin_of_def coin_of_spent_def spentOf_def split: if_splits)
  let ?v = "setEntry (PreviousOutPoint ti) (Some (ue_Spend e)) view"
  have u: "utxos ?v op = utxos view op" if "op \<noteq> PreviousOutPoint ti" for op using that by (simp add: utxos_setEntry)
  have ne: "PreviousOutPoint x \<noteq> PreviousOutPoint ti" if "x \<in> set ins" for x using Cons.prems(2) that by (metis distinct.simps(2) image_eqI list.simps(9) set_map)
  from Cons.prems e have "foldE spendInput (?v, Some (s @ [spentOf e])) ins = Inr (view', Some s')"
    by (simp add: spendInput_def)
  from Cons.IH[OF this] Cons.prems(2,3) u ne obtain new where
    "s' = (s @ [spentOf e]) @ new" "map Some (map coin_of_spent new) = map (utxos ?v \<circ> PreviousOutPoint) ins"
    by auto
  moreover have "map (utxos ?v \<circ> PreviousOutPoint) ins = map (utxos view \<circ> PreviousOutPoint) ins"
    using u ne by auto
  ultimately show ?case using c by (intro exI[of _ "spentOf e # new"]) auto
qed simp

lemma utxos_unmakeOutputs:
  "utxos (unmakeOutputs sha h cb tx view) = dropAll (map fst (created sha h' tx)) (utxos view)"
proof -
  let ?f = "\<lambda>(i, txOut) v. if IsUnspendable (PkScript txOut) then v
             else let entry = (case LookupEntry v (outPoint sha tx i) of Some e \<Rightarrow> e
                               | None \<Rightarrow> \<lparr>ue_amount = Value txOut, ue_pkScript = PkScript txOut, ue_blockHeight = h,
                                          ue_packedFlags = (if cb then tfCoinBase else 0)\<rparr>)
                  in setEntry (outPoint sha tx i) (Some (ue_Spend entry)) v"
  have "utxos (fold ?f xs view) =
    dropAll (map (\<lambda>(i, to'). outPoint sha tx i) (filter (\<lambda>(i, to'). \<not> IsUnspendable (PkScript to')) xs)) (utxos view)" for xs
  proof (induction xs arbitrary: view)
    case (Cons x xs)
    then show ?case by (cases x) (auto simp: utxos_setEntry Let_def dropAll_def fun_eq_iff)
  qed (simp add: dropAll_def)
  moreover have "map fst (created sha h' tx) = map (\<lambda>(i, to'). outPoint sha tx i) (filter (\<lambda>(i, to'). \<not> IsUnspendable (PkScript to')) (enumerate 0 (tx_TxOut tx)))"
    by (simp add: created_def comp_def case_prod_beta)
  ultimately show ?thesis by (simp only: unmakeOutputs_def)
qed

lemma restoreInputs:
  assumes "length stk = length ins" and "list_all (\<lambda>st. st_Height st \<noteq> 0) stk"
  shows "\<exists>view'. foldE (restoreInput parse db txHash) (view, stk @ rest) ins = Inr (view', rest)
    \<and> utxos view' = putAll (zip (map PreviousOutPoint ins) (map coin_of_spent stk)) (utxos view)"
  using assms
proof (induction ins arbitrary: view stk)
  case (Cons ti ins)
  then obtain st sts where stk: "stk = st # sts" by (cases stk) auto
  let ?e = "\<lparr>ue_amount = st_Amount st, ue_pkScript = st_PkScript st, ue_blockHeight = st_Height st,
     ue_packedFlags = (if st_IsCoinBase st then tfModified OR tfCoinBase else tfModified)\<rparr>"
  define v where "v = setEntry (PreviousOutPoint ti) (Some ?e) (case LookupEntry view (PreviousOutPoint ti) of Some e \<Rightarrow> view
    | None \<Rightarrow> setEntry (PreviousOutPoint ti) (Some \<lparr>ue_amount = 0, ue_pkScript = [], ue_blockHeight = 0, ue_packedFlags = 0\<rparr>) view)"
  have "restoreInput parse db txHash (view, stk @ rest) ti = Inr (v, sts @ rest)"
    using Cons.prems(2) by (simp add: restoreInput_def stk v_def Let_def)
  moreover have "\<not> ue_IsSpent ?e" "coin_of ?e = coin_of_spent st"
    by (auto simp: flag_bits bit_simps coin_of_def coin_of_spent_def)
  then have u: "utxos v = (utxos view)(PreviousOutPoint ti \<mapsto> coin_of_spent st)"
    by (auto simp: v_def utxos_setEntry split: option.split)
  moreover obtain view' where "foldE (restoreInput parse db txHash) (v, sts @ rest) ins = Inr (view', rest)"
    "utxos view' = putAll (zip (map PreviousOutPoint ins) (map coin_of_spent sts)) (utxos v)"
    using Cons.IH[of sts v] Cons.prems stk by auto
  ultimately show ?case by (intro exI[of _ view']) (simp add: stk)
qed simp


lemma undo_connect:
  assumes "distinct ins" and "map Some cs = map m ins" and "\<forall>op \<in> fst ` set new. dropAll ins m op = None"
  shows "putAll (rev (zip ins cs)) (dropAll (map fst new) (putAll new (dropAll ins m))) = m"
proof
  fix k
  have len: "length cs = length ins" using assms(2) by (metis length_map)
  show "putAll (rev (zip ins cs)) (dropAll (map fst new) (putAll new (dropAll ins m))) k = m k"
  proof (cases "k \<in> set ins")
    case True
    then obtain i where i: "i < length ins" "ins ! i = k" by (auto simp: in_set_conv_nth)
    then have "m k = Some (cs ! i)" using assms(2) len by (metis nth_map)
    moreover have "map_of (zip ins cs) k = Some (cs ! i)"
      using i assms(1) len by (metis map_of_zip_nth)
    ultimately show ?thesis by (simp add: putAll_apply)
  next
    case False
    then have n: "map_of (zip ins cs) k = None" using len by (simp add: map_of_zip_is_None)
    show ?thesis
    proof (cases "k \<in> fst ` set new")
      case True
      with assms(3) False have "m k = None" by (auto simp: dropAll_def split: if_splits)
      with True n show ?thesis by (simp add: putAll_apply dropAll_def image_iff)
    next
      case F: False
      then have "map_of (rev new) k = None" by (simp add: map_of_eq_None_iff)
      with F False n show ?thesis by (simp add: putAll_apply dropAll_def)
    qed
  qed
qed

text \<open>One transaction: the journal it appends is what its disconnection takes off again.\<close>

lemma connect_disconnect_one:
  assumes "connectTransaction sha h (view, Some s) tx = Inr (view', Some s')"
    and "valid_spends sha h [tx] (utxos view)" and "i = 0 \<longleftrightarrow> IsCoinBaseTx tx"
  shows "\<exists>new. s' = s @ new \<and> length new = length (inputs tx)
    \<and> (\<forall>w rest. utxos w = utxos view' \<longrightarrow>
         (\<exists>w'. disconnectTransaction sha parse db h (w, rev new @ rest) (i, tx) = Inr (w', rest) \<and> utxos w' = utxos view))"
proof -
  let ?new = "created sha h tx"
  have u: "utxos view' = putAll ?new (dropAll (inputs tx) (utxos view))"
    using connectTransaction_utxos[OF assms(1)] by (simp add: connect_spec_def)
  have v: "distinct (inputs tx)" "\<forall>op \<in> fst ` set ?new. dropAll (inputs tx) (utxos view) op = None"
    "\<forall>op \<in> set (inputs tx). case utxos view op of Some (a, s, height, cb) \<Rightarrow> height \<noteq> 0 | None \<Rightarrow> False"
    using assms(2) by (auto simp: list_all_iff)
  obtain new where new: "s' = s @ new" "map Some (map coin_of_spent new) = map (utxos view) (inputs tx)"
  proof (cases "IsCoinBaseTx tx")
    case True
    with assms(1) that[of "[]"] show ?thesis by (auto simp: connectTransaction_def inputs_def)
  next
    case False
    with assms(1) obtain v1 where "foldE spendInput (view, Some s) (tx_TxIn tx) = Inr (v1, Some s')"
      by (auto simp: connectTransaction_def bindE_eq_Inr)
    from spendInputs_journal[OF this] v(1,3) False that show ?thesis
      by (fastforce simp: inputs_def split: option.splits)
  qed
  have len: "length new = length (inputs tx)" using new(2) by (metis length_map)
  have h: "list_all (\<lambda>st. st_Height st \<noteq> 0) new"
  proof (unfold list_all_length, intro allI impI)
    fix j assume j: "j < length new"
    then have "map Some (map coin_of_spent new) ! j = map (utxos view) (inputs tx) ! j" by (simp only: new(2))
    then have e: "utxos view (inputs tx ! j) = Some (coin_of_spent (new ! j))" using j len by simp
    have "inputs tx ! j \<in> set (inputs tx)" using j len by simp
    with v(3) have "case utxos view (inputs tx ! j) of Some (a, s, height, cb) \<Rightarrow> height \<noteq> 0 | None \<Rightarrow> False" by blast
    then show "st_Height (new ! j) \<noteq> 0" by (simp add: e coin_of_spent_def)
  qed
  have "\<exists>w'. disconnectTransaction sha parse db h (w, rev new @ rest) (i, tx) = Inr (w', rest) \<and> utxos w' = utxos view"
    if w: "utxos w = utxos view'" for w rest
  proof -
    let ?w1 = "unmakeOutputs sha h (i = 0) tx w"
    have w1: "utxos ?w1 = dropAll (map fst ?new) (putAll ?new (dropAll (inputs tx) (utxos view)))"
      using utxos_unmakeOutputs[of sha h "i = 0" tx w h] w u by simp
    have undo: "putAll (rev (zip (inputs tx) (map coin_of_spent new))) (utxos ?w1) = utxos view"
      unfolding w1 by (rule undo_connect[OF v(1) new(2) v(2)])
    show ?thesis
    proof (cases "i = 0")
      case True
      with assms(3) have "inputs tx = []" by (simp add: inputs_def)
      with True undo len show ?thesis by (simp add: disconnectTransaction_def Let_def)
    next
      case False
      then have ins: "inputs tx = map PreviousOutPoint (tx_TxIn tx)" using assms(3) by (simp add: inputs_def)
      from restoreInputs[of "rev new" "rev (tx_TxIn tx)" parse db "TxHash sha tx" ?w1 rest] len h
      obtain w' where "foldE (restoreInput parse db (TxHash sha tx)) (?w1, rev new @ rest) (rev (tx_TxIn tx)) = Inr (w', rest)"
        "utxos w' = putAll (zip (map PreviousOutPoint (rev (tx_TxIn tx))) (map coin_of_spent (rev new))) (utxos ?w1)"
        by (auto simp: ins)
      moreover have "zip (map PreviousOutPoint (rev (tx_TxIn tx))) (map coin_of_spent (rev new)) = rev (zip (inputs tx) (map coin_of_spent new))"
        using len ins by (simp add: zip_rev flip: rev_map)
      ultimately show ?thesis using False undo by (simp add: disconnectTransaction_def Let_def)
    qed
  qed
  with new(1) len show ?thesis by blast
qed


lemma spendInput_Some: "foldE spendInput (view, Some s) ins = Inr (view', x) \<Longrightarrow> x \<noteq> None"
proof (induction ins arbitrary: view s)
  case (Cons ti ins)
  then show ?case by (auto simp: spendInput_def split: option.splits)
qed auto

lemma connect_Some: "connectTransaction sha h (view, Some s) tx = Inr (view', x) \<Longrightarrow> x \<noteq> None"
  by (auto simp: connectTransaction_def bindE_eq_Inr dest: spendInput_Some split: if_splits)

lemma connect_disconnect_all:
  assumes "foldE (connectTransaction sha h) (view, Some s) txs = Inr (view', Some s')"
    and "valid_spends sha h txs (utxos view)" and "list_all (\<lambda>(i, tx). i = 0 \<longleftrightarrow> IsCoinBaseTx tx) (enumerate k txs)"
  shows "\<exists>new. s' = s @ new \<and> length new = sum_list (map (\<lambda>tx. length (inputs tx)) txs)
    \<and> (\<forall>w rest. utxos w = utxos view' \<longrightarrow>
         (\<exists>w'. foldE (disconnectTransaction sha parse db h) (w, rev new @ rest) (rev (enumerate k txs)) = Inr (w', rest)
              \<and> utxos w' = utxos view))"
  using assms
proof (induction txs arbitrary: view s k)
  case (Cons tx txs)
  then obtain v x where v: "connectTransaction sha h (view, Some s) tx = Inr (v, x)"
    "foldE (connectTransaction sha h) (v, x) txs = Inr (view', Some s')"
    by (auto simp: bindE_eq_Inr)
  with connect_Some obtain s1 where x: "x = Some s1" by blast
  have uv: "utxos v = connect_spec sha h tx (utxos view)" by (rule connectTransaction_utxos[OF v(1)])
  from connect_disconnect_one[OF v(1)[unfolded x], of k parse db] Cons.prems(2,3) obtain new1 where n1:
    "s1 = s @ new1" "length new1 = length (inputs tx)"
    "\<forall>w rest. utxos w = utxos v \<longrightarrow> (\<exists>w'. disconnectTransaction sha parse db h (w, rev new1 @ rest) (k, tx) = Inr (w', rest) \<and> utxos w' = utxos view)"
    by auto
  from Cons.IH[OF v(2)[unfolded x], of "Suc k"] Cons.prems(2,3) uv obtain new2 where n2:
    "s' = s1 @ new2" "length new2 = sum_list (map (\<lambda>tx. length (inputs tx)) txs)"
    "\<forall>w rest. utxos w = utxos view' \<longrightarrow> (\<exists>w'. foldE (disconnectTransaction sha parse db h) (w, rev new2 @ rest) (rev (enumerate (Suc k) txs)) = Inr (w', rest)
       \<and> utxos w' = utxos v)"
    by auto
  have "\<exists>w'. foldE (disconnectTransaction sha parse db h) (w, rev (new1 @ new2) @ rest) (rev (enumerate k (tx # txs))) = Inr (w', rest)
      \<and> utxos w' = utxos view" if "utxos w = utxos view'" for w rest
  proof -
    from n2(3) that obtain w1 where w1: "foldE (disconnectTransaction sha parse db h) (w, rev new2 @ (rev new1 @ rest)) (rev (enumerate (Suc k) txs))
      = Inr (w1, rev new1 @ rest)" "utxos w1 = utxos v" by blast
    with n1(3) obtain w2 where "disconnectTransaction sha parse db h (w1, rev new1 @ rest) (k, tx) = Inr (w2, rest)" "utxos w2 = utxos view"
      by blast
    with w1(1) show ?thesis by (simp add: foldE_append)
  qed
  with n1 n2 show ?case by (intro exI[of _ "new1 @ new2"]) simp
qed simp

text \<open>C22: disconnecting undoes connecting. Let a block have a coinbase and then only other transactions, let every
  transaction spend existing coins with a height, each once, and create no coin that exists. If \<open>connectTransactions\<close> succeeds
  with the journal \<open>stxos\<close>, then \<open>disconnectTransactions\<close> with this journal succeeds on the new view, or on
  any view of the same coins, and gives exactly the coins of the view before the block.\<close>

theorem disconnect_undoes_connect:
  assumes "connectTransactions sha blk (view, Some []) = Inr (view', Some stxos)"
    and "Transactions blk = coinbase # txs" and "IsCoinBaseTx coinbase" and "list_all (\<lambda>tx. \<not> IsCoinBaseTx tx) txs"
    and "valid_spends sha (blockHeightOf blk) (Transactions blk) (utxos view)" and "utxos w = utxos view'"
  shows "\<exists>w'. disconnectTransactions sha parse db blk stxos w = Inr w' \<and> utxos w' = utxos view
    \<and> vw_bestHash w' = bh_PrevBlock (Header blk)"
proof -
  let ?h = "blockHeightOf blk"
  from assms(1) obtain v where v: "foldE (connectTransaction sha ?h) (view, Some []) (coinbase # txs) = Inr (v, Some stxos)"
    "view' = SetBestHash (BlockHash sha (Header blk)) v"
    by (auto simp: connectTransactions_def bindE_eq_Inr assms(2) simp del: foldE.simps)
  have e: "list_all (\<lambda>(i, tx). i = 0 \<longleftrightarrow> IsCoinBaseTx tx) (enumerate 0 (coinbase # txs))"
  proof -
    have "list_all (\<lambda>(i, tx). i = 0 \<longleftrightarrow> IsCoinBaseTx tx) (enumerate (Suc k) txs)" for k
      using assms(4) by (induction txs arbitrary: k) auto
    then show ?thesis using assms(3) by simp
  qed
  from connect_disconnect_all[OF v(1) _ e, of parse db] assms(2,5) obtain new where n: "stxos = [] @ new" "length new = sum_list (map (\<lambda>tx. length (inputs tx)) (coinbase # txs))"
    "\<forall>w rest. utxos w = utxos v \<longrightarrow>
         (\<exists>w'. foldE (disconnectTransaction sha parse db ?h) (w, rev new @ rest) (rev (enumerate 0 (coinbase # txs))) = Inr (w', rest)
              \<and> utxos w' = utxos view)"
    by auto
  have "sum_list (map (\<lambda>tx. length (inputs tx)) txs) = sum_list (map (\<lambda>tx. length (tx_TxIn tx)) txs)"
    using assms(4) by (intro arg_cong[of _ _ sum_list] map_cong) (auto simp: inputs_def list_all_iff)
  moreover have "inputs coinbase = []" using assms(3) by (simp add: inputs_def)
  ultimately have len: "length stxos = sum_list (map (\<lambda>tx. length (tx_TxIn tx)) txs)"
    using n(1,2) by simp
  have "utxos w = utxos v" using assms(6) v(2) by simp
  with n(3) have "\<exists>w'. foldE (disconnectTransaction sha parse db ?h) (w, rev new @ []) (rev (enumerate 0 (coinbase # txs))) = Inr (w', [])
    \<and> utxos w' = utxos view" by blast
  then obtain w' where
    "foldE (disconnectTransaction sha parse db ?h) (w, rev stxos) (rev (enumerate 0 (coinbase # txs))) = Inr (w', [])"
    "utxos w' = utxos view" using n(1) by auto
  then show ?thesis
    using len assms(2) by (simp add: disconnectTransactions_def countSpentOutputs_def del: enumerate_simps) (simp add: SetBestHash_def)
qed


definition sampleOut :: OutPoint where "sampleOut = \<lparr>op_Hash = replicate 32 9, op_Index = 0\<rparr>"

definition sampleView :: UtxoViewpoint where
  "sampleView = \<lparr>vw_entries = [(sampleOut, Some \<lparr>ue_amount = 70, ue_pkScript = [OP_1], ue_blockHeight = 3, ue_packedFlags = 0\<rparr>)],
     vw_bestHash = replicate 32 1\<rparr>"

definition sampleCoinbase :: MsgTx where
  "sampleCoinbase = \<lparr>tx_Version = 1, tx_TxIn = [\<lparr>PreviousOutPoint = \<lparr>op_Hash = chainZeroHash, op_Index = 0xffffffff\<rparr>,
     SignatureScript = [OP_1, OP_1], Witness = None, Sequence = 0\<rparr>], tx_TxOut = [\<lparr>Value = 50, PkScript = [OP_1]\<rparr>], tx_LockTime = 0\<rparr>"

definition sampleSpender :: MsgTx where
  "sampleSpender = \<lparr>tx_Version = 1, tx_TxIn = [\<lparr>PreviousOutPoint = sampleOut, SignatureScript = [], Witness = None, Sequence = 0\<rparr>],
     tx_TxOut = [\<lparr>Value = 60, PkScript = [OP_1]\<rparr>, \<lparr>Value = 0, PkScript = [OP_RETURN]\<rparr>], tx_LockTime = 0\<rparr>"

definition sampleConnect :: Block where
  "sampleConnect = \<lparr>msgBlock = \<lparr>bl_Header = sampleHeader, bl_Transactions = [sampleCoinbase, sampleSpender]\<rparr>, blockHeightOf = 7\<rparr>"

definition db0 :: DB where
  "db0 = \<lparr>utxoSetBucket = [], spendJournalBucket = [], hashIndexBucket = [], heightIndexBucket = [], chainState = None,
     utxoSetVersion = None, spendJournalVersion = None\<rparr>"

theorem disconnect_undoes_connect_witness:
  "\<exists>view' stxos w'. connectTransactions (\<lambda>b. b) sampleConnect (sampleView, Some []) = Inr (view', Some stxos)
     \<and> disconnectTransactions (\<lambda>b. b) toyParse db0 sampleConnect stxos view' = Inr w' \<and> utxos w' = utxos sampleView"
proof -
  have "(case connectTransactions (\<lambda>b. b) sampleConnect (sampleView, Some []) of Inr (v, Some s) \<Rightarrow> True | _ \<Rightarrow> False)"
    by code_simp
  then obtain view' stxos where c: "connectTransactions (\<lambda>b. b) sampleConnect (sampleView, Some []) = Inr (view', Some stxos)"
    by (auto split: sum.splits prod.splits option.splits)
  have "valid_spends (\<lambda>b. b) 7 [sampleCoinbase, sampleSpender] (utxos sampleView)" by code_simp
  moreover have "IsCoinBaseTx sampleCoinbase" "\<not> IsCoinBaseTx sampleSpender" by code_simp+
  ultimately show ?thesis
    using disconnect_undoes_connect[OF c, of sampleCoinbase "[sampleSpender]" view' toyParse db0] c
    by (auto simp: sampleConnect_def)
qed

section \<open>Writing a view to the database\<close>

lemma putVLQ_inject: "putVLQ m = putVLQ n \<Longrightarrow> m = n"
  using vlq_roundtrip[of m "[]"] vlq_roundtrip[of n "[]"] by simp

lemma outpointKey_inject:
  assumes "outpointKey a = outpointKey b" and "length (op_Hash a) = HashSize" and "length (op_Hash b) = HashSize"
  shows "a = b"
proof -
  have "op_Hash a = op_Hash b" "putVLQ (ucast (op_Index a)) = putVLQ (ucast (op_Index b))"
    using assms by (simp_all add: outpointKey_def)
  moreover from this(2) have "(ucast (op_Index a) :: u64) = ucast (op_Index b)" by (rule putVLQ_inject)
  then have "ucast (ucast (op_Index a) :: u64) = (ucast (ucast (op_Index b) :: u64) :: u32)" by (rule arg_cong)
  then have "op_Index a = op_Index b" by (simp add: ucast_up_down)
  ultimately show ?thesis by simp
qed

text \<open>The coins of the database, as \<open>dbFetchUtxoEntry\<close> reads them.\<close>

definition stored :: "(bytes \<Rightarrow> PublicKey option) \<Rightarrow> bucket \<Rightarrow> OutPoint \<Rightarrow> UtxoEntry option cres" where
  "stored parse b op = dbFetchUtxoEntry parse
     \<lparr>utxoSetBucket = b, spendJournalBucket = [], hashIndexBucket = [], heightIndexBucket = [], chainState = None,
      utxoSetVersion = None, spendJournalVersion = None\<rparr> op"

lemma stored_db: "dbFetchUtxoEntry parse db op = stored parse (utxoSetBucket db) op"
  by (simp add: stored_def dbFetchUtxoEntry_def)

definition unflagged :: "UtxoEntry \<Rightarrow> UtxoEntry" where
  "unflagged e = e\<lparr>ue_packedFlags := if ue_IsCoinBase e then tfCoinBase else 0\<rparr>"

text \<open>What an entry of the view makes of the coin in the database.\<close>

definition flushed :: "UtxoEntry option \<Rightarrow> UtxoEntry option cres \<Rightarrow> UtxoEntry option cres" where
  "flushed entry old =
     (case entry of
        Some e \<Rightarrow> if \<not> ue_isModified e then old else if ue_IsSpent e then Inr None else Inr (Some (unflagged e))
      | None \<Rightarrow> old)"

definition storable_entry :: "UtxoEntry option \<Rightarrow> bool" where
  "storable_entry entry = (case entry of None \<Rightarrow> True | Some e \<Rightarrow> storable (ue_amount e) (ue_pkScript e) (ue_blockHeight e))"

lemma putEntry_stored:
  assumes "parse_law parse" and "storable_entry entry" and "length (op_Hash op) = HashSize" and "length (op_Hash op') = HashSize"
  shows "\<exists>b'. putEntry parse b (op, entry) = Inr b'
    \<and> stored parse b' op' = (if op' = op then flushed entry (stored parse b op) else stored parse b op')"
proof (cases entry)
  case (Some e)
  have key: "outpointKey op' = outpointKey op \<longleftrightarrow> op' = op" using outpointKey_inject assms(3,4) by blast
  show ?thesis
  proof (cases "ue_isModified e \<and> \<not> ue_IsSpent e")
    case True
    then obtain ser where ser: "serializeUtxoEntry parse e = Inr (Some ser)" "ser \<noteq> []" "deserializeUtxoEntry parse ser = Inr (unflagged e)"
      using utxo_entry_roundtrip[OF assms(1), of e] assms(2) Some by (auto simp: storable_entry_def unflagged_def)
    with True Some key show ?thesis
      by (auto simp: putEntry_def stored_def dbFetchUtxoEntry_def flushed_def update_conv' orEmpty_def asCorruption_def)
  next
    case False
    with Some key show ?thesis
      by (auto simp: putEntry_def stored_def dbFetchUtxoEntry_def flushed_def delete_conv' split: option.split)
  qed
qed (simp add: putEntry_def flushed_def)

lemma putEntries_stored:
  assumes "parse_law parse" and "distinct (map fst es)" and "length (op_Hash op) = HashSize"
    and "\<forall>(k, entry) \<in> set es. storable_entry entry \<and> length (op_Hash k) = HashSize"
  shows "\<exists>b'. foldE (putEntry parse) b es = Inr b'
    \<and> stored parse b' op = (case map_of es op of Some entry \<Rightarrow> flushed entry (stored parse b op) | None \<Rightarrow> stored parse b op)"
  using assms(2,4)
proof (induction es arbitrary: b)
  case (Cons x es)
  obtain k entry where x: "x = (k, entry)" by fastforce
  from putEntry_stored[OF assms(1), of entry k op b] Cons.prems(2) assms(3) x obtain b1 where b1:
    "putEntry parse b (k, entry) = Inr b1" "stored parse b1 op = (if op = k then flushed entry (stored parse b k) else stored parse b op)"
    by auto
  from Cons.IH[of b1] Cons.prems obtain b2 where b2: "foldE (putEntry parse) b1 es = Inr b2"
    "stored parse b2 op = (case map_of es op of Some entry \<Rightarrow> flushed entry (stored parse b1 op) | None \<Rightarrow> stored parse b1 op)"
    by auto
  have "map_of es k = None" using Cons.prems(1) x by (auto simp: map_of_eq_None_iff)
  with b1 b2 x show ?case by (auto split: option.split)
qed simp

text \<open>C23: flushing a view. \<open>dbPutUtxoView\<close> succeeds for a view whose entries can be stored, and afterwards \<open>dbFetchUtxoEntry\<close> finds for
  every output: nothing, if the view has spent it; the entry of the view with only its coinbase flag,
  if the view has modified it otherwise; and what the database had, if the view has not touched it.\<close>

theorem flush_view_correct:
  assumes "parse_law parse" and "distinct (map fst (vw_entries view))"
    and "\<forall>(op, entry) \<in> set (vw_entries view). storable_entry entry \<and> length (op_Hash op) = HashSize"
  shows "\<exists>db'. dbPutUtxoView parse view db = Inr db'
    \<and> (\<forall>op. length (op_Hash op) = HashSize \<longrightarrow> dbFetchUtxoEntry parse db' op = flushed (LookupEntry view op) (dbFetchUtxoEntry parse db op))"
proof -
  have "\<exists>b'. foldE (putEntry parse) (utxoSetBucket db) (vw_entries view) = Inr b'"
    using putEntries_stored[OF assms(1,2) _ assms(3), of "\<lparr>op_Hash = replicate HashSize 0, op_Index = 0\<rparr>" "utxoSetBucket db"] by auto
  then obtain b' where b': "foldE (putEntry parse) (utxoSetBucket db) (vw_entries view) = Inr b'" by blast
  have "stored parse b' op = flushed (LookupEntry view op) (stored parse (utxoSetBucket db) op)" if "length (op_Hash op) = HashSize" for op
    using putEntries_stored[OF assms(1,2) that assms(3), of "utxoSetBucket db"] b'
    by (auto simp: LookupEntry_def flushed_def split: option.splits)
  with b' show ?thesis by (auto simp: dbPutUtxoView_def stored_db)
qed

theorem flush_view_correct_witness:
  "\<exists>db'. dbPutUtxoView toyParse sampleView db0 = Inr db'
     \<and> dbFetchUtxoEntry toyParse db' sampleOut = flushed (LookupEntry sampleView sampleOut) (dbFetchUtxoEntry toyParse db0 sampleOut)"
proof -
  have "distinct (map fst (vw_entries sampleView))" "length (op_Hash sampleOut) = HashSize"
    "\<forall>(op, entry) \<in> set (vw_entries sampleView). storable_entry entry \<and> length (op_Hash op) = HashSize"
    by (simp_all add: sampleView_def sampleOut_def storable_entry_def storable_def HashSize_def)
  with flush_view_correct[OF toyParse_law, of sampleView db0] show ?thesis by blast
qed

text \<open>\<open>commit\<close> does not mark all entries as unmodified: it flips the flag, so an entry that was loaded and not modified is marked as
  modified afterwards, while entries that were modified and spent are gone.\<close>

theorem commit_flips_modified:
  assumes "distinct (map fst (vw_entries view))" and "LookupEntry view op = Some e"
  shows "LookupEntry (commit view) op =
    (if ue_isModified e \<and> ue_IsSpent e then None else Some (e\<lparr>ue_packedFlags := ue_packedFlags e XOR tfModified\<rparr>))
   \<and> (\<not> ue_isModified e \<longrightarrow> ue_isModified (the (LookupEntry (commit view) op)))"
proof -
  let ?f = "\<lambda>(outpoint, entry). case entry of None \<Rightarrow> [] | Some e \<Rightarrow> if ue_isModified e \<and> ue_IsSpent e then []
                   else [(outpoint, Some (e\<lparr>ue_packedFlags := ue_packedFlags e XOR tfModified\<rparr>))]"
  have none: "map_of (concat (map ?f es)) op = None" if "op \<notin> fst ` set es" for es op
    using that by (induction es) (auto split: option.split if_splits prod.splits)
  have "map_of (concat (map ?f es)) op = (if ue_isModified e \<and> ue_IsSpent e then None else Some (Some (e\<lparr>ue_packedFlags := ue_packedFlags e XOR tfModified\<rparr>)))"
    if "distinct (map fst es)" "map_of es op = Some (Some e)" for es
    using that
  proof (induction es)
    case (Cons x es)
    show ?case
    proof (cases "fst x = op")
      case True
      with Cons.prems have "snd x = Some e" "op \<notin> fst ` set es" by (auto simp: image_iff split: if_splits)
      with True none[of op es] show ?thesis by (cases x) auto
    next
      case False
      with Cons show ?thesis by (cases x) (auto split: option.split)
    qed
  qed simp
  from this[OF assms(1)] assms(2) show ?thesis
    by (auto simp: LookupEntry_def commit_def flag_bits bit_simps split: option.splits if_splits)
qed

theorem commit_flips_modified_witness:
  "ue_isModified (the (LookupEntry (commit sampleView) sampleOut))"
proof -
  have "distinct (map fst (vw_entries sampleView))" by (simp add: sampleView_def)
  moreover have "LookupEntry sampleView sampleOut = Some \<lparr>ue_amount = 70, ue_pkScript = [OP_1], ue_blockHeight = 3, ue_packedFlags = 0\<rparr>"
    by (simp add: sampleView_def LookupEntry_def)
  ultimately show ?thesis
    using commit_flips_modified[of sampleView sampleOut] by (simp add: flag_bits)
qed

end
