(* ===== verification/ChainThreshold.thy ===== *)
theory ChainThreshold
  imports ChainNode "HOL-Library.Signed_Division"
begin

text \<open>
  Voting on rule changes: \<open>src/pkg/chain/thresholdstate.go\<close> and \<open>versionbits.go\<close>. The state of a deployment changes only at
  the ends of windows of \<open>MinerConfirmationWindow\<close> blocks. \<open>thresholdState\<close> walks back to a window whose state is in the
  cache and then forward again. A condition checker is a record of the methods of the interface
  \<open>thresholdConditionChecker\<close>; the method \<open>Condition\<close> may change a state of its own, since the checker for unknown rules
  uses the caches of the known deployments.

  The specification is the recursion over windows of BIP 9. The code stops walking back at the first window whose median time is before
  the start time, which agrees with the recursion because median times never decrease along a chain whose blocks
  are later than the median time of their parent (\<open>checkBlockHeaderContext\<close> requires this).
\<close>

section \<open>The state of a deployment\<close>

datatype ThresholdState = ThresholdDefined | ThresholdStarted | ThresholdLockedIn | ThresholdActive | ThresholdFailed

record 's checker =
  ck_BeginTime :: u64
  ck_EndTime :: u64
  ck_RuleChangeActivationThreshold :: u32
  ck_MinerConfirmationWindow :: u32
  ck_Condition :: "BlockNode \<Rightarrow> 's \<Rightarrow> bool cres \<times> 's"

type_synonym thresholdStateCache = "bytes \<rightharpoonup> ThresholdState"

definition newThresholdCaches :: "nat \<Rightarrow> thresholdStateCache list" where
  "newThresholdCaches numCaches = replicate numCaches Map.empty"

definition medianTimeUnix :: "BlockNode \<Rightarrow> u64" where
  "medianTimeUnix node = word_of_int (CalcPastMedianTime node)"

text \<open>
  The loop back through the windows: where it stopped, the cache, and the nodes whose state is needed, latest first. The caller has
  divided by the window size, so that the loop is not entered with a window of size zero, for which it would not end.
\<close>

lemma walkTo_size: "walkTo h n = Some m \<Longrightarrow> h \<noteq> nd_height n \<Longrightarrow> size m < size n"
proof (induction h n arbitrary: m rule: walkTo.induct)
  case (1 h n)
  from 1(2,3) obtain p where p: "nd_parent n = Some p" "walkTo h p = Some m"
    by (subst (asm) walkTo.simps) (auto split: option.splits if_splits)
  have "size p < size n" by (rule size_parent[OF p(1)])
  moreover have "size m \<le> size p"
  proof (cases "h = nd_height p")
    case True
    with p(2) have "m = p" by (subst (asm) walkTo.simps) simp
    then show ?thesis by simp
  next
    case False
    with 1(1)[OF _ p(1) p(2)] 1(3) show ?thesis by simp
  qed
  ultimately show ?case by simp
qed

lemma RelativeAncestor_size [termination_simp]:
  assumes "RelativeAncestor n w = Some m" and "w mod 2 ^ 32 \<noteq> 0"
  shows "size m < size n"
proof -
  have "s32 (nd_height n - w) \<noteq> nd_height n"
  proof
    assume "s32 (nd_height n - w) = nd_height n"
    then have "(nd_height n - w + 2 ^ 31) mod 2 ^ 32 = nd_height n + 2 ^ 31" by (simp add: s32_def)
    then have "(nd_height n + 2 ^ 31) mod 2 ^ 32 = (nd_height n - w + 2 ^ 31) mod 2 ^ 32"
      by (metis mod_mod_trivial)
    then have "(2::int) ^ 32 dvd (nd_height n + 2 ^ 31) - (nd_height n - w + 2 ^ 31)"
      by (metis mod_eq_dvd_iff)
    then show False using assms(2) by (simp add: dvd_eq_mod_eq_0)
  qed
  with assms(1) show ?thesis
    by (auto simp: RelativeAncestor_def Ancestor_def split: if_splits intro: walkTo_size)
qed

function windowLoop ::
  "int \<Rightarrow> u64 \<Rightarrow> BlockNode option \<Rightarrow> thresholdStateCache \<Rightarrow> BlockNode list
     \<Rightarrow> BlockNode option \<times> thresholdStateCache \<times> BlockNode list" where
  "windowLoop w beginTime None cache neededStates = (None, cache, neededStates)"
| "windowLoop w beginTime (Some prevNode) cache neededStates =
     (if cache (nd_hash prevNode) \<noteq> None \<or> w mod 2 ^ 32 = 0 then (Some prevNode, cache, neededStates)
      else if medianTimeUnix prevNode < beginTime
           then (Some prevNode, cache(nd_hash prevNode \<mapsto> ThresholdDefined), neededStates)
      else windowLoop w beginTime (RelativeAncestor prevNode w) cache (neededStates @ [prevNode]))"
  by pat_completeness auto
termination
proof (relation "measure (\<lambda>(w, b, n, c, ns). case n of None \<Rightarrow> 0 | Some m \<Rightarrow> Suc (size m))", goal_cases)
  case (2 w b n c ns)
  then show ?case by (cases "RelativeAncestor n w") (auto dest: RelativeAncestor_size)
qed simp

text \<open>The loop that counts the votes of one window; the condition of a nil node panics.\<close>

fun voteLoop :: "'s checker \<Rightarrow> nat \<Rightarrow> BlockNode option \<Rightarrow> u32 \<Rightarrow> 's \<Rightarrow> u32 cres \<times> 's" where
  "voteLoop c 0 countNode count s = (Inr count, s)"
| "voteLoop c (Suc k) None count s = (Inl GoPanic, s)"
| "voteLoop c (Suc k) (Some countNode) count s =
     (case ck_Condition c countNode s of
        (Inl e, s') \<Rightarrow> (Inl e, s')
      | (Inr condition, s') \<Rightarrow> voteLoop c k (nd_parent countNode) (if condition then count + 1 else count) s')"

definition nextState :: "'s checker \<Rightarrow> int \<Rightarrow> ThresholdState \<Rightarrow> BlockNode \<Rightarrow> 's \<Rightarrow> ThresholdState cres \<times> 's" where
  "nextState c confirmationWindow state prevNode s =
     (case state of
        ThresholdDefined \<Rightarrow>
          (Inr (if medianTimeUnix prevNode \<ge> ck_EndTime c then ThresholdFailed
                else if medianTimeUnix prevNode \<ge> ck_BeginTime c then ThresholdStarted
                else ThresholdDefined), s)
      | ThresholdStarted \<Rightarrow>
          if medianTimeUnix prevNode \<ge> ck_EndTime c then (Inr ThresholdFailed, s)
          else (case voteLoop c (nat confirmationWindow) (Some prevNode) 0 s of
                  (Inl e, s') \<Rightarrow> (Inl e, s')
                | (Inr count, s') \<Rightarrow>
                    (Inr (if count \<ge> ck_RuleChangeActivationThreshold c then ThresholdLockedIn else ThresholdStarted), s'))
      | ThresholdLockedIn \<Rightarrow> (Inr ThresholdActive, s)
      | ThresholdActive \<Rightarrow> (Inr ThresholdActive, s)
      | ThresholdFailed \<Rightarrow> (Inr ThresholdFailed, s))"

fun stateLoop ::
  "'s checker \<Rightarrow> int \<Rightarrow> ThresholdState \<Rightarrow> BlockNode list \<Rightarrow> thresholdStateCache \<Rightarrow> 's
     \<Rightarrow> ThresholdState cres \<times> thresholdStateCache \<times> 's" where
  "stateLoop c w state [] cache s = (Inr state, cache, s)"
| "stateLoop c w state (prevNode # rest) cache s =
     (case nextState c w state prevNode s of
        (Inl e, s') \<Rightarrow> (Inl e, cache, s')
      | (Inr state', s') \<Rightarrow> stateLoop c w state' rest (cache(nd_hash prevNode \<mapsto> state')) s')"

definition thresholdState ::
  "'s checker \<Rightarrow> BlockNode option \<Rightarrow> thresholdStateCache \<Rightarrow> 's
     \<Rightarrow> ThresholdState cres \<times> thresholdStateCache \<times> 's" where
  "thresholdState c prevNode cache s =
     (let confirmationWindow = sint (ck_MinerConfirmationWindow c) in
      case prevNode of
        None \<Rightarrow> (Inr ThresholdDefined, cache, s)
      | Some n \<Rightarrow>
          if s32 (nd_height n + 1) < confirmationWindow then (Inr ThresholdDefined, cache, s)
          else if confirmationWindow = 0 then (Inl GoPanic, cache, s)
          else
            let start = Ancestor n (s32 (nd_height n - s32 (nd_height n + 1) smod confirmationWindow));
                (stop, cache', neededStates) = windowLoop confirmationWindow (ck_BeginTime c) start cache []
            in case stop of
                 None \<Rightarrow> stateLoop c confirmationWindow ThresholdDefined (rev neededStates) cache' s
               | Some m \<Rightarrow>
                   (case cache' (nd_hash m) of
                      None \<Rightarrow> (Inl AssertError, cache', s)
                    | Some state \<Rightarrow> stateLoop c confirmationWindow state (rev neededStates) cache' s))"

section \<open>The checkers\<close>

definition vbTopBits :: u32 where "vbTopBits = 0x20000000"
definition vbTopMask :: u32 where "vbTopMask = 0xe0000000"
definition vbNumBits :: nat where "vbNumBits = 29"

definition deploymentChecker :: "Params \<Rightarrow> ConsensusDeployment \<Rightarrow> 's checker" where
  "deploymentChecker prm deployment =
     \<lparr>ck_BeginTime = StartTime deployment, ck_EndTime = ExpireTime deployment,
      ck_RuleChangeActivationThreshold = RuleChangeActivationThreshold prm,
      ck_MinerConfirmationWindow = MinerConfirmationWindow prm,
      ck_Condition = (\<lambda>node s.
        let conditionMask = push_bit (unat (BitNumber deployment)) 1;
            version = nd_version node
        in (Inr (version AND vbTopMask = vbTopBits \<and> version AND conditionMask \<noteq> 0), s))\<rparr>"

definition deploymentState ::
  "Params \<Rightarrow> BlockNode option \<Rightarrow> nat \<Rightarrow> thresholdStateCache list \<Rightarrow> ThresholdState cres \<times> thresholdStateCache list" where
  "deploymentState prm prevNode deploymentID deploymentCaches =
     (if deploymentID > length (Deployments prm) then (Inl (DeploymentError deploymentID), deploymentCaches)
      else if deploymentID \<ge> length (Deployments prm) \<or> deploymentID \<ge> length deploymentCaches
           then (Inl GoPanic, deploymentCaches)
      else let (r, cache', _) = thresholdState (deploymentChecker prm (Deployments prm ! deploymentID)) prevNode
                                  (deploymentCaches ! deploymentID) ()
           in (r, deploymentCaches[deploymentID := cache']))"

definition IsDeploymentActive ::
  "Params \<Rightarrow> BlockNode option \<Rightarrow> nat \<Rightarrow> thresholdStateCache list \<Rightarrow> bool cres \<times> thresholdStateCache list" where
  "IsDeploymentActive prm tip deploymentID caches =
     (let (r, caches') = deploymentState prm tip deploymentID caches in
      (bindE r (\<lambda>state. Inr (state = ThresholdActive)), caches'))"

text \<open>The expected version of the block after \<open>prevNode\<close>; the loop over the deployments.\<close>

fun versionLoop ::
  "Params \<Rightarrow> BlockNode option \<Rightarrow> nat list \<Rightarrow> u32 \<Rightarrow> thresholdStateCache list \<Rightarrow> u32 cres \<times> thresholdStateCache list" where
  "versionLoop prm prevNode [] expectedVersion caches = (Inr expectedVersion, caches)"
| "versionLoop prm prevNode (i # ids) expectedVersion caches =
     (if i \<ge> length caches then (Inl GoPanic, caches)
      else let deployment = Deployments prm ! i;
               (r, cache', _) = thresholdState (deploymentChecker prm deployment) prevNode (caches ! i) ();
               caches' = caches[i := cache']
           in case r of
                Inl e \<Rightarrow> (Inl e, caches')
              | Inr state \<Rightarrow>
                  versionLoop prm prevNode ids
                    (if state = ThresholdStarted \<or> state = ThresholdLockedIn
                     then expectedVersion OR push_bit (unat (BitNumber deployment)) 1 else expectedVersion) caches')"

definition calcNextBlockVersion ::
  "Params \<Rightarrow> BlockNode option \<Rightarrow> thresholdStateCache list \<Rightarrow> u32 cres \<times> thresholdStateCache list" where
  "calcNextBlockVersion prm prevNode caches = versionLoop prm prevNode [0..<length (Deployments prm)] vbTopBits caches"

definition bitConditionChecker :: "Params \<Rightarrow> nat \<Rightarrow> thresholdStateCache list checker" where
  "bitConditionChecker prm b =
     \<lparr>ck_BeginTime = 0, ck_EndTime = 2 ^ 64 - 1,
      ck_RuleChangeActivationThreshold = RuleChangeActivationThreshold prm,
      ck_MinerConfirmationWindow = MinerConfirmationWindow prm,
      ck_Condition = (\<lambda>node caches.
        let conditionMask = push_bit b 1;
            version = nd_version node
        in if version AND vbTopMask \<noteq> vbTopBits then (Inr False, caches)
           else if version AND conditionMask = 0 then (Inr False, caches)
           else let (r, caches') = calcNextBlockVersion prm (nd_parent node) caches
                in (bindE r (\<lambda>expectedVersion. Inr (expectedVersion AND conditionMask = 0)), caches'))\<rparr>"

text \<open>The caches of the chain and whether a warning about unknown rules has been given.\<close>

record ruleState =
  warningCaches :: "thresholdStateCache list"
  deploymentCaches :: "thresholdStateCache list"
  unknownRulesWarned :: bool

fun warnLoop :: "Params \<Rightarrow> BlockNode \<Rightarrow> nat list \<Rightarrow> ruleState \<Rightarrow> unit cres \<times> ruleState" where
  "warnLoop prm node [] rs = (Inr (), rs)"
| "warnLoop prm node (b # bits) rs =
     (if b \<ge> length (warningCaches rs) then (Inl GoPanic, rs)
      else let (r, cache', dep) = thresholdState (bitConditionChecker prm b) (nd_parent node)
                                    (warningCaches rs ! b) (deploymentCaches rs);
               rs' = rs\<lparr>warningCaches := (warningCaches rs)[b := cache'], deploymentCaches := dep\<rparr>
           in case r of
                Inl e \<Rightarrow> (Inl e, rs')
              | Inr state \<Rightarrow> warnLoop prm node bits (if state = ThresholdActive then rs'\<lparr>unknownRulesWarned := True\<rparr> else rs'))"

definition warnUnknownRuleActivations :: "Params \<Rightarrow> BlockNode \<Rightarrow> ruleState \<Rightarrow> unit cres \<times> ruleState" where
  "warnUnknownRuleActivations prm node rs = warnLoop prm node [0..<vbNumBits] rs"

section \<open>Median times do not decrease\<close>

lemma sorted_nth_ge:
  assumes "sorted xs" and "k < length xs" and "length (filter (\<lambda>x. x < m) xs) \<le> k"
  shows "m \<le> (xs ! k :: int)"
proof (rule ccontr)
  assume "\<not> m \<le> xs ! k"
  then have "x < m" if "x \<in> set (take (Suc k) xs)" for x
    using that assms(1,2) by (auto simp: in_set_conv_nth sorted_iff_nth_mono) (smt (verit) less_Suc_eq_le order_trans)
  then have "filter (\<lambda>x. x < m) (take (Suc k) xs) = take (Suc k) xs" by (simp add: filter_id_conv)
  then have "Suc k \<le> length (filter (\<lambda>x. x < m) (take (Suc k) xs @ drop (Suc k) xs))"
    using assms(2) by (simp only: filter_append length_append) simp
  with assms(3) show False by simp
qed

lemma filter_less_nth:
  assumes "sorted xs" and "k < length xs"
  shows "length (filter (\<lambda>x. x < (xs ! k :: int)) xs) \<le> k"
proof -
  have "\<not> x < xs ! k" if "x \<in> set (drop k xs)" for x
    using that assms by (auto simp: in_set_conv_nth sorted_iff_nth_mono not_less)
  then have "filter (\<lambda>x. x < xs ! k) (drop k xs) = []" by (simp add: filter_empty_conv)
  then have "filter (\<lambda>x. x < xs ! k) (take k xs @ drop k xs) = filter (\<lambda>x. x < xs ! k) (take k xs)"
    by (simp only: filter_append append_Nil2)
  then show ?thesis using length_filter_le[of "\<lambda>x. x < xs ! k" "take k xs"] assms(2) by simp
qed

lemma pastTimestamps_take: "pastTimestamps k x = take k (pastTimestamps (Suc k) x)"
proof (induction k arbitrary: x)
  case (Suc k)
  then show ?case by (cases x) simp_all
qed simp

lemma length_pastTimestamps: "length (pastTimestamps k x) \<le> k"
  by (induction k x rule: pastTimestamps.induct) auto

lemma median_mono:
  assumes "nd_parent n = Some p" and "CalcPastMedianTime p < nd_timestamp n"
  shows "CalcPastMedianTime p \<le> CalcPastMedianTime n"
proof -
  define A where "A = pastTimestamps medianTimeBlocks (Some p)"
  define B where "B = pastTimestamps medianTimeBlocks (Some n)"
  define m where "m = sort A ! (length A div 2)"
  have B: "B = nd_timestamp n # take 10 A" 
    using assms(1) pastTimestamps_take[of 10 "Some p"] by (simp add: A_def B_def medianTimeBlocks_def numeral_eq_Suc)
  have A: "A \<noteq> []" "length A \<le> 11"
    using length_pastTimestamps[of medianTimeBlocks "Some p"] by (simp_all add: A_def medianTimeBlocks_def numeral_eq_Suc)
  have m: "CalcPastMedianTime p = m" by (simp add: CalcPastMedianTime_def A_def m_def Let_def)
  have half: "length A div 2 < length (sort A)" using A(1) by (cases A) auto
  have "length (filter (\<lambda>x. x < m) (sort B)) = length (filter (\<lambda>x. x < m) B)" by (simp add: filter_sort)
  also have "\<dots> = length (filter (\<lambda>x. x < m) (take 10 A))" using assms(2) by (simp add: B m)
  also have "\<dots> \<le> length (filter (\<lambda>x. x < m) (take 10 A @ drop 10 A))" by (simp only: filter_append length_append)
  also have "\<dots> = length (filter (\<lambda>x. x < m) (sort A))" by (simp add: filter_sort)
  also have "\<dots> \<le> length A div 2" unfolding m_def by (rule filter_less_nth[OF _ half]) simp
  also have "\<dots> \<le> length B div 2" using A(2) by (simp add: B div_le_mono)
  finally have "m \<le> sort B ! (length B div 2)" by (intro sorted_nth_ge[OF sorted_sort]) (simp_all add: B)
  then show ?thesis unfolding m by (simp add: CalcPastMedianTime_def Let_def B_def)
qed

text \<open>Blocks later than the median time of their parent, with times that fit 64 bits.\<close>

definition valid_times :: "BlockNode \<Rightarrow> bool" where
  "valid_times n \<longleftrightarrow> (\<forall>m \<in> set (chainOf n). 0 \<le> nd_timestamp m \<and> nd_timestamp m < 2 ^ 63
     \<and> (case nd_parent m of None \<Rightarrow> True | Some p \<Rightarrow> CalcPastMedianTime p < nd_timestamp m))"

lemma pastTimestamps_subset: "set (pastTimestamps k (Some n)) \<subseteq> nd_timestamp ` set (chainOf n)"
proof (induction k arbitrary: n)
  case (Suc k)
  show ?case
  proof (cases "nd_parent n")
    case None
    then have "pastTimestamps k (nd_parent n) = []" by (cases k) auto
    then show ?thesis by simp
  next
    case (Some p)
    with Suc[of p] show ?thesis by (auto simp: chainOf_Some)
  qed
qed simp

lemma median_in_chain: "CalcPastMedianTime n \<in> nd_timestamp ` set (chainOf n)"
proof -
  let ?T = "pastTimestamps medianTimeBlocks (Some n)"
  have "?T \<noteq> []" by (simp add: medianTimeBlocks_def numeral_eq_Suc)
  then have "length ?T div 2 < length ?T" by (cases ?T) auto
  then have "CalcPastMedianTime n \<in> set ?T"
    unfolding CalcPastMedianTime_def Let_def by (metis length_sort nth_mem set_sort)
  then show ?thesis using pastTimestamps_subset[of medianTimeBlocks n] by auto
qed

lemma valid_times_median: "valid_times n \<Longrightarrow> 0 \<le> CalcPastMedianTime n \<and> CalcPastMedianTime n < 2 ^ 63"
  using median_in_chain[of n] by (auto simp: valid_times_def)

lemma chain_parent:
  "Suc i < length (chainOf n) \<Longrightarrow> nd_parent (chainOf n ! Suc i) = Some (chainOf n ! i)"
proof -
  assume i: "Suc i < length (chainOf n)"
  let ?m = "chainOf n ! Suc i"
  have c: "chainOf ?m = take (Suc (Suc i)) (chainOf n)" by (rule chainOf_nth[OF i])
  show ?thesis
  proof (cases "nd_parent ?m")
    case None
    then have "length (chainOf ?m) = 1" by (simp add: chainOf_None)
    with c i show ?thesis by simp
  next
    case (Some q)
    then have "chainOf q @ [?m] = take (Suc i) (chainOf n) @ [?m]"
      using c i by (simp add: chainOf_Some take_Suc_conv_app_nth)
    then have "chainOf q = take (Suc i) (chainOf n)" by simp
    then have "last (chainOf q) = chainOf n ! i" using i by (simp add: take_Suc_conv_app_nth)
    with Some show ?thesis by simp
  qed
qed

lemma valid_times_nth: "valid_times n \<Longrightarrow> m \<in> set (chainOf n) \<Longrightarrow> valid_times m"
  unfolding valid_times_def by (metis chainOf_nth in_set_conv_nth in_set_takeD)

lemma median_chain_mono:
  assumes "valid_times n" and "i \<le> j" and "j < length (chainOf n)"
  shows "medianTimeUnix (chainOf n ! i) \<le> medianTimeUnix (chainOf n ! j)"
proof -
  have "CalcPastMedianTime (chainOf n ! i) \<le> CalcPastMedianTime (chainOf n ! j)" using assms(2,3)
  proof (induction j rule: dec_induct)
    case (step j)
    have "chainOf n ! Suc j \<in> set (chainOf n)" using step by simp
    with assms(1) have "CalcPastMedianTime (chainOf n ! j) < nd_timestamp (chainOf n ! Suc j)"
      unfolding valid_times_def using chain_parent[OF step(4)] by fastforce
    from median_mono[OF chain_parent[OF step(4)] this] step show ?case by simp
  qed simp
  moreover have "uint (medianTimeUnix (chainOf n ! k)) = CalcPastMedianTime (chainOf n ! k)" if "k \<le> j" for k
  proof -
    have "valid_times (chainOf n ! k)" using valid_times_nth[OF assms(1)] assms(3) that by simp
    then show ?thesis using valid_times_median[of "chainOf n ! k"] by (simp add: medianTimeUnix_def uint_word_of_int)
  qed
  ultimately show ?thesis using assms(2) by (simp add: word_le_def)
qed

section \<open>The recursion of BIP 9\<close>

text \<open>The state after \<open>k\<close> windows of \<open>w\<close> blocks of a chain: \<open>transition\<close> with the median time at the end of the window and its votes.\<close>

definition transition :: "'s checker \<Rightarrow> u64 \<Rightarrow> nat \<Rightarrow> ThresholdState \<Rightarrow> ThresholdState" where
  "transition c time votes st =
     (case st of
        ThresholdDefined \<Rightarrow> if time \<ge> ck_EndTime c then ThresholdFailed
                            else if time \<ge> ck_BeginTime c then ThresholdStarted else ThresholdDefined
      | ThresholdStarted \<Rightarrow> if time \<ge> ck_EndTime c then ThresholdFailed
                            else if votes \<ge> unat (ck_RuleChangeActivationThreshold c) then ThresholdLockedIn
                            else ThresholdStarted
      | ThresholdLockedIn \<Rightarrow> ThresholdActive
      | ThresholdActive \<Rightarrow> ThresholdActive
      | ThresholdFailed \<Rightarrow> ThresholdFailed)"

definition window :: "'s checker \<Rightarrow> nat" where
  "window c = unat (ck_MinerConfirmationWindow c)"

fun bip9 :: "'s checker \<Rightarrow> (BlockNode \<Rightarrow> bool) \<Rightarrow> BlockNode list \<Rightarrow> nat \<Rightarrow> ThresholdState" where
  "bip9 c vote chain 0 = ThresholdDefined"
| "bip9 c vote chain (Suc k) =
     transition c (medianTimeUnix (chain ! (Suc k * window c - 1)))
       (length (filter vote (take (window c) (drop (k * window c) chain)))) (bip9 c vote chain k)"

definition bip9_after :: "'s checker \<Rightarrow> (BlockNode \<Rightarrow> bool) \<Rightarrow> BlockNode \<Rightarrow> ThresholdState" where
  "bip9_after c vote n = bip9 c vote (chainOf n) (length (chainOf n) div window c)"

text \<open>Blocks that can be asked for: closed under ancestors, with heights, times and distinct hashes.\<close>

definition tree :: "BlockNode set \<Rightarrow> bool" where
  "tree N \<longleftrightarrow> (\<forall>n \<in> N. set (chainOf n) \<subseteq> N \<and> wf_node n \<and> valid_times n) \<and> inj_on nd_hash N"

definition checker_ok :: "'s checker \<Rightarrow> bool" where
  "checker_ok c \<longleftrightarrow> 0 < window c \<and> window c < 2 ^ 31 \<and> ck_BeginTime c \<le> ck_EndTime c"

definition cache_ok :: "'s checker \<Rightarrow> (BlockNode \<Rightarrow> bool) \<Rightarrow> BlockNode set \<Rightarrow> thresholdStateCache \<Rightarrow> bool" where
  "cache_ok c vote N cache \<longleftrightarrow> (\<forall>n \<in> N. \<forall>st. cache (nd_hash n) = Some st \<longrightarrow> st = bip9_after c vote n)"

lemma cache_ok_empty [simp]: "cache_ok c vote N Map.empty"
  by (simp add: cache_ok_def)

lemma cache_ok_update:
  assumes "tree N" "cache_ok c vote N cache" "n \<in> N"
  shows "cache_ok c vote N (cache(nd_hash n \<mapsto> bip9_after c vote n))"
  using assms by (auto simp: cache_ok_def tree_def dest: inj_onD)

lemma bip9_prefix: "0 < window c \<Longrightarrow> k * window c \<le> length xs \<Longrightarrow> bip9 c vote (xs @ ys) k = bip9 c vote xs k"
proof (induction k)
  case (Suc k)
  have k: "k * window c + window c \<le> length xs" using Suc.prems by (simp add: add.commute)
  then have "take (window c) (drop (k * window c) (xs @ ys)) = take (window c) (drop (k * window c) xs)" by simp
  moreover have "Suc k * window c - 1 < length xs" using k Suc.prems(1) by (simp add: add.commute)
  then have "(xs @ ys) ! (Suc k * window c - 1) = xs ! (Suc k * window c - 1)" by (simp only: nth_append if_True)
  ultimately show ?case using Suc k by simp
qed simp

text \<open>The last block of the \<open>i\<close>-th window.\<close>

definition window_end :: "'s checker \<Rightarrow> BlockNode \<Rightarrow> nat \<Rightarrow> BlockNode" where
  "window_end c n i = chainOf n ! (i * window c - 1)"

lemma window_end_props:
  assumes "checker_ok c" "wf_node n" "0 < i" "i * window c \<le> length (chainOf n)"
  shows "window_end c n i \<in> set (chainOf n)"
    and "chainOf (window_end c n i) = take (i * window c) (chainOf n)"
    and "bip9_after c vote (window_end c n i) = bip9 c vote (chainOf n) i"
    and "RelativeAncestor (window_end c n i) (int (window c)) = (if i = 1 then None else Some (window_end c n (i - 1)))"
proof -
  let ?W = "window c" and ?e = "window_end c n i"
  have W: "0 < ?W" "?W < 2 ^ 31" "0 < i * ?W" "?W \<le> i * ?W" using assms by (auto simp: checker_ok_def)
  have len: "i * ?W - 1 < length (chainOf n)" using assms(4) W by linarith
  then show mem: "?e \<in> set (chainOf n)" by (simp add: window_end_def)
  show ch: "chainOf ?e = take (i * ?W) (chainOf n)"
    using chainOf_nth[OF len] W by (simp add: window_end_def)
  have "bip9 c vote (take (i * ?W) (chainOf n) @ drop (i * ?W) (chainOf n)) i = bip9 c vote (take (i * ?W) (chainOf n)) i"
    using assms(4) by (intro bip9_prefix W) simp
  then show "bip9_after c vote ?e = bip9 c vote (chainOf n) i"
    using assms(4) W by (simp add: bip9_after_def ch)
  have wf: "wf_node ?e" using wf_nth(1)[OF assms(2) mem] .
  have h: "nd_height ?e = int (i * ?W) - 1" using wf_height[OF wf] assms(4) by (simp add: ch min_absorb2)
  have r: "int (i * ?W) < 2 ^ 31" using assms(2,4) unfolding wf_node_def by (simp del: of_nat_mult)
  have s: "s32 (nd_height ?e - int ?W) = int (i * ?W) - int ?W - 1" using r W unfolding h by simp
  show "RelativeAncestor ?e (int ?W) = (if i = 1 then None else Some (window_end c n (i - 1)))"
  proof (cases "i = 1")
    case True
    then show ?thesis unfolding RelativeAncestor_def s by (simp add: Ancestor_def)
  next
    case False
    then have i2: "2 \<le> i" using assms(3) by simp
    then have "2 * ?W \<le> i * ?W" by simp
    moreover have "int (i * ?W) - int ?W = int ((i - 1) * ?W)" using i2 by (simp add: of_nat_diff algebra_simps)
    then have eq: "nat (int (i * ?W) - int ?W - 1) = (i - 1) * ?W - 1" by linarith
    ultimately have "Ancestor ?e (int (i * ?W) - int ?W - 1) = Some (chainOf ?e ! ((i - 1) * ?W - 1))"
      using W unfolding Ancestor_chain[OF wf] h eq by simp
    moreover have "(i - 1) * ?W - 1 < i * ?W" using W by (simp add: left_diff_distrib')
    then have "chainOf ?e ! ((i - 1) * ?W - 1) = window_end c n (i - 1)" unfolding ch window_end_def[of c n "i - 1"] by simp
    ultimately show ?thesis using False unfolding RelativeAncestor_def s by simp
  qed
qed

lemma bip9_defined:
  assumes "checker_ok c" "valid_times n" "0 < i" "i * window c \<le> length (chainOf n)"
    and "medianTimeUnix (window_end c n i) < ck_BeginTime c"
  shows "bip9 c vote (chainOf n) i = ThresholdDefined"
  using assms(3-5)
proof (induction i)
  case (Suc k)
  let ?W = "window c"
  have W: "0 < ?W" using assms(1) by (simp add: checker_ok_def)
  have "bip9 c vote (chainOf n) k = ThresholdDefined"
  proof (cases "k = 0")
    case False
    have "medianTimeUnix (window_end c n k) \<le> medianTimeUnix (window_end c n (Suc k))"
      unfolding window_end_def using Suc.prems(2) W by (intro median_chain_mono[OF assms(2)]) (simp_all add: diff_le_mono)
    with Suc.prems(3) have "medianTimeUnix (window_end c n k) < ck_BeginTime c" by simp
    with Suc.IH Suc.prems(2) False show ?thesis by simp
  qed simp
  with Suc.prems(3) assms(1) show ?case by (auto simp: transition_def window_end_def checker_ok_def)
qed simp

lemma windowLoop_spec:
  assumes "checker_ok c" "tree N" "n \<in> N" "cache_ok c vote N cache" "k * window c \<le> length (chainOf n)"
  shows "\<exists>j cache'. j \<le> k
    \<and> windowLoop (int (window c)) (ck_BeginTime c) (if k = 0 then None else Some (window_end c n k)) cache acc
       = (if j = 0 then None else Some (window_end c n j), cache', acc @ rev (map (window_end c n) [Suc j..<Suc k]))
    \<and> cache_ok c vote N cache'
    \<and> (0 < j \<longrightarrow> cache' (nd_hash (window_end c n j)) = Some (bip9 c vote (chainOf n) j))"
  using assms(4,5)
proof (induction k arbitrary: acc)
  case 0
  then show ?case by (intro exI[of _ 0] exI[of _ cache]) simp
next
  case (Suc k)
  let ?e = "window_end c n (Suc k)"
  have n: "set (chainOf n) \<subseteq> N" "wf_node n" "valid_times n" using assms(2,3) by (auto simp: tree_def)
  note e = window_end_props[OF assms(1) n(2) zero_less_Suc Suc.prems(2)]
  have eN: "?e \<in> N" using e(1) n(1) by auto
  have W: "int (window c) mod 2 ^ 32 \<noteq> 0" using assms(1) by (simp add: checker_ok_def)
  consider "cache (nd_hash ?e) \<noteq> None" | "cache (nd_hash ?e) = None" "medianTimeUnix ?e < ck_BeginTime c"
    | "cache (nd_hash ?e) = None" "\<not> medianTimeUnix ?e < ck_BeginTime c" by blast
  then show ?case
  proof cases
    case 1
    then have "cache (nd_hash ?e) = Some (bip9 c vote (chainOf n) (Suc k))"
      using Suc.prems(1) eN e(3)[of vote] unfolding cache_ok_def by fastforce
    with 1 Suc.prems show ?thesis by (intro exI[of _ "Suc k"] exI[of _ cache]) simp
  next
    case 2
    have "bip9 c vote (chainOf n) (Suc k) = ThresholdDefined"
      using bip9_defined[OF assms(1) n(3) _ Suc.prems(2) 2(2)] by simp
    with e(3)[of vote] have d: "bip9_after c vote ?e = ThresholdDefined" by simp
    define new where "new = cache(nd_hash ?e \<mapsto> ThresholdDefined)"
    have "cache_ok c vote N new" using cache_ok_update[OF assms(2) Suc.prems(1) eN] by (simp add: d new_def)
    moreover have "windowLoop (int (window c)) (ck_BeginTime c) (Some ?e) cache acc = (Some ?e, new, acc)"
      using 2 W by (simp add: new_def)
    moreover have "new (nd_hash ?e) = Some (bip9 c vote (chainOf n) (Suc k))" using d e(3)[of vote] by (simp add: new_def)
    ultimately show ?thesis by (intro exI[of _ "Suc k"] exI[of _ new]) simp
  next
    case 3
    from Suc.IH[OF Suc.prems(1), of "acc @ [?e]"] Suc.prems(2) obtain j cache' where j: "j \<le> k"
      "windowLoop (int (window c)) (ck_BeginTime c) (if k = 0 then None else Some (window_end c n k)) cache (acc @ [?e])
       = (if j = 0 then None else Some (window_end c n j), cache', (acc @ [?e]) @ rev (map (window_end c n) [Suc j..<Suc k]))"
      "cache_ok c vote N cache'"
      "0 < j \<longrightarrow> cache' (nd_hash (window_end c n j)) = Some (bip9 c vote (chainOf n) j)" by auto
    have "windowLoop (int (window c)) (ck_BeginTime c) (Some ?e) cache acc
       = windowLoop (int (window c)) (ck_BeginTime c) (RelativeAncestor ?e (int (window c))) cache (acc @ [?e])"
      using 3 W by simp
    also have "RelativeAncestor ?e (int (window c)) = (if k = 0 then None else Some (window_end c n k))" using e(4) by simp
    finally show ?thesis using j by (intro exI[of _ j] exI[of _ cache']) simp
  qed
qed

lemma window_sint:
  assumes "checker_ok c"
  shows "0 < window c" and "sint (ck_MinerConfirmationWindow c) = int (window c)"
proof -
  have "window c < 2 ^ 31" using assms by (simp add: checker_ok_def)
  then have "int (unat (ck_MinerConfirmationWindow c)) < int (2 ^ 31)" unfolding window_def by (simp only: of_nat_less_iff)
  then have "uint (ck_MinerConfirmationWindow c) < 2 ^ 31" by simp
  then have "sint (ck_MinerConfirmationWindow c) = uint (ck_MinerConfirmationWindow c)"
    unfolding sint_uint by (intro signed_take_bit_int_eq_self) (auto intro: order_trans[of _ "0 :: int"])
  then show "sint (ck_MinerConfirmationWindow c) = int (window c)" by (simp add: window_def)
qed (use assms in \<open>simp add: checker_ok_def\<close>)

lemma window_start:
  assumes "0 < window c" "wf_node n" "nd_height n = int (length (chainOf n)) - 1" "window c \<le> length (chainOf n)"
  shows "Ancestor n (s32 (nd_height n - int (length (chainOf n)) smod int (window c)))
      = Some (window_end c n (length (chainOf n) div window c))"
proof -
  let ?W = "window c" and ?L = "length (chainOf n)"
  have "?L mod ?W + ?L div ?W * ?W = ?L" by (rule mod_mult_div_eq[of ?L ?W, unfolded mult.commute[of ?W]])
  then have "int (?L mod ?W) + int (?L div ?W * ?W) = int ?L" by linarith
  moreover have "int ?L smod int ?W = int (?L mod ?W)" by (simp add: signed_modulo_int_def of_nat_mod)
  ultimately have eq: "nd_height n - int ?L smod int ?W = int (?L div ?W * ?W) - 1" using assms(3) by linarith
  have pos: "0 < ?L div ?W * ?W" "?L div ?W * ?W \<le> ?L" using assms(1,4) by (auto simp: div_greater_zero_iff)
  have "int ?L < 2 ^ 31" using assms(2) by (simp add: wf_node_def)
  then have "s32 (int (?L div ?W * ?W) - 1) = int (?L div ?W * ?W) - 1" using pos by (intro s32_id) linarith+
  moreover have "nat (int (?L div ?W * ?W) - 1) = ?L div ?W * ?W - 1" by linarith
  moreover have "int (?L div ?W * ?W) - 1 \<le> nd_height n" "0 \<le> int (?L div ?W * ?W) - 1" using pos assms(3) by linarith+
  ultimately show ?thesis unfolding eq Ancestor_chain[OF assms(2)] window_end_def by (simp only: if_True simp_thms)
qed

section \<open>Any checker\<close>

text \<open>
  What \<open>thresholdState\<close> relies on of a checker: on the blocks of a tree, the condition gives a vote that does not depend on the state of the
  checker, and keeps an invariant of that state.
\<close>

locale condition_checker =
  fixes c :: "'s checker" and inv :: "BlockNode set \<Rightarrow> 's \<Rightarrow> bool" and vote :: "BlockNode \<Rightarrow> bool"
  assumes condition: "tree N \<Longrightarrow> n \<in> N \<Longrightarrow> inv N s \<Longrightarrow> \<exists>s'. ck_Condition c n s = (Inr (vote n), s') \<and> inv N s'"
begin

lemma voteLoop_spec:
  assumes "tree N" "m \<in> N" "inv N s" "k \<le> length (chainOf m)"
  shows "\<exists>s'. voteLoop c k (Some m) count s
      = (Inr (count + of_nat (length (filter vote (drop (length (chainOf m) - k) (chainOf m))))), s') \<and> inv N s'"
  using assms(2-4)
proof (induction k arbitrary: m count s)
  case (Suc k)
  from condition[OF assms(1) Suc.prems(1,2)] obtain s1 where
    c: "ck_Condition c m s = (Inr (vote m), s1)" "inv N s1" by blast
  show ?case
  proof (cases "nd_parent m")
    case None
    with Suc.prems(3) have "k = 0" by (simp add: chainOf_None)
    with c None show ?thesis by (simp add: chainOf_None)
  next
    case (Some p)
    have "set (chainOf m) \<subseteq> N" using assms(1) Suc.prems(1) by (simp add: tree_def)
    then have p: "p \<in> N" using Some by (auto simp: chainOf_Some)
    from Suc.IH[OF p c(2), of "if vote m then count + 1 else count"] Suc.prems(3) Some
    show ?thesis using c(1) by (auto simp: chainOf_Some algebra_simps)
  qed
qed simp

lemma nextState_spec:
  assumes "checker_ok c" "tree N" "n \<in> N" "inv N s" "Suc k * window c \<le> length (chainOf n)"
  shows "\<exists>s'. nextState c (int (window c)) (bip9 c vote (chainOf n) k) (window_end c n (Suc k)) s
      = (Inr (bip9 c vote (chainOf n) (Suc k)), s') \<and> inv N s'"
proof -
  let ?W = "window c" and ?e = "window_end c n (Suc k)"
  let ?votes = "length (filter vote (take ?W (drop (k * ?W) (chainOf n))))"
  have n: "set (chainOf n) \<subseteq> N" "wf_node n" using assms(2,3) by (auto simp: tree_def)
  note e = window_end_props[OF assms(1) n(2) zero_less_Suc assms(5)]
  have eN: "?e \<in> N" using e(1) n(1) by auto
  have len: "length (chainOf ?e) = Suc k * ?W" using e(2) assms(5) by simp
  then have "drop (length (chainOf ?e) - ?W) (chainOf ?e) = take ?W (drop (k * ?W) (chainOf n))"
    unfolding e(2) using assms(5) by (simp add: drop_take)
  with voteLoop_spec[OF assms(2) eN assms(4), of ?W 0] len obtain s' where
    v: "voteLoop c ?W (Some ?e) 0 s = (Inr (of_nat ?votes), s')" "inv N s'" by auto
  have "?votes \<le> ?W" by (rule order_trans[OF length_filter_le]) simp
  then have "unat (of_nat ?votes :: u32) = ?votes"
    using assms(1) by (simp add: checker_ok_def unsigned_of_nat take_bit_nat_eq_self)
  then have "(of_nat ?votes \<ge> ck_RuleChangeActivationThreshold c) = (?votes \<ge> unat (ck_RuleChangeActivationThreshold c))"
    by (simp add: word_le_nat_alt)
  with v assms(4) show ?thesis
    by (cases "bip9 c vote (chainOf n) k") (auto simp: nextState_def transition_def window_end_def)
qed

lemma stateLoop_spec:
  assumes "checker_ok c" "tree N" "n \<in> N" "cache_ok c vote N cache" "inv N s" "j \<le> k" "k * window c \<le> length (chainOf n)"
  shows "\<exists>cache' s'. stateLoop c (int (window c)) (bip9 c vote (chainOf n) j) (map (window_end c n) [Suc j..<Suc k]) cache s
      = (Inr (bip9 c vote (chainOf n) k), cache', s') \<and> cache_ok c vote N cache' \<and> inv N s'"
  using assms(4-6)
proof (induction "k - j" arbitrary: j cache s)
  case 0
  then show ?case by (intro exI[of _ cache] exI[of _ s]) simp
next
  case (Suc d)
  then have jk: "j < k" "Suc j \<le> k" by simp_all
  have n: "set (chainOf n) \<subseteq> N" "wf_node n" using assms(2,3) by (auto simp: tree_def)
  have le: "Suc j * window c \<le> length (chainOf n)" using mult_le_mono1[OF jk(2), of "window c"] assms(7) by linarith
  from nextState_spec[OF assms(1-3) Suc.prems(2) le] obtain s1 where
    s1: "nextState c (int (window c)) (bip9 c vote (chainOf n) j) (window_end c n (Suc j)) s
      = (Inr (bip9 c vote (chainOf n) (Suc j)), s1)" "inv N s1" by blast
  note e = window_end_props[OF assms(1) n(2) zero_less_Suc le]
  from cache_ok_update[OF assms(2) Suc.prems(1)] e(1) e(3)[of vote] n(1)
  have "cache_ok c vote N (cache(nd_hash (window_end c n (Suc j)) \<mapsto> bip9 c vote (chainOf n) (Suc j)))" by fastforce
  from Suc.hyps(1)[OF _ this s1(2) jk(2)] Suc.hyps(2) s1(1) jk(1) show ?case
    by (simp add: upt_conv_Cons del: upt_Suc bip9.simps)
qed

theorem thresholdState_spec:
  assumes "checker_ok c" "tree N" "prev \<in> N" "cache_ok c vote N cache" "inv N s"
  shows "\<exists>cache' s'. thresholdState c (Some prev) cache s = (Inr (bip9_after c vote prev), cache', s')
      \<and> cache_ok c vote N cache' \<and> inv N s'"
proof -
  let ?W = "window c" and ?L = "length (chainOf prev)"
  have n: "wf_node prev" using assms(2,3) by (auto simp: tree_def)
  note W = window_sint[OF assms(1)]
  have h: "nd_height prev = int ?L - 1" "int ?L < 2 ^ 31 - 1" using wf_height[OF n] n by (auto simp: wf_node_def)
  have s: "s32 (nd_height prev + 1) = int ?L" using h by simp
  show ?thesis
  proof (cases "?L < ?W")
    case True
    then show ?thesis using W s assms(4,5) by (simp add: thresholdState_def bip9_after_def Let_def)
  next
    case False
    define k where "k = ?L div ?W"
    have k: "0 < k" "k * ?W \<le> ?L" using False W(1) by (auto simp: k_def div_greater_zero_iff)
    have start: "Ancestor prev (s32 (nd_height prev - s32 (nd_height prev + 1) smod int ?W)) = Some (window_end c prev k)"
      unfolding s k_def by (rule window_start[OF W(1) n h(1)]) (use False in simp)
    from windowLoop_spec[OF assms(1-4) k(2), of "[]"] k(1) obtain j cache1 where j: "j \<le> k"
      "windowLoop (int ?W) (ck_BeginTime c) (Some (window_end c prev k)) cache []
       = (if j = 0 then None else Some (window_end c prev j), cache1, rev (map (window_end c prev) [Suc j..<Suc k]))"
      "cache_ok c vote N cache1"
      "0 < j \<longrightarrow> cache1 (nd_hash (window_end c prev j)) = Some (bip9 c vote (chainOf prev) j)" by auto
    from stateLoop_spec[OF assms(1-3) j(3) assms(5) j(1) k(2)] obtain cache2 s2 where
      "stateLoop c (int ?W) (bip9 c vote (chainOf prev) j) (map (window_end c prev) [Suc j..<Suc k]) cache1 s
       = (Inr (bip9 c vote (chainOf prev) k), cache2, s2)" "cache_ok c vote N cache2" "inv N s2" by blast
    with j(2,4) start False W s show ?thesis
      by (cases "j = 0") (simp_all add: thresholdState_def Let_def bip9_after_def k_def rev_map del: upt_Suc)
  qed
qed

end

section \<open>The two checkers\<close>

definition dep_vote :: "ConsensusDeployment \<Rightarrow> BlockNode \<Rightarrow> bool" where
  "dep_vote d n \<longleftrightarrow> nd_version n AND vbTopMask = vbTopBits \<and> nd_version n AND push_bit (unat (BitNumber d)) 1 \<noteq> 0"

abbreviation dep_checker :: "Params \<Rightarrow> ConsensusDeployment \<Rightarrow> unit checker" where
  "dep_checker prm d \<equiv> deploymentChecker prm d"

interpretation deployment: condition_checker "dep_checker prm d" "\<lambda>_ _. True" "dep_vote d" for prm d
  by unfold_locales (simp add: deploymentChecker_def dep_vote_def Let_def)

text \<open>The state BIP 9 gives to a deployment for the block after \<open>prev\<close>.\<close>

definition dep_state :: "Params \<Rightarrow> ConsensusDeployment \<Rightarrow> BlockNode option \<Rightarrow> ThresholdState" where
  "dep_state prm d prev = (case prev of None \<Rightarrow> ThresholdDefined | Some n \<Rightarrow> bip9_after (dep_checker prm d) (dep_vote d) n)"

definition params_ok :: "Params \<Rightarrow> bool" where
  "params_ok prm \<longleftrightarrow> 0 < unat (MinerConfirmationWindow prm) \<and> unat (MinerConfirmationWindow prm) < 2 ^ 31
     \<and> (\<forall>d \<in> set (Deployments prm). StartTime d \<le> ExpireTime d)"

definition caches_ok :: "Params \<Rightarrow> BlockNode set \<Rightarrow> thresholdStateCache list \<Rightarrow> bool" where
  "caches_ok prm N caches \<longleftrightarrow> params_ok prm \<and> length caches = length (Deployments prm)
     \<and> (\<forall>i < length caches. cache_ok (dep_checker prm (Deployments prm ! i)) (dep_vote (Deployments prm ! i)) N (caches ! i))"

definition asked :: "BlockNode set \<Rightarrow> BlockNode option \<Rightarrow> bool" where
  "asked N prev \<longleftrightarrow> (case prev of None \<Rightarrow> True | Some n \<Rightarrow> n \<in> N)"

lemma dep_checker_ok: "params_ok prm \<Longrightarrow> d \<in> set (Deployments prm) \<Longrightarrow> checker_ok (dep_checker prm d)"
  by (simp add: checker_ok_def params_ok_def deploymentChecker_def window_def)

lemma caches_ok_new: "params_ok prm \<Longrightarrow> caches_ok prm N (newThresholdCaches (length (Deployments prm)))"
  by (simp add: caches_ok_def newThresholdCaches_def)

lemma dep_threshold:
  assumes "tree N" "asked N prev" "caches_ok prm N caches" "i < length (Deployments prm)"
  shows "\<exists>cache'. thresholdState (dep_checker prm (Deployments prm ! i)) prev (caches ! i) ()
       = (Inr (dep_state prm (Deployments prm ! i) prev), cache', ())
     \<and> caches_ok prm N (caches[i := cache'])"
proof -
  let ?d = "Deployments prm ! i"
  have i: "i < length caches" "checker_ok (dep_checker prm ?d)" "cache_ok (dep_checker prm ?d) (dep_vote ?d) N (caches ! i)"
    using assms(3,4) by (auto simp: caches_ok_def intro: dep_checker_ok)
  show ?thesis
  proof (cases prev)
    case None
    then show ?thesis using assms(3) by (simp add: thresholdState_def dep_state_def Let_def)
  next
    case (Some n)
    with assms(2) have "n \<in> N" by (simp add: asked_def)
    from deployment.thresholdState_spec[OF i(2) assms(1) this i(3)] obtain cache' where
      "thresholdState (dep_checker prm ?d) (Some n) (caches ! i) () = (Inr (bip9_after (dep_checker prm ?d) (dep_vote ?d) n), cache', ())"
      "cache_ok (dep_checker prm ?d) (dep_vote ?d) N cache'" by auto
    then show ?thesis using assms(3) Some i(1) by (auto simp: caches_ok_def dep_state_def nth_list_update)
  qed
qed

lemma deploymentState_spec:
  assumes "tree N" "asked N prev" "caches_ok prm N caches" "i < length (Deployments prm)"
  shows "\<exists>caches'. deploymentState prm prev i caches = (Inr (dep_state prm (Deployments prm ! i) prev), caches') \<and> caches_ok prm N caches'"
  using dep_threshold[OF assms] assms(3,4) by (auto simp: deploymentState_def caches_ok_def Let_def)

definition expected_version :: "Params \<Rightarrow> BlockNode option \<Rightarrow> ConsensusDeployment list \<Rightarrow> u32 \<Rightarrow> u32" where
  "expected_version prm prev ds v = foldl (\<lambda>v d. if dep_state prm d prev \<in> {ThresholdStarted, ThresholdLockedIn}
     then v OR push_bit (unat (BitNumber d)) 1 else v) v ds"

lemma versionLoop_spec:
  assumes "tree N" "asked N prev" "caches_ok prm N caches" "set ids \<subseteq> {..<length (Deployments prm)}"
  shows "\<exists>caches'. versionLoop prm prev ids v caches = (Inr (expected_version prm prev (map ((!) (Deployments prm)) ids) v), caches')
     \<and> caches_ok prm N caches'"
  using assms(3,4)
proof (induction ids arbitrary: v caches)
  case (Cons i ids)
  have i: "i < length (Deployments prm)" "i < length caches" using Cons.prems by (auto simp: caches_ok_def)
  from dep_threshold[OF assms(1,2) Cons.prems(1) i(1)] obtain cache' where
    c: "thresholdState (dep_checker prm (Deployments prm ! i)) prev (caches ! i) () = (Inr (dep_state prm (Deployments prm ! i) prev), cache', ())"
    "caches_ok prm N (caches[i := cache'])" by blast
  let ?v = "if dep_state prm (Deployments prm ! i) prev \<in> {ThresholdStarted, ThresholdLockedIn}
     then v OR push_bit (unat (BitNumber (Deployments prm ! i))) 1 else v"
  from Cons.IH[OF c(2), of ?v] Cons.prems(2) i c(1) show ?case
    by (simp add: Let_def expected_version_def)
qed (simp add: expected_version_def)

lemma calcNextBlockVersion_spec:
  assumes "tree N" "asked N prev" "caches_ok prm N caches"
  shows "\<exists>caches'. calcNextBlockVersion prm prev caches = (Inr (expected_version prm prev (Deployments prm) vbTopBits), caches')
     \<and> caches_ok prm N caches'"
  using versionLoop_spec[OF assms, of "[0..<length (Deployments prm)]" vbTopBits]
  by (simp add: calcNextBlockVersion_def map_nth subset_eq)

definition bit_vote :: "Params \<Rightarrow> nat \<Rightarrow> BlockNode \<Rightarrow> bool" where
  "bit_vote prm b n \<longleftrightarrow> nd_version n AND vbTopMask = vbTopBits \<and> nd_version n AND push_bit b 1 \<noteq> 0
     \<and> expected_version prm (nd_parent n) (Deployments prm) vbTopBits AND push_bit b 1 = 0"

lemma asked_parent: "tree N \<Longrightarrow> n \<in> N \<Longrightarrow> asked N (nd_parent n)"
proof -
  assume a: "tree N" "n \<in> N"
  then have "set (chainOf n) \<subseteq> N" by (simp add: tree_def)
  then show ?thesis by (cases "nd_parent n") (auto simp: asked_def chainOf_Some)
qed

interpretation warning: condition_checker "bitConditionChecker prm b" "caches_ok prm" "bit_vote prm b" for prm b
proof
  fix N n s
  assume a: "tree N" "n \<in> N" "caches_ok prm N s"
  from calcNextBlockVersion_spec[OF a(1) asked_parent[OF a(1,2)] a(3)] obtain s' where
    "calcNextBlockVersion prm (nd_parent n) s = (Inr (expected_version prm (nd_parent n) (Deployments prm) vbTopBits), s')"
    "caches_ok prm N s'" by blast
  with a(3) show "\<exists>s'. ck_Condition (bitConditionChecker prm b) n s = (Inr (bit_vote prm b n), s') \<and> caches_ok prm N s'"
    by (auto simp: bitConditionChecker_def bit_vote_def Let_def)
qed

text \<open>The warning about unknown rules.\<close>

definition rules_ok :: "Params \<Rightarrow> BlockNode set \<Rightarrow> ruleState \<Rightarrow> bool" where
  "rules_ok prm N rs \<longleftrightarrow> caches_ok prm N (deploymentCaches rs) \<and> length (warningCaches rs) = vbNumBits
     \<and> (\<forall>b < vbNumBits. cache_ok (bitConditionChecker prm b) (bit_vote prm b) N (warningCaches rs ! b))"

definition unknown_active :: "Params \<Rightarrow> BlockNode option \<Rightarrow> nat \<Rightarrow> bool" where
  "unknown_active prm prev b \<longleftrightarrow>
     (case prev of None \<Rightarrow> False | Some n \<Rightarrow> bip9_after (bitConditionChecker prm b) (bit_vote prm b) n = ThresholdActive)"

lemma bit_checker_ok: "params_ok prm \<Longrightarrow> checker_ok (bitConditionChecker prm b)"
  by (simp add: checker_ok_def params_ok_def bitConditionChecker_def window_def)

lemma warn_threshold:
  assumes "tree N" "asked N prev" "rules_ok prm N rs" "b < vbNumBits"
  shows "\<exists>st cache' dep. thresholdState (bitConditionChecker prm b) prev (warningCaches rs ! b) (deploymentCaches rs) = (Inr st, cache', dep)
     \<and> (st = ThresholdActive \<longleftrightarrow> unknown_active prm prev b)
     \<and> rules_ok prm N (rs\<lparr>warningCaches := (warningCaches rs)[b := cache'], deploymentCaches := dep\<rparr>)"
proof (cases prev)
  case None
  then show ?thesis using assms(3) by (simp add: thresholdState_def unknown_active_def Let_def)
next
  case (Some n)
  let ?c = "bitConditionChecker prm b"
  have ok: "checker_ok ?c" "cache_ok ?c (bit_vote prm b) N (warningCaches rs ! b)" "caches_ok prm N (deploymentCaches rs)" "n \<in> N"
    using assms(2-4) Some by (auto simp: rules_ok_def caches_ok_def asked_def intro: bit_checker_ok)
  from warning.thresholdState_spec[OF ok(1) assms(1) ok(4) ok(2,3)] obtain cache' dep where
    "thresholdState ?c (Some n) (warningCaches rs ! b) (deploymentCaches rs) = (Inr (bip9_after ?c (bit_vote prm b) n), cache', dep)"
    "cache_ok ?c (bit_vote prm b) N cache'" "caches_ok prm N dep" by blast
  then show ?thesis using assms(3,4) Some by (auto simp: rules_ok_def unknown_active_def nth_list_update)
qed

lemma warnLoop_spec:
  assumes "tree N" "node \<in> N" "rules_ok prm N rs" "set bs \<subseteq> {..<vbNumBits}"
  shows "\<exists>rs'. warnLoop prm node bs rs = (Inr (), rs') \<and> rules_ok prm N rs'
     \<and> (unknownRulesWarned rs' \<longleftrightarrow> unknownRulesWarned rs \<or> (\<exists>b \<in> set bs. unknown_active prm (nd_parent node) b))"
  using assms(3,4)
proof (induction bs arbitrary: rs)
  case (Cons b bs)
  have b: "b < vbNumBits" "b < length (warningCaches rs)" using Cons.prems by (auto simp: rules_ok_def)
  from warn_threshold[OF assms(1) asked_parent[OF assms(1,2)] Cons.prems(1) b(1)] obtain st cache' dep where
    t: "thresholdState (bitConditionChecker prm b) (nd_parent node) (warningCaches rs ! b) (deploymentCaches rs) = (Inr st, cache', dep)"
    "st = ThresholdActive \<longleftrightarrow> unknown_active prm (nd_parent node) b"
    "rules_ok prm N (rs\<lparr>warningCaches := (warningCaches rs)[b := cache'], deploymentCaches := dep\<rparr>)" by blast
  let ?rs = "rs\<lparr>warningCaches := (warningCaches rs)[b := cache'], deploymentCaches := dep\<rparr>"
  let ?rs1 = "if st = ThresholdActive then ?rs\<lparr>unknownRulesWarned := True\<rparr> else ?rs"
  have "rules_ok prm N ?rs1" using t(3) by (simp add: rules_ok_def)
  from Cons.IH[OF this] Cons.prems(2) b t(1,2) show ?case by (auto simp: Let_def split: if_splits)
qed simp

section \<open>Properties\<close>

text \<open>Questions for the states of deployments, one after the other with the same caches.\<close>

fun askAll :: "Params \<Rightarrow> (BlockNode option \<times> nat) list \<Rightarrow> thresholdStateCache list \<Rightarrow> ThresholdState cres list" where
  "askAll prm [] caches = []"
| "askAll prm ((prev, deploymentID) # qs) caches =
     (let (r, caches') = deploymentState prm prev deploymentID caches in r # askAll prm qs caches')"

lemma askAll_spec:
  assumes "tree N" "caches_ok prm N caches" "\<forall>(prev, i) \<in> set qs. asked N prev \<and> i < length (Deployments prm)"
  shows "askAll prm qs caches = map (\<lambda>(prev, i). Inr (dep_state prm (Deployments prm ! i) prev)) qs"
  using assms(2,3)
proof (induction qs arbitrary: caches)
  case (Cons q qs)
  obtain prev i where q: "q = (prev, i)" by (cases q)
  from deploymentState_spec[OF assms(1) _ Cons.prems(1), of prev i] Cons.prems(2) q
  obtain caches' where "deploymentState prm prev i caches = (Inr (dep_state prm (Deployments prm ! i) prev), caches')" "caches_ok prm N caches'"
    by auto
  with Cons.IH[of caches'] Cons.prems(2) q show ?case by simp
qed simp

text \<open>C13: the states of rule changes. Over a tree of blocks with distinct hashes, each later than the median time of its parent, and for parameters
  with a window size that is positive and fits an \<open>int32\<close> and no deployment that expires before it starts, any sequence of calls of \<open>deploymentState\<close> that starts with
  empty caches gives, for every block and deployment asked, the state of the recursion of BIP 9 over the windows of the chain
  of that block. So neither the cache nor stopping at the first window before the start time is ever visible.\<close>

theorem deployment_states_bip9:
  assumes "tree N" "params_ok prm" "\<forall>(prev, i) \<in> set qs. asked N prev \<and> i < length (Deployments prm)"
  shows "askAll prm qs (newThresholdCaches (length (Deployments prm)))
     = map (\<lambda>(prev, i). Inr (dep_state prm (Deployments prm ! i) prev)) qs"
  using askAll_spec[OF assms(1) caches_ok_new[OF assms(2)] assms(3)] .

lemma window_dep [simp]: "window (dep_checker prm d) = unat (MinerConfirmationWindow prm)"
  by (simp add: window_def deploymentChecker_def)

lemma dep_state_at:
  assumes "params_ok prm" "n \<in> set (chainOf m)" "length (chainOf n) = k * unat (MinerConfirmationWindow prm)"
  shows "dep_state prm d (Some n) = bip9 (dep_checker prm d) (dep_vote d) (chainOf m) k"
proof -
  obtain i where "i < length (chainOf m)" "chainOf m ! i = n" using assms(2) by (auto simp: in_set_conv_nth)
  with chainOf_nth[of i m] have "chainOf m = chainOf n @ drop (Suc i) (chainOf m)" by simp
  then obtain ys where "chainOf m = chainOf n @ ys" by blast
  moreover have "bip9 (dep_checker prm d) (dep_vote d) (chainOf n @ ys) k = bip9 (dep_checker prm d) (dep_vote d) (chainOf n) k"
    using assms(1,3) by (intro bip9_prefix) (simp_all add: params_ok_def)
  ultimately show ?thesis using assms(1,3) by (simp add: dep_state_def bip9_after_def params_ok_def)
qed

lemma bip9_active_stays:
  assumes "bip9 c vote chain k = ThresholdActive" and "k \<le> j"
  shows "bip9 c vote chain j = ThresholdActive"
  using assms(2) by (induction rule: dec_induct) (simp_all add: assms(1) transition_def)

text \<open>C14: a rule change that the miners want becomes active. Let a deployment be started at the end of a window, let the blocks of
  the next window with its bit reach the threshold, and let the median time at the end of that window be before the expiration. Then
  for every block on that chain at least two windows after the start the deployment is active, whatever the miners do and whatever is in the caches.\<close>

theorem deployment_activates:
  fixes prm :: Params and i k :: nat
  defines "d \<equiv> Deployments prm ! i" and "W \<equiv> unat (MinerConfirmationWindow prm)"
  assumes "tree N" "caches_ok prm N caches" "caches_ok prm N caches'" "i < length (Deployments prm)"
    and "m \<in> N" "n \<in> set (chainOf m)" "length (chainOf n) = k * W"
    and "fst (deploymentState prm (Some n) i caches) = Inr ThresholdStarted"
    and "unat (RuleChangeActivationThreshold prm) \<le> length (filter (dep_vote d) (take W (drop (k * W) (chainOf m))))"
    and "medianTimeUnix (chainOf m ! (Suc k * W - 1)) < ExpireTime d"
    and "(k + 2) * W \<le> length (chainOf m)"
  shows "fst (deploymentState prm (Some m) i caches') = Inr ThresholdActive"
proof -
  let ?b = "bip9 (dep_checker prm d) (dep_vote d) (chainOf m)"
  have prm: "params_ok prm" using assms(4) by (simp add: caches_ok_def)
  have N: "asked N (Some n)" "asked N (Some m)" using assms(3,7,8) by (auto simp: asked_def tree_def)
  have "dep_state prm d (Some n) = ThresholdStarted"
    using deploymentState_spec[OF assms(3) N(1) assms(4,6)] assms(10) by (auto simp: d_def)
  then have "?b k = ThresholdStarted" using dep_state_at[OF prm assms(8), of k d] assms(9) by (simp add: W_def)
  then have "?b (Suc k) = ThresholdLockedIn"
    using assms(11,12) by (simp add: transition_def deploymentChecker_def window_def W_def not_le)
  then have "?b (k + 2) = ThresholdActive" by (simp add: transition_def)
  moreover have "k + 2 \<le> length (chainOf m) div W"
    using div_le_mono[OF assms(13), of W] prm by (simp add: params_ok_def W_def)
  ultimately have "?b (length (chainOf m) div W) = ThresholdActive" by (rule bip9_active_stays)
  then have "dep_state prm d (Some m) = ThresholdActive" by (simp add: dep_state_def bip9_after_def W_def)
  then show ?thesis using deploymentState_spec[OF assms(3) N(2) assms(5,6)] by (auto simp: d_def)
qed

lemma expected_version_bit:
  "b < 32 \<Longrightarrow> bit (expected_version prm prev ds v) b \<longleftrightarrow> bit v b \<or> (\<exists>d \<in> set ds. unat (BitNumber d) = b
     \<and> dep_state prm d prev \<in> {ThresholdStarted, ThresholdLockedIn})"
proof (induction ds arbitrary: v)
  case (Cons d ds)
  have "expected_version prm prev (d # ds) v = expected_version prm prev ds
      (if dep_state prm d prev \<in> {ThresholdStarted, ThresholdLockedIn} then v OR push_bit (unat (BitNumber d)) 1 else v)"
    by (simp add: expected_version_def)
  with Cons show ?case by (auto simp: bit_or_iff bit_exp_iff push_bit_eq_mult)
qed (simp add: expected_version_def)

lemma bit_vbTopBits: "bit vbTopBits b \<longleftrightarrow> b = 29"
proof -
  have e: "vbTopBits = 2 ^ 29" by (simp add: vbTopBits_def)
  show ?thesis unfolding e bit_exp_iff by auto
qed

lemma bit_vbTopMask: "b < 32 \<Longrightarrow> bit vbTopMask b \<longleftrightarrow> 29 \<le> b"
proof -
  assume "b < 32"
  have e: "vbTopMask = push_bit 29 (mask 3)" by (simp add: vbTopMask_def push_bit_eq_mult mask_eq_exp_minus_1)
  show ?thesis unfolding e bit_push_bit_iff bit_mask_iff using \<open>b < 32\<close> by auto
qed

text \<open>C20: the expected version of the next block. For deployments with bit numbers below 29, \<open>calcNextBlockVersion\<close> returns a version whose top three
  bits are 001 and in which, below them, exactly the bits of the deployments that are started or locked in are set.\<close>

theorem next_version_bits:
  assumes "tree N" "asked N prev" "caches_ok prm N caches" "\<forall>d \<in> set (Deployments prm). unat (BitNumber d) < 29"
  shows "\<exists>v. fst (calcNextBlockVersion prm prev caches) = Inr v \<and> v AND vbTopMask = vbTopBits
    \<and> (\<forall>b < 29. bit v b \<longleftrightarrow> (\<exists>d \<in> set (Deployments prm). unat (BitNumber d) = b
          \<and> dep_state prm d prev \<in> {ThresholdStarted, ThresholdLockedIn}))"
proof -
  let ?v = "expected_version prm prev (Deployments prm) vbTopBits"
  have v: "bit ?v b \<longleftrightarrow> b = 29 \<or> (\<exists>d \<in> set (Deployments prm). unat (BitNumber d) = b
        \<and> dep_state prm d prev \<in> {ThresholdStarted, ThresholdLockedIn})" if "b < 32" for b
    using that by (simp add: expected_version_bit bit_vbTopBits)
  have "?v AND vbTopMask = vbTopBits"
  proof (rule bit_word_eqI)
    fix b
    assume "b < LENGTH(32)"
    then have "b < 32" by simp
    with v[OF this] assms(4) show "bit (?v AND vbTopMask) b = bit vbTopBits b"
      by (auto simp: bit_and_iff bit_vbTopBits bit_vbTopMask)
  qed
  moreover have "\<forall>b < 29. bit ?v b \<longleftrightarrow> (\<exists>d \<in> set (Deployments prm). unat (BitNumber d) = b
        \<and> dep_state prm d prev \<in> {ThresholdStarted, ThresholdLockedIn})" using v by auto
  moreover have "fst (calcNextBlockVersion prm prev caches) = Inr ?v"
    using calcNextBlockVersion_spec[OF assms(1-3)] by auto
  ultimately show ?thesis by blast
qed

text \<open>Unknown deployments. An identifier beyond the number of deployments gives an error, but the identifier equal to that number panics.\<close>

theorem unknown_deployment_panics:
  "deploymentState prm prev (length (Deployments prm)) caches = (Inl GoPanic, caches)
   \<and> (\<forall>i > length (Deployments prm). deploymentState prm prev i caches = (Inl (DeploymentError i), caches))"
  by (simp add: deploymentState_def)

text \<open>A chain of six blocks that all vote, with windows of two blocks.\<close>

fun voter :: "nat \<Rightarrow> BlockNode" where
  "voter 0 = BlockNode None [0] 0 (vbTopBits OR 1) 0 0 100 []"
| "voter (Suc i) = BlockNode (Some (voter i)) [of_nat (Suc i)] (int (Suc i)) (vbTopBits OR 1) 0 0 (100 + int (Suc i)) []"

definition votePrm :: Params where
  "votePrm = \<lparr>Net = 0, GenesisHash = [], PowLimit = 0, BIP0034Height = 0, BIP0065Height = 0, BIP0066Height = 0,
     CoinbaseMaturity = 100, SubsidyReductionInterval = 0, Checkpoints = [], RuleChangeActivationThreshold = 2,
     MinerConfirmationWindow = 2, Deployments = [\<lparr>BitNumber = 0, StartTime = 50, ExpireTime = 1000\<rparr>]\<rparr>"

lemma voter_fields: "nd_timestamp (voter i) = 100 + int i" "nd_hash (voter i) = [of_nat i]" "nd_height (voter i) = int i"
  "nd_version (voter i) = vbTopBits OR 1"
  by (cases i; simp)+

lemma chainOf_voter: "chainOf (voter i) = map voter [0..<Suc i]"
  by (induction i) (simp_all add: chainOf_None chainOf_Some)

lemma median_voter: "100 \<le> CalcPastMedianTime (voter i)" "CalcPastMedianTime (voter i) \<le> 100 + int i"
  using median_in_chain[of "voter i"] by (auto simp: chainOf_voter voter_fields)

lemma tree_voter: "tree (voter ` {..<6})"
proof -
  have "wf_node (voter i)" if "i < 6" for i using that
    by (auto simp: wf_node_def chainOf_voter nth_append voter_fields less_Suc_eq)
  moreover have "valid_times (voter i)" if "i < 6" for i
  proof -
    have "case nd_parent (voter j) of None \<Rightarrow> True | Some p \<Rightarrow> CalcPastMedianTime p < nd_timestamp (voter j)" for j
      using median_voter(2)[of "j - 1"] by (cases j) (auto simp: voter_fields)
    then show ?thesis using that by (auto simp: valid_times_def chainOf_voter voter_fields simp del: upt_Suc)
  qed
  moreover have "inj_on nd_hash (voter ` {..<6})"
  proof (rule inj_onI)
    fix x y
    assume a: "x \<in> voter ` {..<6}" "y \<in> voter ` {..<6}" "nd_hash x = nd_hash y"
    then obtain i j where "x = voter i" "y = voter j" "i < 6" "j < 6" by auto
    with a(3) have "unat (of_nat i :: u8) = unat (of_nat j :: u8)" "i < 256" "j < 256" by (simp_all add: voter_fields)
    then have "i = j" by (simp add: unsigned_of_nat take_bit_nat_eq_self)
    then show "x = y" using \<open>x = voter i\<close> \<open>y = voter j\<close> by simp
  qed
  ultimately show ?thesis by (auto simp: tree_def chainOf_voter)
qed

theorem deployment_states_bip9_witness:
  "tree (voter ` {..<6}) \<and> params_ok votePrm
   \<and> askAll votePrm [(Some (voter 5), 0), (Some (voter 3), 0), (Some (voter 2), 0)] (newThresholdCaches 1)
     = map (\<lambda>i. Inr (dep_state votePrm (Deployments votePrm ! 0) (Some (voter i)))) [5, 3, 2]"
proof -
  have "params_ok votePrm" by (simp add: params_ok_def votePrm_def)
  with deployment_states_bip9[OF tree_voter this, of "[(Some (voter 5), 0), (Some (voter 3), 0), (Some (voter 2), 0)]"] tree_voter
  show ?thesis by (simp add: asked_def votePrm_def)
qed

declare voter.simps [simp del]

lemma asked_voter: "i < 6 \<Longrightarrow> asked (voter ` {..<6}) (Some (voter i))"
  by (simp add: asked_def)

lemma votePrm_deployment: "length (Deployments votePrm) = 1" "set (Deployments votePrm) = {Deployments votePrm ! 0}"
  "unat (BitNumber (Deployments votePrm ! 0)) = 0"
  by (simp_all add: votePrm_def)

lemma median_voter_unix: "i < 6 \<Longrightarrow> 50 \<le> medianTimeUnix (voter i)" "i < 6 \<Longrightarrow> medianTimeUnix (voter i) < 1000"
  using median_voter[of i] by (simp_all add: medianTimeUnix_def word_le_def word_less_def uint_word_of_int)

lemma votePrm_caches: "caches_ok votePrm N (newThresholdCaches 1)"
  using caches_ok_new[of votePrm N] by (simp add: params_ok_def votePrm_def)

lemma voter1_started: "dep_state votePrm (Deployments votePrm ! 0) (Some (voter 1)) = ThresholdStarted"
proof -
  have "chainOf (voter 1) = [voter 0, voter 1]" by (simp only: chainOf_voter) (simp add: upt_rec)
  then have "dep_state votePrm (Deployments votePrm ! 0) (Some (voter 1))
     = transition (dep_checker votePrm (Deployments votePrm ! 0)) (medianTimeUnix (voter 1))
         (length (filter (dep_vote (Deployments votePrm ! 0)) [voter 0, voter 1])) ThresholdDefined"
    by (simp add: dep_state_def bip9_after_def votePrm_def)
  then show ?thesis using median_voter_unix[of 1]
    by (simp add: transition_def deploymentChecker_def votePrm_def not_le)
qed

theorem deployment_activates_witness:
  "tree (voter ` {..<6}) \<and> fst (deploymentState votePrm (Some (voter 1)) 0 (newThresholdCaches 1)) = Inr ThresholdStarted
   \<and> fst (deploymentState votePrm (Some (voter 5)) 0 (newThresholdCaches 1)) = Inr ThresholdActive"
proof -
  let ?N = "voter ` {..<6}"
  have s: "fst (deploymentState votePrm (Some (voter 1)) 0 (newThresholdCaches 1)) = Inr ThresholdStarted"
    using deploymentState_spec[OF tree_voter asked_voter[of 1] votePrm_caches, of 0] voter1_started
    by (auto simp: votePrm_deployment)
  have c: "chainOf (voter 5) = map voter [0..<6]" "chainOf (voter 1) = [voter 0, voter 1]"
    by (simp_all only: chainOf_voter) (simp_all add: upt_rec)
  have "fst (deploymentState votePrm (Some (voter 5)) 0 (newThresholdCaches 1)) = Inr ThresholdActive"
  proof (rule deployment_activates[OF tree_voter votePrm_caches votePrm_caches _ _ _ _ s, where k = 1])
    show "unat (RuleChangeActivationThreshold votePrm) \<le> length (filter (dep_vote (Deployments votePrm ! 0))
        (take (unat (MinerConfirmationWindow votePrm)) (drop (1 * unat (MinerConfirmationWindow votePrm)) (chainOf (voter 5)))))"
      by (simp add: votePrm_def c upt_rec dep_vote_def voter_fields vbTopBits_def vbTopMask_def)
    show "medianTimeUnix (chainOf (voter 5) ! (Suc 1 * unat (MinerConfirmationWindow votePrm) - 1)) < ExpireTime (Deployments votePrm ! 0)"
      using median_voter_unix(2)[of 3] by (simp add: votePrm_def c)
  qed (simp_all add: votePrm_def chainOf_voter)
  with s tree_voter show ?thesis by simp
qed

theorem next_version_bits_witness:
  "\<exists>v. fst (calcNextBlockVersion votePrm (Some (voter 1)) (newThresholdCaches 1)) = Inr v \<and> v AND vbTopMask = vbTopBits \<and> bit v 0 \<and> \<not> bit v 5"
proof -
  from next_version_bits[OF tree_voter asked_voter[of 1] votePrm_caches]
  obtain v where v: "fst (calcNextBlockVersion votePrm (Some (voter 1)) (newThresholdCaches 1)) = Inr v" "v AND vbTopMask = vbTopBits"
    "\<forall>b < 29. bit v b \<longleftrightarrow> (\<exists>d \<in> set (Deployments votePrm). unat (BitNumber d) = b
        \<and> dep_state votePrm d (Some (voter 1)) \<in> {ThresholdStarted, ThresholdLockedIn})"
    by (auto simp: votePrm_deployment)
  have "bit v 0" using v(3) voter1_started unfolding votePrm_deployment(2) by (simp add: votePrm_deployment)
  moreover have "\<not> bit v 5" using v(3) unfolding votePrm_deployment(2) by (simp add: votePrm_deployment)
  ultimately show ?thesis using v by auto
qed

end
