(* ===== verification/ChainTxRules.thy ===== *)
theory ChainTxRules
  imports ChainUtxo ChainThreshold
begin

text \<open>
  The rules for single transactions: \<open>src/pkg/chain/validate.go\<close> (\<open>CheckTransactionSanity\<close>, \<open>CheckTransactionInputs\<close>, the counts of signature
  operations, the height in the coinbase, finality), \<open>weight.go\<close> and the sequence locks of \<open>chain.go\<close>. Amounts are 64-bit signed integers;
  sums wrap around (\<open>s64\<close>). Counts are values of the 64-bit type \<open>int\<close>.
\<close>

section \<open>Sanity\<close>

definition MaxSatoshi :: int where "MaxSatoshi = 21000000 * 100000000"
definition MaxBlockBaseSize :: int where "MaxBlockBaseSize = 1000000"
definition MaxBlockWeight :: nat where "MaxBlockWeight = 4000000"
definition MaxBlockSigOpsCost :: int where "MaxBlockSigOpsCost = 80000"
definition WitnessScaleFactor :: nat where "WitnessScaleFactor = 4"
definition MinCoinbaseScriptLen :: nat where "MinCoinbaseScriptLen = 2"
definition MaxCoinbaseScriptLen :: nat where "MaxCoinbaseScriptLen = 100"

definition checkOutput :: "int \<Rightarrow> TxOut \<Rightarrow> int cres" where
  "checkOutput totalSatoshi txOut =
     (let satoshi = sint (Value txOut) in
      if satoshi < 0 then Inl (RuleError ErrBadTxOutValue)
      else if satoshi > MaxSatoshi then Inl (RuleError ErrBadTxOutValue)
      else let totalSatoshi' = s64 (totalSatoshi + satoshi) in
           if totalSatoshi' < 0 then Inl (RuleError ErrBadTxOutValue)
           else if totalSatoshi' > MaxSatoshi then Inl (RuleError ErrBadTxOutValue)
           else Inr totalSatoshi')"

definition checkDuplicateInput :: "OutPoint list \<Rightarrow> TxIn \<Rightarrow> OutPoint list cres" where
  "checkDuplicateInput existingTxOut txIn =
     (if PreviousOutPoint txIn \<in> set existingTxOut then Inl (RuleError ErrDuplicateTxInputs)
      else Inr (PreviousOutPoint txIn # existingTxOut))"

definition CheckTransactionSanity :: "MsgTx \<Rightarrow> unit cres" where
  "CheckTransactionSanity msgTx =
     bindE (failIf (length (tx_TxIn msgTx) = 0) (RuleError ErrNoTxInputs)) (\<lambda>_.
     bindE (failIf (length (tx_TxOut msgTx) = 0) (RuleError ErrNoTxOutputs)) (\<lambda>_.
     bindE (failIf (int (tx_SerializeSizeStripped msgTx) > MaxBlockBaseSize) (RuleError ErrTxTooBig)) (\<lambda>_.
     bindE (foldE checkOutput 0 (tx_TxOut msgTx)) (\<lambda>_.
     bindE (foldE checkDuplicateInput [] (tx_TxIn msgTx)) (\<lambda>_.
     if IsCoinBaseTx msgTx
     then let slen = length (SignatureScript (hd (tx_TxIn msgTx))) in
          failIf (slen < MinCoinbaseScriptLen \<or> slen > MaxCoinbaseScriptLen) (RuleError ErrBadCoinbaseScriptLen)
     else failIf (list_ex (\<lambda>txIn. isNullOutpoint (PreviousOutPoint txIn)) (tx_TxIn msgTx)) (RuleError ErrBadTxInput))))))"

section \<open>Inputs\<close>

definition checkInput :: "Params \<Rightarrow> int \<Rightarrow> UtxoViewpoint \<Rightarrow> int \<Rightarrow> TxIn \<Rightarrow> int cres" where
  "checkInput prm txHeight utxoView totalSatoshiIn txIn =
     (case LookupEntry utxoView (PreviousOutPoint txIn) of
        None \<Rightarrow> Inl (RuleError ErrMissingTxOut)
      | Some utxo \<Rightarrow>
          if ue_IsSpent utxo then Inl (RuleError ErrMissingTxOut)
          else if ue_IsCoinBase utxo \<and> s32 (txHeight - ue_blockHeight utxo) < int (unat (CoinbaseMaturity prm))
               then Inl (RuleError ErrImmatureSpend)
          else
            let originTxSatoshi = sint (ue_amount utxo) in
            if originTxSatoshi < 0 then Inl (RuleError ErrBadTxOutValue)
            else if originTxSatoshi > MaxSatoshi then Inl (RuleError ErrBadTxOutValue)
            else let totalSatoshiIn' = s64 (totalSatoshiIn + originTxSatoshi) in
                 if totalSatoshiIn' < totalSatoshiIn \<or> totalSatoshiIn' > MaxSatoshi then Inl (RuleError ErrBadTxOutValue)
                 else Inr totalSatoshiIn')"

definition sumOutputs :: "MsgTx \<Rightarrow> int" where
  "sumOutputs msgTx = foldl (\<lambda>total txOut. s64 (total + sint (Value txOut))) 0 (tx_TxOut msgTx)"

definition CheckTransactionInputs :: "Params \<Rightarrow> MsgTx \<Rightarrow> int \<Rightarrow> UtxoViewpoint \<Rightarrow> int cres" where
  "CheckTransactionInputs prm msgTx txHeight utxoView =
     (if IsCoinBaseTx msgTx then Inr 0
      else bindE (foldE (checkInput prm txHeight utxoView) 0 (tx_TxIn msgTx)) (\<lambda>totalSatoshiIn.
           let totalSatoshiOut = sumOutputs msgTx in
           if totalSatoshiIn < totalSatoshiOut then Inl (RuleError ErrSpendTooHigh)
           else Inr (s64 (totalSatoshiIn - totalSatoshiOut))))"

section \<open>Signature operations and weight\<close>

definition CountSigOps :: "MsgTx \<Rightarrow> int" where
  "CountSigOps msgTx =
     foldl (\<lambda>total txOut. s64 (total + int (GetSigOpCount (PkScript txOut))))
       (foldl (\<lambda>total txIn. s64 (total + int (GetSigOpCount (SignatureScript txIn)))) 0 (tx_TxIn msgTx))
       (tx_TxOut msgTx)"

definition countP2SHInput :: "UtxoViewpoint \<Rightarrow> int \<Rightarrow> TxIn \<Rightarrow> int cres" where
  "countP2SHInput utxoView totalSigOps txIn =
     (case LookupEntry utxoView (PreviousOutPoint txIn) of
        None \<Rightarrow> Inl (RuleError ErrMissingTxOut)
      | Some utxo \<Rightarrow>
          if ue_IsSpent utxo then Inl (RuleError ErrMissingTxOut)
          else if \<not> IsPayToScriptHash (ue_pkScript utxo) then Inr totalSigOps
          else let numSigOps = int (GetPreciseSigOpCount (SignatureScript txIn) (ue_pkScript utxo) True);
                   totalSigOps' = s64 (totalSigOps + numSigOps)
               in if totalSigOps' < totalSigOps then Inl (RuleError ErrTooManySigOps) else Inr totalSigOps')"

definition CountP2SHSigOps :: "MsgTx \<Rightarrow> bool \<Rightarrow> UtxoViewpoint \<Rightarrow> int cres" where
  "CountP2SHSigOps msgTx isCoinBaseTx utxoView =
     (if isCoinBaseTx then Inr 0 else foldE (countP2SHInput utxoView) 0 (tx_TxIn msgTx))"

definition witnessSigOpsInput :: "UtxoViewpoint \<Rightarrow> int \<Rightarrow> TxIn \<Rightarrow> int cres" where
  "witnessSigOpsInput utxoView numSigOps txIn =
     (case LookupEntry utxoView (PreviousOutPoint txIn) of
        None \<Rightarrow> Inl (RuleError ErrMissingTxOut)
      | Some utxo \<Rightarrow>
          if ue_IsSpent utxo then Inl (RuleError ErrMissingTxOut)
          else case GetWitnessSigOpCount (SignatureScript txIn) (ue_pkScript utxo) (witItems txIn) of
                 None \<Rightarrow> Inl GoPanic
               | Some n \<Rightarrow> Inr (s64 (numSigOps + int n)))"

text \<open>An error of \<open>CountP2SHSigOps\<close> is logged and dropped: the cost is then reported as zero.\<close>

definition GetSigOpCost :: "MsgTx \<Rightarrow> bool \<Rightarrow> UtxoViewpoint \<Rightarrow> bool \<Rightarrow> bool \<Rightarrow> int cres" where
  "GetSigOpCost msgTx isCoinBaseTx utxoView bip16 segWit =
     (let numSigOps = s64 (CountSigOps msgTx * int WitnessScaleFactor);
          witnessOps = (\<lambda>numSigOps. if segWit \<and> \<not> isCoinBaseTx
                                    then foldE (witnessSigOpsInput utxoView) numSigOps (tx_TxIn msgTx) else Inr numSigOps)
      in if bip16
         then (case CountP2SHSigOps msgTx isCoinBaseTx utxoView of
                 Inl e \<Rightarrow> Inr 0
               | Inr numP2SHSigOps \<Rightarrow> witnessOps (s64 (numSigOps + numP2SHSigOps * int WitnessScaleFactor)))
         else witnessOps numSigOps)"

definition GetTransactionWeight :: "MsgTx \<Rightarrow> nat" where
  "GetTransactionWeight msgTx =
     (let baseSize = tx_SerializeSizeStripped msgTx; totalSize = tx_SerializeSize msgTx
      in baseSize * (WitnessScaleFactor - 1) + totalSize)"

definition GetBlockWeight :: "Block \<Rightarrow> nat" where
  "GetBlockWeight blk =
     (let baseSize = block_SerializeSizeStripped (msgBlock blk); totalSize = block_SerializeSize (msgBlock blk)
      in baseSize * (WitnessScaleFactor - 1) + totalSize)"

section \<open>The height in the coinbase\<close>

definition serializedHeightVersion :: int where "serializedHeightVersion = 2"

definition ShouldHaveSerializedBlockHeight :: "BlockHeader \<Rightarrow> bool" where
  "ShouldHaveSerializedBlockHeight header = (sint (bh_Version header) \<ge> serializedHeightVersion)"

definition ExtractCoinbaseHeight :: "MsgTx \<Rightarrow> int cres" where
  "ExtractCoinbaseHeight coinbaseTx =
     (case tx_TxIn coinbaseTx of
        [] \<Rightarrow> Inl GoPanic
      | txIn # _ \<Rightarrow>
          case SignatureScript txIn of
            [] \<Rightarrow> Inl (RuleError ErrMissingCoinbaseHeight)
          | opcode # rest \<Rightarrow>
              if opcode = OP_0 then Inr 0
              else if opcode \<ge> OP_1 \<and> opcode \<le> OP_16 then Inr (uint opcode - (uint OP_1 - 1))
              else let serializedLen = unat opcode in
                   if length rest < serializedLen then Inl (RuleError ErrMissingCoinbaseHeight)
                   else let serializedHeightBytes = take 8 (take serializedLen rest @ replicate 8 0)
                        in Inr (sint (ucast (le_word serializedHeightBytes :: u64) :: i32)))"

definition checkSerializedHeight :: "MsgTx \<Rightarrow> int \<Rightarrow> unit cres" where
  "checkSerializedHeight coinbaseTx wantHeight =
     bindE (ExtractCoinbaseHeight coinbaseTx) (\<lambda>serializedHeight.
     failIf (serializedHeight \<noteq> wantHeight) (RuleError ErrBadCoinbaseHeight))"

section \<open>Lock times\<close>

definition IsFinalizedTransaction :: "MsgTx \<Rightarrow> int \<Rightarrow> int \<Rightarrow> bool" where
  "IsFinalizedTransaction msgTx blockHeight blockTime =
     (let lockTime = tx_LockTime msgTx in
      if lockTime = 0 then True
      else let blockTimeOrHeight = (if lockTime < 500000000 then blockHeight else blockTime)
           in if uint lockTime < blockTimeOrHeight then True
              else list_all (\<lambda>txIn. Sequence txIn = 0xffffffff) (tx_TxIn msgTx))"

record SequenceLock =
  Seconds :: int
  sl_BlockHeight :: int

definition SequenceLockActive :: "SequenceLock \<Rightarrow> int \<Rightarrow> int \<Rightarrow> bool" where
  "SequenceLockActive sequenceLock blockHeight medianTimePast =
     (\<not> (Seconds sequenceLock \<ge> medianTimePast \<or> sl_BlockHeight sequenceLock \<ge> blockHeight))"

text \<open>One input of \<open>calcSequenceLock\<close>; the median time of a nil node panics.\<close>

definition lockInput :: "BlockNode \<Rightarrow> UtxoViewpoint \<Rightarrow> SequenceLock \<Rightarrow> TxIn \<Rightarrow> SequenceLock cres" where
  "lockInput node utxoView sequenceLock txIn =
     (case LookupEntry utxoView (PreviousOutPoint txIn) of
        None \<Rightarrow> Inl (RuleError ErrMissingTxOut)
      | Some utxo \<Rightarrow>
          let inputHeight = (if ue_blockHeight utxo = 0x7fffffff then s32 (nd_height node + 1) else ue_blockHeight utxo);
              sequenceNum = Sequence txIn;
              relativeLock = uint (sequenceNum AND 0x0000ffff)
          in if sequenceNum AND 0x80000000 = 0x80000000 then Inr sequenceLock
             else if sequenceNum AND 0x00400000 = 0x00400000 then
               let prevInputHeight = (if s32 (inputHeight - 1) < 0 then 0 else s32 (inputHeight - 1)) in
               case Ancestor node prevInputHeight of
                 None \<Rightarrow> Inl GoPanic
               | Some blockNode \<Rightarrow>
                   let timeLockSeconds = push_bit 9 relativeLock - 1;
                       timeLock = s64 (CalcPastMedianTime blockNode + timeLockSeconds)
                   in Inr (if timeLock > Seconds sequenceLock then sequenceLock\<lparr>Seconds := timeLock\<rparr> else sequenceLock)
             else
               let blockHeight = s32 (inputHeight + s32 (relativeLock - 1))
               in Inr (if blockHeight > sl_BlockHeight sequenceLock then sequenceLock\<lparr>sl_BlockHeight := blockHeight\<rparr> else sequenceLock))"

definition DeploymentCSV :: nat where "DeploymentCSV = 1"
definition DeploymentSegwit :: nat where "DeploymentSegwit = 2"

definition calcSequenceLock ::
  "Params \<Rightarrow> BlockNode \<Rightarrow> MsgTx \<Rightarrow> UtxoViewpoint \<Rightarrow> bool \<Rightarrow> thresholdStateCache list \<Rightarrow> SequenceLock cres \<times> thresholdStateCache list" where
  "calcSequenceLock prm node mTx utxoView mempool caches =
     (let sequenceLock = \<lparr>Seconds = -1, sl_BlockHeight = -1\<rparr>;
          finish = (\<lambda>csvSoftforkActive.
            if \<not> (sint (tx_Version mTx) \<ge> 2 \<and> csvSoftforkActive) \<or> IsCoinBaseTx mTx then Inr sequenceLock
            else foldE (lockInput node utxoView) sequenceLock (tx_TxIn mTx))
      in if mempool then (finish True, caches)
         else let (r, caches') = deploymentState prm (nd_parent node) DeploymentCSV caches
              in (bindE r (\<lambda>csvState. finish (csvState = ThresholdActive)), caches'))"

definition LockTimeToSequence :: "bool \<Rightarrow> u32 \<Rightarrow> u32" where
  "LockTimeToSequence isSeconds locktime =
     (if \<not> isSeconds then locktime else 0x00400000 OR drop_bit 9 locktime)"


section \<open>What the rules accept\<close>

definition outSum :: "TxOut list \<Rightarrow> int" where
  "outSum outs = (\<Sum>txOut\<leftarrow>outs. sint (Value txOut))"

lemma outSum_simps [simp]: "outSum [] = 0" "outSum (o' # outs) = sint (Value o') + outSum outs"
  by (simp_all add: outSum_def)

definition nonneg_outs :: "TxOut list \<Rightarrow> bool" where
  "nonneg_outs outs = list_all (\<lambda>txOut. 0 \<le> sint (Value txOut)) outs"

lemma nonneg_outs_simps [simp]:
  "nonneg_outs []" "nonneg_outs (o' # outs) \<longleftrightarrow> 0 \<le> sint (Value o') \<and> nonneg_outs outs"
  by (simp_all add: nonneg_outs_def)

lemma outSum_nonneg: "nonneg_outs outs \<Longrightarrow> 0 \<le> outSum outs"
  by (induction outs) auto

lemma checkOutput_iff:
  assumes "0 \<le> acc" and "acc \<le> MaxSatoshi"
  shows "checkOutput acc o' = Inr acc' \<longleftrightarrow>
    0 \<le> sint (Value o') \<and> acc + sint (Value o') \<le> MaxSatoshi \<and> acc' = acc + sint (Value o')"
proof (cases "0 \<le> sint (Value o') \<and> sint (Value o') \<le> MaxSatoshi")
  case True
  then have "s64 (acc + sint (Value o')) = acc + sint (Value o')"
    using assms by (intro s64_id) (auto simp: MaxSatoshi_def)
  then show ?thesis using True assms by (auto simp: checkOutput_def Let_def)
qed (use assms in \<open>auto simp: checkOutput_def Let_def\<close>)

lemma checkOutputs_iff:
  assumes "0 \<le> acc" and "acc \<le> MaxSatoshi"
  shows "(\<exists>t. foldE checkOutput acc outs = Inr t) \<longleftrightarrow> nonneg_outs outs \<and> acc + outSum outs \<le> MaxSatoshi"
  using assms
proof (induction outs arbitrary: acc)
  case (Cons o' outs)
  show ?case
  proof (cases "0 \<le> sint (Value o') \<and> acc + sint (Value o') \<le> MaxSatoshi")
    case True
    then have "checkOutput acc o' = Inr (acc + sint (Value o'))"
      using Cons.prems by (simp add: checkOutput_iff)
    with Cons.IH[of "acc + sint (Value o')"] True Cons.prems show ?thesis by (auto simp: algebra_simps)
  next
    case False
    then have "\<nexists>t. checkOutput acc o' = Inr t" using Cons.prems by (simp add: checkOutput_iff)
    then have "\<nexists>t. foldE checkOutput acc (o' # outs) = Inr t" by (simp add: bindE_eq_Inr)
    moreover have "\<not> (nonneg_outs (o' # outs) \<and> acc + outSum (o' # outs) \<le> MaxSatoshi)"
      using False outSum_nonneg[of outs] by auto
    ultimately show ?thesis by blast
  qed
qed simp

lemma checkDuplicateInputs_iff:
  "(\<exists>t. foldE checkDuplicateInput seen ins = Inr t) \<longleftrightarrow>
     distinct (map PreviousOutPoint ins) \<and> set (map PreviousOutPoint ins) \<inter> set seen = {}"
  by (induction ins arbitrary: seen) (auto simp: checkDuplicateInput_def bindE_eq_Inr)

text \<open>The well-formed transactions: the totals are those of the integers, no sum of an accepted transaction wraps around.\<close>

definition sane_tx :: "MsgTx \<Rightarrow> bool" where
  "sane_tx tx \<longleftrightarrow>
     tx_TxIn tx \<noteq> [] \<and> tx_TxOut tx \<noteq> [] \<and> tx_SerializeSizeStripped tx \<le> 1000000
     \<and> nonneg_outs (tx_TxOut tx) \<and> outSum (tx_TxOut tx) \<le> 2100000000000000
     \<and> distinct (map PreviousOutPoint (tx_TxIn tx))
     \<and> (if IsCoinBaseTx tx then length (SignatureScript (hd (tx_TxIn tx))) \<in> {2..100}
        else list_all (\<lambda>txIn. \<not> isNullOutpoint (PreviousOutPoint txIn)) (tx_TxIn tx))"

lemma sanity_sane: "CheckTransactionSanity tx = Inr () \<longleftrightarrow> sane_tx tx"
proof -
  note outs = checkOutputs_iff[of 0 "tx_TxOut tx"]
  note ins = checkDuplicateInputs_iff[of "[]" "tx_TxIn tx"]
  show ?thesis
    using outs ins
    by (auto simp: CheckTransactionSanity_def sane_tx_def bindE_eq_Inr MaxBlockBaseSize_def MaxSatoshi_def Let_def
        MinCoinbaseScriptLen_def MaxCoinbaseScriptLen_def list_ex_iff list_all_iff)
qed

text \<open>C17: the sanity check accepts a transaction if and only if it has inputs and outputs, a base size of at most a million bytes, no
  negative output, a total of the outputs, as an integer, of at most 21 million coins, no input twice, and either is a
  coinbase with a script of 2 to 100 bytes or refers to no null output. The 64-bit sums of the code decide the condition on the integers.
\<close>

theorem CheckTransactionSanity_iff:
  "CheckTransactionSanity tx = Inr () \<longleftrightarrow>
     tx_TxIn tx \<noteq> [] \<and> tx_TxOut tx \<noteq> [] \<and> tx_SerializeSizeStripped tx \<le> 1000000
     \<and> list_all (\<lambda>txOut. 0 \<le> sint (Value txOut)) (tx_TxOut tx)
     \<and> (\<Sum>txOut\<leftarrow>tx_TxOut tx. sint (Value txOut)) \<le> 2100000000000000
     \<and> distinct (map PreviousOutPoint (tx_TxIn tx))
     \<and> (if IsCoinBaseTx tx then length (SignatureScript (hd (tx_TxIn tx))) \<in> {2..100}
        else list_all (\<lambda>txIn. \<not> isNullOutpoint (PreviousOutPoint txIn)) (tx_TxIn tx))"
  unfolding sanity_sane sane_tx_def nonneg_outs_def outSum_def ..

lemma sumOutputs_sane:
  assumes "sane_tx tx"
  shows "sumOutputs tx = outSum (tx_TxOut tx)"
proof -
  have "foldl (\<lambda>acc txOut. s64 (acc + sint (Value txOut))) t outs = t + outSum outs"
    if "0 \<le> t" "nonneg_outs outs" "t + outSum outs \<le> MaxSatoshi" for t outs
    using that
  proof (induction outs arbitrary: t)
    case (Cons o' outs)
    have "s64 (t + sint (Value o')) = t + sint (Value o')"
      using Cons.prems outSum_nonneg[of outs] by (intro s64_id) (auto simp: MaxSatoshi_def)
    with Cons.IH[of "t + sint (Value o')"] Cons.prems show ?case by simp
  qed simp
  from this[of 0 "tx_TxOut tx"] assms show ?thesis by (simp add: sumOutputs_def sane_tx_def MaxSatoshi_def)
qed

section \<open>Inputs against the unspent outputs\<close>

text \<open>The value of the coins a list of inputs refers to, and what is asked of each of them.\<close>

definition coinValue :: "coin option \<Rightarrow> int" where
  "coinValue c = (case c of Some (amount, _) \<Rightarrow> sint amount | None \<Rightarrow> 0)"

lemma coinValue_simps [simp]: "coinValue None = 0" "coinValue (Some (a, r)) = sint a"
  by (simp_all add: coinValue_def)

definition inSum :: "(OutPoint \<rightharpoonup> coin) \<Rightarrow> TxIn list \<Rightarrow> int" where
  "inSum m ins = (\<Sum>txIn\<leftarrow>ins. coinValue (m (PreviousOutPoint txIn)))"

lemma inSum_simps [simp]: "inSum m [] = 0" "inSum m (i # ins) = coinValue (m (PreviousOutPoint i)) + inSum m ins"
  by (simp_all add: inSum_def)

definition spendable :: "Params \<Rightarrow> int \<Rightarrow> coin option \<Rightarrow> bool" where
  "spendable prm txHeight c =
     (case c of
        None \<Rightarrow> False
      | Some (amount, _, height, coinbase) \<Rightarrow>
          0 \<le> sint amount \<and> (coinbase \<longrightarrow> s32 (txHeight - height) \<ge> int (unat (CoinbaseMaturity prm))))"

lemma spendable_nonneg: "spendable prm h c \<Longrightarrow> 0 \<le> coinValue c"
  by (auto simp: spendable_def coinValue_def split: option.splits)

lemma inSum_nonneg: "list_all (\<lambda>i. spendable prm h (m (PreviousOutPoint i))) ins \<Longrightarrow> 0 \<le> inSum m ins"
  by (induction ins) (auto dest: spendable_nonneg)

lemma checkInput_iff:
  assumes "0 \<le> acc" and "acc \<le> MaxSatoshi"
  shows "checkInput prm h view acc i = Inr acc' \<longleftrightarrow>
    (let c = utxos view (PreviousOutPoint i) in
     spendable prm h c \<and> acc + coinValue c \<le> MaxSatoshi \<and> acc' = acc + coinValue c)"
proof (cases "LookupEntry view (PreviousOutPoint i)")
  case (Some e)
  show ?thesis
  proof (cases "0 \<le> sint (ue_amount e) \<and> sint (ue_amount e) \<le> MaxSatoshi")
    case True
    then have "s64 (acc + sint (ue_amount e)) = acc + sint (ue_amount e)"
      using assms by (intro s64_id) (auto simp: MaxSatoshi_def)
    then show ?thesis using True Some by (auto simp: checkInput_def spendable_def utxos_def coin_of_def Let_def)
  qed (use Some assms in \<open>auto simp: checkInput_def spendable_def utxos_def coin_of_def Let_def\<close>)
qed (simp add: checkInput_def spendable_def utxos_def)

lemma checkInputs_iff:
  assumes "0 \<le> acc" and "acc \<le> MaxSatoshi"
  shows "foldE (checkInput prm h view) acc ins = Inr acc' \<longleftrightarrow>
    list_all (\<lambda>i. spendable prm h (utxos view (PreviousOutPoint i))) ins
    \<and> acc + inSum (utxos view) ins \<le> MaxSatoshi \<and> acc' = acc + inSum (utxos view) ins"
  using assms
proof (induction ins arbitrary: acc)
  case (Cons i ins)
  let ?c = "utxos view (PreviousOutPoint i)"
  show ?case
  proof (cases "spendable prm h ?c \<and> acc + coinValue ?c \<le> MaxSatoshi")
    case True
    then have "checkInput prm h view acc i = Inr (acc + coinValue ?c)"
      using Cons.prems by (simp add: checkInput_iff Let_def)
    moreover have "0 \<le> coinValue ?c" using True by (blast intro: spendable_nonneg)
    ultimately show ?thesis using Cons.IH[of "acc + coinValue ?c"] True Cons.prems by (auto simp: algebra_simps)
  next
    case False
    then have "\<nexists>t. checkInput prm h view acc i = Inr t" using Cons.prems by (auto simp: checkInput_iff Let_def)
    then show ?thesis using False inSum_nonneg[of prm h "utxos view" ins] by (auto simp: bindE_eq_Inr)
  qed
qed auto

lemma inputs_fee:
  assumes sane: "sane_tx tx"
  shows "CheckTransactionInputs prm tx h view = Inr fee \<longleftrightarrow>
    (if IsCoinBaseTx tx then fee = 0
     else list_all (\<lambda>txIn. spendable prm h (utxos view (PreviousOutPoint txIn))) (tx_TxIn tx)
          \<and> inSum (utxos view) (tx_TxIn tx) \<le> MaxSatoshi
          \<and> 0 \<le> fee \<and> inSum (utxos view) (tx_TxIn tx) = outSum (tx_TxOut tx) + fee)"
proof -
  from sane have out: "0 \<le> outSum (tx_TxOut tx)" "sumOutputs tx = outSum (tx_TxOut tx)"
    by (auto simp: sumOutputs_sane sane_tx_def intro: outSum_nonneg)
  have "CheckTransactionInputs prm tx h view = Inr fee \<longleftrightarrow>
    list_all (\<lambda>txIn. spendable prm h (utxos view (PreviousOutPoint txIn))) (tx_TxIn tx)
          \<and> inSum (utxos view) (tx_TxIn tx) \<le> MaxSatoshi
          \<and> 0 \<le> fee \<and> inSum (utxos view) (tx_TxIn tx) = outSum (tx_TxOut tx) + fee" if "\<not> IsCoinBaseTx tx"
  proof -
    have s: "s64 (t - outSum (tx_TxOut tx)) = t - outSum (tx_TxOut tx)" if "t \<le> MaxSatoshi" "outSum (tx_TxOut tx) \<le> t" for t
      using that out by (intro s64_id) (auto simp: MaxSatoshi_def)
    have "foldE (checkInput prm h view) 0 (tx_TxIn tx) = Inr t \<longleftrightarrow>
      list_all (\<lambda>i. spendable prm h (utxos view (PreviousOutPoint i))) (tx_TxIn tx)
      \<and> inSum (utxos view) (tx_TxIn tx) \<le> MaxSatoshi \<and> t = inSum (utxos view) (tx_TxIn tx)" for t
      using checkInputs_iff[of 0 prm h view "tx_TxIn tx" t] by (simp add: MaxSatoshi_def)
    then show ?thesis
      using that s s[of "outSum (tx_TxOut tx) + fee"] by (auto simp: CheckTransactionInputs_def bindE_eq_Inr Let_def out(2))
  qed
  then show ?thesis by (simp add: CheckTransactionInputs_def)
qed

text \<open>C18: for a transaction that passed the sanity check and is not a coinbase, the check of its inputs returns a fee if and only if each
  input refers to an unspent output of the view that is not negative and, from a coinbase, is mature, the total of the inputs is at
  most 21 million coins and covers the outputs; the fee is then the exact difference of the two totals, so it is not negative. A
  coinbase pays no fee.
\<close>

theorem CheckTransactionInputs_fee:
  assumes "CheckTransactionSanity tx = Inr ()"
  shows "CheckTransactionInputs prm tx h view = Inr fee \<longleftrightarrow>
    (if IsCoinBaseTx tx then fee = 0
     else list_all (\<lambda>txIn. spendable prm h (utxos view (PreviousOutPoint txIn))) (tx_TxIn tx)
          \<and> inSum (utxos view) (tx_TxIn tx) \<le> MaxSatoshi
          \<and> 0 \<le> fee \<and> inSum (utxos view) (tx_TxIn tx) = outSum (tx_TxOut tx) + fee)"
  using assms by (intro inputs_fee) (simp add: sanity_sane)

definition sampleParams :: Params where
  "sampleParams = \<lparr>Net = 0, GenesisHash = [], PowLimit = 0, BIP0034Height = 0, BIP0065Height = 0, BIP0066Height = 0,
     CoinbaseMaturity = 100, SubsidyReductionInterval = 0, Checkpoints = [], RuleChangeActivationThreshold = 1,
     MinerConfirmationWindow = 1, Deployments = []\<rparr>"

theorem CheckTransactionInputs_fee_witness:
  "CheckTransactionSanity sampleSpender = Inr () \<and> CheckTransactionInputs sampleParams sampleSpender 7 sampleView = Inr 10"
proof -
  have "tx_SerializeSizeStripped sampleSpender < 100" by code_simp
  moreover have "distinct (map PreviousOutPoint (tx_TxIn sampleSpender))" "nonneg_outs (tx_TxOut sampleSpender)"
    "list_all (\<lambda>txIn. \<not> isNullOutpoint (PreviousOutPoint txIn)) (tx_TxIn sampleSpender)" "\<not> IsCoinBaseTx sampleSpender"
    "tx_TxIn sampleSpender \<noteq> []" "tx_TxOut sampleSpender \<noteq> []" "outSum (tx_TxOut sampleSpender) = 60"
    by code_simp+
  ultimately have s: "CheckTransactionSanity sampleSpender = Inr ()" by (simp add: sanity_sane sane_tx_def)
  have "\<not> IsCoinBaseTx sampleSpender" by code_simp
  moreover have "list_all (\<lambda>txIn. spendable sampleParams 7 (utxos sampleView (PreviousOutPoint txIn))) (tx_TxIn sampleSpender)"
    by code_simp
  moreover have "inSum (utxos sampleView) (tx_TxIn sampleSpender) = 70" "outSum (tx_TxOut sampleSpender) = 60" by code_simp+
  ultimately show ?thesis
    using s CheckTransactionInputs_fee[OF s, of sampleParams 7 sampleView 10] by (simp add: MaxSatoshi_def)
qed

end
