(* ===== verification/ChainMerkle.thy ===== *)
theory ChainMerkle
  imports ChainBase ScriptParse "HOL-Library.Log_Nat"
begin

text \<open>
  Merkle trees and the witness commitment: \<open>src/pkg/chain/merkle.go\<close>. \<open>BuildMerkleTreeStore\<close> keeps the whole tree in one array, level after
  level, with nil for the nodes that have no children; the specification is the recursion that pairs up the hashes
  of a level, the last one with itself if their number is odd. \<open>sha\<close> is SHA-256.

  \<open>nextPowerOfTwo\<close> uses \<open>math.Log2\<close>, which is modelled as the exact binary logarithm: the rounding of double precision numbers
  does not reach the next integer for numbers of transactions that fit a block.
\<close>

section \<open>The array\<close>

definition nextPowerOfTwo :: "nat \<Rightarrow> nat" where
  "nextPowerOfTwo n = (if n AND (n - 1) = 0 then n else let exponent = floorlog 2 n in 2 ^ exponent)"

definition HashMerkleBranches :: "(bytes \<Rightarrow> bytes) \<Rightarrow> bytes \<Rightarrow> bytes \<Rightarrow> bytes" where
  "HashMerkleBranches sha left right = DoubleHashH sha (left @ right)"

definition merkleLeaf :: "(bytes \<Rightarrow> bytes) \<Rightarrow> bool \<Rightarrow> nat \<Rightarrow> MsgTx \<Rightarrow> bytes" where
  "merkleLeaf sha witness i tx =
     (if witness \<and> i = 0 then chainZeroHash
      else if witness then WitnessHash sha tx
      else TxHash sha tx)"

definition merkleParent :: "(bytes \<Rightarrow> bytes) \<Rightarrow> bytes option \<Rightarrow> bytes option \<Rightarrow> bytes option" where
  "merkleParent sha left right =
     (case left of
        None \<Rightarrow> None
      | Some l \<Rightarrow> (case right of
                     None \<Rightarrow> Some (HashMerkleBranches sha l l)
                   | Some r \<Rightarrow> Some (HashMerkleBranches sha l r)))"

text \<open>The loop over the array: the \<open>k\<close>-th iteration reads at \<open>i = 2 * k\<close> and writes at \<open>offset = nextPoT + k\<close>.\<close>

definition merkleLoop :: "(bytes \<Rightarrow> bytes) \<Rightarrow> nat \<Rightarrow> nat \<Rightarrow> bytes option list \<Rightarrow> bytes option list" where
  "merkleLoop sha nextPoT count merkles =
     fold (\<lambda>k m. m[nextPoT + k := merkleParent sha (m ! (2 * k)) (m ! (2 * k + 1))]) [0..<count] merkles"

text \<open>Without transactions the size of the array is -1, and \<open>make\<close> panics.\<close>

definition BuildMerkleTreeStore :: "(bytes \<Rightarrow> bytes) \<Rightarrow> MsgTx list \<Rightarrow> bool \<Rightarrow> bytes option list cres" where
  "BuildMerkleTreeStore sha transactions witness =
     (let nextPoT = nextPowerOfTwo (length transactions) in
      if nextPoT = 0 then Inl GoPanic
      else let arraySize = nextPoT * 2 - 1;
               merkles = map (\<lambda>(i, tx). Some (merkleLeaf sha witness i tx)) (enumerate 0 transactions)
                         @ replicate (arraySize - length transactions) None
           in Inr (merkleLoop sha nextPoT ((arraySize - 1) div 2) merkles))"

section \<open>The witness commitment\<close>

definition CoinbaseWitnessDataLen :: nat where "CoinbaseWitnessDataLen = 32"
definition CoinbaseWitnessPkScriptLength :: nat where "CoinbaseWitnessPkScriptLength = 38"

definition WitnessMagicBytes :: bytes where
  "WitnessMagicBytes = [OP_RETURN, 0x24, 0xaa, 0x21, 0xa9, 0xed]"

definition ExtractWitnessCommitment :: "MsgTx \<Rightarrow> bytes option" where
  "ExtractWitnessCommitment tx =
     (if \<not> IsCoinBaseTx tx then None
      else case List.find (\<lambda>txOut. length (PkScript txOut) \<ge> CoinbaseWitnessPkScriptLength
                              \<and> take (length WitnessMagicBytes) (PkScript txOut) = WitnessMagicBytes)
                  (rev (tx_TxOut tx)) of
             None \<Rightarrow> None
           | Some txOut \<Rightarrow> Some (drop (length WitnessMagicBytes) (take CoinbaseWitnessPkScriptLength (PkScript txOut))))"

definition ValidateWitnessCommitment :: "(bytes \<Rightarrow> bytes) \<Rightarrow> Block \<Rightarrow> unit cres" where
  "ValidateWitnessCommitment sha blk =
     (case Transactions blk of
        [] \<Rightarrow> Inl (RuleError ErrNoTransactions)
      | coinbaseTx # _ \<Rightarrow>
          case tx_TxIn coinbaseTx of
            [] \<Rightarrow> Inl (RuleError ErrNoTxInputs)
          | txIn # _ \<Rightarrow>
              case ExtractWitnessCommitment coinbaseTx of
                None \<Rightarrow> failIf (list_ex HasWitness (Transactions blk)) (RuleError ErrUnexpectedWitness)
              | Some witnessCommitment \<Rightarrow>
                  let coinbaseWitness = witItems txIn in
                  bindE (failIf (length coinbaseWitness \<noteq> 1) (RuleError ErrInvalidWitnessCommitment)) (\<lambda>_.
                  let witnessNonce = coinbaseWitness ! 0 in
                  bindE (failIf (length witnessNonce \<noteq> CoinbaseWitnessDataLen) (RuleError ErrInvalidWitnessCommitment)) (\<lambda>_.
                  bindE (BuildMerkleTreeStore sha (Transactions blk) True) (\<lambda>witnessMerkleTree.
                  case last witnessMerkleTree of
                    None \<Rightarrow> Inl GoPanic
                  | Some witnessMerkleRoot \<Rightarrow>
                      failIf (DoubleHashH sha (witnessMerkleRoot @ witnessNonce) \<noteq> witnessCommitment)
                        (RuleError ErrWitnessCommitmentMismatch)))))"

section \<open>The tree by recursion\<close>

fun pairUp :: "('a \<Rightarrow> 'a \<Rightarrow> 'a) \<Rightarrow> 'a list \<Rightarrow> 'a list" where
  "pairUp h (x # y # rest) = h x y # pairUp h rest"
| "pairUp h [x] = [h x x]"
| "pairUp h [] = []"

lemma length_pairUp [simp]: "length (pairUp h xs) = (length xs + 1) div 2"
  by (induction h xs rule: pairUp.induct) auto

function merkleRoot :: "('a \<Rightarrow> 'a \<Rightarrow> 'a) \<Rightarrow> 'a list \<Rightarrow> 'a" where
  "merkleRoot h xs = (if length xs \<le> 1 then hd xs else merkleRoot h (pairUp h xs))"
  by auto
termination by (relation "measure (\<lambda>(h, xs). length xs)") auto

declare merkleRoot.simps [simp del]

lemma and_pred_pow2: "0 < n \<Longrightarrow> n AND (n - 1) = 0 \<Longrightarrow> \<exists>p. n = (2 :: nat) ^ p"
proof (induction n rule: less_induct)
  case (less n)
  show ?case
  proof (cases "even n")
    case True
    then obtain m where m: "n = 2 * m" "0 < m" using less.prems(1) by auto
    have "(n - 1) div 2 = m - 1" "odd (n - 1)" using m by auto
    then have "n AND (n - 1) = 2 * (m AND (m - 1))" using m by (subst and_rec) auto
    with less.prems(2) have "m AND (m - 1) = 0" by simp
    with less.IH[of m] m obtain p where "m = 2 ^ p" by auto
    then have "n = 2 ^ Suc p" using m by simp
    then show ?thesis by blast
  next
    case False
    then obtain m where m: "n = 2 * m + 1" by (auto elim: oddE)
    have "n AND (n - 1) = 2 * m" using m by (subst and_rec) auto
    with less.prems(2) have "n = 2 ^ 0" using m by simp
    then show ?thesis by blast
  qed
qed

lemma and_mask_exp: "(2 :: nat) ^ k AND mask k = 0"
  by (simp only: take_bit_eq_mask[symmetric]) simp

lemma nextPowerOfTwo_bounds:
  assumes "0 < n"
  shows "\<exists>p. nextPowerOfTwo n = 2 ^ p \<and> n \<le> 2 ^ p \<and> 2 ^ p < 2 * n"
proof (cases "n AND (n - 1) = 0")
  case True
  then show ?thesis using and_pred_pow2[OF assms True] assms by (auto simp: nextPowerOfTwo_def)
next
  case False
  let ?e = "floorlog 2 n"
  have b: "2 ^ (?e - 1) \<le> n" "n < 2 ^ ?e" using floorlog_bounds[of n 2] assms by auto
  have "?e \<noteq> 0" using assms by (simp add: floorlog_eq_zero_iff)
  then have e: "0 < ?e" by simp
  have "2 ^ (?e - 1) \<noteq> n" using False and_mask_exp[of "?e - 1"] by (metis mask_eq_exp_minus_1)
  then have "2 ^ (?e - 1) < n" using b by simp
  then have "2 ^ ?e < 2 * n" using e by (cases ?e) auto
  then show ?thesis using b False by (auto simp: nextPowerOfTwo_def Let_def intro!: exI[of _ ?e])
qed

text \<open>The levels of a tree with \<open>2^p\<close> leaves, one after the other.\<close>

fun pairs :: "('a \<Rightarrow> 'a \<Rightarrow> 'a) \<Rightarrow> 'a list \<Rightarrow> 'a list" where
  "pairs f (x # y # rest) = f x y # pairs f rest"
| "pairs f _ = []"

fun levels :: "('a \<Rightarrow> 'a \<Rightarrow> 'a) \<Rightarrow> nat \<Rightarrow> 'a list \<Rightarrow> 'a list" where
  "levels f 0 xs = xs"
| "levels f (Suc p) xs = xs @ levels f p (pairs f xs)"

lemma length_pairs [simp]: "length (pairs f xs) = length xs div 2"
  by (induction f xs rule: pairs.induct) auto

lemma nth_pairs: "k < length xs div 2 \<Longrightarrow> pairs f xs ! k = f (xs ! (2 * k)) (xs ! (2 * k + 1))"
  by (induction f xs arbitrary: k rule: pairs.induct) (auto simp: nth_Cons split: nat.splits)

lemma length_levels: "length xs = 2 ^ p \<Longrightarrow> length (levels f p xs) = 2 * 2 ^ p - 1"
proof (induction p arbitrary: xs)
  case (Suc p)
  have "length (pairs f xs) = 2 ^ p" using Suc.prems by simp
  from Suc.IH[OF this] Suc.prems show ?case by simp
qed simp

lemma levels_parent:
  "length xs = 2 ^ p \<Longrightarrow> k < 2 ^ p - 1
    \<Longrightarrow> levels f p xs ! (2 ^ p + k) = f (levels f p xs ! (2 * k)) (levels f p xs ! (2 * k + 1))"
proof (induction p arbitrary: xs k)
  case (Suc p)
  let ?Q = "2 ^ p :: nat"
  have len: "length (pairs f xs) = ?Q" "length xs = 2 * ?Q" using Suc.prems by simp_all
  have tail: "(xs @ levels f p (pairs f xs)) ! (2 * ?Q + j) = levels f p (pairs f xs) ! j" for j
    by (simp add: nth_append len)
  show ?case
  proof (cases "k < ?Q")
    case True
    then have "levels f p (pairs f xs) ! k = pairs f xs ! k" using len(1) by (cases p) (auto simp: nth_append)
    with True len show ?thesis using tail[of k] by (simp add: nth_append nth_pairs)
  next
    case False
    then obtain j where j: "k = ?Q + j" by (metis le_iff_add not_less)
    then have j1: "j < ?Q - 1" using Suc.prems(2) by simp
    have "levels f p (pairs f xs) ! k = f (levels f p (pairs f xs) ! (2 * j)) (levels f p (pairs f xs) ! (2 * j + 1))"
      using Suc.IH[OF len(1) j1] j by simp
    moreover have "2 * k = 2 * ?Q + 2 * j" "2 * k + 1 = 2 * ?Q + (2 * j + 1)" using j by simp_all
    ultimately show ?thesis using tail[of k] tail[of "2 * j"] tail[of "2 * j + 1"] by simp
  qed
qed simp

lemma merkleLoop_levels:
  assumes "length xs = 2 ^ p"
  shows "merkleLoop sha (2 ^ p) (2 ^ p - 1) (xs @ replicate (2 ^ p - 1) None) = levels (merkleParent sha) p xs"
proof -
  let ?P = "2 ^ p :: nat" and ?S = "levels (merkleParent sha) p xs"
  have S: "length ?S = 2 * ?P - 1" using length_levels[OF assms] .
  have xs: "take ?P ?S = xs" using assms by (cases p) auto
  have "merkleLoop sha ?P k (xs @ replicate (?P - 1) None) = take (?P + k) ?S @ replicate (?P - 1 - k) None"
    if "k \<le> ?P - 1" for k using that
  proof (induction k)
    case 0
    then show ?case by (simp add: merkleLoop_def xs)
  next
    case (Suc k)
    let ?m = "take (?P + k) ?S @ replicate (?P - 1 - k) None"
    have k: "k < ?P - 1" using Suc.prems by simp
    then have lt: "2 * k < ?P + k" "2 * k + 1 < ?P + k" "?P + k < 2 * ?P - 1" by linarith+
    have m: "?m ! (2 * k) = ?S ! (2 * k)" "?m ! (2 * k + 1) = ?S ! (2 * k + 1)"
      using lt S by (simp_all add: nth_append)
    have "merkleLoop sha ?P (Suc k) (xs @ replicate (?P - 1) None)
        = ?m[?P + k := merkleParent sha (?m ! (2 * k)) (?m ! (2 * k + 1))]"
      using Suc by (simp add: merkleLoop_def)
    also have "\<dots> = ?m[?P + k := ?S ! (?P + k)]"
      unfolding m using levels_parent[OF assms k, of "merkleParent sha"] by simp
    also have "\<dots> = take (?P + k) ?S @ (replicate (Suc (?P - 1 - Suc k)) None)[0 := ?S ! (?P + k)]"
      using lt S k by (simp add: list_update_append Suc_diff_Suc)
    also have "\<dots> = take (?P + Suc k) ?S @ replicate (?P - 1 - Suc k) None"
      using lt S by (simp add: take_Suc_conv_app_nth)
    finally show ?case .
  qed
  from this[of "?P - 1"] S show ?thesis by simp
qed

text \<open>Padding with nil commutes with pairing, so that the last entry is the root of the recursion.\<close>

definition padded :: "nat \<Rightarrow> 'a list \<Rightarrow> 'a option list" where
  "padded n xs = map Some xs @ replicate (n - length xs) None"

lemma pairs_None: "pairs (merkleParent sha) (replicate n None) = replicate (n div 2) None"
proof (induction n rule: less_induct)
  case (less n)
  show ?case
  proof (cases "n < 2")
    case True
    then show ?thesis by (cases n) auto
  next
    case False
    then obtain m where "n = Suc (Suc m)" by (metis add_2_eq_Suc le_Suc_ex not_less)
    with less[of m] show ?thesis by (simp add: merkleParent_def)
  qed
qed

lemma pairs_padded:
  "length xs \<le> 2 * n \<Longrightarrow> pairs (merkleParent sha) (padded (2 * n) xs) = padded n (pairUp (HashMerkleBranches sha) xs)"
proof (induction "HashMerkleBranches sha" xs arbitrary: n rule: pairUp.induct)
  case (1 x y rest)
  then obtain m where "n = Suc m" by (cases n) auto
  with 1 show ?case by (simp add: padded_def merkleParent_def)
next
  case (2 x)
  then obtain m where "n = Suc m" by (cases n) auto
  then show ?case using pairs_None[of sha "2 * m"] by (simp add: padded_def merkleParent_def)
next
  case 3
  then show ?case using pairs_None[of sha "2 * n"] by (simp add: padded_def)
qed

lemma last_levels:
  "xs \<noteq> [] \<Longrightarrow> length xs \<le> 2 ^ p \<Longrightarrow> 2 ^ p < 2 * length xs
    \<Longrightarrow> last (levels (merkleParent sha) p (padded (2 ^ p) xs)) = Some (merkleRoot (HashMerkleBranches sha) xs)"
proof (induction p arbitrary: xs)
  case 0
  then obtain x where "xs = [x]" by (cases xs) auto
  then show ?case by (simp add: padded_def merkleRoot.simps)
next
  case (Suc p)
  let ?h = "HashMerkleBranches sha"
  let ?ys = "pairUp ?h xs"
  have "last (levels (merkleParent sha) p (padded (2 ^ p) ?ys)) = Some (merkleRoot ?h ?ys)"
  proof (rule Suc.IH)
    show "?ys \<noteq> []" using Suc.prems(1) by (cases "(?h, xs)" rule: pairUp.cases) auto
    show "length ?ys \<le> 2 ^ p" "2 ^ p < 2 * length ?ys" using Suc.prems(2,3) by simp_all
  qed
  moreover have "1 < length xs" using Suc.prems(3) one_le_power[of "2 :: nat" p] unfolding power_Suc by linarith
  then have "merkleRoot ?h xs = merkleRoot ?h ?ys" by (subst merkleRoot.simps) simp
  moreover have "padded (2 ^ p) ?ys \<noteq> []" using Suc.prems(1) by (cases "(?h, xs)" rule: pairUp.cases) (auto simp: padded_def)
  then have "levels (merkleParent sha) p (padded (2 ^ p) ?ys) \<noteq> []" by (cases p) auto
  moreover have "pairs (merkleParent sha) (padded (2 ^ Suc p) xs) = padded (2 ^ p) ?ys"
    using pairs_padded[of xs "2 ^ p" sha] Suc.prems(2) by simp
  ultimately show ?case by simp
qed

lemma merkle_store:
  assumes "txs \<noteq> []"
  shows "\<exists>m. BuildMerkleTreeStore sha txs witness = Inr m
    \<and> length m = 2 * nextPowerOfTwo (length txs) - 1
    \<and> take (length txs) m = map Some (map (\<lambda>(i, tx). merkleLeaf sha witness i tx) (enumerate 0 txs))
    \<and> last m = Some (merkleRoot (HashMerkleBranches sha) (map (\<lambda>(i, tx). merkleLeaf sha witness i tx) (enumerate 0 txs)))"
proof -
  let ?leaves = "map (\<lambda>(i, tx). merkleLeaf sha witness i tx) (enumerate 0 txs)"
  from nextPowerOfTwo_bounds[of "length txs"] assms obtain p where
    p: "nextPowerOfTwo (length txs) = 2 ^ p" "length ?leaves \<le> 2 ^ p" "2 ^ p < 2 * length ?leaves" by auto
  let ?L = "levels (merkleParent sha) p (padded (2 ^ p) ?leaves)"
  have len: "length (padded (2 ^ p) ?leaves) = 2 ^ p" using p(2) by (simp add: padded_def)
  have room: "2 ^ p * 2 - 1 - length txs = (2 ^ p - length ?leaves) + (2 ^ p - 1)" using p(2) by simp
  have "map Some ?leaves @ replicate (2 ^ p * 2 - 1 - length txs) None = padded (2 ^ p) ?leaves @ replicate (2 ^ p - 1) None"
    unfolding room padded_def append_assoc replicate_add ..
  moreover have "(2 ^ p * 2 - 1 - 1) div 2 = 2 ^ p - (1 :: nat)" by simp
  ultimately have "BuildMerkleTreeStore sha txs witness = Inr ?L"
    using merkleLoop_levels[OF len, of sha] by (simp add: BuildMerkleTreeStore_def p(1) Let_def comp_def case_prod_unfold)
  moreover have first: "take (2 ^ p) ?L = padded (2 ^ p) ?leaves" using len by (cases p) auto
  have "take (length txs) ?L = take (length txs) (take (2 ^ p) ?L)" using p(2) by (simp add: min_absorb1)
  then have "take (length txs) ?L = map Some ?leaves" unfolding first by (simp add: padded_def)
  moreover have "?leaves \<noteq> []" using assms by (cases txs) auto
  ultimately show ?thesis
    using last_levels[OF _ p(2,3), of sha] length_levels[OF len, of "merkleParent sha"] p(1) by simp
qed

text \<open>C15: the merkle tree. For a block with transactions, \<open>BuildMerkleTreeStore\<close> gives an array whose last entry is the merkle root: the root of the tree made by
  pairing the hashes of every level, the last of an odd number with itself. The array has room for all levels.\<close>

theorem merkle_store_root:
  assumes "txs \<noteq> []"
  shows "\<exists>m. BuildMerkleTreeStore sha txs witness = Inr m
    \<and> length m = 2 * nextPowerOfTwo (length txs) - 1
    \<and> take (length txs) m = map Some (map (\<lambda>(i, tx). merkleLeaf sha witness i tx) (enumerate 0 txs))
    \<and> last m = Some (merkleRoot (HashMerkleBranches sha) (map (\<lambda>(i, tx). merkleLeaf sha witness i tx) (enumerate 0 txs)))"
  using assms by (rule merkle_store)

definition merkleTx :: MsgTx where
  "merkleTx = \<lparr>tx_Version = 1, tx_TxIn = [], tx_TxOut = [], tx_LockTime = 0\<rparr>"

theorem merkle_store_root_witness:
  "[merkleTx, merkleTx, merkleTx] \<noteq> []
   \<and> (\<exists>m. BuildMerkleTreeStore (\<lambda>b. b) [merkleTx, merkleTx, merkleTx] False = Inr m \<and> length m = 7
     \<and> last m = Some (merkleRoot (HashMerkleBranches (\<lambda>b. b)) (replicate 3 (TxHash (\<lambda>b. b) merkleTx))))"
proof -
  have "nextPowerOfTwo 3 = 4" by code_simp
  with merkle_store_root[of "[merkleTx, merkleTx, merkleTx]" "\<lambda>b. b" False] show ?thesis
    by (auto simp: merkleLeaf_def numeral_eq_Suc)
qed

lemma merkleLeaf_rest: "map (\<lambda>(i, tx). merkleLeaf sha True i tx) (enumerate (Suc k) txs) = map (WitnessHash sha) txs"
  by (induction txs arbitrary: k) (simp_all add: merkleLeaf_def)

text \<open>C19: the witness commitment. \<open>ValidateWitnessCommitment\<close> accepts a block exactly if it has a first transaction with an input and either that transaction
  has no commitment and no transaction has witness data, or the commitment is the hash of the root of the tree of witness hashes (with zero for the
  first transaction) and of the 32 bytes that are the only witness item of the first input. It never panics.\<close>

theorem witness_commitment_iff:
  "(ValidateWitnessCommitment sha blk = Inr () \<longleftrightarrow>
     (\<exists>coinbaseTx rest txIn ins. Transactions blk = coinbaseTx # rest \<and> tx_TxIn coinbaseTx = txIn # ins \<and>
       (case ExtractWitnessCommitment coinbaseTx of
          None \<Rightarrow> list_all (\<lambda>tx. \<not> HasWitness tx) (Transactions blk)
        | Some commitment \<Rightarrow>
            \<exists>nonce. witItems txIn = [nonce] \<and> length nonce = 32 \<and>
              commitment = DoubleHashH sha (merkleRoot (HashMerkleBranches sha) (chainZeroHash # map (WitnessHash sha) rest) @ nonce))))
   \<and> ValidateWitnessCommitment sha blk \<noteq> Inl GoPanic"
proof (cases "Transactions blk")
  case Nil
  then show ?thesis by (simp add: ValidateWitnessCommitment_def)
next
  case (Cons coinbaseTx rest)
  note txs = Cons
  show ?thesis
  proof (cases "tx_TxIn coinbaseTx")
    case Nil
    then show ?thesis using txs by (simp add: ValidateWitnessCommitment_def)
  next
    case (Cons txIn ins)
    have leaves: "map (\<lambda>(i, tx). merkleLeaf sha True i tx) (enumerate 0 (coinbaseTx # rest)) = chainZeroHash # map (WitnessHash sha) rest"
      using merkleLeaf_rest[of sha 0 rest] by (simp add: merkleLeaf_def)
    from merkle_store[of "coinbaseTx # rest" sha True] obtain m where
      m: "BuildMerkleTreeStore sha (coinbaseTx # rest) True = Inr m"
      "last m = Some (merkleRoot (HashMerkleBranches sha) (chainZeroHash # map (WitnessHash sha) rest))"
      unfolding leaves by auto
    show ?thesis
    proof (cases "ExtractWitnessCommitment coinbaseTx")
      case None
      then show ?thesis using txs Cons by (auto simp: ValidateWitnessCommitment_def failIf_def list_ex_iff list_all_iff)
    next
      case (Some commitment)
      then show ?thesis using txs Cons m
        by (auto simp: ValidateWitnessCommitment_def failIf_def Let_def CoinbaseWitnessDataLen_def length_Suc_conv bindE_def)
    qed
  qed
qed

end
