(* ===== verification/ScriptConcurrent.thy ===== *)
theory ScriptConcurrent
  imports ScriptTransparency
begin

text \<open>
  Steps of the engine whose signature cache is shared with other goroutines. A step runs on the engine of its goroutine alone until it calls
  \<open>SigCache.Exists\<close> or \<open>SigCache.Add\<close>; each of these calls holds the lock of the cache and is one atomic action, and anything can
  happen to the cache between two of them. The opcodes that verify signatures and all that calls them are therefore given again as a tree
  of the calls they make, \<open>'r act\<close>; what makes no call is lifted from the engine as it is. The result: whatever happens to
  the cache in between, as long as it only holds verified signatures, every way through the tree ends with the result of the engine without
  a cache, and adds verified signatures only.
\<close>

section \<open>Calls of the shared cache\<close>

datatype 'r act =
    Return 'r
  | CallExists bytes Signature PublicKey "bool \<Rightarrow> 'r act"
  | CallAdd bytes Signature PublicKey "'r act"

primrec bindA :: "'r act \<Rightarrow> ('r \<Rightarrow> 'q act) \<Rightarrow> 'q act" where
  "bindA (Return r) f = f r"
| "bindA (CallExists sigHash sg pk k) f = CallExists sigHash sg pk (\<lambda>b. bindA (k b) f)"
| "bindA (CallAdd sigHash sg pk a) f = CallAdd sigHash sg pk (bindA a f)"

text \<open>A computation of a goroutine on its engine. In the engine the field \<open>sigCache\<close> only says whether there is a cache, it is the
  pointer that is compared with \<open>nil\<close>; the contents are those of the shared cache at the time of a call.\<close>

type_synonym 'a shared = "Engine \<Rightarrow> ('a, Engine) res act"

definition liftS :: "'a vm \<Rightarrow> 'a shared" where
  "liftS m vm = Return (m vm)"

definition bindS :: "'a shared \<Rightarrow> ('a \<Rightarrow> 'b shared) \<Rightarrow> 'b shared" where
  "bindS m f vm = bindA (m vm) (\<lambda>r. case r of
     Ok x vm' \<Rightarrow> f x vm' | Err e vm' \<Rightarrow> Return (Err e vm') | Panic \<Rightarrow> Return Panic | Deadlock \<Rightarrow> Return Deadlock)"

definition thenS :: "unit shared \<Rightarrow> 'b shared \<Rightarrow> 'b shared" where
  "thenS m n = bindS m (\<lambda>_. n)"

definition callExists :: "bytes \<Rightarrow> Signature \<Rightarrow> PublicKey \<Rightarrow> bool shared" where
  "callExists sigHash sg pk vm = CallExists sigHash sg pk (\<lambda>b. Return (Ok b vm))"

definition callAdd :: "bytes \<Rightarrow> Signature \<Rightarrow> PublicKey \<Rightarrow> unit shared" where
  "callAdd sigHash sg pk vm = CallAdd sigHash sg pk (Return (Ok () vm))"

section \<open>The opcodes that verify signatures\<close>

definition verifySigS :: "crypto \<Rightarrow> bytes \<Rightarrow> Signature \<Rightarrow> PublicKey \<Rightarrow> bool shared" where
  "verifySigS C hash sg pk =
     bindS (liftS (getP sigCache)) (\<lambda>cache.
       case cache of
         None \<Rightarrow> liftS (retP (c_Verify C sg hash pk))
       | Some _ \<Rightarrow>
           let sigHash = copyHash hash in
           bindS (callExists sigHash sg pk) (\<lambda>valid.
           if valid then liftS (retP True)
           else if c_Verify C sg hash pk then thenS (callAdd sigHash sg pk) (liftS (retP True))
           else liftS (retP False)))"

definition opcodeCheckSigS :: "crypto \<Rightarrow> parsedOpcode \<Rightarrow> unit shared" where
  "opcodeCheckSigS C op =
     bindS (liftS (onD PopByteArray)) (\<lambda>pkBytes. bindS (liftS (onD PopByteArray)) (\<lambda>fullSigBytes.
       if length fullSigBytes < 1 then liftS (onD (PushBool False))
       else
         let hashType = ucast (fullSigBytes ! (length fullSigBytes - 1));
             sigBytes = take (length fullSigBytes - 1) fullSigBytes in
         thenS (liftS (checkHashTypeEncoding hashType))
         (thenS (liftS (checkSignatureEncoding sigBytes))
         (thenS (liftS (checkPubKeyEncoding pkBytes))
         (bindS (liftS subScript) (\<lambda>sub.
          bindS (liftS (getP (\<lambda>vm. isWitnessVersionActive vm 0))) (\<lambda>wit.
          bindS (liftS (scriptSigHash C (if wit then sub else removeOpcodeByData sub fullSigBytes) hashType)) (\<lambda>hash.
          case c_ParsePubKey C pkBytes of
            None \<Rightarrow> liftS (onD (PushBool False))
          | Some pubKey \<Rightarrow>
              bindS (liftS (getP (\<lambda>vm. parseSig C vm sigBytes))) (\<lambda>parsed.
              case parsed of
                None \<Rightarrow> liftS (onD (PushBool False))
              | Some sg \<Rightarrow>
                  bindS (verifySigS C hash sg pubKey) (\<lambda>valid.
                  bindS (liftS (getP (\<lambda>vm. hasFlag vm ScriptVerifyNullFail))) (\<lambda>nullFail.
                  thenS (liftS (failWhen (\<not> valid \<and> nullFail \<and> length sigBytes > 0) ErrNullFail))
                  (liftS (onD (PushBool valid))))))))))))))"

definition multiSigTryKeyS ::
  "crypto \<Rightarrow> parsedOpcode list \<Rightarrow> bytes \<Rightarrow> SigHashType \<Rightarrow> Signature \<Rightarrow> bool shared" where
  "multiSigTryKeyS C script pubKey hashType sg =
     thenS (liftS (checkPubKeyEncoding pubKey))
     (case c_ParsePubKey C pubKey of
        None \<Rightarrow> liftS (retP False)
      | Some parsedPubKey \<Rightarrow> bindS (liftS (scriptSigHash C script hashType)) (\<lambda>hash.
                               verifySigS C hash sg parsedPubKey))"

definition multiSigTryS ::
  "crypto \<Rightarrow> parsedOpcode list \<Rightarrow> bytes \<Rightarrow> parsedSigInfo \<Rightarrow> (bool \<times> parsedSigInfo) shared" where
  "multiSigTryS C script pubKey sigInfo =
     (let rawSig = psi_signature sigInfo in
      if length rawSig = 0 then liftS (retP (False, sigInfo))
      else
        let hashType = ucast (rawSig ! (length rawSig - 1));
            signature = take (length rawSig - 1) rawSig in
        if \<not> psi_parsed sigInfo
        then thenS (liftS (checkHashTypeEncoding hashType))
             (thenS (liftS (checkSignatureEncoding signature))
             (bindS (liftS (getP (\<lambda>vm. parseSig C vm signature))) (\<lambda>parsed.
              case parsed of
                None \<Rightarrow> liftS (retP (False, sigInfo\<lparr>psi_parsed := True\<rparr>))
              | Some sg \<Rightarrow>
                  bindS (multiSigTryKeyS C script pubKey hashType sg) (\<lambda>valid.
                  liftS (retP (valid, sigInfo\<lparr>psi_parsed := True, psi_parsedSignature := Some sg\<rparr>))))))
        else (case psi_parsedSignature sigInfo of
                None \<Rightarrow> liftS (retP (False, sigInfo))
              | Some sg \<Rightarrow> bindS (multiSigTryKeyS C script pubKey hashType sg) (\<lambda>valid.
                             liftS (retP (valid, sigInfo)))))"

fun multiSigLoopS ::
  "crypto \<Rightarrow> parsedOpcode list \<Rightarrow> bytes list \<Rightarrow> nat \<Rightarrow> nat \<Rightarrow> nat \<Rightarrow> nat \<Rightarrow> parsedSigInfo list \<Rightarrow> bool shared" where
  "multiSigLoopS C script pubKeys 0 numSignatures pubKeyIdx signatureIdx sigs =
     liftS (retP (numSignatures = 0))"
| "multiSigLoopS C script pubKeys (Suc n) numSignatures pubKeyIdx signatureIdx sigs =
     (if numSignatures = 0 then liftS (retP True)
      else if numSignatures > n then liftS (retP False)
      else bindS (liftS (indexP sigs (int signatureIdx))) (\<lambda>sigInfo.
           bindS (liftS (indexP pubKeys (int pubKeyIdx))) (\<lambda>pubKey.
           bindS (multiSigTryS C script pubKey sigInfo) (\<lambda>(valid, sigInfo').
           multiSigLoopS C script pubKeys n
             (if valid then numSignatures - 1 else numSignatures)
             (pubKeyIdx + 1)
             (if valid then signatureIdx + 1 else signatureIdx)
             (sigs[signatureIdx := sigInfo'])))))"

definition opcodeCheckMultiSigS :: "crypto \<Rightarrow> parsedOpcode \<Rightarrow> unit shared" where
  "opcodeCheckMultiSigS C op =
     bindS (liftS (onD PopInt)) (\<lambda>numKeys.
     let numPubKeys = Int32 numKeys in
     thenS (liftS (failWhen (numPubKeys < 0) ErrInvalidPubKeyCount))
     (thenS (liftS (failWhen (numPubKeys > int MaxPubKeysPerMultiSig) ErrInvalidPubKeyCount))
     (thenS (liftS (modifyP (numOps_update (\<lambda>n. n + nat numPubKeys))))
     (bindS (liftS (getP numOps)) (\<lambda>ops.
     thenS (liftS (failWhen (ops > MaxOpsPerScript) ErrTooManyOperations))
     (bindS (liftS (collectP (nat numPubKeys) (onD PopByteArray))) (\<lambda>pubKeys.
     bindS (liftS (onD PopInt)) (\<lambda>numSigs.
     let numSignatures = Int32 numSigs in
     thenS (liftS (failWhen (numSignatures < 0) ErrInvalidSignatureCount))
     (thenS (liftS (failWhen (numSignatures > numPubKeys) ErrInvalidSignatureCount))
     (bindS (liftS (collectP (nat numSignatures) (onD PopByteArray))) (\<lambda>rawSigs.
     bindS (liftS (onD PopByteArray)) (\<lambda>dummy.
     bindS (liftS (getP (\<lambda>vm. hasFlag vm ScriptStrictMultiSig))) (\<lambda>strict.
     thenS (liftS (failWhen (strict \<and> length dummy \<noteq> 0) ErrSigNullDummy))
     (bindS (liftS subScript) (\<lambda>sub.
     bindS (liftS (getP (\<lambda>vm. isWitnessVersionActive vm 0))) (\<lambda>wit.
     let script = (if wit then sub else foldl removeOpcodeByData sub rawSigs);
         sigs = map (\<lambda>s. \<lparr>psi_signature = s, psi_parsedSignature = None, psi_parsed = False\<rparr>) rawSigs in
     bindS (multiSigLoopS C script pubKeys (nat numPubKeys + 1) (nat numSignatures) 0 0 sigs) (\<lambda>success.
     bindS (liftS (getP (\<lambda>vm. hasFlag vm ScriptVerifyNullFail))) (\<lambda>nullFail.
     thenS (liftS (failWhen (\<not> success \<and> nullFail \<and> list_ex (\<lambda>s. length s > 0) rawSigs) ErrNullFail))
     (liftS (onD (PushBool success)))))))))))))))))))))"

section \<open>A step\<close>

text \<open>The four opcodes that reach the cache; all others are those of the engine.\<close>

definition opfuncS :: "crypto \<Rightarrow> u8 \<Rightarrow> parsedOpcode \<Rightarrow> unit shared" where
  "opfuncS C v op =
     (if v = OP_CHECKSIG then opcodeCheckSigS C op
      else if v = OP_CHECKSIGVERIFY then thenS (opcodeCheckSigS C op) (liftS (abstractVerify op ErrCheckSigVerify))
      else if v = OP_CHECKMULTISIG then opcodeCheckMultiSigS C op
      else if v = OP_CHECKMULTISIGVERIFY
      then thenS (opcodeCheckMultiSigS C op) (liftS (abstractVerify op ErrCheckMultiSigVerify))
      else liftS (opfunc C v op))"

definition executeOpcodeS :: "crypto \<Rightarrow> parsedOpcode \<Rightarrow> unit shared" where
  "executeOpcodeS C pop =
     thenS (liftS (failWhen (isDisabled pop) ErrDisabledOpcode))
     (thenS (liftS (failWhen (alwaysIllegal pop) ErrReservedOpcode))
     (thenS (liftS (if pop_value pop > OP_16
             then thenP (modifyP (numOps_update (\<lambda>n. n + 1)))
                  (bindP (getP numOps) (\<lambda>n. failWhen (n > MaxOpsPerScript) ErrTooManyOperations))
             else failWhen (length (pop_data pop) > MaxScriptElementSize) ErrElementTooBig))
     (bindS (liftS (getP isBranchExecuting)) (\<lambda>executing.
      if \<not> executing \<and> \<not> isConditional pop then liftS (retP ())
      else
        bindS (liftS (getP (\<lambda>vm. verifyMinimalData (dstack vm)))) (\<lambda>minimal.
        thenS (liftS (if minimal \<and> executing \<and> pop_value pop \<le> OP_PUSHDATA4
               then liftE (checkMinimalDataPush pop) else retP ()))
        (opfuncS C (pop_value pop) pop))))))"

definition StepS :: "crypto \<Rightarrow> bool shared" where
  "StepS C =
     thenS (liftS validPC)
     (bindS (liftS (getP scripts)) (\<lambda>ss. bindS (liftS (getP scriptIdx)) (\<lambda>i. bindS (liftS (getP scriptOff)) (\<lambda>off.
     bindS (liftS (indexP ss (int i))) (\<lambda>script. bindS (liftS (indexP script (int off))) (\<lambda>opcode.
     thenS (liftS (modifyP (scriptOff_update Suc)))
     (thenS (executeOpcodeS C opcode)
     (bindS (liftS (onD Depth)) (\<lambda>d. bindS (liftS (onA Depth)) (\<lambda>a.
     thenS (liftS (failWhen (s32 (d + a) > MaxStackSize) ErrStackOverflow))
     (bindS (liftS (getP scriptOff)) (\<lambda>off'.
      if off' \<ge> length script then liftS (nextScript C) else liftS (retP False)))))))))))))"

section \<open>Every way through a tree\<close>

text \<open>Whatever the answers are that a cache of verified signatures can give, the tree ends in a result that satisfies \<open>Q\<close>, and it adds verified
  signatures only. It makes no call at all if there is no cache, which is what \<open>cached\<close> says.\<close>

primrec settles :: "crypto \<Rightarrow> bool \<Rightarrow> ('r \<Rightarrow> bool) \<Rightarrow> 'r act \<Rightarrow> bool" where
  "settles C cached Q (Return r) = Q r"
| "settles C cached Q (CallExists sigHash sg pk k) =
     (cached \<and> settles C cached Q (k False) \<and> (c_Verify C sg sigHash pk \<longrightarrow> settles C cached Q (k True)))"
| "settles C cached Q (CallAdd sigHash sg pk a) = (cached \<and> c_Verify C sg sigHash pk \<and> settles C cached Q a)"

lemma act_induct [case_names Return CallExists CallAdd]:
  assumes "\<And>r. P (Return r)"
    and "\<And>sigHash sg pk k. P (k False) \<Longrightarrow> P (k True) \<Longrightarrow> P (CallExists sigHash sg pk k)"
    and "\<And>sigHash sg pk a. P a \<Longrightarrow> P (CallAdd sigHash sg pk a)"
  shows "P a"
  using assms by (rule act.induct) (metis rangeI)+

lemma settles_mono:
  assumes "settles C c Q a" and "c \<Longrightarrow> d" and "\<And>r. Q r \<Longrightarrow> R r"
  shows "settles C d R a"
  using assms(1) by (induction a rule: act_induct) (auto simp: assms(2,3))

lemma settles_bindA: "settles C c (\<lambda>r. settles C c Q (f r)) a \<Longrightarrow> settles C c Q (bindA a f)"
  by (induction a rule: act_induct) auto

text \<open>What is known after a computation with the shared cache: the result is the one \<open>n\<close> without a cache.\<close>

definition same_result :: "crypto \<Rightarrow> ('a \<Rightarrow> bool) \<Rightarrow> Engine \<Rightarrow> ('a, Engine) res \<Rightarrow> ('a, Engine) res \<Rightarrow> bool" where
  "same_result C P vm n r \<longleftrightarrow> forgetRes r = n
     \<and> (\<forall>x t. r = Ok x t \<longrightarrow> cache_sound C t \<and> (sigCache vm = None \<longrightarrow> sigCache t = None) \<and> P x)"

definition follows :: "crypto \<Rightarrow> 'a shared \<Rightarrow> 'a vm \<Rightarrow> ('a \<Rightarrow> bool) \<Rightarrow> bool" where
  "follows C mS m P \<longleftrightarrow> (\<forall>vm. cache_sound C vm \<longrightarrow>
     settles C (sigCache vm \<noteq> None) (same_result C P vm (m (forgetCache vm))) (mS vm))"

named_theorems follow_rules \<open>computations with the shared cache\<close>

lemma sim_no_cache:
  assumes "cs.sim C m P" and "sigCache vm = None" and "m vm = Ok x t"
  shows "sigCache t = None"
proof -
  have "forgetCache vm = vm" using assms(2) by (simp add: forgetCache_def)
  then have "forgetRes (m vm) = m vm" using cs.sim_fixed[OF assms(1), of vm] by simp
  then have "forgetCache t = t" using assms(3) by simp
  then show ?thesis by (metis Engine.select_convs(12) Engine.surjective Engine.update_convs(12) forgetCache_def)
qed

lemma follows_lift:
  assumes "cs.sim C m P"
  shows "follows C (liftS m) m P"
  unfolding follows_def liftS_def settles.simps same_result_def
  using cs.simD[OF assms] sim_no_cache[OF assms] by metis

lemma follows_bind [follow_rules]:
  assumes m: "follows C mS m P" and f: "\<And>x. P x \<Longrightarrow> follows C (fS x) (f x) Q"
  shows "follows C (bindS mS fS) (bindP m f) Q"
  unfolding follows_def bindS_def
proof (intro allI impI settles_bindA)
  fix vm assume "cache_sound C vm"
  with m have "settles C (sigCache vm \<noteq> None) (same_result C P vm (m (forgetCache vm))) (mS vm)"
    by (simp add: follows_def)
  then show "settles C (sigCache vm \<noteq> None) (\<lambda>r. settles C (sigCache vm \<noteq> None) (same_result C Q vm (bindP m f (forgetCache vm)))
        (case r of Ok x vm' \<Rightarrow> fS x vm' | Err e vm' \<Rightarrow> Return (Err e vm') | Panic \<Rightarrow> Return Panic | Deadlock \<Rightarrow> Return Deadlock)) (mS vm)"
  proof (rule settles_mono)
    fix r assume r: "same_result C P vm (m (forgetCache vm)) r"
    show "settles C (sigCache vm \<noteq> None) (same_result C Q vm (bindP m f (forgetCache vm)))
        (case r of Ok x vm' \<Rightarrow> fS x vm' | Err e vm' \<Rightarrow> Return (Err e vm') | Panic \<Rightarrow> Return Panic | Deadlock \<Rightarrow> Return Deadlock)"
    proof (cases r)
      case (Ok x t)
      then have t: "m (forgetCache vm) = Ok x (forgetCache t)" "cache_sound C t" "P x" "sigCache vm = None \<longrightarrow> sigCache t = None"
        using r by (auto simp: same_result_def)
      then have "settles C (sigCache t \<noteq> None) (same_result C Q t (f x (forgetCache t))) (fS x t)"
        using f[OF \<open>P x\<close>] by (simp add: follows_def)
      then have "settles C (sigCache vm \<noteq> None) (same_result C Q vm (bindP m f (forgetCache vm))) (fS x t)"
        by (rule settles_mono) (use t in \<open>auto simp: same_result_def bindP_def\<close>)
      then show ?thesis using Ok by simp
    qed (use r in \<open>auto simp: same_result_def bindP_def split: res.splits\<close>)
  qed
qed

lemma follows_then [follow_rules]:
  "follows C mS m (\<lambda>_. True) \<Longrightarrow> follows C nS n Q \<Longrightarrow> follows C (thenS mS nS) (thenP m n) Q"
  unfolding thenS_def thenP_def by (rule follows_bind)

lemma follows_if [follow_rules]:
  "(b \<Longrightarrow> follows C mS m P) \<Longrightarrow> (\<not> b \<Longrightarrow> follows C nS n P) \<Longrightarrow> follows C (if b then mS else nS) (if b then m else n) P"
  by simp

lemma follows_option [follow_rules]:
  "(r = None \<Longrightarrow> follows C mS m P) \<Longrightarrow> (\<And>x. r = Some x \<Longrightarrow> follows C (fS x) (f x) P) \<Longrightarrow>
     follows C (case r of None \<Rightarrow> mS | Some x \<Rightarrow> fS x) (case r of None \<Rightarrow> m | Some x \<Rightarrow> f x) P"
  by (cases r) simp_all

lemma follows_verifySig:
  assumes "length hash = HashSize"
  shows "follows C (verifySigS C hash sg pk) (verifySig C hash sg pk) (\<lambda>_. True)"
  by (auto simp: follows_def same_result_def verifySigS_def verifySig_def bindS_def thenS_def liftS_def callExists_def callAdd_def Let_def
      copyHash_id[OF assms] forgetCache_def bindP_def split: option.splits)

lemma follows_multiSigTryKey:
  assumes "sha_size C"
  shows "follows C (multiSigTryKeyS C script pk ht sg) (multiSigTryKey C script pk ht sg) (\<lambda>_. True)"
  unfolding multiSigTryKeyS_def multiSigTryKey_def
  by (rule follow_rules follows_verifySig follows_lift[OF sim_scriptSigHash[OF assms]] follows_lift sim_rules | simp)+

lemma follows_multiSigTry:
  assumes "sha_size C"
  shows "follows C (multiSigTryS C script pk info) (multiSigTry C script pk info) (\<lambda>_. True)"
  unfolding multiSigTryS_def multiSigTry_def Let_def
  by (rule follow_rules follows_multiSigTryKey[OF assms] follows_lift sim_rules | simp)+

lemma follows_multiSigLoop:
  assumes "sha_size C"
  shows "follows C (multiSigLoopS C script pubKeys n numSigs i j sigs) (multiSigLoop C script pubKeys n numSigs i j sigs) (\<lambda>_. True)"
proof (induction n arbitrary: numSigs i j sigs)
  case 0
  then show ?case by (simp add: follows_lift cs.sim_ret)
next
  case (Suc n)
  show ?case
    unfolding multiSigLoopS.simps multiSigLoop.simps case_prod_beta
    by (rule follow_rules follows_multiSigTry[OF assms] Suc.IH follows_lift sim_rules | simp)+
qed

lemma follows_checkSigs:
  assumes "sha_size C"
  shows "follows C (opcodeCheckSigS C op) (opcodeCheckSig C op) (\<lambda>_. True)"
    and "follows C (opcodeCheckMultiSigS C op) (opcodeCheckMultiSig C op) (\<lambda>_. True)"
  unfolding opcodeCheckSigS_def opcodeCheckSig_def opcodeCheckMultiSigS_def opcodeCheckMultiSig_def Let_def
  by (rule follow_rules follows_verifySig follows_multiSigLoop[OF assms] follows_lift[OF sim_scriptSigHash[OF assms]] follows_lift sim_rules
      cs.sim_collect | simp)+

lemma opfunc_sigs:
  "opfunc C OP_CHECKSIG = opcodeCheckSig C" "opfunc C OP_CHECKSIGVERIFY = opcodeCheckSigVerify C"
  "opfunc C OP_CHECKMULTISIG = opcodeCheckMultiSig C" "opfunc C OP_CHECKMULTISIGVERIFY = opcodeCheckMultiSigVerify C"
  by (simp_all add: opfunc_def opTable_def)

lemma follows_opfunc:
  assumes "sha_size C"
  shows "follows C (opfuncS C v op) (opfunc C v op) (\<lambda>_. True)"
  using follows_checkSigs[OF assms]
  by (auto simp: opfuncS_def opfunc_sigs opcodeCheckSigVerify_def opcodeCheckMultiSigVerify_def
      intro!: follows_then follows_lift sim_parts sim_opfunc[OF assms])

lemma follows_executeOpcode:
  assumes "sha_size C"
  shows "follows C (executeOpcodeS C op) (executeOpcode C op) (\<lambda>_. True)"
  unfolding executeOpcodeS_def executeOpcode_def
  by (rule follow_rules follows_opfunc[OF assms] follows_lift sim_rules | simp)+

lemma follows_Step:
  assumes "sha_size C"
  shows "follows C (StepS C) (Step C) (\<lambda>_. True)"
  unfolding StepS_def Step_def
  by (rule follow_rules follows_executeOpcode[OF assms] follows_lift sim_rules sim_nextScript | simp)+

text \<open>The number of calls a tree makes is bounded.\<close>

primrec calls :: "'r act \<Rightarrow> nat" where
  "calls (Return r) = 0"
| "calls (CallExists sigHash sg pk k) = Suc (max (calls (k True)) (calls (k False)))"
| "calls (CallAdd sigHash sg pk a) = Suc (calls a)"

end
