(* ===== verification/ChainScripts.thy ===== *)
theory ChainScripts
  imports ChainUtxo ScriptConcurrent "HOL-Library.Multiset"
begin

text \<open>
  Validation of the scripts of a block: \<open>src/pkg/chain/scriptval.go\<close>. One item is one input of a transaction; \<open>validateHandler\<close> looks its
  output up, makes an engine and executes it.

  The items are handled by several goroutines that share the signature cache. \<open>validator\<close> is the state of \<open>Validate\<close> and its
  goroutines: the two counters of its loop, what it has returned, where each goroutine is, and the cache. \<open>validator\_step\<close> is one
  atomic step: a rendezvous on \<open>validateChan\<close> or \<open>resultChan\<close>, the closing of \<open>quitChan\<close> with the return, a goroutine that sees it closed, or
  an action of one goroutine; its script runs in the steps of \<open>ScriptConcurrent\<close>, so the accesses of several scripts to the cache
  interleave one by one. C16 is about every run of this system.

  \<open>Validate\<close> is the run that handles the items one after another, \<open>checkBlockScripts\<close> uses it; by C16 every run accepts exactly
  the items it accepts. Which of several errors is reported, and which signatures the cache holds afterwards, depends on the run.
\<close>

section \<open>One input\<close>

record txValidateItem =
  vi_txInIndex :: nat
  vi_txIn :: TxIn
  vi_tx :: MsgTx
  vi_sigHashes :: "TxSigHashes option"

definition validateHandler ::
  "crypto \<Rightarrow> UtxoViewpoint \<Rightarrow> ScriptFlags \<Rightarrow> SigCache option \<Rightarrow> txValidateItem \<Rightarrow> unit cres \<times> SigCache option" where
  "validateHandler C utxoView fl sc txVI =
     (case LookupEntry utxoView (PreviousOutPoint (vi_txIn txVI)) of
        None \<Rightarrow> (Inl (RuleError ErrMissingTxOut), sc)
      | Some utxo \<Rightarrow>
          (case NewEngine (ue_pkScript utxo) (vi_tx txVI) (int (vi_txInIndex txVI)) fl sc (vi_sigHashes txVI) (ue_amount utxo) of
             Inl e \<Rightarrow> (Inl (RuleError ErrScriptMalformed), sc)
           | Inr vm \<Rightarrow>
               (case Execute C vm of
                  Some (Ok _ vm') \<Rightarrow> (Inr (), sigCache vm')
                | Some (Err e vm') \<Rightarrow> (Inl (RuleError ErrScriptValidation), sigCache vm')
                | _ \<Rightarrow> (Inl GoPanic, sc))))"

section \<open>The goroutines\<close>

text \<open>Where a goroutine of \<open>validateHandler\<close> is: waiting in its \<open>select\<close>; with an item it has received; executing a script, with the engine at the
  start of the current instruction and what is left of that instruction; waiting in \<open>sendResult\<close>; returned. A panic ends the
  program; a goroutine can be stuck on the lock of a stack.\<close>

datatype worker =
    Waiting
  | Handling txValidateItem
  | Running txValidateItem Engine "(bool, Engine) res act"
  | Sending txValidateItem "unit cres"
  | Exited
  | Panicked
  | Stuck

text \<open>The end of \<open>Execute\<close>, and the result that is sent for it.\<close>

definition finishScript :: "txValidateItem \<Rightarrow> (unit, Engine) res \<Rightarrow> worker" where
  "finishScript item r = (case r of
      Ok _ _ \<Rightarrow> Sending item (Inr ())
    | Err e _ \<Rightarrow> Sending item (Inl (RuleError ErrScriptValidation))
    | Panic \<Rightarrow> Panicked
    | Deadlock \<Rightarrow> Stuck)"

text \<open>What a goroutine does on its own, with the cache; \<open>None\<close> where it waits for a channel, or has ended.\<close>

fun workerStep ::
  "crypto \<Rightarrow> UtxoViewpoint \<Rightarrow> ScriptFlags \<Rightarrow> worker \<Rightarrow> SigCache option \<Rightarrow> (worker \<times> SigCache option) option" where
  "workerStep C utxoView fl (Handling txVI) sc =
     Some (case LookupEntry utxoView (PreviousOutPoint (vi_txIn txVI)) of
             None \<Rightarrow> Sending txVI (Inl (RuleError ErrMissingTxOut))
           | Some utxo \<Rightarrow>
               (case NewEngine (ue_pkScript utxo) (vi_tx txVI) (int (vi_txInIndex txVI)) fl sc (vi_sigHashes txVI) (ue_amount utxo) of
                  Inl e \<Rightarrow> Sending txVI (Inl (RuleError ErrScriptMalformed))
                | Inr vm \<Rightarrow> Running txVI vm (StepS C vm)), sc)"
| "workerStep C utxoView fl (Running txVI vm (CallExists sigHash sg pk k)) sc =
     (case sc of None \<Rightarrow> Some (Panicked, sc) | Some c \<Rightarrow> Some (Running txVI vm (k (sc_Exists c sigHash sg pk)), sc))"
| "workerStep C utxoView fl (Running txVI vm (CallAdd sigHash sg pk a)) sc =
     (case sc of None \<Rightarrow> Some (Panicked, sc) | Some c \<Rightarrow> Some (Running txVI vm a, Some (sc_Add (c_pick C) c sigHash sg pk)))"
| "workerStep C utxoView fl (Running txVI vm (Return (Ok done vm'))) sc =
     Some (if done then finishScript txVI (CheckErrorCondition True vm') else Running txVI vm' (StepS C vm'), sc)"
| "workerStep C utxoView fl (Running txVI vm (Return (Err e vm'))) sc = Some (finishScript txVI (Err e vm'), sc)"
| "workerStep C utxoView fl (Running txVI vm (Return Panic)) sc = Some (finishScript txVI Panic, sc)"
| "workerStep C utxoView fl (Running txVI vm (Return Deadlock)) sc = Some (finishScript txVI Deadlock, sc)"
| "workerStep C utxoView fl w sc = None"

section \<open>The validator\<close>

record validator =
  currentItem :: nat
  processedItems :: nat
  returned :: "unit cres option"
  workers :: "worker list"
  sharedCache :: "SigCache option"

definition maxGoRoutines :: "int \<Rightarrow> nat \<Rightarrow> nat" where
  "maxGoRoutines numCPU numItems =
     (let n = numCPU * 3;
          n = (if n \<le> 0 then 1 else n);
          n = (if n > int numItems * 3 then int numItems * 3 else n)
      in nat n)"

definition startValidator :: "int \<Rightarrow> SigCache option \<Rightarrow> txValidateItem list \<Rightarrow> validator" where
  "startValidator numCPU sc items =
     (if length items = 0
      then \<lparr>currentItem = 0, processedItems = 0, returned = Some (Inr ()), workers = [], sharedCache = sc\<rparr>
      else \<lparr>currentItem = 0, processedItems = 0, returned = None,
            workers = replicate (maxGoRoutines numCPU (length items)) Waiting, sharedCache = sc\<rparr>)"

text \<open>\<open>quitChan\<close> is closed when \<open>Validate\<close> returns, so it is closed if \<open>returned\<close> is not \<open>None\<close>. The channels have no buffer: sending and
  receiving are one step. After the result of its item a goroutine goes back to its loop, or leaves it if it was an error.\<close>

definition afterSending :: "unit cres \<Rightarrow> worker" where
  "afterSending r = (case r of Inr _ \<Rightarrow> Waiting | Inl _ \<Rightarrow> Exited)"

inductive validator_step ::
  "crypto \<Rightarrow> UtxoViewpoint \<Rightarrow> ScriptFlags \<Rightarrow> txValidateItem list \<Rightarrow> validator \<Rightarrow> validator \<Rightarrow> bool"
  for C utxoView fl items where
  send_item: "returned v = None \<Longrightarrow> processedItems v < length items \<Longrightarrow> currentItem v < length items
     \<Longrightarrow> i < length (workers v) \<Longrightarrow> workers v ! i = Waiting
     \<Longrightarrow> validator_step C utxoView fl items v
           (v\<lparr>currentItem := currentItem v + 1, workers := (workers v)[i := Handling (items ! currentItem v)]\<rparr>)"
| work: "i < length (workers v) \<Longrightarrow> workerStep C utxoView fl (workers v ! i) (sharedCache v) = Some (w, sc)
     \<Longrightarrow> validator_step C utxoView fl items v (v\<lparr>workers := (workers v)[i := w], sharedCache := sc\<rparr>)"
| receive_ok: "returned v = None \<Longrightarrow> processedItems v < length items
     \<Longrightarrow> i < length (workers v) \<Longrightarrow> workers v ! i = Sending item (Inr ())
     \<Longrightarrow> validator_step C utxoView fl items v
           (v\<lparr>processedItems := processedItems v + 1, workers := (workers v)[i := afterSending (Inr ())]\<rparr>)"
| receive_error: "returned v = None \<Longrightarrow> processedItems v < length items
     \<Longrightarrow> i < length (workers v) \<Longrightarrow> workers v ! i = Sending item (Inl e)
     \<Longrightarrow> validator_step C utxoView fl items v
           (v\<lparr>processedItems := processedItems v + 1, returned := Some (Inl e), workers := (workers v)[i := afterSending (Inl e)]\<rparr>)"
| all_done: "returned v = None \<Longrightarrow> processedItems v \<ge> length items
     \<Longrightarrow> validator_step C utxoView fl items v (v\<lparr>returned := Some (Inr ())\<rparr>)"
| quit_waiting: "returned v \<noteq> None \<Longrightarrow> i < length (workers v) \<Longrightarrow> workers v ! i = Waiting
     \<Longrightarrow> validator_step C utxoView fl items v (v\<lparr>workers := (workers v)[i := Exited]\<rparr>)"
| quit_sending: "returned v \<noteq> None \<Longrightarrow> i < length (workers v) \<Longrightarrow> workers v ! i = Sending item r
     \<Longrightarrow> validator_step C utxoView fl items v (v\<lparr>workers := (workers v)[i := afterSending r]\<rparr>)"

section \<open>One item after another\<close>

fun Validate ::
  "crypto \<Rightarrow> UtxoViewpoint \<Rightarrow> ScriptFlags \<Rightarrow> SigCache option \<Rightarrow> txValidateItem list \<Rightarrow> unit cres \<times> SigCache option" where
  "Validate C utxoView fl sc [] = (Inr (), sc)"
| "Validate C utxoView fl sc (item # items) =
     (case validateHandler C utxoView fl sc item of
        (Inl e, sc') \<Rightarrow> (Inl e, sc')
      | (Inr _, sc') \<Rightarrow> Validate C utxoView fl sc' items)"

section \<open>The scripts of a block\<close>

definition collectItems ::
  "(bytes \<Rightarrow> bytes) \<Rightarrow> bool \<Rightarrow> HashCache option \<times> txValidateItem list \<Rightarrow> MsgTx \<Rightarrow> HashCache option \<times> txValidateItem list" where
  "collectItems sha segwitActive = (\<lambda>(hc, items) mtx.
     let hash = TxHash sha mtx;
         witness = (segwitActive \<and> HasWitness mtx);
         hc1 = (case hc of None \<Rightarrow> None
                | Some h \<Rightarrow> Some (if witness \<and> \<not> ContainsHashes h hash then AddSigHashes sha h mtx else h));
         cachedHashes = (if witness
                         then (case hc1 of Some h \<Rightarrow> GetSigHashes h hash | None \<Rightarrow> Some (NewTxSigHashes sha mtx))
                         else None);
         new = map (\<lambda>(txInIdx, txIn). \<lparr>vi_txInIndex = txInIdx, vi_txIn = txIn, vi_tx = mtx, vi_sigHashes = cachedHashes\<rparr>)
                 (filter (\<lambda>(txInIdx, txIn). op_Index (PreviousOutPoint txIn) \<noteq> 0xffffffff) (enumerate 0 (tx_TxIn mtx)))
     in (hc1, items @ new))"

definition purgeAll :: "(bytes \<Rightarrow> bytes) \<Rightarrow> MsgTx list \<Rightarrow> HashCache \<Rightarrow> HashCache" where
  "purgeAll sha txs h = foldl (\<lambda>h mtx. if HasWitness mtx then PurgeSigHashes h (TxHash sha mtx) else h) h txs"

definition checkBlockScripts ::
  "crypto \<Rightarrow> Block \<Rightarrow> UtxoViewpoint \<Rightarrow> ScriptFlags \<Rightarrow> SigCache option \<Rightarrow> HashCache option
     \<Rightarrow> unit cres \<times> SigCache option \<times> HashCache option" where
  "checkBlockScripts C blk utxoView scriptFlags sc hc =
     (let segwitActive = (scriptFlags AND ScriptVerifyWitness = ScriptVerifyWitness);
          (hc1, items) = foldl (collectItems (c_sha256 C) segwitActive) (hc, []) (Transactions blk)
      in case Validate C utxoView scriptFlags sc items of
           (Inl e, sc') \<Rightarrow> (Inl e, sc', hc1)
         | (Inr _, sc') \<Rightarrow>
             (Inr (), sc', if segwitActive then map_option (purgeAll (c_sha256 C) (Transactions blk)) hc1 else hc1))"

section \<open>One item on its own\<close>

definition sound_opt :: "crypto \<Rightarrow> SigCache option \<Rightarrow> bool" where
  "sound_opt C sc \<longleftrightarrow> (case sc of None \<Rightarrow> True | Some c \<Rightarrow> sound_cache (c_Verify C) c)"

definition item_ok :: "txValidateItem \<Rightarrow> bool" where
  "item_ok item \<longleftrightarrow> vi_txInIndex item < length (tx_TxIn (vi_tx item)) \<and> vi_txIn item = tx_TxIn (vi_tx item) ! vi_txInIndex item
     \<and> length (witItems (vi_txIn item)) \<le> unat maxWitnessItemsPerInput"

text \<open>Valid without any cache.\<close>

definition valid_item :: "crypto \<Rightarrow> UtxoViewpoint \<Rightarrow> ScriptFlags \<Rightarrow> txValidateItem \<Rightarrow> bool" where
  "valid_item C utxoView fl item \<longleftrightarrow> fst (validateHandler C utxoView fl None item) = Inr ()"

lemma Execute_sound:
  assumes "sha_size C" "run_inv vm" "cache_sound C vm" "Execute C vm = Some (Ok x u)"
  shows "cache_sound C u"
proof -
  obtain r where r: "executeLoop C vm = Some r" using executeLoop_returns[OF assms(2), of C] by blast
  with assms(4) obtain y w where w: "r = Ok y w" "CheckErrorCondition True w = Ok x u"
    by (cases r) (auto simp: Execute_def bindP_def)
  then have "cache_sound C w" using executeLoop_sim[OF assms(1-3)] r by simp
  with w(2) show ?thesis using cs.simD(2)[OF sim_between(1)] by blast
qed

lemma handler_transparent:
  assumes "sha_size C" "sound_opt C sc" "item_ok item"
  shows "fst (validateHandler C utxoView fl sc item) = fst (validateHandler C utxoView fl None item)"
    and "validateHandler C utxoView fl sc item = (Inr (), sc') \<Longrightarrow> sound_opt C sc'"
    and "fst (validateHandler C utxoView fl sc item) \<noteq> Inl GoPanic"
proof -
  have "fst (validateHandler C utxoView fl sc item) = fst (validateHandler C utxoView fl None item)
    \<and> (validateHandler C utxoView fl sc item = (Inr (), sc') \<longrightarrow> sound_opt C sc')
    \<and> fst (validateHandler C utxoView fl sc item) \<noteq> Inl GoPanic"
  proof (cases "LookupEntry utxoView (PreviousOutPoint (vi_txIn item))")
    case None
    then show ?thesis by (simp add: validateHandler_def)
  next
    case (Some utxo)
    let ?new = "\<lambda>sc. NewEngine (ue_pkScript utxo) (vi_tx item) (int (vi_txInIndex item)) fl sc (vi_sigHashes item) (ue_amount utxo)"
    note cache = NewEngine_cache[of "ue_pkScript utxo" "vi_tx item" "int (vi_txInIndex item)" fl "vi_sigHashes item" "ue_amount utxo" sc]
    show ?thesis
    proof (cases "?new sc")
      case (Inl e)
      then show ?thesis using Some cache by (simp add: validateHandler_def)
    next
      case (Inr vm)
      have f: "?new None = Inr (forgetCache vm)" using cache Inr by simp
      have "sigCache vm = sc" using NewEngine_Inr[OF Inr] by (auto simp: startEngine_def initEngine_def Let_def)
      then have c: "cache_sound C vm" using assms(2) by (simp add: cache_sound_def sound_opt_def)
      have "vi_txIn item = tx_TxIn (vi_tx item) ! vi_txInIndex item" "length (witItems (vi_txIn item)) \<le> maxItems"
        using assms(3) unfolding item_ok_def maxItems_def by blast+
      then have r: "run_inv vm" using run_inv_NewEngine[OF Inr] by (metis nat_int)
      obtain res where res: "Execute C vm = Some res" "res \<noteq> Panic" "res \<noteq> Deadlock" using Execute_ended[OF r, of C] by blast
      have e: "Execute C (forgetCache vm) = Some (forgetRes res)" using Execute_sim[OF assms(1) r c] res by simp
      have "sound_opt C (sigCache u)" if "res = Ok x u" for x u
        using Execute_sound[OF assms(1) r c] res(1) that by (auto simp: cache_sound_def sound_opt_def)
      then show ?thesis using Some Inr f res e by (cases res) (auto simp: validateHandler_def)
    qed
  qed
  then show "fst (validateHandler C utxoView fl sc item) = fst (validateHandler C utxoView fl None item)"
    and "validateHandler C utxoView fl sc item = (Inr (), sc') \<Longrightarrow> sound_opt C sc'"
    and "fst (validateHandler C utxoView fl sc item) \<noteq> Inl GoPanic" by blast+
qed

text \<open>The items of a block are well-formed if its transactions respect the limit on witness items.\<close>

lemma collect_items_ok:
  assumes "\<forall>mtx \<in> set txs. \<forall>txIn \<in> set (tx_TxIn mtx). length (witItems txIn) \<le> unat maxWitnessItemsPerInput"
    and "\<forall>item \<in> set (snd st). item_ok item"
  shows "\<forall>item \<in> set (snd (foldl (collectItems sha segwitActive) st txs)). item_ok item"
  using assms
proof (induction txs arbitrary: st)
  case (Cons mtx txs)
  obtain hc items where st: "st = (hc, items)" by (cases st)
  have "\<forall>item \<in> set (snd (collectItems sha segwitActive st mtx)). item_ok item"
    using Cons.prems by (auto simp: st collectItems_def Let_def item_ok_def in_set_enumerate_eq)
  with Cons.IH[of "collectItems sha segwitActive st mtx"] Cons.prems(1) show ?case by simp
qed simp

section \<open>One goroutine\<close>

text \<open>The result of an item without a cache.\<close>

definition itemResult :: "crypto \<Rightarrow> UtxoViewpoint \<Rightarrow> ScriptFlags \<Rightarrow> txValidateItem \<Rightarrow> unit cres" where
  "itemResult C utxoView fl item = fst (validateHandler C utxoView fl None item)"

definition scriptResult :: "(unit, Engine) res option \<Rightarrow> unit cres" where
  "scriptResult r = (case r of Some (Ok _ _) \<Rightarrow> Inr () | Some (Err _ _) \<Rightarrow> Inl (RuleError ErrScriptValidation) | _ \<Rightarrow> Inl GoPanic)"

lemma Execute_unfold:
  "Step C vm = Ok False u \<Longrightarrow> Execute C vm = Execute C u"
  "Step C vm = Ok True u \<Longrightarrow> Execute C vm = Some (CheckErrorCondition True u)"
  "Step C vm = Err e u \<Longrightarrow> Execute C vm = Some (Err e u)"
  by (simp_all add: Execute_def executeLoop.simps[of C vm] bindP_def)

lemma run_inv_forget: "run_inv (forgetCache vm) = run_inv vm"
  by (simp add: run_inv_def base_inv_def engine_ready_def stack_items_def curIn_def)

lemma position_forget: "position (forgetCache vm) = position vm"
  by (simp add: position_def)

text \<open>A goroutine in the middle of a script: whatever the cache answers, it will end with the result \<open>res\<close>.\<close>

definition running_ok :: "crypto \<Rightarrow> bool \<Rightarrow> unit cres \<Rightarrow> Engine \<Rightarrow> (bool, Engine) res act \<Rightarrow> bool" where
  "running_ok C cached res vm a \<longleftrightarrow> run_inv vm \<and> (sigCache vm \<noteq> None \<longrightarrow> cached)
     \<and> settles C cached (same_result C (\<lambda>_. True) vm (Step C (forgetCache vm))) a
     \<and> scriptResult (Execute C (forgetCache vm)) = res"

lemma running_start:
  assumes "sha_size C" "run_inv vm" "cache_sound C vm" "sigCache vm \<noteq> None \<longrightarrow> cached"
  shows "running_ok C cached (scriptResult (Execute C (forgetCache vm))) vm (StepS C vm)"
proof -
  have "settles C (sigCache vm \<noteq> None) (same_result C (\<lambda>_. True) vm (Step C (forgetCache vm))) (StepS C vm)"
    using follows_Step[OF assms(1)] assms(3) by (simp add: follows_def)
  then have "settles C cached (same_result C (\<lambda>_. True) vm (Step C (forgetCache vm))) (StepS C vm)"
    by (rule settles_mono) (use assms(4) in auto)
  with assms show ?thesis by (simp add: running_ok_def)
qed

text \<open>The instruction has been executed, and it is not the last.\<close>

lemma running_next:
  assumes "sha_size C" "running_ok C cached res vm (Return (Ok False t))"
  shows "running_ok C cached res t (StepS C t) \<and> (position t, position vm) \<in> less_than <*lex*> less_than"
proof -
  from assms(2) have s: "Step C (forgetCache vm) = Ok False (forgetCache t)" "cache_sound C t" "sigCache t \<noteq> None \<longrightarrow> cached"
    "run_inv (forgetCache vm)" "scriptResult (Execute C (forgetCache vm)) = res"
    by (auto simp: running_ok_def same_result_def run_inv_forget)
  have "run_inv t" "(position t, position vm) \<in> less_than <*lex*> less_than"
    using wp_Ok[OF wp_Step[OF s(4)] s(1)] by (simp_all add: run_inv_forget position_forget)
  then show ?thesis
    using running_start[OF assms(1) _ s(2,3)] Execute_unfold(1)[OF s(1)] s(5) by simp
qed

text \<open>The script has ended; it cannot end in a panic.\<close>

lemma running_last:
  shows "running_ok C cached res vm (Return (Ok True t)) \<Longrightarrow> finishScript item (CheckErrorCondition True t) = Sending item res"
    and "running_ok C cached res vm (Return (Err e t)) \<Longrightarrow> finishScript item (Err e t) = Sending item res"
    and "\<not> running_ok C cached res vm (Return Panic)" and "\<not> running_ok C cached res vm (Return Deadlock)"
proof -
  assume "running_ok C cached res vm (Return (Ok True t))"
  then have s: "Step C (forgetCache vm) = Ok True (forgetCache t)" "cache_sound C t" "run_inv (forgetCache vm)"
    "scriptResult (Execute C (forgetCache vm)) = res"
    by (auto simp: running_ok_def same_result_def run_inv_forget)
  have "Execute C (forgetCache vm) = Some (forgetRes (CheckErrorCondition True t))"
    using Execute_unfold(2)[OF s(1)] cs.simD(1)[OF sim_between(1) s(2)] by simp
  with Execute_ended[OF s(3), of C] s(4) show "finishScript item (CheckErrorCondition True t) = Sending item res"
    by (cases "CheckErrorCondition True t") (auto simp: finishScript_def scriptResult_def)
next
  assume "running_ok C cached res vm (Return (Err e t))"
  then have "Step C (forgetCache vm) = Err e (forgetCache t)" "scriptResult (Execute C (forgetCache vm)) = res"
    by (auto simp: running_ok_def same_result_def)
  then show "finishScript item (Err e t) = Sending item res"
    using Execute_unfold(3) by (auto simp: finishScript_def scriptResult_def)
next
  show "\<not> running_ok C cached res vm (Return Panic)" "\<not> running_ok C cached res vm (Return Deadlock)"
    using wp_Step[of "forgetCache vm" C] by (auto simp: running_ok_def same_result_def run_inv_forget wp_def split: res.splits)
qed

text \<open>What holds of every goroutine; \<open>cached\<close> says that there is a cache.\<close>

primrec worker_ok :: "crypto \<Rightarrow> UtxoViewpoint \<Rightarrow> ScriptFlags \<Rightarrow> txValidateItem set \<Rightarrow> bool \<Rightarrow> worker \<Rightarrow> bool" where
  "worker_ok C utxoView fl I cached Waiting = True"
| "worker_ok C utxoView fl I cached (Handling item) = (item \<in> I)"
| "worker_ok C utxoView fl I cached (Running item vm a) = (item \<in> I \<and> running_ok C cached (itemResult C utxoView fl item) vm a)"
| "worker_ok C utxoView fl I cached (Sending item r) = (item \<in> I \<and> r = itemResult C utxoView fl item)"
| "worker_ok C utxoView fl I cached Exited = True"
| "worker_ok C utxoView fl I cached Panicked = False"
| "worker_ok C utxoView fl I cached Stuck = False"

primrec busy :: "worker \<Rightarrow> txValidateItem option" where
  "busy Waiting = None"
| "busy (Handling item) = Some item"
| "busy (Running item vm a) = Some item"
| "busy (Sending item r) = Some item"
| "busy Exited = None"
| "busy Panicked = None"
| "busy Stuck = None"

text \<open>How far a goroutine is from the end of its item.\<close>

type_synonym rank = "nat \<times> (nat \<times> nat) \<times> nat"

primrec rank :: "worker \<Rightarrow> rank" where
  "rank Waiting = (1, (0, 0), 0)"
| "rank (Handling item) = (4, (0, 0), 0)"
| "rank (Running item vm a) = (3, position vm, calls a)"
| "rank (Sending item r) = (2, (0, 0), 0)"
| "rank Exited = (0, (0, 0), 0)"
| "rank Panicked = (0, (0, 0), 0)"
| "rank Stuck = (0, (0, 0), 0)"

definition rank_less :: "(rank \<times> rank) set" where
  "rank_less = less_than <*lex*> (less_than <*lex*> less_than) <*lex*> less_than"

lemma wf_rank_less: "wf rank_less"
  by (simp add: rank_less_def wf_lex_prod)

text \<open>The engine of an item, and the result of the item by it.\<close>

lemma handling_ok:
  assumes "sha_size C" "sound_opt C sc" "item_ok item" "item \<in> I"
    and "workerStep C utxoView fl (Handling item) sc = Some (w, sc')"
  shows "worker_ok C utxoView fl I (sc \<noteq> None) w \<and> sc' = sc \<and> busy w = Some item \<and> (rank w, rank (Handling item)) \<in> rank_less"
proof (cases "LookupEntry utxoView (PreviousOutPoint (vi_txIn item))")
  case None
  then show ?thesis using assms(4,5) by (auto simp: itemResult_def validateHandler_def rank_less_def)
next
  case (Some utxo)
  let ?new = "\<lambda>sc. NewEngine (ue_pkScript utxo) (vi_tx item) (int (vi_txInIndex item)) fl sc (vi_sigHashes item) (ue_amount utxo)"
  note cache = NewEngine_cache[of "ue_pkScript utxo" "vi_tx item" "int (vi_txInIndex item)" fl "vi_sigHashes item" "ue_amount utxo" sc]
  show ?thesis
  proof (cases "?new sc")
    case (Inl e)
    then show ?thesis using Some cache assms(4,5) by (auto simp: itemResult_def validateHandler_def rank_less_def)
  next
    case (Inr vm)
    have f: "?new None = Inr (forgetCache vm)" using cache Inr by simp
    have sc: "sigCache vm = sc" using NewEngine_Inr[OF Inr] by (auto simp: startEngine_def initEngine_def Let_def)
    then have c: "cache_sound C vm" using assms(2) by (simp add: cache_sound_def sound_opt_def)
    have r: "run_inv vm" using run_inv_NewEngine[OF Inr] assms(3) by (auto simp: item_ok_def maxItems_def)
    have "scriptResult (Execute C (forgetCache vm)) = itemResult C utxoView fl item"
      using Some f by (auto simp: itemResult_def validateHandler_def scriptResult_def split: option.split res.split)
    then show ?thesis using running_start[OF assms(1) r c, of "sc \<noteq> None"] sc Some Inr assms(4,5) by (auto simp: rank_less_def)
  qed
qed

text \<open>The contract of a step of a goroutine, whatever the cache holds at that moment.\<close>

lemma workerStep_ok:
  assumes "sha_size C" "sound_opt C sc" "\<forall>item \<in> I. item_ok item" "worker_ok C utxoView fl I (sc \<noteq> None) w"
    and "workerStep C utxoView fl w sc = Some (w', sc')"
  shows "worker_ok C utxoView fl I (sc' \<noteq> None) w' \<and> sound_opt C sc' \<and> (sc' = None \<longleftrightarrow> sc = None) \<and> busy w' = busy w
    \<and> (rank w', rank w) \<in> rank_less"
proof (cases w)
  case (Handling item)
  then show ?thesis using handling_ok[of C sc item I utxoView fl w' sc'] assms by auto
next
  case (Running item vm a)
  then have item: "item \<in> I" and ok: "running_ok C (sc \<noteq> None) (itemResult C utxoView fl item) vm a" using assms(4) by auto
  show ?thesis
  proof (cases a)
    case (Return r)
    note ok = ok[unfolded Return]
    show ?thesis
    proof (cases r)
      case (Ok d t)
      then show ?thesis
        using ok running_next[OF assms(1), of _ _ vm t] running_last(1)[of C _ _ vm t item] item Return Running assms(2,5)
        by (cases d) (auto simp: rank_less_def)
    next
      case (Err e t)
      then show ?thesis
        using ok running_last(2)[of C _ _ vm e t item] item Return Running assms(2,5) by (auto simp: rank_less_def)
    qed (use ok running_last(3,4) in auto)
  next
    case (CallExists h sg pk k)
    then obtain c where c: "sc = Some c" "sound_cache (c_Verify C) c"
      using ok assms(2) by (auto simp: running_ok_def sound_opt_def split: option.splits)
    then have "sc_Exists c h sg pk \<longrightarrow> c_Verify C sg h pk" using sigcache.present_sound[of "c_Verify C" c h sg pk] by blast
    then show ?thesis
      using ok c item CallExists Running assms(2,5) by (cases "sc_Exists c h sg pk") (auto simp: running_ok_def rank_less_def)
  next
    case (CallAdd h sg pk b)
    then obtain c where c: "sc = Some c" "sound_cache (c_Verify C) c" "c_Verify C sg h pk"
      using ok assms(2) by (auto simp: running_ok_def sound_opt_def split: option.splits)
    then show ?thesis
      using ok sc_Add_sound[OF c(2,3), of "c_pick C"] item CallAdd Running assms(5)
      by (auto simp: running_ok_def rank_less_def sound_opt_def)
  qed
qed (use assms in simp_all)

section \<open>The invariant of the validator\<close>

lemma filter_update:
  "i < length xs \<Longrightarrow> length (filter P (xs[i := y])) + (if P (xs ! i) then 1 else 0) = length (filter P xs) + (if P y then 1 else 0)"
proof (induction xs arbitrary: i)
  case (Cons x xs)
  then show ?case by (cases i) auto
qed simp

lemma in_update: "x \<in> set xs \<Longrightarrow> i < length xs \<Longrightarrow> x = xs ! i \<or> x \<in> set (xs[i := y])"
  by (metis in_set_conv_nth length_list_update nth_list_update_neq)

definition numBusy :: "worker list \<Rightarrow> nat" where
  "numBusy ws = length (filter (\<lambda>w. busy w \<noteq> None) ws)"

text \<open>While \<open>Validate\<close> runs, every item that has been sent to a goroutine is either known to be valid or still with one, and the counters differ by the
  number of goroutines that have an item; no goroutine has left its loop. What it has returned is right.\<close>

definition in_progress :: "crypto \<Rightarrow> UtxoViewpoint \<Rightarrow> ScriptFlags \<Rightarrow> txValidateItem list \<Rightarrow> nat \<Rightarrow> nat \<Rightarrow> worker list \<Rightarrow> bool" where
  "in_progress C utxoView fl items cur processed ws \<longleftrightarrow> ws \<noteq> [] \<and> Exited \<notin> set ws \<and> cur \<le> length items
     \<and> processed + numBusy ws = cur
     \<and> (\<forall>item \<in> set (take cur items). itemResult C utxoView fl item = Inr () \<or> Some item \<in> busy ` set ws)"

definition right_result :: "crypto \<Rightarrow> UtxoViewpoint \<Rightarrow> ScriptFlags \<Rightarrow> txValidateItem list \<Rightarrow> unit cres \<Rightarrow> bool" where
  "right_result C utxoView fl items r \<longleftrightarrow> (case r of
      Inr _ \<Rightarrow> \<forall>item \<in> set items. itemResult C utxoView fl item = Inr ()
    | Inl e \<Rightarrow> \<exists>item \<in> set items. itemResult C utxoView fl item = Inl e)"

definition validator_inv :: "crypto \<Rightarrow> UtxoViewpoint \<Rightarrow> ScriptFlags \<Rightarrow> txValidateItem list \<Rightarrow> validator \<Rightarrow> bool" where
  "validator_inv C utxoView fl items v \<longleftrightarrow> sound_opt C (sharedCache v)
     \<and> (\<forall>w \<in> set (workers v). worker_ok C utxoView fl (set items) (sharedCache v \<noteq> None) w)
     \<and> (case returned v of
          None \<Rightarrow> in_progress C utxoView fl items (currentItem v) (processedItems v) (workers v)
        | Some r \<Rightarrow> right_result C utxoView fl items r)"

lemma start_inv:
  assumes "sound_opt C sc"
  shows "validator_inv C utxoView fl items (startValidator numCPU sc items)"
  using assms by (auto simp: validator_inv_def startValidator_def in_progress_def right_result_def maxGoRoutines_def numBusy_def Let_def)

text \<open>A goroutine changes: an item it gets must be counted, and an item it gives up must be valid.\<close>

lemma progress_update:
  assumes p: "in_progress C utxoView fl items cur p ws" and i: "i < length ws" and w: "w \<noteq> Exited"
    and cur: "cur' \<le> length items" "set (take cur' items) \<subseteq> set (take cur items) \<union> set_option (busy w)"
    and count: "p' + (if busy w = None then 0 else 1) + cur = cur' + p + (if busy (ws ! i) = None then 0 else 1)"
    and item: "\<And>item. busy (ws ! i) = Some item \<Longrightarrow> itemResult C utxoView fl item = Inr () \<or> busy w = Some item"
  shows "in_progress C utxoView fl items cur' p' (ws[i := w])"
proof -
  have "Exited \<notin> set (ws[i := w])" using p w set_update_subset_insert[of ws i w] by (auto simp: in_progress_def)
  moreover have "p' + numBusy (ws[i := w]) = cur'"
    using p count filter_update[OF i, of "\<lambda>w. busy w \<noteq> None" w] by (auto simp: in_progress_def numBusy_def split: if_splits)
  moreover have new: "busy w \<in> busy ` set (ws[i := w])" using set_update_memI[OF i, of w] by blast
  moreover have "itemResult C utxoView fl x = Inr () \<or> Some x \<in> busy ` set (ws[i := w])" if x: "x \<in> set (take cur' items)" for x
  proof -
    consider "busy w = Some x" | "itemResult C utxoView fl x = Inr ()" | u where "u \<in> set ws" "busy u = Some x"
      using cur(2) x p by (fastforce simp: in_progress_def)
    then show ?thesis
    proof cases
      case (3 u)
      then show ?thesis using in_update[OF 3(1) i, of w] item[of x] new by (metis image_eqI)
    qed (use new in auto)
  qed
  ultimately show ?thesis using p cur(1) by (auto simp: in_progress_def)
qed

lemma workerStep_busy: "workerStep C utxoView fl w sc = Some r \<Longrightarrow> busy w \<noteq> None"
  by (cases w) simp_all

lemma inv_update:
  assumes "validator_inv C utxoView fl items v" "workers v' = (workers v)[i := w]"
    and "sound_opt C (sharedCache v')" "(sharedCache v' = None) = (sharedCache v = None)"
    and "worker_ok C utxoView fl (set items) (sharedCache v \<noteq> None) w"
    and "case returned v' of
          None \<Rightarrow> in_progress C utxoView fl items (currentItem v') (processedItems v') (workers v')
        | Some r \<Rightarrow> right_result C utxoView fl items r"
  shows "validator_inv C utxoView fl items v'"
proof -
  have "set (workers v') \<subseteq> insert w (set (workers v))" using assms(2) set_update_subset_insert by metis
  then have "\<forall>w \<in> set (workers v'). worker_ok C utxoView fl (set items) (sharedCache v \<noteq> None) w"
    using assms(1,5) by (auto simp: validator_inv_def)
  then show ?thesis using assms(3,4,6) by (simp add: validator_inv_def)
qed

lemma inv_worker:
  assumes "validator_inv C utxoView fl items v" "i < length (workers v)"
  shows "worker_ok C utxoView fl (set items) (sharedCache v \<noteq> None) (workers v ! i)"
  using assms nth_mem by (fastforce simp: validator_inv_def)

lemma step_inv:
  assumes "validator_step C utxoView fl items v v'" "sha_size C" "\<forall>item \<in> set items. item_ok item" "validator_inv C utxoView fl items v"
  shows "validator_inv C utxoView fl items v'"
  using assms(1)
proof cases
  case (send_item i)
  have "in_progress C utxoView fl items (currentItem v) (processedItems v) (workers v)" using assms(4) send_item(2) by (simp add: validator_inv_def)
  then have "in_progress C utxoView fl items (currentItem v + 1) (processedItems v) ((workers v)[i := Handling (items ! currentItem v)])"
    by (rule progress_update) (use send_item in \<open>auto simp: take_Suc_conv_app_nth\<close>)
  then show ?thesis
    using send_item assms(4)
    by (intro inv_update[OF assms(4), where i = i and w = "Handling (items ! currentItem v)"]) (simp_all add: validator_inv_def)
next
  case (work i w sc)
  note ok = workerStep_ok[OF assms(2) _ assms(3) inv_worker[OF assms(4) work(2)] work(3)]
  have w: "worker_ok C utxoView fl (set items) (sharedCache v \<noteq> None) w" "sound_opt C sc" "(sc = None) = (sharedCache v = None)"
    "busy w = busy (workers v ! i)"
    using ok assms(4) by (auto simp: validator_inv_def)
  then have "w \<noteq> Exited" using workerStep_busy[OF work(3)] by auto
  then have "in_progress C utxoView fl items (currentItem v) (processedItems v) ((workers v)[i := w])" if "returned v = None"
    using that assms(4) w(4) work(2) 
    by (intro progress_update[of _ _ _ _ "currentItem v" "processedItems v"]) (auto simp: validator_inv_def in_progress_def)
  then show ?thesis
    using w assms(4) work(1) by (intro inv_update[OF assms(4), where i = i and w = w]) (auto simp: validator_inv_def split: option.splits)
next
  case (receive_ok i item)
  have "itemResult C utxoView fl item = Inr ()" using inv_worker[OF assms(4) receive_ok(4)] receive_ok(5) by simp
  moreover have p: "in_progress C utxoView fl items (currentItem v) (processedItems v) (workers v)"
    using assms(4) receive_ok(2) by (simp add: validator_inv_def)
  moreover have "currentItem v \<le> length items" using p by (simp add: in_progress_def)
  ultimately have "in_progress C utxoView fl items (currentItem v) (processedItems v + 1) ((workers v)[i := Waiting])"
    using receive_ok(4,5) by (intro progress_update[OF p]) auto
  then show ?thesis
    using receive_ok assms(4)
    by (intro inv_update[OF assms(4), where i = i and w = Waiting]) (simp_all add: validator_inv_def afterSending_def)
next
  case (receive_error i item e)
  have "item \<in> set items" "itemResult C utxoView fl item = Inl e"
    using inv_worker[OF assms(4) receive_error(4)] receive_error(5) by simp_all
  then have "right_result C utxoView fl items (Inl e)" by (auto simp: right_result_def)
  then show ?thesis
    using receive_error assms(4)
    by (intro inv_update[OF assms(4), where i = i and w = Exited]) (simp_all add: validator_inv_def afterSending_def)
next
  case all_done
  have p: "in_progress C utxoView fl items (currentItem v) (processedItems v) (workers v)"
    using assms(4) all_done by (simp add: validator_inv_def)
  then have "numBusy (workers v) = 0" "currentItem v = length items" using all_done(3) by (auto simp: in_progress_def)
  then have "filter (\<lambda>w. busy w \<noteq> None) (workers v) = []" "currentItem v = length items" by (simp_all add: numBusy_def)
  then have "\<forall>item \<in> set items. itemResult C utxoView fl item = Inr ()"
    using p by (fastforce simp: in_progress_def filter_empty_conv)
  then show ?thesis using assms(4) all_done by (simp add: validator_inv_def right_result_def)
next
  case (quit_waiting i)
  then show ?thesis
    using assms(4) by (intro inv_update[OF assms(4), where i = i and w = Exited]) (auto simp: validator_inv_def)
next
  case (quit_sending i item r)
  then show ?thesis
    using assms(4)
    by (intro inv_update[OF assms(4), where i = i and w = "afterSending r"]) (auto simp: validator_inv_def afterSending_def split: sum.split)
qed

lemma reachable_inv:
  assumes "(validator_step C utxoView fl items)\<^sup>*\<^sup>* (startValidator numCPU sc items) v"
    and "sha_size C" "\<forall>item \<in> set items. item_ok item" "sound_opt C sc"
  shows "validator_inv C utxoView fl items v"
  using assms(1) by (induction rule: rtranclp_induct) (auto intro: start_inv[OF assms(4)] step_inv[OF _ assms(2,3)])

section \<open>Every run ends\<close>

text \<open>A validator that cannot make a step has returned, and so have all its goroutines.\<close>

lemma no_deadlock:
  assumes "validator_inv C utxoView fl items v" "\<nexists>v'. validator_step C utxoView fl items v v'"
  shows "returned v \<noteq> None \<and> (\<forall>w \<in> set (workers v). w = Exited)"
proof -
  have w: "worker_ok C utxoView fl (set items) (sharedCache v \<noteq> None) w" if "w \<in> set (workers v)" for w
    using assms(1) that by (simp add: validator_inv_def)
  have idle: "workerStep C utxoView fl w (sharedCache v) = None" if "w \<in> set (workers v)" for w
    using assms(2) work that by (metis in_set_conv_nth not_Some_eq surj_pair)
  have quiet: "(\<exists>item r. w = Sending item r) \<or> w = Waiting \<or> w = Exited" if "w \<in> set (workers v)" for w
  proof (cases w)
    case (Running item vm a)
    have "workerStep C utxoView fl (Running item vm a) (sharedCache v) \<noteq> None"
      by (cases "(C, utxoView, fl, Running item vm a, sharedCache v)" rule: workerStep.cases) (auto split: option.split)
    then show ?thesis using idle[OF that] Running by simp
  qed (use w[OF that] idle[OF that] in auto)
  show ?thesis
  proof (cases "returned v")
    case None
    then have p: "in_progress C utxoView fl items (currentItem v) (processedItems v) (workers v)" using assms(1) by (simp add: validator_inv_def)
    have busy: "busy w = None" if u: "w \<in> set (workers v)" for w
    proof -
      obtain i where i: "i < length (workers v)" "w = workers v ! i" using u by (metis in_set_conv_nth)
      have "\<nexists>item r. w = Sending item r"
      proof
        assume "\<exists>item r. w = Sending item r"
        then obtain item r where s: "workers v ! i = Sending item r" using i(2) by metis
        then have "filter (\<lambda>w. busy w \<noteq> None) (workers v) \<noteq> []"
          using i u by (auto simp: filter_empty_conv intro!: bexI[of _ "Sending item r"])
        then have "numBusy (workers v) > 0" by (simp add: numBusy_def)
        then have lt: "processedItems v < length items" using p by (auto simp: in_progress_def)
        have "\<exists>v'. validator_step C utxoView fl items v v'"
        proof (cases r)
          case (Inl e)
          then show ?thesis using receive_error[OF None lt i(1)] s by blast
        next
          case (Inr u)
          then show ?thesis using receive_ok[OF None lt i(1)] s by (metis old.unit.exhaust)
        qed
        with assms(2) show False ..
      qed
      with quiet[OF u] show ?thesis by auto
    qed
    then have "processedItems v = currentItem v" using p by (auto simp: in_progress_def numBusy_def filter_empty_conv)
    moreover have "0 < length (workers v)" "workers v ! 0 \<in> set (workers v)" "Exited \<notin> set (workers v)"
      using p by (simp_all add: in_progress_def)
    moreover from this have "workers v ! 0 = Waiting" using quiet[of "workers v ! 0"] busy[of "workers v ! 0"] by (metis busy.simps(4) option.distinct(1))
    ultimately have False
      using assms(2) send_item[OF None, of items 0 C utxoView fl] all_done[OF None, of items C utxoView fl] by (metis not_le)
    then show ?thesis ..
  next
    case (Some r)
    then have "w = Exited" if "w \<in> set (workers v)" for w
      using quiet[OF that] that assms(2) quit_waiting[of v _ C utxoView fl items] quit_sending[of v _ _ _ C utxoView fl items]
      by (metis in_set_conv_nth option.distinct(1))
    then show ?thesis using Some by simp
  qed
qed

text \<open>The order in which the state decreases: items are sent to the goroutines, \<open>Validate\<close> returns, and each goroutine comes closer to
  the end of its item.\<close>

definition progress :: "txValidateItem list \<Rightarrow> validator \<Rightarrow> nat \<times> nat \<times> rank multiset" where
  "progress items v =
     (length items - currentItem v, if returned v = None then 1 else 0, image_mset rank (mset (workers v)))"

definition progress_less :: "((nat \<times> nat \<times> rank multiset) \<times> nat \<times> nat \<times> rank multiset) set" where
  "progress_less = less_than <*lex*> less_than <*lex*> mult1 rank_less"

lemma wf_progress_less: "wf progress_less"
  by (simp add: progress_less_def wf_lex_prod wf_mult1 wf_rank_less)

lemma rank_update:
  assumes "i < length ws" "(rank w, rank (ws ! i)) \<in> rank_less"
  shows "(image_mset rank (mset (ws[i := w])), image_mset rank (mset ws)) \<in> mult1 rank_less"
proof -
  let ?M = "image_mset rank (mset ws - {#ws ! i#})"
  have "image_mset rank (mset ws) = add_mset (rank (ws ! i)) ?M"
    using assms(1) by (metis image_mset_add_mset insert_DiffM nth_mem_mset)
  moreover have "image_mset rank (mset (ws[i := w])) = ?M + {#rank w#}" using assms(1) by (simp add: mset_update)
  moreover have "\<forall>b. b \<in># {#rank w#} \<longrightarrow> (b, rank (ws ! i)) \<in> rank_less" using assms(2) by simp
  ultimately show ?thesis unfolding mult1_def by blast
qed

lemma step_decreases:
  assumes "validator_step C utxoView fl items v v'" "sha_size C" "\<forall>item \<in> set items. item_ok item" "validator_inv C utxoView fl items v"
  shows "(progress items v', progress items v) \<in> progress_less"
  using assms(1)
proof cases
  case (work i w sc)
  have "(rank w, rank (workers v ! i)) \<in> rank_less"
    using workerStep_ok[OF assms(2) _ assms(3) inv_worker[OF assms(4) work(2)] work(3)] assms(4) by (simp add: validator_inv_def)
  then show ?thesis using work rank_update by (simp add: progress_def progress_less_def)
next
  case (receive_ok i item)
  then have "(rank Waiting, rank (workers v ! i)) \<in> rank_less" by (simp add: rank_less_def)
  then show ?thesis using receive_ok rank_update by (simp add: progress_def progress_less_def afterSending_def)
next
  case (quit_waiting i)
  then have "(rank Exited, rank (workers v ! i)) \<in> rank_less" by (simp add: rank_less_def)
  then show ?thesis using quit_waiting rank_update by (simp add: progress_def progress_less_def)
next
  case (quit_sending i item r)
  then have "(rank (afterSending r), rank (workers v ! i)) \<in> rank_less" by (simp add: rank_less_def afterSending_def split: sum.split)
  then show ?thesis using quit_sending rank_update by (simp add: progress_def progress_less_def)
qed (auto simp: progress_def progress_less_def)

lemma no_infinite_run:
  assumes "run 0 = startValidator numCPU sc items" "\<And>n. validator_step C utxoView fl items (run n) (run (Suc n))"
    and "sha_size C" "\<forall>item \<in> set items. item_ok item" "sound_opt C sc"
  shows False
proof -
  have "validator_inv C utxoView fl items (run n)" for n
    by (induction n) (use assms start_inv step_inv in \<open>auto intro: step_inv[OF assms(2)]\<close>)
  then have "(progress items (run (Suc n)), progress items (run n)) \<in> progress_less" for n
    using step_decreases[OF assms(2-4)] by blast
  then have "\<exists>f. \<forall>n. (f (Suc n), f n) \<in> progress_less" by (intro exI[of _ "\<lambda>n. progress items (run n)"]) simp
  then show False using wf_progress_less unfolding wf_iff_no_infinite_down_chain by blast
qed

section \<open>Every schedule\<close>

text \<open>Handling the items one after another, with any sound cache.\<close>

lemma Validate_iff:
  assumes "sha_size C" "sound_opt C sc" "\<forall>item \<in> set items. item_ok item"
  shows "fst (Validate C utxoView fl sc items) = Inr () \<longleftrightarrow> (\<forall>item \<in> set items. valid_item C utxoView fl item)"
  using assms(2,3)
proof (induction items arbitrary: sc)
  case (Cons item items)
  note t = handler_transparent[OF assms(1) Cons.prems(1), of item utxoView fl]
  obtain r sc' where h: "validateHandler C utxoView fl sc item = (r, sc')" by (metis prod.exhaust)
  then have r: "valid_item C utxoView fl item \<longleftrightarrow> r = Inr ()" using t(1) Cons.prems(2) by (simp add: valid_item_def)
  show ?case
  proof (cases r)
    case (Inl e)
    then show ?thesis using h r by simp
  next
    case (Inr u)
    then show ?thesis using h r t(2)[of sc'] Cons.IH[of sc'] Cons.prems(2) by simp
  qed
qed simp

text \<open>C16: parallel script validation. \<open>Validate\<close> with its goroutines, on any number of processors, under every schedule: the goroutines
  receive the items and send their results over channels, and each action of a goroutine, down to a single call of the shared signature
  cache in the middle of a script, can interleave with those of the others. If the cache holds only verified signatures at the start, then:
  no schedule goes on for ever; at every moment the cache holds only verified signatures, and no goroutine has panicked or is stuck on a lock;
  when no step is possible any more, \<open>Validate\<close> has returned and every goroutine has ended, so none waits on a channel for ever.
  What it returns is no error exactly if every item is valid on its own without a cache, which is also when validating the items one after
  another gives no error, and otherwise the error of one of the invalid items.\<close>

theorem script_validation_schedule:
  assumes "\<forall>b. length (c_sha256 C b) = HashSize" and "sound_opt C sc" and "\<forall>item \<in> set items. item_ok item"
  shows "(\<nexists>run. run 0 = startValidator numCPU sc items \<and> (\<forall>n. validator_step C utxoView fl items (run n) (run (Suc n))))
    \<and> (\<forall>v. (validator_step C utxoView fl items)\<^sup>*\<^sup>* (startValidator numCPU sc items) v \<longrightarrow>
         sound_opt C (sharedCache v) \<and> Panicked \<notin> set (workers v) \<and> Stuck \<notin> set (workers v)
       \<and> ((\<nexists>v'. validator_step C utxoView fl items v v') \<longrightarrow> returned v \<noteq> None \<and> (\<forall>w \<in> set (workers v). w = Exited))
       \<and> (\<forall>r. returned v = Some r \<longrightarrow>
            (r = Inr () \<longleftrightarrow> (\<forall>item \<in> set items. valid_item C utxoView fl item))
          \<and> (r = Inr () \<longleftrightarrow> fst (Validate C utxoView fl sc items) = Inr ())
          \<and> (\<forall>e. r = Inl e \<longrightarrow> (\<exists>item \<in> set items. fst (validateHandler C utxoView fl None item) = Inl e))))"
proof (intro conjI allI impI)
  have sha: "sha_size C" using assms(1) by (simp add: sha_size_def)
  show "\<nexists>run. run 0 = startValidator numCPU sc items \<and> (\<forall>n. validator_step C utxoView fl items (run n) (run (Suc n)))"
    using no_infinite_run[OF _ _ sha assms(3,2)] by blast
  fix v assume "(validator_step C utxoView fl items)\<^sup>*\<^sup>* (startValidator numCPU sc items) v"
  then have inv: "validator_inv C utxoView fl items v" by (rule reachable_inv[OF _ sha assms(3,2)])
  then show "sound_opt C (sharedCache v)" "Panicked \<notin> set (workers v)" "Stuck \<notin> set (workers v)"
    by (auto simp: validator_inv_def)
  show "returned v \<noteq> None" "\<forall>w \<in> set (workers v). w = Exited" if "\<nexists>v'. validator_step C utxoView fl items v v'"
    using no_deadlock[OF inv that] by blast+
  fix r assume "returned v = Some r"
  then have r: "right_result C utxoView fl items r" using inv by (simp add: validator_inv_def)
  then show valid: "r = Inr () \<longleftrightarrow> (\<forall>item \<in> set items. valid_item C utxoView fl item)"
    by (cases r) (auto simp: right_result_def valid_item_def itemResult_def, force)
  show "r = Inr () \<longleftrightarrow> fst (Validate C utxoView fl sc items) = Inr ()"
    unfolding valid by (rule Validate_iff[OF sha assms(2,3), symmetric])
  show "\<exists>item \<in> set items. fst (validateHandler C utxoView fl None item) = Inl e" if "r = Inl e" for e
    using r that by (simp add: right_result_def itemResult_def)
qed

section \<open>An example\<close>

text \<open>A relation without infinite runs reaches a state with no successor.\<close>

lemma reaches_end:
  assumes "\<nexists>run. run 0 = s \<and> (\<forall>n. R (run n) (run (Suc n)))"
  shows "\<exists>v. R\<^sup>*\<^sup>* s v \<and> (\<nexists>v'. R v v')"
proof (rule ccontr)
  assume "\<nexists>v. R\<^sup>*\<^sup>* s v \<and> (\<nexists>v'. R v v')"
  then have next_step: "\<exists>w. R\<^sup>*\<^sup>* s w \<and> R v w" if "R\<^sup>*\<^sup>* s v" for v using that by (meson rtranclp.rtrancl_into_rtrancl)
  have "\<exists>run. run 0 = s \<and> (\<forall>n. R\<^sup>*\<^sup>* s (run n) \<and> R (run n) (run (Suc n)))"
    using dependent_nat_choice[of "\<lambda>n v. R\<^sup>*\<^sup>* s v \<and> (n = 0 \<longrightarrow> v = s)" "\<lambda>n v w. R v w"] next_step by auto
  with assms show False by blast
qed

text \<open>Cryptographic functions under which every signature is valid; an input with a signature and a key, for an output with
  the script \<open>OP\_CHECKSIG\<close>. Two goroutines verify the same signature and use the shared cache.\<close>

definition sigCrypto :: crypto where
  "sigCrypto = toyCrypto\<lparr>c_ParsePubKey := \<lambda>_. Some \<lparr>pk_X = 3, pk_Y = 4\<rparr>, c_ParseSignature := \<lambda>_. Some \<lparr>sig_R = 1, sig_S = 2\<rparr>,
     c_Verify := \<lambda>_ _ _. True\<rparr>"

definition sigItem :: txValidateItem where
  "sigItem = \<lparr>vi_txInIndex = 0, vi_txIn = tx_TxIn (spendTx [OP_DATA_1, 1, OP_DATA_1, 2]) ! 0,
     vi_tx = spendTx [OP_DATA_1, 1, OP_DATA_1, 2], vi_sigHashes = None\<rparr>"

definition sigView :: UtxoViewpoint where
  "sigView = setEntry (PreviousOutPoint (vi_txIn sigItem))
     (Some \<lparr>ue_amount = 0, ue_pkScript = [OP_CHECKSIG], ue_blockHeight = 1, ue_packedFlags = 0\<rparr>) NewUtxoViewpoint"

declare executeLoop.simps [code]

lemma sigItem_valid: "valid_item sigCrypto sigView 0 sigItem"
  by code_simp

theorem script_validation_schedule_witness:
  "\<exists>v. (validator_step sigCrypto sigView 0 [sigItem, sigItem])\<^sup>*\<^sup>* (startValidator 4 (Some (NewSigCache 10)) [sigItem, sigItem]) v
     \<and> returned v = Some (Inr ()) \<and> (\<forall>w \<in> set (workers v). w = Exited) \<and> sound_opt sigCrypto (sharedCache v)"
proof -
  have sha: "\<forall>b. length (c_sha256 sigCrypto b) = HashSize"
    by (auto simp: sigCrypto_def toyCrypto_def toyHash_def HashSize_def min_def)
  have sc: "sound_opt sigCrypto (Some (NewSigCache 10))" by (simp add: sound_opt_def sound_cache_def NewSigCache_def)
  have ok: "\<forall>item \<in> set [sigItem, sigItem]. item_ok item" by (simp add: item_ok_def sigItem_def spendTx_def witItems_def)
  note schedule = script_validation_schedule[OF sha sc ok, of 4 sigView 0]
  obtain v where v: "(validator_step sigCrypto sigView 0 [sigItem, sigItem])\<^sup>*\<^sup>* (startValidator 4 (Some (NewSigCache 10)) [sigItem, sigItem]) v"
    "\<nexists>v'. validator_step sigCrypto sigView 0 [sigItem, sigItem] v v'"
    using reaches_end[OF conjunct1[OF schedule]] by blast
  note end_state = mp[OF spec[OF conjunct2[OF schedule]] v(1)]
  then obtain r where r: "returned v = Some r" using v(2) by blast
  have "\<forall>item \<in> set [sigItem, sigItem]. valid_item sigCrypto sigView 0 item" using sigItem_valid by simp
  then have "r = Inr ()" using end_state r by blast
  then show ?thesis using end_state v r by blast
qed

end
