(* ===== verification/ChainFork.thy ===== *)
theory ChainFork
  imports ChainNode "HOL-Library.Log_Nat"
begin

text \<open>
  Hard forks and proof of work: \<open>src/pkg/chain/fork/fork.go\<close>, \<open>fork/bits.go\<close>, \<open>forkhash/hash.go\<close> and
  \<open>BlockHashWithAlgos\<close> of \<open>wire/blockheader.go\<close>. The global \<open>IsTestnet\<close> is an argument. The maps that \<open>init\<close> fills are association lists.
  \<open>BigToCompact\<close> and \<open>CompactToBig\<close> are the conversions between targets and their compact form. \<open>DivHash\<close> is the long division
  that precedes the hash after the fork; the hash functions of other packages are arguments.
\<close>

section \<open>Compact targets\<close>

text \<open>
  \<open>BigToCompact\<close>. \<open>Bits\<close> gives the absolute value, and \<open>Rsh\<close> rounds towards negative infinity. A negative number whose magnitude is rounded up
  to \<open>2^24\<close> overflows into the exponent.
\<close>

definition BigToCompact :: "int \<Rightarrow> u32" where
  "BigToCompact n =
     (if n = 0 then 0
      else
        let exponent = length (bigBytes n);
            mantissa = (if exponent \<le> 3 then push_bit (8 * (3 - exponent)) (word_of_int \<bar>n\<bar>) :: u32
                        else word_of_int \<bar>drop_bit (8 * (exponent - 3)) n\<bar>);
            (mantissa', exponent') = (if mantissa AND 0x00800000 \<noteq> 0 then (drop_bit 8 mantissa, exponent + 1)
                                      else (mantissa, exponent));
            compact = push_bit 24 (word_of_nat exponent') OR mantissa'
        in if n < 0 then compact OR 0x00800000 else compact)"

definition HashToBig :: "bytes \<Rightarrow> int" where
  "HashToBig hash = be_int (rev hash)"

section \<open>The list of hard forks\<close>

record AlgoParams =
  ap_Version :: i32
  ap_MinBits :: u32
  ap_AlgoID :: u32
  ap_VersionInterval :: nat

record HardForks =
  hf_Number :: u32
  hf_ActivationHeight :: int
  hf_Algos :: "(string \<times> AlgoParams) list"
  hf_AlgoVers :: "(i32 \<times> string) list"
  hf_TargetTimePerBlock :: int
  hf_AveragingInterval :: int
  hf_TestnetStart :: int

definition Scrypt :: string where "Scrypt = ''scrypt''"
definition SHA256d :: string where "SHA256d = ''sha256d''"

definition IntervalBase :: nat where "IntervalBase = 36"

definition FirstPowLimit :: int where "FirstPowLimit = 0x0fffff * 256 ^ 29"
definition MainPowLimit :: int where "MainPowLimit = 0x0fffff * 256 ^ 27"

definition AlgoVers :: "(i32 \<times> string) list" where
  "AlgoVers = [(2, SHA256d), (514, Scrypt)]"

definition Algos :: "(string \<times> AlgoParams) list" where
  "Algos =
     [(SHA256d, \<lparr>ap_Version = 2, ap_MinBits = BigToCompact MainPowLimit, ap_AlgoID = 0, ap_VersionInterval = 0\<rparr>),
      (Scrypt, \<lparr>ap_Version = 514, ap_MinBits = BigToCompact MainPowLimit, ap_AlgoID = 1, ap_VersionInterval = 0\<rparr>)]"

definition p9AlgosNumeric :: "(i32 \<times> AlgoParams) list" where
  "p9AlgosNumeric =
     map (\<lambda>(version, algoID, k). (version, \<lparr>ap_Version = version, ap_MinBits = BigToCompact FirstPowLimit, ap_AlgoID = algoID,
                                        ap_VersionInterval = 2 ^ k * IntervalBase\<rparr>))
       [(5, 0, 1), (6, 1, 2), (7, 2, 3), (8, 3, 4), (9, 4, 5), (10, 5, 6), (11, 7, 7), (12, 6, 8), (13, 8, 9)]"

text \<open>\<open>fmt.Sprintf\<close> of \<open>Div\<close> and a number.\<close>

fun showNat :: "nat \<Rightarrow> string" where
  "showNat n = (if n < 10 then [char_of (48 + n)] else showNat (n div 10) @ [char_of (48 + n mod 10)])"

definition P9AlgoVers :: "(i32 \<times> string) list" where
  "P9AlgoVers = map (\<lambda>(version, p). (version, ''Div'' @ showNat (ap_VersionInterval p))) p9AlgosNumeric"

definition P9Algos :: "(string \<times> AlgoParams) list" where
  "P9Algos = map (\<lambda>(version, p). (''Div'' @ showNat (ap_VersionInterval p), p)) p9AlgosNumeric"

definition ForkList :: "HardForks list" where
  "ForkList =
     [\<lparr>hf_Number = 0, hf_ActivationHeight = 0, hf_Algos = Algos, hf_AlgoVers = AlgoVers, hf_TargetTimePerBlock = 300,
       hf_AveragingInterval = 10, hf_TestnetStart = 0\<rparr>,
      \<lparr>hf_Number = 1, hf_ActivationHeight = 2500000, hf_Algos = P9Algos, hf_AlgoVers = P9AlgoVers, hf_TargetTimePerBlock = 36,
       hf_AveragingInterval = 3600, hf_TestnetStart = 1\<rparr>]"

definition GetCurrent :: "bool \<Rightarrow> int \<Rightarrow> nat" where
  "GetCurrent isTestnet height =
     foldl (\<lambda>curr (i, f). if height \<ge> (if isTestnet then hf_TestnetStart f else hf_ActivationHeight f) then i else curr)
       0 (enumerate 0 ForkList)"

text \<open>Looking up a missing key gives the zero value.\<close>

definition algoOf :: "(string \<times> AlgoParams) list \<Rightarrow> string \<Rightarrow> AlgoParams" where
  "algoOf algos name =
     (case map_of algos name of
        Some p \<Rightarrow> p | None \<Rightarrow> \<lparr>ap_Version = 0, ap_MinBits = 0, ap_AlgoID = 0, ap_VersionInterval = 0\<rparr>)"

definition GetAlgoID :: "bool \<Rightarrow> string \<Rightarrow> int \<Rightarrow> u32" where
  "GetAlgoID isTestnet algoname height =
     (if GetCurrent isTestnet height > 1 then ap_AlgoID (algoOf P9Algos algoname) else ap_AlgoID (algoOf Algos algoname))"

definition GetAlgoName :: "bool \<Rightarrow> i32 \<Rightarrow> int \<Rightarrow> string" where
  "GetAlgoName isTestnet algoVer height =
     (let hf = GetCurrent isTestnet height in
      case map_of (hf_AlgoVers (ForkList ! hf)) algoVer of
        Some name \<Rightarrow> name
      | None \<Rightarrow> if hf < 1 then SHA256d else '''')"

text \<open>The first entry of the slice of algorithms sorted by version.\<close>

definition firstAlgo :: "nat \<Rightarrow> string" where
  "firstAlgo hf = fst (hd (sort_key (\<lambda>(name, p). sint (ap_Version p)) (hf_Algos (ForkList ! hf))))"

definition GetAlgoVer :: "bool \<Rightarrow> string \<Rightarrow> int \<Rightarrow> i32" where
  "GetAlgoVer isTestnet name height =
     (let hf = GetCurrent isTestnet height;
          n = (if map_of (hf_Algos (ForkList ! hf)) name \<noteq> None then name else firstAlgo hf)
      in ap_Version (algoOf (hf_Algos (ForkList ! hf)) n))"

definition GetAveragingInterval :: "bool \<Rightarrow> int \<Rightarrow> int" where
  "GetAveragingInterval isTestnet height = hf_AveragingInterval (ForkList ! GetCurrent isTestnet height)"

definition GetMinBits :: "bool \<Rightarrow> string \<Rightarrow> int \<Rightarrow> u32" where
  "GetMinBits isTestnet algoname height =
     ap_MinBits (algoOf (hf_Algos (ForkList ! GetCurrent isTestnet height)) algoname)"

definition GetMinDiff :: "bool \<Rightarrow> string \<Rightarrow> int \<Rightarrow> int" where
  "GetMinDiff isTestnet algoname height = CompactToBig (GetMinBits isTestnet algoname height)"

definition GetTargetTimePerBlock :: "bool \<Rightarrow> int \<Rightarrow> int" where
  "GetTargetTimePerBlock isTestnet height = hf_TargetTimePerBlock (ForkList ! GetCurrent isTestnet height)"

section \<open>Proof of work hashes\<close>

text \<open>The hash functions of other packages: scrypt with the parameters of the call, Blake3 and SHA-256.\<close>

record powHashes =
  ph_scryptKey :: "bytes \<Rightarrow> bytes"
  ph_blake3 :: "bytes \<Rightarrow> bytes"
  ph_sha256 :: "bytes \<Rightarrow> bytes"

text \<open>Division by zero panics; the divisor is the number whose bytes are the block.\<close>

fun DivHash :: "(bytes \<Rightarrow> bytes) \<Rightarrow> bytes \<Rightarrow> nat \<Rightarrow> bytes cres" where
  "DivHash hf blockbytes howmany =
     (let blocklen = length blockbytes;
          firsthalf = blockbytes @ rev (take (blocklen div 2) blockbytes);
          secondhalf = blockbytes @ rev (drop (blocklen div 2) blockbytes);
          bl = be_int blockbytes; fh = be_int firsthalf; sh = be_int secondhalf;
          sqsq = (fh * fh) * (sh * sh)
      in if bl = 0 then Inl GoPanic
         else let ddd = rev (bigBytes (sqsq div bl))
              in (case howmany of
                    0 \<Rightarrow> Inr (hf ddd)
                  | Suc k \<Rightarrow> DivHash hf (ddd @ rev ddd) k))"

declare DivHash.simps [simp del]

text \<open>\<open>Scrypt\<close> reverses the key into its result and then overwrites the result with the key.\<close>

definition ScryptHash :: "powHashes \<Rightarrow> bytes \<Rightarrow> bytes" where
  "ScryptHash ph b = ph_scryptKey ph b"

definition HashReps :: nat where "HashReps = 2"

text \<open>\<open>SetBytes\<close> fails, and leaves the hash zero, if the length is wrong.\<close>

definition setHash :: "bytes \<Rightarrow> bytes" where
  "setHash b = (if length b = HashSize then b else chainZeroHash)"

definition forkHash :: "powHashes \<Rightarrow> bool \<Rightarrow> bytes \<Rightarrow> string \<Rightarrow> int \<Rightarrow> bytes cres" where
  "forkHash ph isTestnet b name height =
     (let hR = (if isTestnet \<and> height = 1 then 0 else HashReps) in
      if name = Scrypt then
        (if GetCurrent isTestnet height > 0 then bindE (DivHash (ScryptHash ph) b hR) (\<lambda>d. Inr (setHash d))
         else Inr (setHash (ScryptHash ph b)))
      else if name = SHA256d then
        (if GetCurrent isTestnet height > 0 then bindE (DivHash (DoubleHashH (ph_sha256 ph)) b hR) (\<lambda>d. Inr (setHash d))
         else Inr (setHash (DoubleHashH (ph_sha256 ph) b)))
      else bindE (DivHash (ph_blake3 ph) b hR) (\<lambda>d. Inr (setHash d)))"

definition BlockHashWithAlgos :: "powHashes \<Rightarrow> bool \<Rightarrow> BlockHeader \<Rightarrow> int \<Rightarrow> bytes cres" where
  "BlockHashWithAlgos ph isTestnet h height =
     forkHash ph isTestnet (writeBlockHeader h) (GetAlgoName isTestnet (bh_Version h) height) height"

section \<open>The compact form of a target\<close>

lemma bit_small: "0 \<le> m \<Longrightarrow> m < 2 ^ k \<Longrightarrow> k \<le> n \<Longrightarrow> \<not> bit (m :: int) n"
  by (metis bit_take_bit_iff not_less take_bit_int_eq_self)

lemma uint_small: "0 \<le> m \<Longrightarrow> m < 2 ^ 32 \<Longrightarrow> uint (word_of_int m :: u32) = m"
  by (simp add: uint_word_of_int)

lemma uint_drop: "uint (drop_bit k (w :: u32)) = uint w div 2 ^ k"
proof -
  have "take_bit 32 (uint w) = uint w" using uint_lt2p[of w] by (simp add: take_bit_int_eq_self)
  then show ?thesis unfolding unsigned_drop_bit_eq by (simp add: drop_bit_eq_div)
qed

text \<open>A word with exponent \<open>e\<close> and mantissa \<open>m\<close>.\<close>

lemma compact_parts:
  assumes "0 \<le> m" "m < 2 ^ 24" "e < 256"
  shows "push_bit 24 (word_of_nat e) OR word_of_int m = (word_of_int (int e * 2 ^ 24 + m) :: u32)"
proof -
  have "push_bit 24 (word_of_nat e) + (word_of_int m :: u32) = push_bit 24 (word_of_nat e) OR word_of_int m"
    using bit_small[OF assms(1,2)] by (intro disjunctive_add) (auto simp: bit_push_bit_iff bit_word_of_int_iff not_less[symmetric])
  then show ?thesis by (simp add: push_bit_eq_mult)
qed

lemma CompactToBig_parts:
  assumes "0 \<le> m" "m < 2 ^ 23" "e < 256"
  shows "CompactToBig (word_of_int (int e * 2 ^ 24 + m)) = (if e \<le> 3 then m div 256 ^ (3 - e) else m * 256 ^ (e - 3))"
proof -
  let ?c = "word_of_int (int e * 2 ^ 24 + m) :: u32"
  have c: "uint ?c = int e * 2 ^ 24 + m" using assms by (intro uint_small) auto
  have low: "uint (0x007fffff :: u32) = mask 23" by (simp add: mask_eq_exp_minus_1)
  have "uint (?c AND 0x007fffff) = take_bit 23 (uint ?c)" unfolding unsigned_and_eq low take_bit_eq_mask ..
  also have "\<dots> = (m + 2 * int e * 2 ^ 23) mod 2 ^ 23" unfolding c take_bit_eq_mod by (rule arg_cong[of _ _ "\<lambda>x. x mod 2 ^ 23"]) simp
  also have "\<dots> = m" using assms by (subst mod_mult_self1) simp
  finally have mant: "uint (?c AND 0x007fffff) = m" .
  have "(m + 2 * int e * 2 ^ 23) div 2 ^ 23 = 2 * int e + m div 2 ^ 23" by (rule div_mult_self1) simp
  moreover have "int e * 2 ^ 24 + m = m + 2 * int e * 2 ^ 23" by simp
  ultimately have "(int e * 2 ^ 24 + m) div 2 ^ 23 = 2 * int e" using assms by simp
  then have "\<not> bit (uint ?c) 23" unfolding c bit_iff_odd by simp
  then have sign: "?c AND 0x00800000 = 0" using and_exp_eq_0_iff_not_bit[of ?c 23] by (simp add: bit_uint_iff)
  have "(m + int e * 2 ^ 24) div 2 ^ 24 = int e + m div 2 ^ 24" by (rule div_mult_self1) simp
  then have "uint (drop_bit 24 ?c) = int e" using assms unfolding uint_drop c by (simp add: add.commute)
  then have ex: "unat (drop_bit 24 ?c) = e" by (metis nat_int unat_eq_nat_uint)
  have d: "uint (drop_bit k (?c AND 0x007fffff)) = m div 2 ^ k" for k unfolding uint_drop mant ..
  have p: "(2 :: int) ^ (8 * j) = 256 ^ j" for j by (simp add: power_mult)
  show ?thesis unfolding CompactToBig_def Let_def ex d mant sign
    by (simp add: push_bit_eq_mult p)
qed

text \<open>The number of bytes of a positive number with a sign bit.\<close>

definition signedBytes :: "int \<Rightarrow> nat" where
  "signedBytes n = floorlog 2 (nat n) div 8 + 1"

lemma signedBytes_eq:
  assumes "0 < n" "0 < L" "256 ^ (L - 1) \<le> n" "n < 256 ^ L"
  shows "signedBytes n = (if n < 2 ^ (8 * L - 1) then L else L + 1)"
proof -
  let ?B = "floorlog 2 (nat n)"
  have p: "(2 :: int) ^ (8 * j) = 256 ^ j" for j by (simp add: power_mult)
  have le: "?B \<le> w \<longleftrightarrow> n < 2 ^ w" for w
    using assms(1) by (simp add: floorlog_le_iff nat_less_iff)
  show ?thesis
  proof (cases "n < 2 ^ (8 * L - 1)")
    case True
    have "\<not> ?B \<le> 8 * (L - 1)" unfolding le p using assms(3) by simp
    moreover have "?B \<le> 8 * L - 1" unfolding le using True .
    ultimately have "?B div 8 = L - 1" using assms(2) by (cases L) auto
    with True assms(2) show ?thesis by (simp add: signedBytes_def)
  next
    case False
    have "\<not> ?B \<le> 8 * L - 1" unfolding le using False .
    moreover have "?B \<le> 8 * L" unfolding le p using assms(4) .
    ultimately have "?B = 8 * L" using assms(2) by linarith
    with False show ?thesis by (simp add: signedBytes_def)
  qed
qed

text \<open>The mantissa of \<open>BigToCompact\<close> before it is normalized.\<close>

definition rawMantissa :: "int \<Rightarrow> nat \<Rightarrow> int" where
  "rawMantissa n L = (if L \<le> 3 then n * 256 ^ (3 - L) else n div 256 ^ (L - 3))"

lemma int_div_less_iff: "0 < c \<Longrightarrow> a div c < b \<longleftrightarrow> a < b * (c :: int)"
proof -
  assume c: "0 < c"
  have "(a + (- b) * c) div c = - b + a div c" using c by (intro div_mult_self1) simp
  moreover have "(a + (- b) * c) div c < 0 \<longleftrightarrow> a + (- b) * c < 0" by (rule pos_imp_zdiv_neg_iff[OF c])
  ultimately show ?thesis by auto
qed

lemma rawMantissa_less:
  assumes "0 < n" "0 < L" "k \<le> 1"
  shows "n < 2 ^ (8 * L - k) \<longleftrightarrow> rawMantissa n L < 2 ^ (24 - k)"
proof (cases "L \<le> 3")
  case True
  have "24 - k = (8 * L - k) + 8 * (3 - L)" using True assms(2,3) by linarith
  then have "(2 :: int) ^ (24 - k) = 2 ^ (8 * L - k) * 256 ^ (3 - L)" by (simp add: power_add power_mult)
  then show ?thesis using True by (simp add: rawMantissa_def)
next
  case False
  have "8 * L - k = (24 - k) + 8 * (L - 3)" using False assms(3) by linarith
  then have "(2 :: int) ^ (8 * L - k) = 2 ^ (24 - k) * 256 ^ (L - 3)" by (simp add: power_add power_mult)
  then show ?thesis using False by (simp add: rawMantissa_def int_div_less_iff)
qed

lemma BigToCompact_pos:
  assumes "0 < n" "signedBytes n < 256"
  defines "e \<equiv> signedBytes n"
  shows "BigToCompact n = word_of_int (int e * 2 ^ 24 + rawMantissa n e)" and "0 \<le> rawMantissa n e" "rawMantissa n e < 2 ^ 23"
proof -
  define L where "L = length (bigBytes n)"
  have L: "0 < L" "256 ^ (L - 1) \<le> n" "n < 256 ^ L"
    using length_bigBytes[of n 0] length_bigBytes[of n "L - 1"] length_bigBytes[of n L] assms(1) by (auto simp: L_def not_less)
  let ?M = "rawMantissa n L"
  have M: "0 \<le> ?M" "?M < 2 ^ 24" "n < 2 ^ (8 * L - 1) \<longleftrightarrow> ?M < 2 ^ 23"
    using assms(1) rawMantissa_less[OF assms(1) L(1), of 0] rawMantissa_less[OF assms(1) L(1), of 1] L(3)
    by (auto simp: rawMantissa_def power_mult pos_imp_zdiv_nonneg_iff)
  have e: "e = (if ?M < 2 ^ 23 then L else L + 1)" unfolding e_def signedBytes_eq[OF assms(1) L] M(3) ..
  have word: "(if L \<le> 3 then push_bit (8 * (3 - L)) (word_of_int \<bar>n\<bar>) else word_of_int \<bar>drop_bit (8 * (L - 3)) n\<bar>) = (word_of_int ?M :: u32)"
    using assms(1) by (simp add: rawMantissa_def push_bit_eq_mult drop_bit_eq_div power_mult pos_imp_zdiv_nonneg_iff abs_of_nonneg)
  have "bit ?M 23 \<longleftrightarrow> \<not> ?M < 2 ^ 23"
  proof
    show "bit ?M 23 \<Longrightarrow> \<not> ?M < 2 ^ 23" using bit_small[OF M(1)] by blast
    assume "\<not> ?M < 2 ^ 23"
    then have "?M div 2 ^ 23 = 1" using M(2) by (intro int_div_pos_eq[where r = "?M - 2 ^ 23"]) auto
    then show "bit ?M 23" by (simp add: bit_iff_odd)
  qed
  then have sign: "(word_of_int ?M :: u32) AND 0x00800000 \<noteq> 0 \<longleftrightarrow> \<not> ?M < 2 ^ 23"
    using and_exp_eq_0_iff_not_bit[of "word_of_int ?M :: u32" 23] by (simp add: bit_word_of_int_iff)
  show r: "0 \<le> rawMantissa n e" using assms(1) by (simp add: rawMantissa_def pos_imp_zdiv_nonneg_iff)
  have re: "rawMantissa n e = (if ?M < 2 ^ 23 then ?M else ?M div 256)"
  proof (cases "?M < 2 ^ 23")
    case False
    show ?thesis
    proof (cases "L < 3")
      case True
      then have "3 - L = Suc (3 - Suc L)" by simp
      then have "n * 256 ^ (3 - L) = (n * 256 ^ (3 - Suc L)) * 256" by (simp only: power_Suc ac_simps)
      then have "n * 256 ^ (3 - L) div 256 = n * 256 ^ (3 - Suc L)" by (simp only: nonzero_mult_div_cancel_right)
      then show ?thesis using False True e by (simp add: rawMantissa_def)
    next
      case ge: False
      then have "Suc L - 3 = Suc (L - 3)" by simp
      then have "n div 256 ^ (Suc L - 3) = n div 256 ^ (L - 3) div 256"
        by (simp only: power_Suc zdiv_zmult2_eq[of "256 :: int", symmetric] mult.commute)
      then show ?thesis using False ge e by (auto simp: rawMantissa_def)
    qed
  qed (use e in simp)
  then show "rawMantissa n e < 2 ^ 23" using M(2) by auto
  have drop: "drop_bit 8 (word_of_int ?M :: u32) = word_of_int (?M div 256)"
    using M by (intro word_uint_eqI) (simp add: uint_drop uint_small)
  have "BigToCompact n = push_bit 24 (word_of_nat e) OR word_of_int (rawMantissa n e)"
    using assms(1) re e unfolding BigToCompact_def Let_def L_def[symmetric] word sign drop by (cases "?M < 2 ^ 23") simp_all
  then show "BigToCompact n = word_of_int (int e * 2 ^ 24 + rawMantissa n e)"
    using compact_parts[OF r _ assms(2)] \<open>rawMantissa n e < 2 ^ 23\<close> by (simp add: e_def)
qed

lemma rawMantissa_value: "0 < e \<Longrightarrow> (if e \<le> 3 then rawMantissa n e div 256 ^ (3 - e) else rawMantissa n e * 256 ^ (e - 3))
    = n div 256 ^ (e - 3) * 256 ^ (e - 3)"
  by (auto simp: rawMantissa_def)

lemma floorlog_iff: "0 < n \<Longrightarrow> floorlog 2 (nat n) \<le> w \<longleftrightarrow> n < 2 ^ w"
  by (simp add: floorlog_le_iff nat_less_iff)

lemma signedBytes_truncate:
  assumes "0 < n"
  defines "e \<equiv> signedBytes n"
  defines "m \<equiv> n div 256 ^ (e - 3) * 256 ^ (e - 3)"
  shows "signedBytes m = e" "0 < m" "rawMantissa m e = rawMantissa n e"
proof -
  show "rawMantissa m e = rawMantissa n e" by (auto simp: rawMantissa_def m_def)
  let ?B = "floorlog 2 (nat n)"
  have B: "0 < ?B" using assms(1) by (simp add: floorlog_eq_zero_iff neq0_conv[symmetric] del: neq0_conv)
  have nB: "2 ^ (?B - 1) \<le> n" "n < 2 ^ ?B"
    using floorlog_iff[OF assms(1), of "?B - 1"] floorlog_iff[OF assms(1), of ?B] B by auto
  have "8 * (e - 3) \<le> ?B - 1" by (simp add: e_def signedBytes_def)
  then have "(256 :: int) ^ (e - 3) dvd 2 ^ (?B - 1)" using le_imp_power_dvd[of "8 * (e - 3)" "?B - 1" "2 :: int"] by (simp add: power_mult)
  then obtain q where q: "(2 :: int) ^ (?B - 1) = 256 ^ (e - 3) * q" by (auto elim: dvdE)
  then have "q \<le> n div 256 ^ (e - 3)" using nB(1) int_div_less_iff[of "256 ^ (e - 3)" n q] by (auto simp: mult.commute not_less[symmetric])
  then have m1: "2 ^ (?B - 1) \<le> m" unfolding q m_def by (simp add: mult.commute)
  then show m0: "0 < m" by (rule less_le_trans[rotated]) simp
  have "m \<le> n" unfolding m_def by (simp add: minus_mod_eq_div_mult[symmetric])
  with nB(2) have "floorlog 2 (nat m) \<le> ?B" unfolding floorlog_iff[OF m0] by simp
  moreover have "\<not> floorlog 2 (nat m) \<le> ?B - 1" unfolding floorlog_iff[OF m0] using m1 by simp
  ultimately have "floorlog 2 (nat m) = ?B" using B by linarith
  then show "signedBytes m = e" by (simp add: e_def signedBytes_def)
qed

text \<open>C21: compact targets. For every number that is not negative and fits 254 bytes, the compact form denotes the number with all but its leading bytes cleared (three
  bytes if the first of them has its top bit free, else two): it is never larger than the number, and converting what it denotes again gives the same compact form.\<close>

theorem compact_roundtrip:
  assumes "0 \<le> n" "n < 256 ^ 254"
  defines "k \<equiv> signedBytes n - 3"
  shows "CompactToBig (BigToCompact n) = n div 256 ^ k * 256 ^ k
    \<and> BigToCompact (CompactToBig (BigToCompact n)) = BigToCompact n"
proof (cases "n = 0")
  case True
  then show ?thesis by (simp add: BigToCompact_def CompactToBig_def)
next
  case False
  let ?e = "signedBytes n" and ?m = "n div 256 ^ k * 256 ^ k"
  have n: "0 < n" using False assms(1) by simp
  have "floorlog 2 (nat n) \<le> 8 * 254" unfolding floorlog_iff[OF n] using assms(2) by (simp only: power_mult) simp
  then have "floorlog 2 (nat n) div 8 \<le> 8 * 254 div 8" by (rule div_le_mono)
  then have e: "?e < 256" by (simp add: signedBytes_def)
  note b = BigToCompact_pos[OF n e]
  have pos: "0 < ?e" by (simp add: signedBytes_def)
  have v: "CompactToBig (BigToCompact n) = ?m"
    unfolding b(1) CompactToBig_parts[OF b(2,3) e] k_def by (rule rawMantissa_value[OF pos])
  note t = signedBytes_truncate[OF n, folded k_def]
  have "BigToCompact ?m = BigToCompact n"
    using BigToCompact_pos(1)[OF t(2)] e unfolding t(1,3) b(1) by simp
  with v show ?thesis by simp
qed

theorem compact_roundtrip_witness:
  "0 \<le> MainPowLimit \<and> MainPowLimit < 256 ^ 254
   \<and> BigToCompact (CompactToBig (BigToCompact MainPowLimit)) = BigToCompact MainPowLimit"
proof -
  have "0 \<le> MainPowLimit" "MainPowLimit < 256 ^ 254" by (simp_all add: MainPowLimit_def)
  then show ?thesis using compact_roundtrip[of MainPowLimit] by blast
qed

section \<open>Algorithms\<close>

lemma GetCurrent_eq [code]: "GetCurrent t h = (if h \<ge> (if t then 1 else 2500000) then 1 else 0)"
  by (simp add: GetCurrent_def ForkList_def)

lemma GetAlgoName_eq [code]:
  "GetAlgoName t v h =
     (let hf = GetCurrent t h in
      case map_of (if hf = 0 then AlgoVers else P9AlgoVers) v of Some name \<Rightarrow> name | None \<Rightarrow> if hf < 1 then SHA256d else '''')"
  by (simp add: GetAlgoName_def GetCurrent_eq ForkList_def)

lemma showNat_intervals:
  "showNat 72 = ''72''" "showNat 144 = ''144''" "showNat 288 = ''288''" "showNat 576 = ''576''" "showNat 1152 = ''1152''"
  "showNat 2304 = ''2304''" "showNat 4608 = ''4608''" "showNat 9216 = ''9216''" "showNat 18432 = ''18432''"
  by (simp_all add: char_of_def bit_0)

declare showNat.simps [simp del]

lemmas P9_defs = P9AlgoVers_def P9Algos_def p9AlgosNumeric_def IntervalBase_def showNat_intervals

text \<open>Names and versions of algorithms. Before and after the hard fork, the version that \<open>GetAlgoVer\<close> gives for the name of a version that
  the current rules know is that version again.\<close>

theorem algo_version_roundtrip:
  assumes "v \<in> fst ` set (hf_AlgoVers (ForkList ! GetCurrent t h))"
  shows "GetAlgoVer t (GetAlgoName t v h) h = v"
proof (cases "GetCurrent t h = 0")
  case True
  with assms have "v = 2 \<or> v = 514" by (auto simp: ForkList_def AlgoVers_def)
  with True show ?thesis
    by (auto simp: GetAlgoVer_def GetAlgoName_def ForkList_def AlgoVers_def Algos_def algoOf_def SHA256d_def Scrypt_def)
next
  case False
  then have c: "GetCurrent t h = 1" by (simp add: GetCurrent_eq split: if_splits)
  with assms have "v \<in> {5, 6, 7, 8, 9, 10, 11, 12, 13}" by (auto simp: ForkList_def P9_defs)
  with c show ?thesis by (auto simp: GetAlgoVer_def GetAlgoName_def ForkList_def P9_defs algoOf_def)
qed

theorem algo_version_roundtrip_witness:
  "7 \<in> fst ` set (hf_AlgoVers (ForkList ! GetCurrent False 3000000)) \<and> GetAlgoVer False (GetAlgoName False 7 3000000) 3000000 = 7"
proof -
  have "7 \<in> fst ` set (hf_AlgoVers (ForkList ! GetCurrent False 3000000))" by (simp add: GetCurrent_eq ForkList_def P9_defs)
  with algo_version_roundtrip[OF this] show ?thesis by simp
qed

text \<open>\<open>GetAlgoID\<close> does not know the hard fork. Its test for the fork can never succeed, since there are only two sets of rules, numbered
  0 and 1, so that every algorithm of the fork gets the identifier 0 at every height.\<close>

theorem algo_id_ignores_fork:
  "GetCurrent t h \<le> 1 \<and> GetAlgoID t name h = ap_AlgoID (algoOf Algos name)
   \<and> list_all (\<lambda>(p9name, p). GetAlgoID t p9name h = 0) P9Algos \<and> ap_AlgoID (algoOf P9Algos ''Div144'') = 1"
  by (auto simp: GetAlgoID_def GetCurrent_eq algoOf_def Algos_def P9_defs SHA256d_def Scrypt_def)

section \<open>The division hash\<close>

lemma be_int_zero_iff: "be_int b = 0 \<longleftrightarrow> set b \<subseteq> {0}"
proof (induction b)
  case (Cons x b)
  have "0 \<le> uint x * 256 ^ length b" by simp
  then show ?case using Cons be_int_nonneg[of b] by (auto simp: be_int_Cons add_nonneg_eq_0_iff uint_0_iff)
qed simp

text \<open>The quotient is at least the divisor cubed, so it is not zero and the next round does not divide by zero.\<close>

lemma DivHash_total: "be_int b \<noteq> 0 \<Longrightarrow> \<exists>d. DivHash hf b n = Inr d"
proof (induction n arbitrary: b)
  case 0
  then show ?case by (subst DivHash.simps) (simp add: Let_def)
next
  case (Suc n)
  let ?bl = "be_int b"
  let ?fh = "be_int (b @ rev (take (length b div 2) b))" and ?sh = "be_int (b @ rev (drop (length b div 2) b))"
  have bl: "0 < ?bl" using Suc.prems be_int_nonneg[of b] by linarith
  have ge: "?bl \<le> be_int (b @ x)" for x
  proof -
    have "?bl * 1 \<le> ?bl * 256 ^ length x" using bl by (intro mult_left_mono) simp_all
    then show ?thesis using be_int_nonneg[of x] unfolding be_int_append by linarith
  qed
  define q where "q = ?fh * ?fh * (?sh * ?sh) div ?bl"
  have fs: "0 < ?fh" "0 < ?sh" "?bl \<le> ?fh" using ge[of "rev (take (length b div 2) b)"] ge[of "rev (drop (length b div 2) b)"] bl by linarith+
  then have "0 < ?fh * (?sh * ?sh)" by simp
  then have "?bl * 1 \<le> ?fh * (?fh * (?sh * ?sh))" using bl fs by (intro mult_mono) linarith+
  then have q: "0 < q" using bl pos_imp_zdiv_pos_iff[of ?bl "?fh * ?fh * (?sh * ?sh)"] by (simp only: q_def mult.assoc mult_1_right)
  have "be_int (rev (bigBytes q) @ bigBytes q) = be_int (rev (bigBytes q)) * 256 ^ length (bigBytes q) + q"
    using q by (simp add: be_int_append)
  moreover have "0 \<le> be_int (rev (bigBytes q)) * 256 ^ length (bigBytes q)" by simp
  ultimately have "be_int (rev (bigBytes q) @ bigBytes q) \<noteq> 0" using q by linarith
  moreover have "DivHash hf b (Suc n) = DivHash hf (rev (bigBytes q) @ bigBytes q) n"
    using Suc.prems by (subst DivHash.simps) (simp add: Let_def q_def)
  ultimately show ?case using Suc.IH by simp
qed

text \<open>The long division of the proof of work. \<open>DivHash\<close> panics with a division by zero exactly if all bytes of the block are zero; in every other case each
  of its rounds has a divisor that is not zero and it returns a hash, for every number of rounds and every hash function.\<close>

theorem DivHash_panic_iff:
  "(DivHash hf b n = Inl GoPanic \<longleftrightarrow> set b \<subseteq> {0}) \<and> ((\<exists>d. DivHash hf b n = Inr d) \<longleftrightarrow> \<not> set b \<subseteq> {0})"
proof (cases "be_int b = 0")
  case True
  then have "DivHash hf b n = Inl GoPanic" by (subst DivHash.simps) (simp add: Let_def)
  then show ?thesis using True by (simp add: be_int_zero_iff)
next
  case False
  then show ?thesis using DivHash_total[OF False, of hf n] by (auto simp: be_int_zero_iff)
qed

end
