(* ===== verification/ChainBlockRules.thy ===== *)
theory ChainBlockRules
  imports ChainTxRules ChainMerkle ChainScripts ChainFork
begin

text \<open>
  The rules for blocks: the rest of \<open>src/pkg/chain/validate.go\<close>. \<open>checkBlockSanity\<close> looks at the block alone, \<open>checkConnectBlock\<close> at the block
  and a view of the unspent outputs, which it updates. What the functions read of the chain and of other packages is the record
  \<open>consensus\<close>; the caches they fill are \<open>chainCaches\<close>, which an error leaves as they are at that point. After an error every
  caller discards the view, so an error carries none.

  Main theorem: connecting a block to the set of unspent outputs never adds more than the subsidy to the
  total of the coins, provided that no transaction of the block spends an output of a later one.
  The proviso is needed: the duplicate check of BIP0030, which the main network always runs, leaves entries in the view that let such a block through.
\<close>

section \<open>Context\<close>

text \<open>
  The parameter \<open>cn_smoothSubsidy interval height\<close> stands for the floating point formula of \<open>CalcBlockSubsidy\<close>,
  \<open>cn_scriptAddress\<close> for the decoding of the addresses of \<open>src/pkg/chain/hardfork\<close>.
\<close>

record consensus =
  cn_crypto :: crypto
  cn_pow :: powHashes
  cn_IsTestnet :: bool
  cn_params :: Params
  cn_checkpoints :: "Checkpoint list"
  cn_smoothSubsidy :: "nat \<Rightarrow> int \<Rightarrow> int"
  cn_scriptAddress :: "string \<Rightarrow> bytes"

abbreviation cn_sha :: "consensus \<Rightarrow> bytes \<Rightarrow> bytes" where "cn_sha cn \<equiv> c_sha256 (cn_crypto cn)"
abbreviation cn_parse :: "consensus \<Rightarrow> bytes \<Rightarrow> PublicKey option" where "cn_parse cn \<equiv> c_ParsePubKey (cn_crypto cn)"

record chainCaches =
  ch_deployment :: "thresholdStateCache list"
  ch_sigCache :: "SigCache option"
  ch_hashCache :: "HashCache option"

text \<open>Computations that update a state and may fail.\<close>

type_synonym ('s, 'a) stateful = "'s \<Rightarrow> 'a cres \<times> 's"
type_synonym 'a chained = "(chainCaches, 'a) stateful"

definition bindC :: "('s, 'a) stateful \<Rightarrow> ('a \<Rightarrow> ('s, 'b) stateful) \<Rightarrow> ('s, 'b) stateful" where
  "bindC m f = (\<lambda>ch. case m ch of (Inl e, ch') \<Rightarrow> (Inl e, ch') | (Inr x, ch') \<Rightarrow> f x ch')"

definition liftC :: "'a cres \<Rightarrow> ('s, 'a) stateful" where
  "liftC r = (\<lambda>ch. (r, ch))"

fun foldC :: "('a \<Rightarrow> ('s, unit) stateful) \<Rightarrow> 'a list \<Rightarrow> ('s, unit) stateful" where
  "foldC f [] = liftC (Inr ())"
| "foldC f (x # xs) = bindC (f x) (\<lambda>_. foldC f xs)"

definition deploymentStateC :: "consensus \<Rightarrow> BlockNode option \<Rightarrow> nat \<Rightarrow> ThresholdState chained" where
  "deploymentStateC cn prevNode deploymentID = (\<lambda>ch.
     let (r, caches) = deploymentState (cn_params cn) prevNode deploymentID (ch_deployment ch)
     in (r, ch\<lparr>ch_deployment := caches\<rparr>))"

section \<open>Proof of work\<close>

type_synonym BehaviorFlags = u32

definition BFFastAdd :: BehaviorFlags where "BFFastAdd = 1"
definition BFNoPoWCheck :: BehaviorFlags where "BFNoPoWCheck = 2"
definition BFNone :: BehaviorFlags where "BFNone = 0"

text \<open>\<open>powLimit\<close> is \<open>None\<close> for a nil pointer.\<close>

definition checkProofOfWork :: "consensus \<Rightarrow> BlockHeader \<Rightarrow> int option \<Rightarrow> BehaviorFlags \<Rightarrow> int \<Rightarrow> unit cres" where
  "checkProofOfWork cn header powLimit bflags height =
     (case powLimit of
        None \<Rightarrow> Inl OtherError
      | Some limit \<Rightarrow>
          let target = CompactToBig (bh_Bits header) in
          if target \<le> 0 then Inl (RuleError ErrUnexpectedDifficulty)
          else if target > limit then Inl (RuleError ErrUnexpectedDifficulty)
          else if bflags AND BFNoPoWCheck = 0
          then bindE (BlockHashWithAlgos (cn_pow cn) (cn_IsTestnet cn) header height) (\<lambda>hash.
               failIf (HashToBig hash > target) (RuleError ErrHighHash))
          else Inr ())"

definition CheckProofOfWork :: "consensus \<Rightarrow> Block \<Rightarrow> int option \<Rightarrow> int \<Rightarrow> unit cres" where
  "CheckProofOfWork cn blk powLimit height = checkProofOfWork cn (Header blk) powLimit BFNone height"

section \<open>Sanity of a block\<close>

definition MaxTimeOffsetSeconds :: int where "MaxTimeOffsetSeconds = 2 * 60 * 60"

text \<open>Timestamps are whole seconds, so the check of their precision always passes.\<close>

definition checkBlockHeaderSanity :: "consensus \<Rightarrow> BlockHeader \<Rightarrow> int option \<Rightarrow> int \<Rightarrow> BehaviorFlags \<Rightarrow> int \<Rightarrow> unit cres" where
  "checkBlockHeaderSanity cn header powLimit adjustedTime bflags height =
     bindE (checkProofOfWork cn header powLimit bflags height) (\<lambda>_.
     let maxTimestamp = adjustedTime + MaxTimeOffsetSeconds
     in failIf (bh_Timestamp header > maxTimestamp) (RuleError ErrTimeTooNew))"

definition addSigOps :: "int \<Rightarrow> MsgTx \<Rightarrow> int cres" where
  "addSigOps totalSigOps mtx =
     (let totalSigOps' = s64 (totalSigOps + s64 (CountSigOps mtx * int WitnessScaleFactor)) in
      if totalSigOps' < totalSigOps \<or> totalSigOps' > MaxBlockSigOpsCost then Inl (RuleError ErrTooManySigOps)
      else Inr totalSigOps')"

definition checkDuplicateTx :: "(bytes \<Rightarrow> bytes) \<Rightarrow> bytes list \<Rightarrow> MsgTx \<Rightarrow> bytes list cres" where
  "checkDuplicateTx sha existingTxHashes mtx =
     (let hash = TxHash sha mtx in
      if hash \<in> set existingTxHashes then Inl (RuleError ErrDuplicateTx) else Inr (hash # existingTxHashes))"

definition checkBlockSanity :: "consensus \<Rightarrow> Block \<Rightarrow> int option \<Rightarrow> int \<Rightarrow> BehaviorFlags \<Rightarrow> bool \<Rightarrow> int \<Rightarrow> unit cres" where
  "checkBlockSanity cn blk powLimit adjustedTime bflags DoNotCheckPow height =
     (let header = Header blk; transactions = Transactions blk; numTx = length transactions in
      bindE (checkBlockHeaderSanity cn header powLimit adjustedTime bflags height) (\<lambda>_.
      bindE (failIf (numTx = 0) (RuleError ErrNoTransactions)) (\<lambda>_.
      bindE (failIf (int numTx > MaxBlockBaseSize) (RuleError ErrBlockTooBig)) (\<lambda>_.
      bindE (failIf (int (block_SerializeSizeStripped (msgBlock blk)) > MaxBlockBaseSize) (RuleError ErrBlockTooBig)) (\<lambda>_.
      bindE (failIf (\<not> IsCoinBaseTx (hd transactions)) (RuleError ErrFirstTxNotCoinbase)) (\<lambda>_.
      bindE (failIf (list_ex IsCoinBaseTx (tl transactions)) (RuleError ErrMultipleCoinbases)) (\<lambda>_.
      bindE (foldE (\<lambda>_ tx. CheckTransactionSanity tx) () transactions) (\<lambda>_.
      bindE (BuildMerkleTreeStore (cn_sha cn) transactions False) (\<lambda>merkles.
      bindE (failIf (last merkles \<noteq> Some (bh_MerkleRoot header)) (RuleError ErrBadMerkleRoot)) (\<lambda>_.
      bindE (foldE (checkDuplicateTx (cn_sha cn)) [] transactions) (\<lambda>_.
      bindE (foldE addSigOps 0 transactions) (\<lambda>_. Inr ()))))))))))))"

definition CheckBlockSanity :: "consensus \<Rightarrow> Block \<Rightarrow> int option \<Rightarrow> int \<Rightarrow> bool \<Rightarrow> int \<Rightarrow> unit cres" where
  "CheckBlockSanity cn blk powLimit adjustedTime DoNotCheckPow height =
     checkBlockSanity cn blk powLimit adjustedTime BFNone DoNotCheckPow height"

section \<open>The subsidy\<close>

definition MainNet :: u32 where "MainNet = 0xffac08cd"
definition TestNet3 :: u32 where "TestNet3 = 0xcd88a1f0"

definition SatoshiPerBitcoin :: int where "SatoshiPerBitcoin = 100000000"

definition baseSubsidy :: int where "baseSubsidy = 2 * SatoshiPerBitcoin"

definition Amt :: "int \<Rightarrow> int" where "Amt f = f * SatoshiPerBitcoin"

definition Payees :: "(string \<times> int) list" where
  "Payees = [(''ag7s5bmcA8XoP1CcS1QPjiD4C5hhMWATik'', Amt 4400)]"

definition TestnetPayees :: "(string \<times> int) list" where
  "TestnetPayees =
     [(''8K73LTaMHZmwwqe4vTHu7wm7QtwusvRCwC'', Amt 100), (''8bec3m8qpMePrBPHDAyCrkSm7TanGX8yWW'', Amt 1223),
      (''8MCLEWq8pjXikrpb9rF9M5DpnpaoWPUD2W'', Amt 4000), (''8cYGvT7km339nVukTj3ztfyQDFEHFivBNk'', Amt 2440),
      (''8YUAAfUeS2mqUnsfiwDwQcEbMfM3tazKr7'', Amt 100), (''8MMam6gxH1ns5LqASfhkHfRV2vsQaoM9VC'', Amt 8800),
      (''8JABYpdqqyRD5FbACtMJ3XF5HJ38jaytrk'', Amt 422), (''8MUnJMYi5Fo7Bm5Pmpr7JjdL3ZDJ7wqmXJ'', Amt 5000),
      (''8d2RLbCBE8CiF4DetVuRfFFLEJJaXYjhdH'', Amt 30000)]"

definition CoreAmount :: int where "CoreAmount = Amt 30000"
definition TestnetCoreAmount :: int where "TestnetCoreAmount = Amt 30000"

definition atHardFork :: "consensus \<Rightarrow> int \<Rightarrow> bool" where
  "atHardFork cn height \<longleftrightarrow>
     Net (cn_params cn) = MainNet \<and> height = hf_ActivationHeight (ForkList ! 1)
     \<or> Net (cn_params cn) = TestNet3 \<and> height = hf_TestnetStart (ForkList ! 1)"

lemma atHardFork_eq [code]:
  "atHardFork cn height \<longleftrightarrow> Net (cn_params cn) = MainNet \<and> height = 2500000 \<or> Net (cn_params cn) = TestNet3 \<and> height = 1"
  by (simp add: atHardFork_def ForkList_def)

definition hardforkPayees :: "consensus \<Rightarrow> (string \<times> int) list" where
  "hardforkPayees cn = (if Net (cn_params cn) = TestNet3 then TestnetPayees else Payees)"

text \<open>Go's division truncates; the shift by a count of 64 or more, and by a negative quotient converted to \<open>uint64\<close>, gives zero.\<close>

function CalcBlockSubsidy :: "consensus \<Rightarrow> int \<Rightarrow> i32 \<Rightarrow> int" where
  "CalcBlockSubsidy cn height version =
     (let interval = SubsidyReductionInterval (cn_params cn) in
      if interval = 0 then baseSubsidy
      else if GetCurrent (cn_IsTestnet cn) height = 0
      then let halvings = height sdiv interval in if halvings < 0 \<or> halvings \<ge> 64 then 0 else drop_bit (nat halvings) baseSubsidy
      else if atHardFork cn height
      then s64 (s64 (foldl (\<lambda>total (address, amount). s64 (total + amount)) 0 (hardforkPayees cn)
                     + CalcBlockSubsidy cn (height + 1) version) + TestnetCoreAmount)
      else s64 (cn_smoothSubsidy cn
             (ap_VersionInterval (algoOf (hf_Algos (ForkList ! 1)) (GetAlgoName (cn_IsTestnet cn) version height))) height))"
  by auto
termination
  by (relation "measure (\<lambda>(cn, height, version). if atHardFork cn height then 1 else 0)")
    (auto simp: atHardFork_def MainNet_def TestNet3_def ForkList_def)

declare CalcBlockSubsidy.simps [simp del]

section \<open>The coinbase of the hard fork\<close>

definition unhex :: "string \<Rightarrow> bytes" where
  "unhex s = map (\<lambda>i. let v = (\<lambda>c. let n = of_char c :: nat in if n < 58 then n - 48 else n - 87)
                      in of_nat (16 * v (s ! (2 * i)) + v (s ! (2 * i + 1)))) [0..<length s div 2]"

definition CorePubkeyBytes :: "bytes list" where
  "CorePubkeyBytes = map unhex
     [''021a00c7e054279124e2d3eb8b64a58f1fda515464cd8df3c0823d2ff2931ebf37'',
      ''0387484f75bc5e45092b1334684def6b47f3dba1566b4b87f62d11c73d8f98db3e'',
      ''02daf0bda15f83899f4ebb62fd837c2dd2368ec8ed90ed0f050054d75d35935c99'']"

definition TestnetCorePubkeyBytes :: "bytes list" where
  "TestnetCorePubkeyBytes = map unhex
     [''03f040c0cff7918415974f05154c8ffe126ad93db7216103fb6f4080dc3bcf4803'',
      ''03f5a5ff1ce0564c7f4565a108220ebac9bd544b44e79ca5a2a805e585d8297cc6'',
      ''022976653e490cea689faafa899aa41b6295c32a5fb3e02d0fa201ac698e0c0c24'',
      ''029ed2885ea597fddea070a5c4c9f40900a514f67f9d5f662aa7b556e8bc5a26f8'']"

text \<open>The comparison of two slices by the indices of the first; an index beyond the second panics.\<close>

fun sameBytes :: "bytes \<Rightarrow> bytes \<Rightarrow> bool cres" where
  "sameBytes [] proper = Inr True"
| "sameBytes (x # xs) [] = Inl GoPanic"
| "sameBytes (x # xs) (y # ys) = (if x \<noteq> y then Inr False else sameBytes xs ys)"

text \<open>Slicing beyond the length panics: the scripts of a decoded block have no spare capacity.\<close>

fun checkPayees :: "consensus \<Rightarrow> (string \<times> int) list \<Rightarrow> TxOut list \<Rightarrow> TxOut list cres" where
  "checkPayees cn [] txo = Inr txo"
| "checkPayees cn (p # payees) [] = Inl GoPanic"
| "checkPayees cn ((address, amount) # payees) (out # txo) =
     bindE (failIf (sint (Value out) \<noteq> amount) (RuleError ErrBadCoinbaseValue)) (\<lambda>_.
     bindE (failIf (length (PkScript out) < 23) GoPanic) (\<lambda>_.
     bindE (sameBytes (take 20 (drop 3 (PkScript out))) (cn_scriptAddress cn address)) (\<lambda>same.
     bindE (failIf (\<not> same) (RuleError ErrBadCoinbaseValue)) (\<lambda>_.
     checkPayees cn payees txo))))"

fun checkCorePubkeys :: "bytes list \<Rightarrow> bytes \<Rightarrow> unit cres" where
  "checkCorePubkeys [] remscript = Inr ()"
| "checkCorePubkeys (pk # corepk) remscript =
     bindE (failIf (length remscript < length pk) (RuleError ErrBadCoinbaseValue)) (\<lambda>_.
     bindE (failIf (take (length pk) remscript \<noteq> pk) (RuleError ErrBadCoinbaseValue)) (\<lambda>_.
     bindE (failIf (length remscript < length pk + 1) GoPanic) (\<lambda>_.
     checkCorePubkeys corepk (drop (length pk + 1) remscript))))"

definition checkHardforkCoinbase :: "consensus \<Rightarrow> MsgTx \<Rightarrow> unit cres" where
  "checkHardforkCoinbase cn btx =
     (let testnet = (Net (cn_params cn) = TestNet3) in
      bindE (checkPayees cn (hardforkPayees cn) (tx_TxOut btx)) (\<lambda>remtx.
      case remtx of
        [] \<Rightarrow> Inl GoPanic
      | out # _ \<Rightarrow>
          bindE (failIf (sint (Value out) \<noteq> (if testnet then TestnetCoreAmount else CoreAmount)) (RuleError ErrBadCoinbaseValue)) (\<lambda>_.
          bindE (failIf (length (PkScript out) < 2) GoPanic) (\<lambda>_.
          checkCorePubkeys (if testnet then TestnetCorePubkeyBytes else CorePubkeyBytes) (drop 2 (PkScript out))))))"

section \<open>Connecting a block\<close>

definition block91842Hash :: bytes where
  "block91842Hash = rev (unhex ''00000000000a4d0a398161ffc163c503763b1f4360639393e0e4c8e300e0caec'')"
definition block91880Hash :: bytes where
  "block91880Hash = rev (unhex ''00000000000743f190a18c5577a3c2d2a1f610ae9601ac046a38084ccb7cd721'')"

definition isBIP0030Node :: "BlockNode \<Rightarrow> bool" where
  "isBIP0030Node node =
     (if nd_height node = 91842 \<and> nd_hash node = block91842Hash then True
      else if nd_height node = 91880 \<and> nd_hash node = block91880Hash then True
      else False)"

definition blockOutpoints :: "(bytes \<Rightarrow> bytes) \<Rightarrow> Block \<Rightarrow> OutPoint list" where
  "blockOutpoints sha blk = remdups (concat (map (\<lambda>tx. map (outPoint sha tx) [0..<length (tx_TxOut tx)]) (Transactions blk)))"

definition checkBIP0030 :: "consensus \<Rightarrow> DB \<Rightarrow> Block \<Rightarrow> UtxoViewpoint \<Rightarrow> UtxoViewpoint cres" where
  "checkBIP0030 cn db blk view =
     (let fetchSet = blockOutpoints (cn_sha cn) blk in
      bindE (fetchUtxos (cn_parse cn) db fetchSet view) (\<lambda>view'.
      bindE (failIf (list_ex (\<lambda>outpoint. case LookupEntry view' outpoint of Some utxo \<Rightarrow> \<not> ue_IsSpent utxo | None \<Rightarrow> False) fetchSet)
               (RuleError ErrOverwriteTx)) (\<lambda>_. Inr view')))"

definition Bip16Activation :: int where "Bip16Activation = 1333238400"

definition addSigOpCost :: "UtxoViewpoint \<Rightarrow> bool \<Rightarrow> bool \<Rightarrow> int \<Rightarrow> nat \<times> MsgTx \<Rightarrow> int cres" where
  "addSigOpCost view enforceBIP0016 enforceSegWit totalSigOpCost = (\<lambda>(i, mtx).
     bindE (GetSigOpCost mtx (i = 0) view enforceBIP0016 enforceSegWit) (\<lambda>sigOpCost.
     let totalSigOpCost' = s64 (totalSigOpCost + sigOpCost) in
     if totalSigOpCost' < totalSigOpCost \<or> totalSigOpCost' > MaxBlockSigOpsCost then Inl (RuleError ErrTooManySigOps)
     else Inr totalSigOpCost'))"

text \<open>One transaction: its fee is added to the total and the view is updated.\<close>

definition connectStep ::
  "consensus \<Rightarrow> int \<Rightarrow> UtxoViewpoint \<times> SpentTxOut list option \<times> int \<Rightarrow> MsgTx \<Rightarrow> (UtxoViewpoint \<times> SpentTxOut list option \<times> int) cres" where
  "connectStep cn height = (\<lambda>(view, stxos, totalFees) mtx.
     bindE (CheckTransactionInputs (cn_params cn) mtx height view) (\<lambda>txFee.
     let totalFees' = s64 (totalFees + txFee) in
     if totalFees' < totalFees then Inl (RuleError ErrBadFees)
     else bindE (connectTransaction (cn_sha cn) height (view, stxos) mtx) (\<lambda>(view', stxos').
          Inr (view', stxos', totalFees'))))"

definition checkCoinbaseValue :: "consensus \<Rightarrow> BlockNode \<Rightarrow> MsgTx \<Rightarrow> int \<Rightarrow> unit cres" where
  "checkCoinbaseValue cn node coinbase totalFees =
     (let totalSatoshiOut = sumOutputs coinbase;
          expectedSatoshiOut = s64 (CalcBlockSubsidy cn (nd_height node) (nd_version node) + totalFees)
      in if totalSatoshiOut > expectedSatoshiOut then Inl (RuleError ErrBadCoinbaseValue)
         else if atHardFork cn (nd_height node) then checkHardforkCoinbase cn coinbase
         else Inr ())"

definition LatestCheckpoint :: "Checkpoint list \<Rightarrow> Checkpoint option" where
  "LatestCheckpoint checkpoints = (if length checkpoints = 0 then None else Some (last checkpoints))"

definition checkSequenceLock :: "consensus \<Rightarrow> BlockNode \<Rightarrow> UtxoViewpoint \<Rightarrow> int \<Rightarrow> MsgTx \<Rightarrow> unit chained" where
  "checkSequenceLock cn node view medianTime mtx = (\<lambda>ch.
     let (r, caches) = calcSequenceLock (cn_params cn) node mtx view False (ch_deployment ch)
     in (bindE r (\<lambda>sequenceLock.
         failIf (\<not> SequenceLockActive sequenceLock (nd_height node) medianTime) (RuleError ErrUnfinalizedTx)),
         ch\<lparr>ch_deployment := caches\<rparr>))"

definition checkScripts :: "consensus \<Rightarrow> Block \<Rightarrow> UtxoViewpoint \<Rightarrow> ScriptFlags \<Rightarrow> unit chained" where
  "checkScripts cn blk view scriptFlags = (\<lambda>ch.
     let (r, sc, hc) = checkBlockScripts (cn_crypto cn) blk view scriptFlags (ch_sigCache ch) (ch_hashCache ch)
     in (r, ch\<lparr>ch_sigCache := sc, ch_hashCache := hc\<rparr>))"

definition baseScriptFlags :: "consensus \<Rightarrow> BlockNode \<Rightarrow> Block \<Rightarrow> bool \<Rightarrow> ScriptFlags" where
  "baseScriptFlags cn node blk enforceBIP0016 =
     (if enforceBIP0016 then ScriptBip16 else 0)
     OR (if sint (bh_Version (Header blk)) \<ge> 3 \<and> nd_height node \<ge> BIP0066Height (cn_params cn) then ScriptVerifyDERSignatures else 0)
     OR (if sint (bh_Version (Header blk)) \<ge> 4 \<and> nd_height node \<ge> BIP0065Height (cn_params cn) then ScriptVerifyCheckLockTimeVerify else 0)"

text \<open>The part of \<open>checkConnectBlock\<close> that builds the view, up to the checks of the coinbase.\<close>

definition connectView ::
  "consensus \<Rightarrow> BlockNode \<Rightarrow> Block \<Rightarrow> SpentTxOut list option \<Rightarrow> bool \<Rightarrow> bool \<Rightarrow> UtxoViewpoint
     \<Rightarrow> (UtxoViewpoint \<times> SpentTxOut list option) cres" where
  "connectView cn node blk stxos enforceBIP0016 enforceSegWit view =
     bindE (foldE (addSigOpCost view enforceBIP0016 enforceSegWit) 0 (enumerate 0 (Transactions blk))) (\<lambda>_.
     bindE (foldE (connectStep cn (nd_height node)) (view, stxos, 0) (Transactions blk)) (\<lambda>(view', stxos', totalFees).
     bindE (checkCoinbaseValue cn node (hd (Transactions blk)) totalFees) (\<lambda>_. Inr (view', stxos'))))"

definition checkConnectBlock ::
  "consensus \<Rightarrow> DB \<Rightarrow> BlockNode \<Rightarrow> Block \<Rightarrow> UtxoViewpoint \<times> SpentTxOut list option
     \<Rightarrow> (UtxoViewpoint \<times> SpentTxOut list option) chained" where
  "checkConnectBlock cn db node blk = (\<lambda>(view, stxos).
     if nd_hash node = GenesisHash (cn_params cn) then liftC (Inl (RuleError ErrMissingTxOut))
     else if vw_bestHash view \<noteq> bh_PrevBlock (Header blk) then liftC (Inl AssertError)
     else
       bindC (liftC (if \<not> isBIP0030Node node \<and> nd_height node < BIP0034Height (cn_params cn)
                     then checkBIP0030 cn db blk view else Inr view)) (\<lambda>view1.
       bindC (liftC (fetchInputUtxos (cn_sha cn) (cn_parse cn) db blk view1)) (\<lambda>view2.
       let enforceBIP0016 = (nd_timestamp node \<ge> Bip16Activation) in
       bindC (deploymentStateC cn (nd_parent node) DeploymentSegwit) (\<lambda>segwitState.
       let enforceSegWit = (segwitState = ThresholdActive) in
       bindC (liftC (connectView cn node blk stxos enforceBIP0016 enforceSegWit view2)) (\<lambda>(view3, stxos3).
       let checkpoint = LatestCheckpoint (cn_checkpoints cn);
           runScripts = (case checkpoint of Some c \<Rightarrow> \<not> nd_height node \<le> cp_Height c | None \<Rightarrow> True) in
       bindC (deploymentStateC cn (nd_parent node) DeploymentCSV) (\<lambda>csvState.
       bindC (if csvState = ThresholdActive
              then (case nd_parent node of
                      None \<Rightarrow> liftC (Inl GoPanic)
                    | Some parent \<Rightarrow>
                        foldC (checkSequenceLock cn node view3 (CalcPastMedianTime parent)) (Transactions blk))
              else liftC (Inr ())) (\<lambda>_.
       let scriptFlags = baseScriptFlags cn node blk enforceBIP0016
             OR (if csvState = ThresholdActive then ScriptVerifyCheckSequenceVerify else 0)
             OR (if enforceSegWit then ScriptVerifyWitness OR ScriptStrictMultiSig else 0) in
       bindC (if runScripts then checkScripts cn blk view3 scriptFlags else liftC (Inr ())) (\<lambda>_.
       liftC (Inr (SetBestHash (nd_hash node) view3, stxos3))))))))))"

end
