(* ===== verification/ChainSupply.thy ===== *)
theory ChainSupply
  imports ChainBlockRules
begin

text \<open>
  The supply of coins. The state of the chain is what the database holds, overlaid by the entries of a view; its supply is the sum of the
  amounts of its coins. A block that passes \<open>checkBlockSanity\<close> and \<open>checkConnectBlock\<close> adds at most the subsidy, if its transactions are in order or the view knows
  none of its outputs. Otherwise it can add more: see \<open>bip30_double_spend\<close>.
\<close>

section \<open>The state of the chain\<close>

definition coinsOf :: "UtxoEntry option \<Rightarrow> coin option" where
  "coinsOf entry = (case entry of Some e \<Rightarrow> if ue_IsSpent e then None else Some (coin_of e) | None \<Rightarrow> None)"

definition dbCoins :: "(bytes \<Rightarrow> PublicKey option) \<Rightarrow> DB \<Rightarrow> OutPoint \<rightharpoonup> coin" where
  "dbCoins parse db op = (case dbFetchUtxoEntry parse db op of Inr entry \<Rightarrow> coinsOf entry | Inl _ \<Rightarrow> None)"

definition overlay :: "(OutPoint \<rightharpoonup> coin) \<Rightarrow> UtxoViewpoint \<Rightarrow> OutPoint \<rightharpoonup> coin" where
  "overlay base view op = (case map_of (vw_entries view) op of Some entry \<Rightarrow> coinsOf entry | None \<Rightarrow> base op)"

definition chainCoins :: "(bytes \<Rightarrow> PublicKey option) \<Rightarrow> DB \<Rightarrow> UtxoViewpoint \<Rightarrow> OutPoint \<rightharpoonup> coin" where
  "chainCoins parse db view = overlay (dbCoins parse db) view"

definition coinSupply :: "(OutPoint \<rightharpoonup> coin) \<Rightarrow> int" where
  "coinSupply m = (\<Sum>op \<in> dom m. coinValue (m op))"

definition nonneg_coins :: "(OutPoint \<rightharpoonup> coin) \<Rightarrow> bool" where
  "nonneg_coins m \<longleftrightarrow> (\<forall>op. 0 \<le> coinValue (m op))"

lemma overlay_setEntry: "overlay base (setEntry op e view) = (overlay base view)(op := coinsOf e)"
  by (auto simp: overlay_def setEntry_def update_conv' fun_eq_iff)

lemma overlay_SetBestHash [simp]: "overlay base (SetBestHash h view) = overlay base view"
  by (simp add: overlay_def SetBestHash_def fun_eq_iff)

lemma utxos_overlay: "utxos view op = Some c \<Longrightarrow> overlay base view op = Some c"
  by (auto simp: utxos_def overlay_def LookupEntry_def coinsOf_def split: option.splits if_splits)

lemma inView_setEntry [simp]: "inView (setEntry op e view) op' \<longleftrightarrow> op' = op \<or> inView view op'"
  by (auto simp: inView_def setEntry_def update_conv')

lemma overlay_spendInputs:
  assumes "foldE spendInput (view, stxos) ins = Inr (view', stxos')"
  shows "overlay base view' = dropAll (map PreviousOutPoint ins) (overlay base view)"
  using assms
proof (induction ins arbitrary: view stxos)
  case Nil
  then show ?case by (simp add: dropAll_def)
next
  case (Cons ti ins)
  from Cons.prems obtain e where e: "LookupEntry view (PreviousOutPoint ti) = Some e"
    by (auto simp: spendInput_def split: option.splits)
  with Cons.prems Cons.IH have
    "overlay base view' = dropAll (map PreviousOutPoint ins) (overlay base (setEntry (PreviousOutPoint ti) (Some (ue_Spend e)) view))"
    by (simp add: spendInput_def)
  then show ?case by (auto simp: overlay_setEntry dropAll_def fun_eq_iff coinsOf_def)
qed

lemma overlay_AddTxOuts: "overlay base (AddTxOuts sha mtx h view) = putAll (created sha h mtx) (overlay base view)"
proof -
  have "overlay base (addTxOut op to' cb h v) =
     (if IsUnspendable (PkScript to') then overlay base v else (overlay base v)(op \<mapsto> (Value to', PkScript to', h, cb)))" for op to' cb v
    by (auto simp: addTxOut_def overlay_setEntry coinsOf_def coin_of_def flag_bits bit_simps)
  then have "overlay base (fold (\<lambda>(i, to'). addTxOut (outPoint sha mtx i) to' (IsCoinBaseTx mtx) h) xs v) =
    fold (\<lambda>(k, v) m. m(k \<mapsto> v))
      (map (\<lambda>(i, to'). (outPoint sha mtx i, (Value to', PkScript to', h, IsCoinBaseTx mtx)))
       (filter (\<lambda>(i, to'). \<not> IsUnspendable (PkScript to')) xs)) (overlay base v)" for xs v
    by (induction xs arbitrary: v) auto
  then show ?thesis by (simp add: AddTxOuts_def putAll_def created_def)
qed

lemma overlay_connect:
  assumes "connectTransaction sha h (view, stxos) mtx = Inr (view', stxos')"
  shows "overlay base view' = connect_spec sha h mtx (overlay base view)"
  using assms overlay_spendInputs[of view stxos "tx_TxIn mtx"]
  by (auto simp: connectTransaction_def connect_spec_def inputs_def overlay_AddTxOuts dropAll_def bindE_eq_Inr split: if_splits prod.splits)

section \<open>Sums over coins\<close>

lemma nonneg_coinsD: "nonneg_coins m \<Longrightarrow> 0 \<le> coinValue (m op)"
  by (simp add: nonneg_coins_def)

lemma supply_split:
  assumes "finite (dom m)"
  shows "coinSupply m = coinValue (m op) + (\<Sum>x \<in> dom m - {op}. coinValue (m x))"
proof (cases "op \<in> dom m")
  case True
  then show ?thesis using assms by (simp add: coinSupply_def sum.remove)
next
  case False
  then have "m op = None" by auto
  with False show ?thesis by (simp add: coinSupply_def)
qed

lemma supply_update:
  assumes "finite (dom m)"
  shows "coinSupply (m(op := c)) = coinSupply m - coinValue (m op) + coinValue c"
proof -
  have "(\<Sum>x \<in> dom (m(op := c)) - {op}. coinValue ((m(op := c)) x)) = (\<Sum>x \<in> dom m - {op}. coinValue (m x))"
    by (rule sum.cong) auto
  with supply_split[OF assms, of op] supply_split[of "m(op := c)" op] assms show ?thesis by simp
qed

lemma supply_dropAll:
  assumes "finite (dom m)" and "distinct ops"
  shows "coinSupply (dropAll ops m) = coinSupply m - (\<Sum>op\<leftarrow>ops. coinValue (m op)) \<and> finite (dom (dropAll ops m))"
  using assms
proof (induction ops arbitrary: m)
  case Nil
  then show ?case by (simp add: dropAll_def)
next
  case (Cons op ops)
  define m' where "m' = m(op := None)"
  have "dropAll (op # ops) m = dropAll ops m'" by (auto simp: dropAll_def fun_eq_iff m'_def)
  moreover have "(\<Sum>x\<leftarrow>ops. coinValue (m' x)) = (\<Sum>x\<leftarrow>ops. coinValue (m x))"
    using Cons.prems(2) by (intro arg_cong[of _ _ sum_list] map_cong) (auto simp: m'_def)
  moreover have "coinSupply m' = coinSupply m - coinValue (m op)" "finite (dom m')"
    using Cons.prems supply_update[of m op None] by (simp_all add: m'_def)
  ultimately show ?case using Cons.IH[of m'] Cons.prems(2) by simp
qed

lemma supply_putAll:
  assumes "finite (dom m)" and "nonneg_coins m" and "list_all (\<lambda>(op, c). 0 \<le> coinValue (Some c)) cs"
  shows "coinSupply (putAll cs m) \<le> coinSupply m + (\<Sum>(op, c)\<leftarrow>cs. coinValue (Some c))
    \<and> finite (dom (putAll cs m)) \<and> nonneg_coins (putAll cs m)"
  using assms
proof (induction cs arbitrary: m)
  case (Cons x cs)
  obtain op c where x: "x = (op, c)" by (cases x)
  define m' where "m' = m(op \<mapsto> c)"
  have "finite (dom m')" "nonneg_coins m'" using Cons.prems x by (auto simp: nonneg_coins_def m'_def)
  moreover have "coinSupply m' \<le> coinSupply m + coinValue (Some c)"
    using supply_update[of m op "Some c"] Cons.prems(1,2) nonneg_coinsD[of m op] by (simp add: m'_def)
  ultimately show ?case using Cons.IH[of m'] Cons.prems(3) x by (simp flip: m'_def)
qed simp

lemma created_value:
  assumes "nonneg_outs (tx_TxOut mtx)"
  shows "(\<Sum>(op, c)\<leftarrow>created sha h mtx. coinValue (Some c)) \<le> outSum (tx_TxOut mtx)"
    and "list_all (\<lambda>(op, c). 0 \<le> coinValue (Some c)) (created sha h mtx)"
proof -
  let ?f = "\<lambda>(i, to'). (outPoint sha mtx i, (Value to', PkScript to', h, IsCoinBaseTx mtx))"
  let ?g = "\<lambda>(i, to'). \<not> IsUnspendable (PkScript to')"
  have "(\<Sum>(op, c)\<leftarrow>map ?f (filter ?g (enumerate k outs)). coinValue (Some c)) \<le> outSum outs
    \<and> list_all (\<lambda>(op, c). 0 \<le> coinValue (Some c)) (map ?f (filter ?g (enumerate k outs)))" if "nonneg_outs outs" for k outs
    using that
  proof (induction outs arbitrary: k)
    case (Cons o' outs)
    from Cons.prems have "0 \<le> sint (Value o')" "nonneg_outs outs" by simp_all
    with Cons.IH[of "Suc k"] show ?case by (auto intro: add_increasing)
  qed simp
  from this[OF assms, of 0] show "(\<Sum>(op, c)\<leftarrow>created sha h mtx. coinValue (Some c)) \<le> outSum (tx_TxOut mtx)"
    and "list_all (\<lambda>(op, c). 0 \<le> coinValue (Some c)) (created sha h mtx)" by (simp_all add: created_def)
qed

text \<open>Connecting a transaction adds its outputs and takes its inputs.\<close>

lemma supply_connect:
  assumes "finite (dom m)" and "nonneg_coins m" and "sane_tx mtx"
  shows "coinSupply (connect_spec sha h mtx m) \<le> coinSupply m - (\<Sum>op\<leftarrow>inputs mtx. coinValue (m op)) + outSum (tx_TxOut mtx)
    \<and> finite (dom (connect_spec sha h mtx m)) \<and> nonneg_coins (connect_spec sha h mtx m)"
proof -
  have "distinct (inputs mtx)" using assms(3) by (simp add: inputs_def sane_tx_def)
  from supply_dropAll[OF assms(1) this]
  have d: "coinSupply (dropAll (inputs mtx) m) = coinSupply m - (\<Sum>op\<leftarrow>inputs mtx. coinValue (m op))" "finite (dom (dropAll (inputs mtx) m))"
    by simp_all
  have n: "nonneg_coins (dropAll (inputs mtx) m)" using assms(2) by (simp add: nonneg_coins_def dropAll_def)
  have "nonneg_outs (tx_TxOut mtx)" using assms(3) by (simp add: sane_tx_def)
  note c = created_value[OF this, of sha h]
  from supply_putAll[OF d(2) n c(2)] d(1) c(1) show ?thesis by (simp add: connect_spec_def)
qed


section \<open>The loop over the transactions\<close>

text \<open>
  The view that the loop starts with is not the state of the chain: it already holds outputs of the block. The two states are related by the set of outputs on
  which they agree. It is enough that each transaction spends outputs of this set or of earlier transactions.
\<close>

definition createdOps :: "(bytes \<Rightarrow> bytes) \<Rightarrow> MsgTx \<Rightarrow> OutPoint set" where
  "createdOps sha mtx = fst ` set (created sha 0 mtx)"

fun justified :: "(bytes \<Rightarrow> bytes) \<Rightarrow> OutPoint set \<Rightarrow> MsgTx list \<Rightarrow> bool" where
  "justified sha A [] \<longleftrightarrow> True"
| "justified sha A (mtx # txs) \<longleftrightarrow> set (inputs mtx) \<subseteq> A \<and> justified sha (A \<union> createdOps sha mtx) txs"

definition agree :: "OutPoint set \<Rightarrow> (OutPoint \<rightharpoonup> coin) \<Rightarrow> (OutPoint \<rightharpoonup> coin) \<Rightarrow> bool" where
  "agree A m m' \<longleftrightarrow> (\<forall>op \<in> A. m op = m' op)"

lemma created_keys: "fst ` set (created sha h mtx) = createdOps sha mtx"
  by (force simp: createdOps_def created_def)

lemma agree_connect:
  assumes "agree A m m'"
  shows "agree (A \<union> createdOps sha mtx) (connect_spec sha h mtx m) (connect_spec sha h mtx m')"
proof -
  have "map_of (rev (created sha h mtx)) op \<noteq> None" if "op \<in> createdOps sha mtx" for op
    using that by (simp add: map_of_eq_None_iff created_keys del: not_None_eq)
  then show ?thesis using assms
    by (fastforce simp: agree_def connect_spec_def putAll_apply dropAll_def split: option.splits)
qed

lemma s64_wrap: "2 ^ 63 \<le> x \<Longrightarrow> x < 2 ^ 64 \<Longrightarrow> s64 x = x - 2 ^ 64"
  using mod_add_self2[of "x - 2 ^ 63" "2 ^ 64"] by (simp add: s64_def add.commute)

lemma connectStep_supply:
  assumes "connectStep cn h (view, stxos, F) mtx = Inr (view', stxos', F')" and "sane_tx mtx" and "\<not> IsCoinBaseTx mtx"
    and "agree A (overlay base view) m" and "set (inputs mtx) \<subseteq> A" and "finite (dom m)" and "nonneg_coins m" and "0 \<le> F" and "F < 2 ^ 63"
  shows "overlay base view' = connect_spec (cn_sha cn) h mtx (overlay base view)"
    and "coinSupply (connect_spec (cn_sha cn) h mtx m) + F' \<le> coinSupply m + F" and "0 \<le> F'" and "F' < 2 ^ 63"
proof -
  from assms(1) obtain fee where fee: "CheckTransactionInputs (cn_params cn) mtx h view = Inr fee"
    and F': "F' = s64 (F + fee)" "F \<le> F'" and c: "connectTransaction (cn_sha cn) h (view, stxos) mtx = Inr (view', stxos')"
    by (auto simp: connectStep_def bindE_eq_Inr Let_def split: if_splits)
  show "overlay base view' = connect_spec (cn_sha cn) h mtx (overlay base view)" by (rule overlay_connect[OF c])
  from fee have spent: "list_all (\<lambda>i. spendable (cn_params cn) h (utxos view (PreviousOutPoint i))) (tx_TxIn mtx)"
    and sums: "inSum (utxos view) (tx_TxIn mtx) = outSum (tx_TxOut mtx) + fee" "0 \<le> fee" "inSum (utxos view) (tx_TxIn mtx) \<le> MaxSatoshi"
    using assms(3) by (auto simp: inputs_fee[OF assms(2)])
  have "utxos view (PreviousOutPoint i) = m (PreviousOutPoint i)" if "i \<in> set (tx_TxIn mtx)" for i
  proof -
    from spent that obtain x where x: "utxos view (PreviousOutPoint i) = Some x" by (auto simp: list_all_iff spendable_def split: option.splits)
    moreover have "PreviousOutPoint i \<in> A" using that assms(3,5) by (auto simp: inputs_def)
    ultimately show ?thesis using utxos_overlay[OF x, of base] assms(4) by (simp add: agree_def)
  qed
  then have ins: "(\<Sum>op\<leftarrow>inputs mtx. coinValue (m op)) = inSum (utxos view) (tx_TxIn mtx)"
    using assms(3) by (simp add: inputs_def inSum_def comp_def cong: map_cong)
  have exact: "F' = F + fee"
  proof (rule ccontr)
    assume "F' \<noteq> F + fee"
    then have big: "2 ^ 63 \<le> F + fee" using F'(1) s64_id[of "F + fee"] sums(2) assms(8) by fastforce
    have "0 \<le> outSum (tx_TxOut mtx)" using assms(2) by (simp add: sane_tx_def outSum_nonneg)
    then have "F + fee < 2 ^ 64" using sums assms(9) by (simp add: MaxSatoshi_def)
    then have "s64 (F + fee) < 0" using big s64_wrap[of "F + fee"] by simp
    then show False using F' assms(8) by simp
  qed
  from F' exact s64_range[of "F + fee"] assms(8) show "0 \<le> F'" "F' < 2 ^ 63" by auto
  from supply_connect[OF assms(6,7,2), THEN conjunct1, of "cn_sha cn" h] ins sums(1) exact
  show "coinSupply (connect_spec (cn_sha cn) h mtx m) + F' \<le> coinSupply m + F" by linarith
qed

lemma connect_loop:
  assumes "foldE (connectStep cn h) (view, stxos, F) txs = Inr (view', stxos', F')" and "agree A (overlay base view) m"
    and "justified (cn_sha cn) A txs" and "finite (dom m)" and "nonneg_coins m"
    and "list_all sane_tx txs" and "list_all (\<lambda>mtx. \<not> IsCoinBaseTx mtx) txs" and "0 \<le> F" and "F < 2 ^ 63"
  shows "\<exists>m'. agree (A \<union> \<Union> (createdOps (cn_sha cn) ` set txs)) (overlay base view') m'
    \<and> coinSupply m' + F' \<le> coinSupply m + F \<and> nonneg_coins m' \<and> 0 \<le> F' \<and> F' < 2 ^ 63"
  using assms
proof (induction txs arbitrary: view stxos F A m)
  case (Cons mtx txs)
  from Cons.prems(1) obtain v s f where st: "connectStep cn h (view, stxos, F) mtx = Inr (v, s, f)"
    and rest: "foldE (connectStep cn h) (v, s, f) txs = Inr (view', stxos', F')"
    by (auto simp: bindE_eq_Inr)
  have 1: "sane_tx mtx" "\<not> IsCoinBaseTx mtx" "set (inputs mtx) \<subseteq> A" using Cons.prems by auto
  note step = connectStep_supply[OF st 1(1,2) Cons.prems(2) 1(3) Cons.prems(4,5,8,9)]
  let ?m = "connect_spec (cn_sha cn) h mtx m"
  have "agree (A \<union> createdOps (cn_sha cn) mtx) (overlay base v) ?m"
    unfolding step(1) by (rule agree_connect[OF Cons.prems(2)])
  moreover have "finite (dom ?m)" "nonneg_coins ?m" using supply_connect[OF Cons.prems(4,5) 1(1)] by auto
  ultimately obtain m' where "agree (A \<union> createdOps (cn_sha cn) mtx \<union> \<Union> (createdOps (cn_sha cn) ` set txs)) (overlay base view') m'"
    "coinSupply m' + F' \<le> coinSupply ?m + f" "nonneg_coins m'" "0 \<le> F'" "F' < 2 ^ 63"
    using Cons.IH[OF rest, of "A \<union> createdOps (cn_sha cn) mtx" ?m] step(3,4) Cons.prems(3,6,7) by auto
  then show ?case using step(2) by (intro exI[of _ m']) (auto simp: Un_assoc)
qed auto


section \<open>Loading the inputs\<close>

lemma finite_dbCoins: "finite (dom (dbCoins parse db))"
proof -
  let ?key = "\<lambda>op. outpointKey op"
  let ?K = "set (map fst (utxoSetBucket db))"
  let ?S = "\<Union>k \<in> ?K. (\<lambda>(n, i). \<lparr>op_Hash = take n k, op_Index = i\<rparr>) ` ({0..length k} \<times> (UNIV :: u32 set))"
  have "op \<in> ?S" if "dbCoins parse db op \<noteq> None" for op
  proof -
    from that have "?key op \<in> ?K"
      by (auto simp: dbCoins_def dbFetchUtxoEntry_def coinsOf_def split: option.splits sum.splits if_splits dest!: map_of_SomeD intro: rev_image_eqI)
    moreover have "op \<in> (\<lambda>(n, i). \<lparr>op_Hash = take n (?key op), op_Index = i\<rparr>) ` ({0..length (?key op)} \<times> UNIV)"
      by (rule image_eqI[of _ _ "(length (op_Hash op), op_Index op)"]) (simp_all add: outpointKey_def)
    ultimately show ?thesis by blast
  qed
  then have "dom (dbCoins parse db) \<subseteq> ?S" by (auto simp: domI)
  then show ?thesis by (rule finite_subset) auto
qed

lemma finite_overlay: "finite (dom base) \<Longrightarrow> finite (dom (overlay base view))"
proof -
  assume f: "finite (dom base)"
  have "dom (overlay base view) \<subseteq> dom base \<union> fst ` set (vw_entries view)"
    by (force simp: overlay_def split: option.splits dest: map_of_SomeD)
  then show ?thesis using f by (auto intro: finite_subset)
qed

lemma overlay_not_inView: "\<not> inView view op \<Longrightarrow> overlay base view op = base op"
  by (simp add: inView_def overlay_def)

lemma fetchUtxosMain_coins:
  assumes "fetchUtxosMain parse db ops view = Inr view'"
  shows "overlay (dbCoins parse db) view' op = (if op \<in> set ops then dbCoins parse db op else overlay (dbCoins parse db) view op)"
    and "inView view' op \<longleftrightarrow> op \<in> set ops \<or> inView view op"
proof -
  have "overlay (dbCoins parse db) view' op = (if op \<in> set ops then dbCoins parse db op else overlay (dbCoins parse db) view op)
    \<and> (inView view' op \<longleftrightarrow> op \<in> set ops \<or> inView view op)"
    using assms
  proof (induction ops arbitrary: view)
    case (Cons x ops)
    then obtain e where e: "dbFetchUtxoEntry parse db x = Inr e" "fetchUtxosMain parse db ops (setEntry x e view) = Inr view'"
      by (auto simp: fetchUtxosMain_def bindE_eq_Inr)
    then have "coinsOf e = dbCoins parse db x" by (simp add: dbCoins_def)
    with Cons.IH[OF e(2)] show ?case by (auto simp: overlay_setEntry)
  qed (simp add: fetchUtxosMain_def)
  then show "overlay (dbCoins parse db) view' op = (if op \<in> set ops then dbCoins parse db op else overlay (dbCoins parse db) view op)"
    and "inView view' op \<longleftrightarrow> op \<in> set ops \<or> inView view op" by blast+
qed

lemma checkBIP0030_coins:
  assumes "checkBIP0030 cn db blk view = Inr view'"
  shows "overlay (dbCoins (cn_parse cn) db) view' = overlay (dbCoins (cn_parse cn) db) view"
proof
  fix op
  from assms have "fetchUtxosMain (cn_parse cn) db (filter (\<lambda>op. \<not> inView view op) (blockOutpoints (cn_sha cn) blk)) view = Inr view'"
    by (auto simp: checkBIP0030_def fetchUtxos_def bindE_eq_Inr Let_def)
  from fetchUtxosMain_coins(1)[OF this, of op]
  show "overlay (dbCoins (cn_parse cn) db) view' op = overlay (dbCoins (cn_parse cn) db) view op" by (auto simp: overlay_not_inView)
qed

text \<open>What the collection of the inputs keeps: only outputs of the transactions of the block are added, and the outputs that are still needed are not in the view it
  started with.\<close>

definition blockOps :: "(bytes \<Rightarrow> bytes) \<Rightarrow> Block \<Rightarrow> OutPoint set" where
  "blockOps sha blk = \<Union> (createdOps sha ` set (Transactions blk))"

definition collects ::
  "(bytes \<Rightarrow> bytes) \<Rightarrow> (OutPoint \<rightharpoonup> coin) \<Rightarrow> Block \<Rightarrow> UtxoViewpoint \<Rightarrow> nat \<Rightarrow> UtxoViewpoint \<times> OutPoint list \<Rightarrow> bool" where
  "collects sha base blk view n = (\<lambda>(v, needed).
     agree (- blockOps sha blk) (overlay base v) (overlay base view)
     \<and> (\<forall>op. inView view op \<longrightarrow> inView v op)
     \<and> (\<forall>op. inView v op \<longrightarrow> inView view op \<or> (\<exists>j < n. op \<in> createdOps sha (Transactions blk ! j)))
     \<and> (\<forall>op \<in> set needed. \<not> inView view op))"

definition covered :: "(bytes \<Rightarrow> bytes) \<Rightarrow> Block \<Rightarrow> UtxoViewpoint \<Rightarrow> nat \<Rightarrow> OutPoint list \<Rightarrow> OutPoint \<Rightarrow> bool" where
  "covered sha blk view n needed op \<longleftrightarrow>
     op \<in> set needed \<or> op \<notin> blockOps sha blk \<or> inView view op \<or> (\<exists>j < n. op \<in> createdOps sha (Transactions blk ! j))"

lemma inView_AddTxOuts: "inView (AddTxOuts sha mtx h v) op \<longleftrightarrow> inView v op \<or> op \<in> createdOps sha mtx"
proof -
  have "inView (addTxOut k to' cb h v) op \<longleftrightarrow> inView v op \<or> \<not> IsUnspendable (PkScript to') \<and> op = k" for k to' cb v
    by (auto simp: addTxOut_def)
  then have "inView (fold (\<lambda>(i, to'). addTxOut (outPoint sha mtx i) to' (IsCoinBaseTx mtx) h) xs v) op \<longleftrightarrow>
    inView v op \<or> op \<in> (\<lambda>(i, to'). outPoint sha mtx i) ` set (filter (\<lambda>(i, to'). \<not> IsUnspendable (PkScript to')) xs)" for xs v
    by (induction xs arbitrary: v) auto
  then show ?thesis by (force simp: AddTxOuts_def createdOps_def created_def)
qed

lemma createdOps_hash: "op \<in> createdOps sha mtx \<Longrightarrow> op_Hash op = TxHash sha mtx"
  by (auto simp: createdOps_def created_def outPoint_def)

lemma txInFlight_Some:
  assumes "txInFlight sha txs hash = Some i"
  shows "i < length txs" "TxHash sha (txs ! i) = hash"
proof -
  from assms have "(hash, i) \<in> set (map (\<lambda>(i, mtx). (TxHash sha mtx, i)) (enumerate 0 txs))"
    by (auto simp: txInFlight_def dest!: map_of_SomeD)
  then show "i < length txs" "TxHash sha (txs ! i) = hash" by (auto simp: in_set_enumerate_eq)
qed

lemma putAll_outside: "op \<notin> createdOps sha mtx \<Longrightarrow> putAll (created sha h mtx) m op = m op"
  by (force simp: putAll_apply split: option.splits dest!: map_of_SomeD simp flip: created_keys[of sha h])

lemma collectInput_step:
  assumes "collects sha base blk view n st" and "i < n" and "n \<le> length (Transactions blk)"
    and "distinct (map (TxHash sha) (Transactions blk))"
  shows "collects sha base blk view n (collectInput sha blk i txIn st)
    \<and> set (snd st) \<subseteq> set (snd (collectInput sha blk i txIn st))
    \<and> covered sha blk view n (snd (collectInput sha blk i txIn st)) (PreviousOutPoint txIn)"
proof -
  obtain v needed where st: "st = (v, needed)" by (cases st)
  let ?op = "PreviousOutPoint txIn"
  show ?thesis
  proof (cases "\<exists>k. txInFlight sha (Transactions blk) (op_Hash ?op) = Some k \<and> i \<ge> k")
    case True
    then obtain k where k: "txInFlight sha (Transactions blk) (op_Hash ?op) = Some k" "k \<le> i" by blast
    let ?mtx = "Transactions blk ! k"
    note f = txInFlight_Some[OF k(1)]
    let ?v = "AddTxOuts sha ?mtx (blockHeightOf blk) v"
    have c: "collectInput sha blk i txIn st = (?v, needed)" using k by (simp add: st collectInput_def)
    have sub: "createdOps sha ?mtx \<subseteq> blockOps sha blk" using nth_mem[OF f(1)] by (auto simp: blockOps_def)
    have "agree (- blockOps sha blk) (overlay base ?v) (overlay base view)"
      using assms(1) putAll_outside[OF contra_subsetD[OF sub]] by (simp add: st collects_def agree_def overlay_AddTxOuts)
    then have "collects sha base blk view n (?v, needed)"
      using assms(1,2) k(2) by (auto simp: st collects_def inView_AddTxOuts)
    moreover have "?op \<in> createdOps sha ?mtx" if op: "?op \<in> blockOps sha blk"
    proof -
      from op obtain j where j: "j < length (Transactions blk)" "?op \<in> createdOps sha (Transactions blk ! j)"
        by (auto simp: blockOps_def in_set_conv_nth)
      then have "TxHash sha (Transactions blk ! j) = TxHash sha ?mtx" using createdOps_hash[OF j(2)] f(2) by simp
      then have "j = k" using nth_eq_iff_index_eq[OF assms(4), of j k] j(1) f(1) by simp
      then show ?thesis using j(2) by simp
    qed
    ultimately show ?thesis using c st k(2) assms(2) by (auto simp: covered_def)
  next
    case False
    then have c: "collectInput sha blk i txIn st = (if inView v ?op then (v, needed) else (v, List.insert ?op needed))"
      by (auto simp: st collectInput_def Let_def split: option.split)
    show ?thesis
    proof (cases "inView v ?op")
      case True
      with assms(1) c st show ?thesis by (auto simp: collects_def covered_def)
    next
      case False
      with assms(1) c st show ?thesis by (auto simp: collects_def covered_def)
    qed
  qed
qed


lemma covered_mono: "covered sha blk view n needed op \<Longrightarrow> set needed \<subseteq> set needed' \<Longrightarrow> n \<le> n' \<Longrightarrow> covered sha blk view n' needed' op"
  unfolding covered_def by (meson order_less_le_trans subsetD)

lemma collects_mono: "collects sha base blk view n st \<Longrightarrow> n \<le> n' \<Longrightarrow> collects sha base blk view n' st"
  by (cases st) (fastforce simp: collects_def)

lemma collectInputs_step:
  assumes "collects sha base blk view n st" and "i < n" and "n \<le> length (Transactions blk)"
    and "distinct (map (TxHash sha) (Transactions blk))"
  shows "collects sha base blk view n (fold (collectInput sha blk i) ins st)
    \<and> set (snd st) \<subseteq> set (snd (fold (collectInput sha blk i) ins st))
    \<and> list_all (\<lambda>txIn. covered sha blk view n (snd (fold (collectInput sha blk i) ins st)) (PreviousOutPoint txIn)) ins"
  using assms(1)
proof (induction ins arbitrary: st)
  case (Cons txIn ins)
  note one = collectInput_step[OF Cons.prems assms(2-4), of txIn]
  note rest = Cons.IH[OF one[THEN conjunct1]]
  show ?case using one rest covered_mono[of sha blk view n _ "PreviousOutPoint txIn" _ n] by auto
qed simp

lemma collectAll_step:
  assumes "collects sha base blk view n st" and "n + length txs \<le> length (Transactions blk)"
    and "distinct (map (TxHash sha) (Transactions blk))"
  shows "let st' = fold (\<lambda>(i, mtx). fold (collectInput sha blk i) (tx_TxIn mtx)) (enumerate n txs) st in
    collects sha base blk view (n + length txs) st' \<and> set (snd st) \<subseteq> set (snd st')
    \<and> (\<forall>k < length txs. \<forall>txIn \<in> set (tx_TxIn (txs ! k)). covered sha blk view (Suc (n + k)) (snd st') (PreviousOutPoint txIn))"
  using assms(1,2)
proof (induction txs arbitrary: n st)
  case (Cons mtx txs)
  let ?st = "fold (collectInput sha blk n) (tx_TxIn mtx) st"
  let ?st' = "fold (\<lambda>(i, mtx). fold (collectInput sha blk i) (tx_TxIn mtx)) (enumerate (Suc n) txs) ?st"
  have "collects sha base blk view (Suc n) st" using Cons.prems(1) by (rule collects_mono) simp
  from collectInputs_step[OF this _ _ assms(3), of n "tx_TxIn mtx"] Cons.prems(2)
  have one: "collects sha base blk view (Suc n) ?st" "set (snd st) \<subseteq> set (snd ?st)"
    "list_all (\<lambda>txIn. covered sha blk view (Suc n) (snd ?st) (PreviousOutPoint txIn)) (tx_TxIn mtx)" by auto
  from Cons.IH[OF one(1)] Cons.prems(2)
  have rest: "collects sha base blk view (Suc n + length txs) ?st'" "set (snd ?st) \<subseteq> set (snd ?st')"
    "\<And>k txIn. k < length txs \<Longrightarrow> txIn \<in> set (tx_TxIn (txs ! k)) \<Longrightarrow> covered sha blk view (Suc (Suc n + k)) (snd ?st') (PreviousOutPoint txIn)"
    by (auto simp: Let_def)
  have "covered sha blk view (Suc (n + k)) (snd ?st') (PreviousOutPoint txIn)"
    if "k < length (mtx # txs)" "txIn \<in> set (tx_TxIn ((mtx # txs) ! k))" for k txIn
  proof (cases k)
    case 0
    then show ?thesis using that one(3) covered_mono[OF _ rest(2), of sha blk view "Suc n" "PreviousOutPoint txIn" "Suc n"] by (simp add: list_all_iff)
  next
    case (Suc k')
    then show ?thesis using that rest(3)[of k' txIn] by simp
  qed
  then show ?case using rest(1,2) one(2) by (auto simp: Let_def)
qed simp

text \<open>After the inputs are loaded, the view agrees with the state of the chain on all outputs but those of the block, and if it had none of those before, on
  every input that is not the output of an earlier transaction.\<close>

lemma fetchInputUtxos_coins:
  assumes "fetchInputUtxos sha parse db blk view = Inr view'" and "distinct (map (TxHash sha) (Transactions blk))"
  defines "base \<equiv> dbCoins parse db"
  shows "agree (- blockOps sha blk) (overlay base view') (overlay base view)"
    and "0 < k \<Longrightarrow> k < length (Transactions blk) \<Longrightarrow> txIn \<in> set (tx_TxIn (Transactions blk ! k)) \<Longrightarrow>
      (\<And>op. op \<in> blockOps sha blk \<Longrightarrow> \<not> inView view op) \<Longrightarrow>
      overlay base view' (PreviousOutPoint txIn) = overlay base view (PreviousOutPoint txIn)
      \<or> (\<exists>j < k. PreviousOutPoint txIn \<in> createdOps sha (Transactions blk ! j))"
proof -
  let ?st = "fold (\<lambda>(i, mtx). fold (collectInput sha blk i) (tx_TxIn mtx)) (enumerate 0 (drop 1 (Transactions blk))) (view, [])"
  obtain v needed where st: "?st = (v, needed)" by (cases ?st)
  have ne: "Transactions blk \<noteq> []" using assms(1) by (auto simp: fetchInputUtxos_def)
  have f: "fetchUtxosMain parse db needed v = Inr view'"
    using assms(1) ne st by (simp add: fetchInputUtxos_def case_prod_unfold)
  have "collects sha base blk view 0 (view, [])" by (simp add: collects_def agree_def)
  from collectAll_step[OF this _ assms(2), of "drop 1 (Transactions blk)"] st
  have c: "collects sha base blk view (length (Transactions blk) - 1) (v, needed)"
    and cov: "\<And>k txIn. k < length (Transactions blk) - 1 \<Longrightarrow> txIn \<in> set (tx_TxIn (drop 1 (Transactions blk) ! k)) \<Longrightarrow>
      covered sha blk view (Suc k) needed (PreviousOutPoint txIn)" by (auto simp: Let_def)
  have needed: "overlay base view' op = overlay base view op" if "op \<in> set needed" for op
  proof -
    have "\<not> inView view op" using c that by (simp add: collects_def)
    then show ?thesis using fetchUtxosMain_coins(1)[OF f, of op] that by (simp add: base_def overlay_not_inView)
  qed
  show agr: "agree (- blockOps sha blk) (overlay base view') (overlay base view)"
    using c needed fetchUtxosMain_coins(1)[OF f] by (auto simp: agree_def collects_def base_def)
  show "overlay base view' (PreviousOutPoint txIn) = overlay base view (PreviousOutPoint txIn)
      \<or> (\<exists>j < k. PreviousOutPoint txIn \<in> createdOps sha (Transactions blk ! j))"
    if "0 < k" "k < length (Transactions blk)" "txIn \<in> set (tx_TxIn (Transactions blk ! k))"
      "\<And>op. op \<in> blockOps sha blk \<Longrightarrow> \<not> inView view op"
  proof -
    have "covered sha blk view k needed (PreviousOutPoint txIn)" using cov[of "k - 1" txIn] that(1-3) by simp
    then show ?thesis using agr needed that(4) by (auto simp: covered_def agree_def)
  qed
qed


section \<open>What the checks establish\<close>

lemma checkDuplicateTx_distinct:
  "foldE (checkDuplicateTx sha) seen txs = Inr r \<Longrightarrow> distinct (map (TxHash sha) txs) \<and> set (map (TxHash sha) txs) \<inter> set seen = {}"
proof (induction txs arbitrary: seen)
  case (Cons mtx txs)
  from Cons.prems obtain t where t: "checkDuplicateTx sha seen mtx = Inr t" "foldE (checkDuplicateTx sha) t txs = Inr r"
    by (auto simp: bindE_eq_Inr)
  from t(1) have "TxHash sha mtx \<notin> set seen" "t = TxHash sha mtx # seen" by (auto simp: checkDuplicateTx_def Let_def split: if_splits)
  with Cons.IH[OF t(2)] show ?case by auto
qed simp

lemma all_sane: "foldE (\<lambda>_ mtx. CheckTransactionSanity mtx) () txs = Inr r \<Longrightarrow> list_all sane_tx txs"
  by (induction txs) (auto simp: bindE_eq_Inr sanity_sane)

lemma checkBlockSanity_parts:
  assumes "checkBlockSanity cn blk powLimit now bflags d height = Inr ()"
  obtains coinbase txs where "Transactions blk = coinbase # txs" "IsCoinBaseTx coinbase" "list_all (\<lambda>mtx. \<not> IsCoinBaseTx mtx) txs"
    "list_all sane_tx (coinbase # txs)" "distinct (map (TxHash (cn_sha cn)) (coinbase # txs))"
proof (cases "Transactions blk")
  case Nil
  then show ?thesis using assms by (auto simp: checkBlockSanity_def bindE_eq_Inr)
next
  case (Cons coinbase txs)
  from assms obtain r r' where "IsCoinBaseTx coinbase" "\<not> list_ex IsCoinBaseTx txs"
    "foldE (\<lambda>_ mtx. CheckTransactionSanity mtx) () (coinbase # txs) = Inr r" "foldE (checkDuplicateTx (cn_sha cn)) [] (coinbase # txs) = Inr r'"
    by (auto simp: checkBlockSanity_def bindE_eq_Inr Let_def Cons simp del: foldE.simps)
  with Cons show ?thesis
    using that[OF Cons] all_sane checkDuplicateTx_distinct[of "cn_sha cn" "[]" "coinbase # txs"]
    by (auto simp: list_ex_iff list_all_iff simp del: foldE.simps)
qed

lemma bindC_eq_Inr: "bindC m f ch = (Inr y, ch') \<longleftrightarrow> (\<exists>x ch1. m ch = (Inr x, ch1) \<and> f x ch1 = (Inr y, ch'))"
  by (auto simp: bindC_def split: prod.splits sum.splits)

definition runsBIP0030 :: "consensus \<Rightarrow> BlockNode \<Rightarrow> bool" where
  "runsBIP0030 cn node \<longleftrightarrow> \<not> isBIP0030Node node \<and> nd_height node < BIP0034Height (cn_params cn)"

lemma checkConnectBlock_parts:
  assumes "checkConnectBlock cn db node blk (view, stxos) ch = (Inr (view', stxos'), ch')"
  obtains view1 view2 view3 a b where "(if runsBIP0030 cn node then checkBIP0030 cn db blk view else Inr view) = Inr view1"
    "fetchInputUtxos (cn_sha cn) (cn_parse cn) db blk view1 = Inr view2"
    "connectView cn node blk stxos a b view2 = Inr (view3, stxos')" "view' = SetBestHash (nd_hash node) view3"
proof -
  have "nd_hash node \<noteq> GenesisHash (cn_params cn)" "vw_bestHash view = bh_PrevBlock (Header blk)"
    using assms by (auto simp: checkConnectBlock_def liftC_def split: if_splits)
  with assms show ?thesis
    by (clarsimp simp: checkConnectBlock_def bindC_eq_Inr liftC_def Let_def split_def runsBIP0030_def[symmetric] simp del: if_split_asm)
      (rule that; simp split: if_split_asm)
qed

lemma CalcBlockSubsidy_range: "- (2 ^ 63) \<le> CalcBlockSubsidy cn height version \<and> CalcBlockSubsidy cn height version < 2 ^ 63"
proof -
  have d: "- (2 ^ 63) \<le> drop_bit n baseSubsidy" "drop_bit n baseSubsidy < 2 ^ 63" for n
  proof -
    have b: "0 \<le> baseSubsidy" "baseSubsidy < 2 ^ 63" by (simp_all add: baseSubsidy_def SatoshiPerBitcoin_def)
    then have "baseSubsidy div 2 ^ n \<le> baseSubsidy" using zdiv_mono2[of baseSubsidy 1 "2 ^ n"] by simp
    moreover have "0 \<le> baseSubsidy div 2 ^ n" using b by (simp add: pos_imp_zdiv_nonneg_iff)
    ultimately show "- (2 ^ 63) \<le> drop_bit n baseSubsidy" "drop_bit n baseSubsidy < 2 ^ 63"
      using b unfolding drop_bit_eq_div by linarith+
  qed
  have "CalcBlockSubsidy cn height version \<in> {- (2 ^ 63)..<2 ^ 63}"
    by (subst CalcBlockSubsidy.simps) (auto simp: Let_def s64_range[simplified] d[simplified] d[of 0, simplified])
  then show ?thesis by simp
qed

lemma s64_le: "- (2 ^ 63) \<le> x \<Longrightarrow> x < 2 ^ 64 \<Longrightarrow> s64 x \<le> x"
  using s64_wrap[of x] s64_id[of x] by (cases "x < 2 ^ 63") auto

text \<open>The common part of the two theorems.\<close>

lemma connectView_supply:
  assumes "connectView cn node blk stxos a b view = Inr (view', stxos')"
    and "Transactions blk = coinbase # txs" "IsCoinBaseTx coinbase" "list_all (\<lambda>mtx. \<not> IsCoinBaseTx mtx) txs" "list_all sane_tx (coinbase # txs)"
    and "agree A (overlay base view) m" and "- blockOps (cn_sha cn) blk \<subseteq> A" and "justified (cn_sha cn) A (coinbase # txs)"
    and "finite (dom m)" and "nonneg_coins m"
  shows "coinSupply (overlay base view') \<le> coinSupply m + CalcBlockSubsidy cn (nd_height node) (nd_version node) \<and> nonneg_coins (overlay base view')"
proof -
  let ?h = "nd_height node" and ?sha = "cn_sha cn"
  from assms(1,2) obtain F where loop: "foldE (connectStep cn ?h) (view, stxos, 0) (coinbase # txs) = Inr (view', stxos', F)"
    and cb: "sumOutputs coinbase \<le> s64 (CalcBlockSubsidy cn ?h (nd_version node) + F)"
    by (auto simp: connectView_def bindE_eq_Inr checkCoinbaseValue_def Let_def simp del: foldE.simps split: if_splits)
  from loop assms(3) obtain v s where v: "connectTransaction ?sha ?h (view, stxos) coinbase = Inr (v, s)"
    and rest: "foldE (connectStep cn ?h) (v, s, 0) txs = Inr (view', stxos', F)"
    by (auto simp: bindE_eq_Inr connectStep_def CheckTransactionInputs_def s64_def Let_def)
  let ?m = "connect_spec ?sha ?h coinbase m"
  have sane: "sane_tx coinbase" using assms(5) by simp
  have m: "coinSupply ?m \<le> coinSupply m + outSum (tx_TxOut coinbase)" "finite (dom ?m)" "nonneg_coins ?m"
    using supply_connect[OF assms(9,10) sane, of ?sha ?h] assms(3) by (simp_all add: inputs_def)
  have "agree (A \<union> createdOps ?sha coinbase) (overlay base v) ?m"
    unfolding overlay_connect[OF v] by (rule agree_connect[OF assms(6)])
  from connect_loop[OF rest this _ m(2,3)] assms(4,5,8) obtain m' where
    m': "agree (A \<union> createdOps ?sha coinbase \<union> \<Union> (createdOps ?sha ` set txs)) (overlay base view') m'"
    "coinSupply m' + F \<le> coinSupply ?m" "nonneg_coins m'" "0 \<le> F" "F < 2 ^ 63" by auto
  have "A \<union> createdOps ?sha coinbase \<union> \<Union> (createdOps ?sha ` set txs) = UNIV"
    using assms(7) by (auto simp: blockOps_def assms(2))
  with m'(1) have eq: "overlay base view' = m'" by (auto simp: agree_def)
  have "outSum (tx_TxOut coinbase) \<le> CalcBlockSubsidy cn ?h (nd_version node) + F"
  proof -
    have "s64 (CalcBlockSubsidy cn ?h (nd_version node) + F) \<le> CalcBlockSubsidy cn ?h (nd_version node) + F"
      using CalcBlockSubsidy_range[of cn ?h "nd_version node"] m'(4,5) by (intro s64_le) auto
    then show ?thesis using cb sumOutputs_sane[OF sane] by linarith
  qed
  with m'(2,3) m(1) eq show ?thesis by simp
qed

section \<open>No inflation\<close>

text \<open>No transaction spends an output of itself or of a later transaction.\<close>

fun in_order :: "(bytes \<Rightarrow> bytes) \<Rightarrow> MsgTx list \<Rightarrow> bool" where
  "in_order sha [] \<longleftrightarrow> True"
| "in_order sha (mtx # txs) \<longleftrightarrow>
     list_all (\<lambda>op. list_all (\<lambda>t. op \<notin> set (map fst (created sha 0 t))) (mtx # txs)) (inputs mtx) \<and> in_order sha txs"

lemma in_order_justified:
  "in_order sha txs \<Longrightarrow> - \<Union> (createdOps sha ` set txs) \<subseteq> A \<Longrightarrow> justified sha A txs"
proof (induction txs arbitrary: A)
  case (Cons mtx txs)
  have "op \<notin> createdOps sha t" if "op \<in> set (inputs mtx)" "t \<in> set (mtx # txs)" for op t
    using Cons.prems(1) that by (simp add: list_all_iff createdOps_def) blast
  then have "op \<in> A" if "op \<in> set (inputs mtx)" for op using Cons.prems(2) that by blast
  then have "set (inputs mtx) \<subseteq> A" by blast
  moreover have "justified sha (A \<union> createdOps sha mtx) txs" using Cons by (intro Cons.IH) auto
  ultimately show ?case by simp
qed simp

lemma justified_positions:
  assumes "\<And>k op. k < length txs \<Longrightarrow> op \<in> set (inputs (txs ! k)) \<Longrightarrow> op \<in> A \<or> (\<exists>j < k. op \<in> createdOps sha (txs ! j))"
  shows "justified sha A txs"
  using assms
proof (induction txs arbitrary: A)
  case (Cons mtx txs)
  have "set (inputs mtx) \<subseteq> A" using Cons.prems[of 0] by auto
  moreover have "justified sha (A \<union> createdOps sha mtx) txs"
  proof (rule Cons.IH)
    fix k op
    assume k: "k < length txs" "op \<in> set (inputs (txs ! k))"
    with Cons.prems[of "Suc k" op] consider "op \<in> A" | j where "j < Suc k" "op \<in> createdOps sha ((mtx # txs) ! j)" by auto
    then show "op \<in> A \<union> createdOps sha mtx \<or> (\<exists>j < k. op \<in> createdOps sha (txs ! j))"
    proof cases
      case (2 j)
      then show ?thesis by (cases j) auto
    qed simp
  qed
  ultimately show ?case by simp
qed simp

lemma block_supply:
  assumes "checkBlockSanity cn blk powLimit now bflags d height = Inr ()"
    and "checkConnectBlock cn db node blk (view, stxos) ch = (Inr (view', stxos'), ch')"
    and "nonneg_coins (chainCoins (cn_parse cn) db view)"
    and "in_order (cn_sha cn) (Transactions blk)
      \<or> \<not> runsBIP0030 cn node \<and> (\<forall>op \<in> blockOps (cn_sha cn) blk. \<not> inView view op)"
  shows "coinSupply (chainCoins (cn_parse cn) db view')
      \<le> coinSupply (chainCoins (cn_parse cn) db view) + CalcBlockSubsidy cn (nd_height node) (nd_version node)
    \<and> nonneg_coins (chainCoins (cn_parse cn) db view')"
proof -
  let ?sha = "cn_sha cn" and ?base = "dbCoins (cn_parse cn) db"
  obtain coinbase txs where b: "Transactions blk = coinbase # txs" "IsCoinBaseTx coinbase" "list_all (\<lambda>mtx. \<not> IsCoinBaseTx mtx) txs"
    "list_all sane_tx (coinbase # txs)" "distinct (map (TxHash ?sha) (coinbase # txs))"
    by (rule checkBlockSanity_parts[OF assms(1)])
  obtain view1 view2 view3 x y where v: "(if runsBIP0030 cn node then checkBIP0030 cn db blk view else Inr view) = Inr view1"
    "fetchInputUtxos ?sha (cn_parse cn) db blk view1 = Inr view2"
    "connectView cn node blk stxos x y view2 = Inr (view3, stxos')" "view' = SetBestHash (nd_hash node) view3"
    by (rule checkConnectBlock_parts[OF assms(2)])
  have bip: "overlay ?base view1 = overlay ?base view" using v(1) by (auto simp: checkBIP0030_coins split: if_splits)
  have fresh: "agree (- blockOps ?sha blk) (overlay ?base view2) (overlay ?base view)"
    using fetchInputUtxos_coins(1)[OF v(2)] b(1,5) bip by simp
  define A where "A = {op. overlay ?base view2 op = overlay ?base view op}"
  have sub: "- blockOps ?sha blk \<subseteq> A" using fresh by (auto simp: A_def agree_def)
  have "justified ?sha A (coinbase # txs)"
    using assms(4)
  proof
    assume "in_order ?sha (Transactions blk)"
    then show ?thesis using sub by (simp add: in_order_justified blockOps_def b(1) del: in_order.simps justified.simps)
  next
    assume f: "\<not> runsBIP0030 cn node \<and> (\<forall>op \<in> blockOps ?sha blk. \<not> inView view op)"
    then have v1: "view1 = view" using v(1) by simp
    show ?thesis
    proof (rule justified_positions)
      fix k op
      assume k: "k < length (coinbase # txs)" "op \<in> set (inputs ((coinbase # txs) ! k))"
      then have k0: "0 < k" using b(2) by (cases k) (auto simp: inputs_def)
      then have "\<not> IsCoinBaseTx ((coinbase # txs) ! k)" using k(1) b(3) by (cases k) (auto simp: list_all_length)
      with k obtain txIn where "txIn \<in> set (tx_TxIn (Transactions blk ! k))" "op = PreviousOutPoint txIn" by (auto simp: inputs_def b(1))
      with fetchInputUtxos_coins(2)[OF v(2), of k txIn] k0 k(1) b(1,5) f v1
      show "op \<in> A \<or> (\<exists>j < k. op \<in> createdOps ?sha ((coinbase # txs) ! j))" by (auto simp: A_def)
    qed
  qed
  moreover have "agree A (overlay ?base view2) (overlay ?base view)" by (simp add: A_def agree_def)
  ultimately have "coinSupply (overlay ?base view3) \<le> coinSupply (overlay ?base view) + CalcBlockSubsidy cn (nd_height node) (nd_version node)
    \<and> nonneg_coins (overlay ?base view3)"
    using connectView_supply[OF v(3) b(1-4), of A ?base "overlay ?base view"] sub assms(3)
    by (auto simp: chainCoins_def finite_overlay finite_dbCoins simp del: justified.simps)
  then show ?thesis by (simp add: v(4) chainCoins_def)
qed

text \<open>C1: no inflation. If a block passes the sanity check and is connected, its transactions do not spend outputs of themselves or of later transactions, and no coin
  of the chain is negative, then the total of all coins grows by at most the subsidy of the block, and again no coin is negative.\<close>

theorem no_inflation:
  assumes "checkBlockSanity cn blk powLimit now bflags d height = Inr ()"
    and "checkConnectBlock cn db node blk (view, stxos) ch = (Inr (view', stxos'), ch')"
    and "nonneg_coins (chainCoins (cn_parse cn) db view)"
    and "in_order (cn_sha cn) (Transactions blk)"
  shows "coinSupply (chainCoins (cn_parse cn) db view')
      \<le> coinSupply (chainCoins (cn_parse cn) db view) + CalcBlockSubsidy cn (nd_height node) (nd_version node)
    \<and> nonneg_coins (chainCoins (cn_parse cn) db view')"
  using block_supply[OF assms(1-3)] assms(4) by blast

text \<open>C3: no inflation without the duplicate check. On a network where BIP0034 is active, so that \<open>checkBIP0030\<close> is skipped, and with a view
  that has no entry for the outputs of the block, the order of the transactions does not matter: the code itself rejects a block that spends
  an output before it is created, and the total of all coins grows by at most the subsidy.\<close>

theorem no_inflation_fresh_view:
  assumes "checkBlockSanity cn blk powLimit now bflags d height = Inr ()"
    and "checkConnectBlock cn db node blk (view, stxos) ch = (Inr (view', stxos'), ch')"
    and "nonneg_coins (chainCoins (cn_parse cn) db view)"
    and "BIP0034Height (cn_params cn) \<le> nd_height node"
    and "list_all (\<lambda>op. \<not> inView view op) (blockOutpoints (cn_sha cn) blk)"
  shows "coinSupply (chainCoins (cn_parse cn) db view')
      \<le> coinSupply (chainCoins (cn_parse cn) db view) + CalcBlockSubsidy cn (nd_height node) (nd_version node)
    \<and> nonneg_coins (chainCoins (cn_parse cn) db view')"
proof -
  have "op \<in> set (blockOutpoints (cn_sha cn) blk)" if "op \<in> blockOps (cn_sha cn) blk" for op
    using that by (fastforce simp: blockOps_def createdOps_def created_def blockOutpoints_def in_set_enumerate_eq)
  then show ?thesis using block_supply[OF assms(1-3)] assms(4,5) by (auto simp: runsBIP0030_def list_all_iff)
qed

section \<open>A block out of order\<close>

text \<open>
  Three transactions: \<open>txA\<close> spends an old coin of 70 and creates two, \<open>txB\<close> spends the first of them and \<open>txC\<close> the second. All scripts are the always true one.
  The hash function keeps the first 32 bytes, which include the version of the transaction.
\<close>

declare executeLoop.simps [code]

definition plainOut :: "i64 \<Rightarrow> TxOut" where "plainOut v = \<lparr>Value = v, PkScript = [OP_1]\<rparr>"

definition plainIn :: "bytes \<Rightarrow> u32 \<Rightarrow> TxIn" where
  "plainIn hash i = \<lparr>PreviousOutPoint = \<lparr>op_Hash = hash, op_Index = i\<rparr>, SignatureScript = [], Witness = None, Sequence = 0xffffffff\<rparr>"

definition plainTx :: "i32 \<Rightarrow> TxIn \<Rightarrow> TxOut list \<Rightarrow> MsgTx" where
  "plainTx version txIn outs = \<lparr>tx_Version = version, tx_TxIn = [txIn], tx_TxOut = outs, tx_LockTime = 0\<rparr>"

definition oldHash :: bytes where "oldHash = replicate 32 9"
definition hashA :: bytes where "hashA = [3, 0, 0, 0, 1] @ replicate 27 9"

definition txCoinbase :: MsgTx where
  "txCoinbase = plainTx 1 ((plainIn chainZeroHash 0xffffffff)\<lparr>SignatureScript := [OP_1, OP_1]\<rparr>) [plainOut 200000000]"
definition txA :: MsgTx where "txA = plainTx 3 (plainIn oldHash 0) [plainOut 30, plainOut 40]"
definition txB :: MsgTx where "txB = plainTx 4 (plainIn hashA 0) [plainOut 30]"
definition txC :: MsgTx where "txC = plainTx 5 (plainIn hashA 1) [plainOut 40]"

definition orderHeader :: BlockHeader where
  "orderHeader = \<lparr>bh_Version = 2, bh_PrevBlock = replicate 32 1, bh_MerkleRoot = [1, 0, 0, 0, 1] @ replicate 27 0,
     bh_Timestamp = 1588888888, bh_Bits = 0x1d00ffff, bh_Nonce = 42\<rparr>"

definition orderBlock :: "MsgTx list \<Rightarrow> Block" where
  "orderBlock txs = \<lparr>msgBlock = \<lparr>bl_Header = orderHeader, bl_Transactions = txCoinbase # txs\<rparr>, blockHeightOf = 1\<rparr>"

text \<open>The parameters of the main network that matter here; its \<open>BIP0034Height\<close> is 100000000.\<close>

definition mainLike :: "int \<Rightarrow> consensus" where
  "mainLike bip34 = \<lparr>cn_crypto = toyCrypto, cn_pow = \<lparr>ph_scryptKey = \<lambda>b. b, ph_blake3 = \<lambda>b. b, ph_sha256 = \<lambda>_. replicate 32 0\<rparr>,
     cn_IsTestnet = False,
     cn_params = \<lparr>Net = MainNet, GenesisHash = replicate 32 1, PowLimit = MainPowLimit, BIP0034Height = bip34, BIP0065Height = 1000000,
       BIP0066Height = 1000000, CoinbaseMaturity = 100, SubsidyReductionInterval = 250000, Checkpoints = [],
       RuleChangeActivationThreshold = 1916, MinerConfirmationWindow = 2016,
       Deployments = replicate 3 \<lparr>BitNumber = 0, StartTime = 0, ExpireTime = 0\<rparr>\<rparr>,
     cn_checkpoints = [], cn_smoothSubsidy = \<lambda>_ _. 0, cn_scriptAddress = \<lambda>_. []\<rparr>"

definition orderNode :: BlockNode where
  "orderNode = BlockNode (Some (BlockNode None (replicate 32 1) 0 2 0x1d00ffff 0 1588888000 [])) (replicate 32 2) 1 2 0x1d00ffff 42 1588888888 []"

definition oldView :: UtxoViewpoint where
  "oldView = \<lparr>vw_entries = [(\<lparr>op_Hash = oldHash, op_Index = 0\<rparr>, Some \<lparr>ue_amount = 70, ue_pkScript = [OP_1], ue_blockHeight = 0, ue_packedFlags = 0\<rparr>)],
     vw_bestHash = replicate 32 1\<rparr>"

definition noCaches :: chainCaches where
  "noCaches = \<lparr>ch_deployment = newThresholdCaches 3, ch_sigCache = None, ch_hashCache = None\<rparr>"

text \<open>With an empty database, the state of the chain is the view.\<close>

definition viewSupply :: "UtxoViewpoint \<Rightarrow> int" where
  "viewSupply view = (\<Sum>(op, entry)\<leftarrow>vw_entries view. coinValue (coinsOf entry))"

lemma coinSupply_view:
  assumes "distinct (map fst (vw_entries view))"
  shows "coinSupply (chainCoins parse db0 view) = viewSupply view"
proof -
  let ?m = "chainCoins parse db0 view" and ?es = "vw_entries view"
  have m: "?m = overlay Map.empty view"
    by (simp add: chainCoins_def overlay_def dbCoins_def dbFetchUtxoEntry_def db0_def coinsOf_def fun_eq_iff split: option.split)
  have "dom ?m \<subseteq> set (map fst ?es)" unfolding m by (force simp: overlay_def split: option.splits dest: map_of_SomeD)
  then have "coinSupply ?m = (\<Sum>op \<in> set (map fst ?es). coinValue (?m op))"
    unfolding coinSupply_def by (intro sum.mono_neutral_left) (auto simp: coinValue_def split: option.splits)
  also have "\<dots> = (\<Sum>op\<leftarrow>map fst ?es. coinValue (?m op))" using assms by (rule sum_list_distinct_conv_sum_set[symmetric])
  also have "\<dots> = viewSupply view"
    unfolding viewSupply_def m using assms by (auto simp: comp_def overlay_def map_of_is_SomeI intro!: arg_cong[of _ _ sum_list] map_cong)
  finally show ?thesis .
qed

lemma nonneg_view:
  assumes "list_all (\<lambda>(op, entry). 0 \<le> coinValue (coinsOf entry)) (vw_entries view)"
  shows "nonneg_coins (chainCoins parse db0 view)"
  using assms by (force simp: nonneg_coins_def chainCoins_def overlay_def dbCoins_def dbFetchUtxoEntry_def db0_def coinsOf_def list_all_iff
      split: option.splits dest: map_of_SomeD)

definition connectsTo :: "consensus \<Rightarrow> MsgTx list \<Rightarrow> (UtxoViewpoint \<Rightarrow> bool) \<Rightarrow> bool" where
  "connectsTo cn txs P \<longleftrightarrow>
     (case checkConnectBlock cn db0 orderNode (orderBlock txs) (oldView, Some []) noCaches of
        (Inr (view', stxos'), ch') \<Rightarrow> P view' | _ \<Rightarrow> False)"

lemma connectsToE:
  assumes "connectsTo cn txs P"
  obtains view' stxos' ch' where "checkConnectBlock cn db0 orderNode (orderBlock txs) (oldView, Some []) noCaches = (Inr (view', stxos'), ch')" "P view'"
  using assms by (auto simp: connectsTo_def split: sum.splits prod.splits)

text \<open>C2: a coin spent twice in one block. With the parameters of the main network, where the duplicate check of BIP0030 is run for every block, the block whose
  transaction \<open>txB\<close> spends an output of the later \<open>txA\<close>, of which \<open>txC\<close> spends another, passes \<open>checkBlockSanity\<close> and \<open>checkConnectBlock\<close> with all scripts
  executed. Afterwards the output that \<open>txB\<close> has spent is unspent, and the total of all coins has grown by its value more than the subsidy.\<close>

theorem bip30_double_spend:
  "\<exists>view' stxos' ch'.
     checkBlockSanity (mainLike 100000000) (orderBlock [txB, txA, txC]) (Some MainPowLimit) 1588888888 BFNone False 1 = Inr ()
     \<and> checkConnectBlock (mainLike 100000000) db0 orderNode (orderBlock [txB, txA, txC]) (oldView, Some []) noCaches = (Inr (view', stxos'), ch')
     \<and> inputs txB = [outPoint toyHash txA 0] \<and> utxos view' (outPoint toyHash txA 0) \<noteq> None
     \<and> coinSupply (chainCoins (c_ParsePubKey toyCrypto) db0 view')
         = coinSupply (chainCoins (c_ParsePubKey toyCrypto) db0 oldView) + CalcBlockSubsidy (mainLike 100000000) 1 2 + 30"
proof -
  have "connectsTo (mainLike 100000000) [txB, txA, txC]
    (\<lambda>v. distinct (map fst (vw_entries v)) \<and> viewSupply v = 200000100 \<and> utxos v (outPoint toyHash txA 0) \<noteq> None)"
    by code_simp
  then obtain view' stxos' ch' where c:
    "checkConnectBlock (mainLike 100000000) db0 orderNode (orderBlock [txB, txA, txC]) (oldView, Some []) noCaches = (Inr (view', stxos'), ch')"
    "distinct (map fst (vw_entries view'))" "viewSupply view' = 200000100" "utxos view' (outPoint toyHash txA 0) \<noteq> None"
    by (elim connectsToE) blast
  have "checkBlockSanity (mainLike 100000000) (orderBlock [txB, txA, txC]) (Some MainPowLimit) 1588888888 BFNone False 1 = Inr ()"
    by code_simp
  moreover have "inputs txB = [outPoint toyHash txA 0]" by code_simp
  moreover have "distinct (map fst (vw_entries oldView)) \<and> viewSupply oldView = 70" by code_simp
  moreover have "CalcBlockSubsidy (mainLike 100000000) 1 2 = 200000000" by code_simp
  ultimately show ?thesis using c by (simp add: coinSupply_view)
qed

lemma oldView_nonneg: "nonneg_coins (chainCoins parse db0 oldView)"
  by (rule nonneg_view) code_simp

theorem no_inflation_witness:
  "\<exists>view' stxos' ch'.
     checkConnectBlock (mainLike 100000000) db0 orderNode (orderBlock [txA, txB, txC]) (oldView, Some []) noCaches = (Inr (view', stxos'), ch')
     \<and> coinSupply (chainCoins (c_ParsePubKey toyCrypto) db0 view')
         \<le> coinSupply (chainCoins (c_ParsePubKey toyCrypto) db0 oldView) + CalcBlockSubsidy (mainLike 100000000) 1 2"
proof -
  have "connectsTo (mainLike 100000000) [txA, txB, txC] (\<lambda>_. True)" by code_simp
  then obtain view' stxos' ch' where c:
    "checkConnectBlock (mainLike 100000000) db0 orderNode (orderBlock [txA, txB, txC]) (oldView, Some []) noCaches = (Inr (view', stxos'), ch')"
    by (elim connectsToE) blast
  have s: "checkBlockSanity (mainLike 100000000) (orderBlock [txA, txB, txC]) (Some MainPowLimit) 1588888888 BFNone False 1 = Inr ()"
    by code_simp
  have o: "in_order (cn_sha (mainLike 100000000)) (Transactions (orderBlock [txA, txB, txC]))" by code_simp
  from no_inflation[OF s c oldView_nonneg o] c show ?thesis by (auto simp: mainLike_def orderNode_def)
qed

theorem no_inflation_fresh_view_witness:
  "\<exists>view' stxos' ch'.
     checkConnectBlock (mainLike 0) db0 orderNode (orderBlock [txA, txB, txC]) (oldView, Some []) noCaches = (Inr (view', stxos'), ch')
     \<and> coinSupply (chainCoins (c_ParsePubKey toyCrypto) db0 view')
         \<le> coinSupply (chainCoins (c_ParsePubKey toyCrypto) db0 oldView) + CalcBlockSubsidy (mainLike 0) 1 2"
proof -
  have "connectsTo (mainLike 0) [txA, txB, txC] (\<lambda>_. True)" by code_simp
  then obtain view' stxos' ch' where c:
    "checkConnectBlock (mainLike 0) db0 orderNode (orderBlock [txA, txB, txC]) (oldView, Some []) noCaches = (Inr (view', stxos'), ch')"
    by (elim connectsToE) blast
  have s: "checkBlockSanity (mainLike 0) (orderBlock [txA, txB, txC]) (Some MainPowLimit) 1588888888 BFNone False 1 = Inr ()"
    by code_simp
  have h: "BIP0034Height (cn_params (mainLike 0)) \<le> nd_height orderNode" by (simp add: mainLike_def orderNode_def)
  have f: "list_all (\<lambda>op. \<not> inView oldView op) (blockOutpoints (cn_sha (mainLike 0)) (orderBlock [txA, txB, txC]))" by code_simp
  from no_inflation_fresh_view[OF s c oldView_nonneg h f] c show ?thesis by (auto simp: mainLike_def orderNode_def)
qed

end
