(* ===== verification/ChainProcess.thy ===== *)
theory ChainProcess
  imports ChainBlockRules
begin

text \<open>
  What happens to a block: \<open>src/pkg/chain/process.go\<close>, \<open>accept.go\<close>, \<open>checkpoints.go\<close>, \<open>blacklist.go\<close>, \<open>forkhalcyon.go\<close>, the rules of \<open>validate.go\<close> that depend on the
  position of a block, and the main chain of \<open>chain.go\<close> with its reorganizations. The chain is the record \<open>BlockChain\<close>, passed explicitly. A database
  transaction that fails has no effect. Notifications, the index manager (nil) and the
  locks are not modelled; an operation is one step of the program that holds the chain lock.
\<close>

section \<open>The last block of an algorithm\<close>

definition irregular :: "bool \<Rightarrow> int \<Rightarrow> i32 \<Rightarrow> i32" where
  "irregular isTestnet height version =
     (if GetCurrent isTestnet height = 0 \<and> version \<noteq> 514 \<and> version \<noteq> 2 then 2 else version)"

function lastWithAlgo :: "bool \<Rightarrow> i32 \<Rightarrow> BlockNode \<Rightarrow> BlockNode option" where
  "lastWithAlgo isTestnet algo prev =
     (let prevversion = irregular isTestnet (nd_height prev) (nd_version prev) in
      if prevversion = algo then Some prev
      else case RelativeAncestor prev 1 of None \<Rightarrow> None | Some p \<Rightarrow> lastWithAlgo isTestnet algo p)"
  by auto
termination by (relation "measure (\<lambda>(t, a, n). size n)") (auto simp: RelativeAncestor_size)

declare lastWithAlgo.simps [simp del]

text \<open>The method can be called on a nil node.\<close>

definition GetLastWithAlgo :: "bool \<Rightarrow> BlockNode option \<Rightarrow> i32 \<Rightarrow> BlockNode option" where
  "GetLastWithAlgo isTestnet node algo =
     (case node of
        None \<Rightarrow> None
      | Some n \<Rightarrow> lastWithAlgo isTestnet (irregular isTestnet (s32 (nd_height n + 1)) algo) n)"

section \<open>Difficulty before the hard fork\<close>

text \<open>More fields of \<open>Params\<close>, and \<open>maxRetargetTimespan\<close> of the chain.\<close>

record Retarget =
  AveragingInterval :: int
  AveragingTargetTimespan :: int
  MinActualTimespan :: int
  MaxActualTimespan :: int
  RetargetAdjustmentFactor :: int
  maxRetargetTimespan :: int

fun averagingWalk :: "bool \<Rightarrow> i32 \<Rightarrow> nat \<Rightarrow> BlockNode option \<Rightarrow> BlockNode option" where
  "averagingWalk t algo (Suc k) (Some n) = averagingWalk t algo k (GetLastWithAlgo t (RelativeAncestor n 1) algo)"
| "averagingWalk t algo _ n = n"

text \<open>The division of big integers is Euclidean.\<close>

definition bigDiv :: "int \<Rightarrow> int \<Rightarrow> int cres" where
  "bigDiv x y = (if y = 0 then Inl GoPanic else Inr (if y > 0 then x div y else - (x div (- y))))"

definition CalcNextRequiredDifficultyHalcyon :: "bool \<Rightarrow> Retarget \<Rightarrow> BlockNode \<Rightarrow> string \<Rightarrow> u32 cres" where
  "CalcNextRequiredDifficultyHalcyon t rt lastNode algoname =
     (let nH = s32 (nd_height lastNode + 1);
          algo = GetAlgoVer t algoname nH;
          algoName = GetAlgoName t algo nH;
          newTargetBits = GetMinBits t algoName nH
      in case GetLastWithAlgo t (Some lastNode) algo of
           None \<Rightarrow> Inr newTargetBits
         | Some prevNode \<Rightarrow>
             (case averagingWalk t algo (nat (GetAveragingInterval t nH - 1)) (Some prevNode) of
                None \<Rightarrow> Inr newTargetBits
              | Some firstNode \<Rightarrow>
                  let actualTimespan = s64 (nd_timestamp prevNode - nd_timestamp firstNode);
                      adjustedTimespan = (if actualTimespan < MinActualTimespan rt then MinActualTimespan rt
                                          else if actualTimespan > MaxActualTimespan rt then MaxActualTimespan rt
                                          else actualTimespan)
                  in bindE (bigDiv (CompactToBig (nd_bits prevNode) * adjustedTimespan) (AveragingTargetTimespan rt)) (\<lambda>newTarget.
                     Inr (BigToCompact (if newTarget > CompactToBig newTargetBits then CompactToBig newTargetBits else newTarget)))))"

section \<open>The chain\<close>

record BestState =
  bs_Hash :: bytes
  bs_Height :: int
  bs_Version :: i32
  bs_Bits :: u32
  bs_BlockSize :: u64
  bs_BlockWeight :: u64
  bs_NumTxns :: u64
  bs_TotalTxns :: u64
  bs_MedianTime :: int

record orphanBlock =
  ob_block :: Block
  ob_expiration :: int

record BlockChain =
  bc_db :: DB
  bc_blocks :: bucket
  bc_nodes :: bucket
  bc_Index :: blockIndex
  bc_BestChain :: chainView
  bc_orphans :: "(bytes \<times> orphanBlock) list"
  bc_prevOrphans :: "(bytes \<times> orphanBlock list) list"
  bc_oldestOrphan :: "orphanBlock option"
  bc_nextCheckpoint :: "Checkpoint option"
  bc_checkpointNode :: "BlockNode option"
  bc_stateSnapshot :: BestState
  bc_rules :: ruleState
  bc_sigCache :: "SigCache option"
  bc_hashCache :: "HashCache option"

text \<open>
  What the chain reads from its environment: the rules, the averaging parameters, the clock and the adjusted time, the difficulty after the hard fork (floating point), and the
  addresses in a script.
\<close>

record environment =
  env_cn :: consensus
  env_retarget :: Retarget
  env_now :: int
  env_AdjustedTime :: int
  env_plan9Bits :: "BlockNode \<Rightarrow> i32 \<Rightarrow> u32 cres"
  env_addresses :: "bytes \<Rightarrow> string list"

abbreviation env_testnet :: "environment \<Rightarrow> bool" where "env_testnet e \<equiv> cn_IsTestnet (env_cn e)"

type_synonym 'a onChain = "(BlockChain, 'a) stateful"

definition getC :: "('s \<Rightarrow> 'a) \<Rightarrow> ('s, 'a) stateful" where "getC f = (\<lambda>b. (Inr (f b), b))"
definition modifyC :: "('s \<Rightarrow> 's) \<Rightarrow> ('s, unit) stateful" where "modifyC f = (\<lambda>b. (Inr (), f b))"
definition failC :: "cerror \<Rightarrow> ('s, 'a) stateful" where "failC e = liftC (Inl e)"

text \<open>An error that is looked at before it is returned; a panic is not an error.\<close>

definition onError :: "(cerror \<Rightarrow> ('s, unit) stateful) \<Rightarrow> ('s, 'a) stateful \<Rightarrow> ('s, 'a) stateful" where
  "onError h m = (\<lambda>b. case m b of
     (Inl e, b') \<Rightarrow> if e = GoPanic then (Inl e, b')
                    else (case h e b' of (Inl e', b'') \<Rightarrow> (Inl e', b'') | (Inr _, b'') \<Rightarrow> (Inl e, b''))
   | r \<Rightarrow> r)"

definition isRuleError :: "cerror \<Rightarrow> bool" where
  "isRuleError e = (case e of RuleError _ \<Rightarrow> True | _ \<Rightarrow> False)"

definition tipOf :: "BlockNode onChain" where
  "tipOf = (\<lambda>b. case cv_tip (bc_BestChain b) of None \<Rightarrow> (Inl GoPanic, b) | Some n \<Rightarrow> (Inr n, b))"

definition setFlags :: "BlockNode \<Rightarrow> u8 \<Rightarrow> unit onChain" where
  "setFlags node fl = modifyC (\<lambda>b. b\<lparr>bc_Index := bi_SetStatusFlags node fl (bc_Index b)\<rparr>)"

definition deploymentStateB :: "environment \<Rightarrow> BlockNode option \<Rightarrow> nat \<Rightarrow> ThresholdState onChain" where
  "deploymentStateB e prevNode deploymentID = (\<lambda>b.
     let (r, caches) = deploymentState (cn_params (env_cn e)) prevNode deploymentID (deploymentCaches (bc_rules b))
     in (r, b\<lparr>bc_rules := (bc_rules b)\<lparr>deploymentCaches := caches\<rparr>\<rparr>))"

text \<open>A computation on the caches of the rules, run on the caches of the chain.\<close>

definition withCaches :: "'a chained \<Rightarrow> 'a onChain" where
  "withCaches m = (\<lambda>b.
     let (r, ch) = m \<lparr>ch_deployment = deploymentCaches (bc_rules b), ch_sigCache = bc_sigCache b, ch_hashCache = bc_hashCache b\<rparr>
     in (r, b\<lparr>bc_rules := (bc_rules b)\<lparr>deploymentCaches := ch_deployment ch\<rparr>, bc_sigCache := ch_sigCache ch, bc_hashCache := ch_hashCache ch\<rparr>))"

section \<open>Checkpoints\<close>

definition HasCheckpoints :: "Checkpoint list \<Rightarrow> bool" where "HasCheckpoints checkpoints = (length checkpoints > 0)"

definition checkpointsByHeight :: "Checkpoint list \<Rightarrow> int \<Rightarrow> Checkpoint option" where
  "checkpointsByHeight checkpoints height = List.find (\<lambda>c. cp_Height c = height) (rev checkpoints)"

definition verifyCheckpoint :: "Checkpoint list \<Rightarrow> int \<Rightarrow> bytes \<Rightarrow> bool" where
  "verifyCheckpoint checkpoints height hash =
     (if \<not> HasCheckpoints checkpoints then True
      else case checkpointsByHeight checkpoints height of
             None \<Rightarrow> True
           | Some checkpoint \<Rightarrow> cp_Hash checkpoint = hash)"

text \<open>The search for the last checkpoint of the main chain, from the end of the list.\<close>

fun knownCheckpoint :: "BlockChain \<Rightarrow> Checkpoint list \<Rightarrow> Checkpoint option \<Rightarrow> (BlockNode \<times> Checkpoint option) option" where
  "knownCheckpoint b [] after = None"
| "knownCheckpoint b (c # earlier) after =
     (case bi_LookupNode (bc_Index b) (cp_Hash c) of
        None \<Rightarrow> knownCheckpoint b earlier (Some c)
      | Some node \<Rightarrow> if \<not> cv_contains (bc_BestChain b) node then knownCheckpoint b earlier (Some c) else Some (node, after))"

fun checkpointAfter :: "bytes \<Rightarrow> Checkpoint list \<Rightarrow> Checkpoint option \<Rightarrow> Checkpoint option" where
  "checkpointAfter hash [] after = None"
| "checkpointAfter hash (c # earlier) after = (if cp_Hash c = hash then after else checkpointAfter hash earlier (Some c))"

definition findPreviousCheckpoint :: "environment \<Rightarrow> BlockNode option onChain" where
  "findPreviousCheckpoint e = (\<lambda>b.
     let checkpoints = cn_checkpoints (env_cn e) in
     if \<not> HasCheckpoints checkpoints then (Inr None, b)
     else case bc_nextCheckpoint b of
       None \<Rightarrow>
         (case bc_checkpointNode b of
            Some node \<Rightarrow> (Inr (Some node), b)
          | None \<Rightarrow>
              (case knownCheckpoint b (rev checkpoints) None of
                 Some (node, nxt) \<Rightarrow> (Inr (Some node), b\<lparr>bc_checkpointNode := Some node, bc_nextCheckpoint := nxt\<rparr>)
               | None \<Rightarrow> (Inr None, b\<lparr>bc_nextCheckpoint := Some (hd checkpoints)\<rparr>)))
     | Some nextCheckpoint \<Rightarrow>
         (case tipOf b of
            (Inl err, b') \<Rightarrow> (Inl err, b')
          | (Inr tip, b') \<Rightarrow>
              if nd_height tip < cp_Height nextCheckpoint then (Inr (bc_checkpointNode b), b)
              else case bi_LookupNode (bc_Index b) (cp_Hash nextCheckpoint) of
                     None \<Rightarrow> (Inl AssertError, b)
                   | Some checkpointNode \<Rightarrow>
                       (Inr (Some checkpointNode),
                        b\<lparr>bc_checkpointNode := Some checkpointNode,
                          bc_nextCheckpoint := checkpointAfter (cp_Hash nextCheckpoint) (rev checkpoints) None\<rparr>)))"

section \<open>Rules that depend on the position of a block\<close>

definition calcNextRequiredDifficulty :: "environment \<Rightarrow> BlockNode \<Rightarrow> string \<Rightarrow> u32 cres" where
  "calcNextRequiredDifficulty e lastNode algoname =
     (let t = env_testnet e; nH = s32 (nd_height lastNode + 1) in
      if GetCurrent t nH = 0 then CalcNextRequiredDifficultyHalcyon t (env_retarget e) lastNode algoname
      else env_plan9Bits e lastNode (GetAlgoVer t algoname nH))"

definition checkBlockHeaderContext :: "environment \<Rightarrow> BlockHeader \<Rightarrow> BlockNode option \<Rightarrow> BehaviorFlags \<Rightarrow> unit onChain" where
  "checkBlockHeaderContext e header prevNode bflags =
     (case prevNode of
        None \<Rightarrow> liftC (Inr ())
      | Some prev \<Rightarrow>
          let blockHeight = s32 (nd_height prev + 1); fastAdd = (bflags AND BFFastAdd = BFFastAdd) in
          bindC (liftC (if fastAdd then Inr ()
                 else bindE (calcNextRequiredDifficulty e prev (GetAlgoName (env_testnet e) (bh_Version header) blockHeight)) (\<lambda>expectedDifficulty.
                      bindE (failIf (bh_Bits header \<noteq> expectedDifficulty) (RuleError ErrUnexpectedDifficulty)) (\<lambda>_.
                      failIf (\<not> bh_Timestamp header > CalcPastMedianTime prev) (RuleError ErrTimeTooOld))))) (\<lambda>_.
          bindC (liftC (failIf (\<not> verifyCheckpoint (cn_checkpoints (env_cn e)) blockHeight (BlockHash (cn_sha (env_cn e)) header))
                 (RuleError ErrBadCheckpoint))) (\<lambda>_.
          bindC (findPreviousCheckpoint e) (\<lambda>checkpointNode.
          liftC (failIf (case checkpointNode of Some n \<Rightarrow> blockHeight < nd_height n | None \<Rightarrow> False) (RuleError ErrForkTooOld))))))"

definition checkBlockContext :: "environment \<Rightarrow> Block \<Rightarrow> BlockNode \<Rightarrow> BehaviorFlags \<Rightarrow> unit onChain" where
  "checkBlockContext e blk prevNode bflags =
     (let header = Header blk; cn = env_cn e in
      bindC (checkBlockHeaderContext e header (Some prevNode) bflags) (\<lambda>_.
      if bflags AND BFFastAdd = BFFastAdd then liftC (Inr ())
      else
        bindC (deploymentStateB e (Some prevNode) DeploymentCSV) (\<lambda>csvState.
        let blockTime = (if csvState = ThresholdActive then CalcPastMedianTime prevNode else bh_Timestamp header);
            blockHeight = s32 (nd_height prevNode + 1) in
        bindC (liftC (failIf (list_ex (\<lambda>mtx. \<not> IsFinalizedTransaction mtx blockHeight blockTime) (Transactions blk))
                       (RuleError ErrUnfinalizedTx))) (\<lambda>_.
        bindC (liftC (if ShouldHaveSerializedBlockHeight header \<and> blockHeight \<ge> BIP0034Height (cn_params cn)
                      then (case Transactions blk of [] \<Rightarrow> Inl GoPanic | coinbaseTx # _ \<Rightarrow> checkSerializedHeight coinbaseTx blockHeight)
                      else Inr ())) (\<lambda>_.
        bindC (deploymentStateB e (Some prevNode) DeploymentSegwit) (\<lambda>segwitState.
        if segwitState \<noteq> ThresholdActive then liftC (Inr ())
        else liftC (bindE (ValidateWitnessCommitment (cn_sha cn) blk) (\<lambda>_.
             failIf (GetBlockWeight blk > MaxBlockWeight) (RuleError ErrBlockWeightTooHigh)))))))))"

end
