(* ===== verification/ChainAccept.thy ===== *)
theory ChainAccept
  imports ChainProcess
begin

text \<open>
  What the chain does with a block: connecting and disconnecting blocks, reorganizations and the
  choice of the main chain of \<open>src/pkg/chain/chain.go\<close>, \<open>blacklist.go\<close>, \<open>accept.go\<close>, the pool of
  orphan blocks, and \<open>ProcessBlock\<close> of \<open>process.go\<close>. The store of raw blocks (\<open>src/pkg/db\<close>) is a bucket of serialized blocks by hash, which does not fail.
  The loops that have no evident bound are partial functions: \<open>None\<close> means that the call never returns.
\<close>

section \<open>Blocks and nodes in the database\<close>

definition hashOf :: "environment \<Rightarrow> Block \<Rightarrow> bytes" where
  "hashOf e blk = BlockHash (cn_sha (env_cn e)) (Header blk)"

definition dbStoreBlock :: "environment \<Rightarrow> Block \<Rightarrow> unit onChain" where
  "dbStoreBlock e blk = modifyC (\<lambda>b.
     if map_of (bc_blocks b) (hashOf e blk) \<noteq> None then b
     else b\<lparr>bc_blocks := AList.update (hashOf e blk) (block_Serialize (msgBlock blk)) (bc_blocks b)\<rparr>)"

definition dbFetchBlockByNode :: "BlockNode \<Rightarrow> Block onChain" where
  "dbFetchBlockByNode node = (\<lambda>b.
     (case map_of (bc_blocks b) (nd_hash node) of
        None \<Rightarrow> Inl OtherError
      | Some blockBytes \<Rightarrow>
          (case block_Deserialize blockBytes of
             Inl _ \<Rightarrow> Inl OtherError
           | Inr (msg, _) \<Rightarrow> Inr \<lparr>msgBlock = msg, blockHeightOf = nd_height node\<rparr>), b))"

definition BlockByHash :: "bytes \<Rightarrow> Block onChain" where
  "BlockByHash hash = (\<lambda>b.
     case bi_LookupNode (bc_Index b) hash of
       None \<Rightarrow> (Inl NotInMainChainError, b)
     | Some node \<Rightarrow> if \<not> cv_contains (bc_BestChain b) node then (Inl NotInMainChainError, b)
                    else dbFetchBlockByNode node b)"

definition blockIndexKey :: "bytes \<Rightarrow> u32 \<Rightarrow> bytes" where
  "blockIndexKey blockHash blockHeight = PutUint32 BigEndian blockHeight @ blockHash"

definition dbStoreBlockNode :: "nodeFields \<Rightarrow> BlockNode \<Rightarrow> bucket \<Rightarrow> bucket" where
  "dbStoreBlockNode nf node blockIndexBucket =
     AList.update (blockIndexKey (nd_hash node) (word_of_int (nd_height node)))
       (writeBlockHeader (node_Header node) @ [nw_status nf node]) blockIndexBucket"

definition flushToDB :: "unit onChain" where
  "flushToDB = modifyC (\<lambda>b.
     if length (bi_dirty (bc_Index b)) = 0 then b
     else b\<lparr>bc_nodes := fold (dbStoreBlockNode (bi_fields (bc_Index b))) (bi_dirty (bc_Index b)) (bc_nodes b),
            bc_Index := (bc_Index b)\<lparr>bi_dirty := []\<rparr>\<rparr>)"

text \<open>The work is a pointer; serializing nil panics.\<close>

definition dbPutBestState :: "BestState \<Rightarrow> int option \<Rightarrow> DB \<Rightarrow> DB cres" where
  "dbPutBestState snapshot workSum db =
     (case workSum of
        None \<Rightarrow> Inl GoPanic
      | Some w \<Rightarrow> Inr (db\<lparr>chainState := Some (serializeBestChainState
          \<lparr>bcs_hash = bs_Hash snapshot, bcs_height = word_of_int (bs_Height snapshot),
           bcs_totalTxns = bs_TotalTxns snapshot, bcs_workSum = w\<rparr>)\<rparr>))"

text \<open>A database transaction: all of its writes or none.\<close>

definition updateDB :: "(DB \<Rightarrow> DB cres) \<Rightarrow> unit onChain" where
  "updateDB f = (\<lambda>b. case f (bc_db b) of Inl err \<Rightarrow> (Inl err, b) | Inr db \<Rightarrow> (Inr (), b\<lparr>bc_db := db\<rparr>))"

section \<open>The end of the main chain\<close>

definition newBestState :: "BlockNode \<Rightarrow> u64 \<Rightarrow> u64 \<Rightarrow> u64 \<Rightarrow> u64 \<Rightarrow> int \<Rightarrow> BestState" where
  "newBestState node blockSize blockWeight numTxns totalTxns medianTime =
     \<lparr>bs_Hash = nd_hash node, bs_Height = nd_height node, bs_Version = nd_version node, bs_Bits = nd_bits node,
      bs_BlockSize = blockSize, bs_BlockWeight = blockWeight, bs_NumTxns = numTxns, bs_TotalTxns = totalTxns,
      bs_MedianTime = medianTime\<rparr>"

definition setTipB :: "BlockNode option \<Rightarrow> unit onChain" where
  "setTipB tip = (\<lambda>b. case cv_setTip tip (bc_BestChain b) of
     Inl err \<Rightarrow> (Inl err, b) | Inr c \<Rightarrow> (Inr (), b\<lparr>bc_BestChain := c\<rparr>))"

definition isCurrent :: "environment \<Rightarrow> bool onChain" where
  "isCurrent e =
     bindC tipOf (\<lambda>tip.
     let checkpoint = LatestCheckpoint (cn_checkpoints (env_cn e)) in
     if (case checkpoint of Some c \<Rightarrow> nd_height tip < cp_Height c | None \<Rightarrow> False) then liftC (Inr False)
     else liftC (Inr (nd_timestamp tip \<ge> env_AdjustedTime e - 24 * 60 * 60)))"

definition warnUnknownRules :: "environment \<Rightarrow> BlockNode \<Rightarrow> unit onChain" where
  "warnUnknownRules e node = (\<lambda>b.
     let (r, rs) = warnUnknownRuleActivations (cn_params (env_cn e)) node (bc_rules b) in (r, b\<lparr>bc_rules := rs\<rparr>))"

text \<open>Both return the view that \<open>commit\<close> has changed.\<close>

definition connectBlock :: "environment \<Rightarrow> BlockNode \<Rightarrow> Block \<Rightarrow> UtxoViewpoint \<Rightarrow> SpentTxOut list \<Rightarrow> UtxoViewpoint onChain" where
  "connectBlock e node blk view stxos =
     bindC tipOf (\<lambda>tip.
     if bh_PrevBlock (Header blk) \<noteq> nd_hash tip then failC AssertError
     else
       bindC (liftC (countSpentOutputs blk)) (\<lambda>numSpent.
       if length stxos \<noteq> numSpent then failC AssertError
       else
         bindC (isCurrent e) (\<lambda>current.
         bindC (if current then warnUnknownRules e node else liftC (Inr ())) (\<lambda>_.
         bindC flushToDB (\<lambda>_.
         bindC (getC bc_stateSnapshot) (\<lambda>snapshot.
         bindC (getC (\<lambda>b. nw_workSum (bi_fields (bc_Index b)) node)) (\<lambda>workSum.
         let numTxns = of_nat (length (Transactions blk));
             state = newBestState node (of_nat (block_SerializeSize (msgBlock blk))) (of_nat (GetBlockWeight blk)) numTxns
                       (bs_TotalTxns snapshot + numTxns) (CalcPastMedianTime node) in
         bindC (updateDB (\<lambda>db.
                  bindE (dbPutBestState state workSum db) (\<lambda>db1.
                  bindE (dbPutUtxoView (cn_parse (env_cn e)) view (dbPutBlockIndex (hashOf e blk) (nd_height node) db1)) (\<lambda>db2.
                  Inr (dbPutSpendJournalEntry (cn_parse (env_cn e)) (hashOf e blk) stxos db2))))) (\<lambda>_.
         bindC (setTipB (Some node)) (\<lambda>_.
         bindC (modifyC (\<lambda>b. b\<lparr>bc_stateSnapshot := state\<rparr>)) (\<lambda>_.
         liftC (Inr (commit view))))))))))))"

definition disconnectBlock :: "environment \<Rightarrow> BlockNode \<Rightarrow> Block \<Rightarrow> UtxoViewpoint \<Rightarrow> UtxoViewpoint onChain" where
  "disconnectBlock e node blk view =
     bindC tipOf (\<lambda>tip.
     if nd_hash node \<noteq> nd_hash tip then failC AssertError
     else case nd_parent node of
       None \<Rightarrow> failC GoPanic
     | Some prevNode \<Rightarrow>
         bindC (dbFetchBlockByNode prevNode) (\<lambda>prevBlock.
         bindC flushToDB (\<lambda>_.
         bindC (getC bc_stateSnapshot) (\<lambda>snapshot.
         bindC (getC (\<lambda>b. nw_workSum (bi_fields (bc_Index b)) node)) (\<lambda>workSum.
         let state = newBestState prevNode (of_nat (block_SerializeSize (msgBlock prevBlock))) (of_nat (GetBlockWeight prevBlock))
                       (of_nat (length (Transactions prevBlock))) (bs_TotalTxns snapshot - of_nat (length (Transactions blk)))
                       (CalcPastMedianTime prevNode) in
         bindC (updateDB (\<lambda>db.
                  bindE (dbPutBestState state workSum db) (\<lambda>db1.
                  bindE (dbPutUtxoView (cn_parse (env_cn e)) view (dbRemoveBlockIndex (hashOf e blk) (nd_height node) db1)) (\<lambda>db2.
                  bindE (dbFetchSpendJournalEntry (cn_sha (env_cn e)) (cn_parse (env_cn e)) db2 blk) (\<lambda>_.
                  Inr (dbRemoveSpendJournalEntry (hashOf e blk) db2)))))) (\<lambda>_.
         bindC (setTipB (Some prevNode)) (\<lambda>_.
         bindC (modifyC (\<lambda>b. b\<lparr>bc_stateSnapshot := state\<rparr>)) (\<lambda>_.
         liftC (Inr (commit view))))))))))"

section \<open>Reorganizations\<close>

text \<open>The nodes from a node back to the fork, in the order of the chain, and whether one of them is known to be invalid; and the nodes of the main chain back to the fork.\<close>

function attachWalk :: "blockIndex \<Rightarrow> BlockNode option \<Rightarrow> BlockNode option \<Rightarrow> BlockNode list \<Rightarrow> BlockNode list \<times> bool" where
  "attachWalk bi forkNode n attachNodes =
     (case n of
        None \<Rightarrow> (attachNodes, False)
      | Some m \<Rightarrow> if Some m = forkNode then (attachNodes, False)
                  else if KnownInvalid (bi_NodeStatus bi m) then (attachNodes, True)
                  else attachWalk bi forkNode (nd_parent m) (m # attachNodes))"
  by auto
termination
  by (relation "measure (\<lambda>(bi, f, n, as). case n of None \<Rightarrow> 0 | Some m \<Rightarrow> Suc (size m))")
     (auto split: option.splits dest: size_parent)

function detachWalk :: "BlockNode option \<Rightarrow> BlockNode option \<Rightarrow> BlockNode list" where
  "detachWalk forkNode n =
     (case n of
        None \<Rightarrow> []
      | Some m \<Rightarrow> if Some m = forkNode then [] else m # detachWalk forkNode (nd_parent m))"
  by auto
termination
  by (relation "measure (\<lambda>(f, n). case n of None \<Rightarrow> 0 | Some m \<Rightarrow> Suc (size m))") (auto split: option.splits dest: size_parent)

declare attachWalk.simps [simp del] detachWalk.simps [simp del]

definition getReorganizeNodes :: "BlockNode \<Rightarrow> (BlockNode list \<times> BlockNode list) onChain" where
  "getReorganizeNodes node =
     (case nd_parent node of
        None \<Rightarrow> failC GoPanic
      | Some parent \<Rightarrow>
          bindC (getC bc_Index) (\<lambda>bi.
          if KnownInvalid (bi_NodeStatus bi parent)
          then bindC (setFlags node statusInvalidAncestor) (\<lambda>_. liftC (Inr ([], [])))
          else
            bindC (getC bc_BestChain) (\<lambda>c.
            let forkNode = cv_findFork c (Some node);
                (attachNodes, invalidChain) = attachWalk bi forkNode (Some node) [] in
            if invalidChain
            then bindC (foldC (\<lambda>n. setFlags n statusInvalidAncestor) attachNodes) (\<lambda>_. liftC (Inr ([], [])))
            else liftC (Inr (detachWalk forkNode (cv_tip c), attachNodes)))))"

text \<open>The first phase goes through the blocks to detach and to attach on a view, without changing the chain; it
  returns the blocks and the spent outputs that the second phase needs.\<close>

fun detachCheck ::
  "environment \<Rightarrow> BlockNode list \<Rightarrow> UtxoViewpoint \<Rightarrow> (UtxoViewpoint \<times> (BlockNode \<times> Block \<times> SpentTxOut list) list) onChain" where
  "detachCheck e [] view = liftC (Inr (view, []))"
| "detachCheck e (n # ns) view =
     bindC (dbFetchBlockByNode n) (\<lambda>blk.
     if nd_hash n \<noteq> hashOf e blk then failC AssertError
     else
       bindC (getC bc_db) (\<lambda>db.
       bindC (liftC (fetchInputUtxos (cn_sha (env_cn e)) (cn_parse (env_cn e)) db blk view)) (\<lambda>view1.
       bindC (liftC (dbFetchSpendJournalEntry (cn_sha (env_cn e)) (cn_parse (env_cn e)) db blk)) (\<lambda>stxos.
       bindC (liftC (disconnectTransactions (cn_sha (env_cn e)) (cn_parse (env_cn e)) db blk stxos view1)) (\<lambda>view2.
       bindC (detachCheck e ns view2) (\<lambda>(view3, rest). liftC (Inr (view3, (n, blk, stxos) # rest))))))))"

fun attachCheck :: "environment \<Rightarrow> BlockNode list \<Rightarrow> UtxoViewpoint \<Rightarrow> (BlockNode \<times> Block) list onChain" where
  "attachCheck e [] view = liftC (Inr [])"
| "attachCheck e (n # ns) view =
     bindC (dbFetchBlockByNode n) (\<lambda>blk.
     bindC (getC bc_db) (\<lambda>db.
     bindC (getC (\<lambda>b. KnownValid (bi_NodeStatus (bc_Index b) n))) (\<lambda>valid.
     bindC (if valid
            then bindC (liftC (fetchInputUtxos (cn_sha (env_cn e)) (cn_parse (env_cn e)) db blk view)) (\<lambda>view1.
                 liftC (connectTransactions (cn_sha (env_cn e)) blk (view1, None)))
            else bindC (onError (\<lambda>err. if isRuleError err
                                       then bindC (setFlags n statusValidateFailed) (\<lambda>_. foldC (\<lambda>dn. setFlags dn statusInvalidAncestor) ns)
                                       else liftC (Inr ()))
                          (withCaches (checkConnectBlock (env_cn e) db n blk (view, None)))) (\<lambda>r.
                 bindC (setFlags n statusValid) (\<lambda>_. liftC (Inr r)))) (\<lambda>(view2, _).
     bindC (attachCheck e ns view2) (\<lambda>rest. liftC (Inr ((n, blk) # rest)))))))"

fun detachAll :: "environment \<Rightarrow> (BlockNode \<times> Block \<times> SpentTxOut list) list \<Rightarrow> UtxoViewpoint \<Rightarrow> UtxoViewpoint onChain" where
  "detachAll e [] view = liftC (Inr view)"
| "detachAll e ((n, blk, stxos) # rest) view =
     bindC (getC bc_db) (\<lambda>db.
     bindC (liftC (fetchInputUtxos (cn_sha (env_cn e)) (cn_parse (env_cn e)) db blk view)) (\<lambda>view1.
     bindC (liftC (disconnectTransactions (cn_sha (env_cn e)) (cn_parse (env_cn e)) db blk stxos view1)) (\<lambda>view2.
     bindC (disconnectBlock e n blk view2) (\<lambda>view3. detachAll e rest view3))))"

fun attachAll :: "environment \<Rightarrow> (BlockNode \<times> Block) list \<Rightarrow> UtxoViewpoint \<Rightarrow> UtxoViewpoint onChain" where
  "attachAll e [] view = liftC (Inr view)"
| "attachAll e ((n, blk) # rest) view =
     bindC (getC bc_db) (\<lambda>db.
     bindC (liftC (fetchInputUtxos (cn_sha (env_cn e)) (cn_parse (env_cn e)) db blk view)) (\<lambda>view1.
     bindC (liftC (bindE (countSpentOutputs blk) (\<lambda>_. connectTransactions (cn_sha (env_cn e)) blk (view1, Some [])))) (\<lambda>(view2, stxos).
     bindC (connectBlock e n blk view2 (case stxos of None \<Rightarrow> [] | Some s \<Rightarrow> s)) (\<lambda>view3. attachAll e rest view3))))"

definition sameFork :: "BlockNode \<Rightarrow> BlockNode \<Rightarrow> unit cres" where
  "sameFork firstAttachNode lastDetachNode =
     (case (nd_parent firstAttachNode, nd_parent lastDetachNode) of
        (Some p, Some q) \<Rightarrow> failIf (nd_hash p \<noteq> nd_hash q) AssertError
      | _ \<Rightarrow> Inl GoPanic)"

definition reorganizeChain :: "environment \<Rightarrow> BlockNode list \<Rightarrow> BlockNode list \<Rightarrow> unit onChain" where
  "reorganizeChain e detachNodes attachNodes =
     (if length detachNodes = 0 \<and> length attachNodes = 0 then liftC (Inr ())
      else
        bindC tipOf (\<lambda>tip.
        bindC (liftC (failIf (length detachNodes \<noteq> 0 \<and> nd_hash (hd detachNodes) \<noteq> nd_hash tip) AssertError)) (\<lambda>_.
        bindC (liftC (if length attachNodes \<noteq> 0 \<and> length detachNodes \<noteq> 0
                      then sameFork (hd attachNodes) (last detachNodes) else Inr ())) (\<lambda>_.
        bindC (detachCheck e detachNodes (SetBestHash (nd_hash tip) NewUtxoViewpoint)) (\<lambda>(view, detachBlocks).
        bindC (attachCheck e attachNodes view) (\<lambda>attachBlocks.
        bindC (detachAll e detachBlocks (SetBestHash (nd_hash tip) NewUtxoViewpoint)) (\<lambda>view1.
        bindC (attachAll e attachBlocks view1) (\<lambda>_. liftC (Inr ())))))))))"

section \<open>The choice of the main chain\<close>

definition connectBestChain :: "environment \<Rightarrow> BlockNode \<Rightarrow> Block \<Rightarrow> BehaviorFlags \<Rightarrow> bool onChain" where
  "connectBestChain e node blk bflags =
     (let parentHash = bh_PrevBlock (Header blk) in
      bindC tipOf (\<lambda>tip.
      if parentHash = nd_hash tip then
        bindC (getC (\<lambda>b. KnownValid (bi_NodeStatus (bc_Index b) node))) (\<lambda>valid.
        let fastAdd = (bflags AND BFFastAdd = BFFastAdd \<or> valid);
            view = SetBestHash parentHash NewUtxoViewpoint in
        bindC (liftC (countSpentOutputs blk)) (\<lambda>_.
        bindC (getC bc_db) (\<lambda>db.
        bindC (if \<not> fastAdd
               then bindC (onError (\<lambda>err. if isRuleError err
                                          then bindC (setFlags node statusValidateFailed) (\<lambda>_. flushToDB) else liftC (Inr ()))
                             (withCaches (checkConnectBlock (env_cn e) db node blk (view, Some [])))) (\<lambda>r.
                    bindC (setFlags node statusValid) (\<lambda>_. bindC flushToDB (\<lambda>_. liftC (Inr r))))
               else bindC (liftC (fetchInputUtxos (cn_sha (env_cn e)) (cn_parse (env_cn e)) db blk view)) (\<lambda>view1.
                    liftC (connectTransactions (cn_sha (env_cn e)) blk (view1, Some [])))) (\<lambda>(view2, stxos).
        bindC (onError (\<lambda>err. bindC (if isRuleError err then setFlags node statusValidateFailed else liftC (Inr ())) (\<lambda>_. flushToDB))
                 (connectBlock e node blk view2 (case stxos of None \<Rightarrow> [] | Some s \<Rightarrow> s))) (\<lambda>_.
        bindC (getC (\<lambda>b. KnownValid (bi_NodeStatus (bc_Index b) node))) (\<lambda>valid'.
        bindC (if fastAdd \<or> \<not> valid' then bindC (setFlags node statusValid) (\<lambda>_. flushToDB) else liftC (Inr ())) (\<lambda>_.
        liftC (Inr True))))))))
      else
        bindC (getC bc_Index) (\<lambda>bi.
        case causesReorganize node tip (bi_fields bi) of
          Inl err \<Rightarrow> failC err
        | Inr (heavier, nf) \<Rightarrow>
            bindC (modifyC (\<lambda>b. b\<lparr>bc_Index := (bc_Index b)\<lparr>bi_fields := nf\<rparr>\<rparr>)) (\<lambda>_.
            if \<not> heavier then
              bindC (getC bc_BestChain) (\<lambda>c.
              case cv_findFork c (Some node) of None \<Rightarrow> failC GoPanic | Some _ \<Rightarrow> liftC (Inr False))
            else
              bindC (getReorganizeNodes node) (\<lambda>(detachNodes, attachNodes).
              bindC (onError (\<lambda>_. flushToDB) (reorganizeChain e detachNodes attachNodes)) (\<lambda>_.
              bindC flushToDB (\<lambda>_. liftC (Inr True))))))))"

section \<open>The blacklist\<close>

text \<open>The address of \<open>hardfork.Blacklist\<close>, in its encoding.\<close>

definition Blacklist :: "string list" where
  "Blacklist = [''8JEEhaMxJf4dZh5rvVCVSA7JKeYBvy8fir'']"

definition Intersects :: "string list \<Rightarrow> string list \<Rightarrow> bool" where
  "Intersects a b = list_ex (\<lambda>x. list_ex (\<lambda>y. x = y) b) a"

definition outputAddresses :: "environment \<Rightarrow> MsgTx \<Rightarrow> string list" where
  "outputAddresses e msg = concat (map (\<lambda>txo. env_addresses e (PkScript txo)) (tx_TxOut msg))"

definition inputAddresses :: "environment \<Rightarrow> BlockChain \<Rightarrow> TxIn \<Rightarrow> string list" where
  "inputAddresses e b txi =
     (case fst (BlockByHash (op_Hash (PreviousOutPoint txi)) b) of
        Inl _ \<Rightarrow> []
      | Inr bb \<Rightarrow> concat (map (outputAddresses e) (Transactions bb)))"

definition ContainsBlacklisted :: "environment \<Rightarrow> BlockChain \<Rightarrow> MsgTx \<Rightarrow> string list \<Rightarrow> bool" where
  "ContainsBlacklisted e b msg blacklist =
     (if GetCurrent (env_testnet e) (bs_Height (bc_stateSnapshot b)) < 1 then False
      else Intersects (outputAddresses e msg @ concat (map (inputAddresses e b) (tx_TxIn msg))) blacklist)"

section \<open>Accepting a block\<close>

fun sameAlgoWalk :: "bool \<Rightarrow> i32 \<Rightarrow> nat \<Rightarrow> BlockNode option \<Rightarrow> BlockNode option" where
  "sameAlgoWalk t a (Suc k) (Some n) = sameAlgoWalk t a k (GetLastWithAlgo t (Some n) a)"
| "sameAlgoWalk t a _ n = n"

text \<open>The variable \<open>pn\<close> of \<open>maybeAcceptBlock\<close>: nil unless exactly one of the block and its parent has version 514.\<close>

definition previousOfAlgo :: "environment \<Rightarrow> i32 \<Rightarrow> BlockNode \<Rightarrow> BlockNode option" where
  "previousOfAlgo e version prevNode =
     (let a = (if version = 514 then 514 else 2); aa = (if nd_version prevNode = 514 then 514 else 2) in
      if a \<noteq> aa then sameAlgoWalk (env_testnet e) a (nat (AveragingInterval (env_retarget e) - 1)) (Some prevNode)
      else None)"

definition addNewNode :: "environment \<Rightarrow> BlockHeader \<Rightarrow> BlockNode \<Rightarrow> BlockNode onChain" where
  "addNewNode e header prevNode = (\<lambda>b.
     let (newNode, nf) = NewBlockNode (cn_sha (env_cn e)) header (Some prevNode) (bi_fields (bc_Index b));
         nf' = nf\<lparr>nw_status := (nw_status nf)(newNode := statusDataStored)\<rparr>
     in (Inr newNode, b\<lparr>bc_Index := bi_AddNode newNode ((bc_Index b)\<lparr>bi_fields := nf'\<rparr>)\<rparr>))"

definition maybeAcceptBlock :: "environment \<Rightarrow> Block \<Rightarrow> BehaviorFlags \<Rightarrow> bool onChain" where
  "maybeAcceptBlock e blk0 bflags =
     bindC (getC (\<lambda>b. bi_LookupNode (bc_Index b) (bh_PrevBlock (Header blk0)))) (\<lambda>found.
     case found of
       None \<Rightarrow> failC (RuleError ErrPreviousBlockUnknown)
     | Some prevNode \<Rightarrow>
         bindC (getC (\<lambda>b. KnownInvalid (bi_NodeStatus (bc_Index b) prevNode))) (\<lambda>invalid.
         if invalid then failC (RuleError ErrInvalidAncestorBlock)
         else
           let blk = blk0\<lparr>blockHeightOf := s32 (nd_height prevNode + 1)\<rparr>;
               pn = previousOfAlgo e (bh_Version (Header blk)) prevNode in
           bindC (getC (\<lambda>b. list_ex (\<lambda>msg. ContainsBlacklisted e b msg Blacklist) (Transactions blk))) (\<lambda>blacklisted.
           if blacklisted then failC (RuleError ErrBlacklisted)
           else
             bindC (if pn \<noteq> None then checkBlockContext e blk prevNode bflags else liftC (Inr ())) (\<lambda>_.
             bindC (dbStoreBlock e blk) (\<lambda>_.
             bindC (addNewNode e (Header blk) prevNode) (\<lambda>newNode.
             bindC flushToDB (\<lambda>_.
             connectBestChain e newNode blk bflags)))))))"

section \<open>Orphans\<close>

definition maxOrphanBlocks :: nat where "maxOrphanBlocks = 100"

text \<open>The part of \<open>removeOrphanBlock\<close> on the index by parent.\<close>

definition unlistOrphan :: "environment \<Rightarrow> orphanBlock \<Rightarrow> (bytes \<times> orphanBlock list) list \<Rightarrow> (bytes \<times> orphanBlock list) list" where
  "unlistOrphan e orphan prevOrphans =
     (let prevHash = bh_PrevBlock (Header (ob_block orphan));
          orphans = filter (\<lambda>x. hashOf e (ob_block x) \<noteq> hashOf e (ob_block orphan))
                      (case map_of prevOrphans prevHash of None \<Rightarrow> [] | Some xs \<Rightarrow> xs)
      in if length orphans = 0 then AList.delete prevHash prevOrphans else AList.update prevHash orphans prevOrphans)"

definition removeOrphanBlock :: "environment \<Rightarrow> orphanBlock \<Rightarrow> BlockChain \<Rightarrow> BlockChain" where
  "removeOrphanBlock e orphan b =
     b\<lparr>bc_orphans := AList.delete (hashOf e (ob_block orphan)) (bc_orphans b),
       bc_prevOrphans := unlistOrphan e orphan (bc_prevOrphans b)\<rparr>"

text \<open>One step of the loop over the pool.\<close>

definition expireOrphan :: "environment \<Rightarrow> orphanBlock \<Rightarrow> BlockChain \<Rightarrow> BlockChain" where
  "expireOrphan e oBlock b =
     (if env_now e > ob_expiration oBlock then removeOrphanBlock e oBlock b
      else if (case bc_oldestOrphan b of None \<Rightarrow> True | Some o' \<Rightarrow> ob_expiration oBlock < ob_expiration o')
      then b\<lparr>bc_oldestOrphan := Some oBlock\<rparr> else b)"

definition listOrphan :: "orphanBlock \<Rightarrow> (bytes \<times> orphanBlock list) list \<Rightarrow> (bytes \<times> orphanBlock list) list" where
  "listOrphan oBlock prevOrphans =
     (let prevHash = bh_PrevBlock (Header (ob_block oBlock))
      in AList.update prevHash ((case map_of prevOrphans prevHash of None \<Rightarrow> [] | Some xs \<Rightarrow> xs) @ [oBlock]) prevOrphans)"

definition insertOrphan :: "environment \<Rightarrow> Block \<Rightarrow> BlockChain \<Rightarrow> BlockChain" where
  "insertOrphan e blk b =
     (let oBlock = \<lparr>ob_block = blk, ob_expiration = env_now e + 60 * 60\<rparr>
      in b\<lparr>bc_orphans := AList.update (hashOf e blk) oBlock (bc_orphans b),
           bc_prevOrphans := listOrphan oBlock (bc_prevOrphans b)\<rparr>)"

definition addOrphanBlock :: "environment \<Rightarrow> Block \<Rightarrow> unit onChain" where
  "addOrphanBlock e blk = (\<lambda>b0.
     let b = fold (expireOrphan e) (map snd (bc_orphans b0)) b0 in
     if length (bc_orphans b) + 1 > maxOrphanBlocks
     then (case bc_oldestOrphan b of
             None \<Rightarrow> (Inl GoPanic, b)
           | Some o' \<Rightarrow> (Inr (), insertOrphan e blk ((removeOrphanBlock e o' b)\<lparr>bc_oldestOrphan := None\<rparr>)))
     else (Inr (), insertOrphan e blk b))"

definition IsKnownOrphan :: "bytes \<Rightarrow> BlockChain \<Rightarrow> bool" where
  "IsKnownOrphan hash b = (map_of (bc_orphans b) hash \<noteq> None)"

text \<open>The loop of \<open>processOrphans\<close>: the first orphan of the first hash is removed and offered to the chain, until there is none; then the next hash.\<close>

partial_function (option) processOrphans ::
  "environment \<Rightarrow> BehaviorFlags \<Rightarrow> bytes list \<Rightarrow> BlockChain \<Rightarrow> (unit cres \<times> BlockChain) option" where
  "processOrphans e bflags processHashes b =
     (case processHashes of
        [] \<Rightarrow> Some (Inr (), b)
      | processHash # rest \<Rightarrow>
          (case map_of (bc_prevOrphans b) processHash of
             Some (orphan # others) \<Rightarrow>
               (case maybeAcceptBlock e (ob_block orphan) bflags (removeOrphanBlock e orphan b) of
                  (Inl err, b') \<Rightarrow> Some (Inl err, b')
                | (Inr _, b') \<Rightarrow> processOrphans e bflags (processHashes @ [hashOf e (ob_block orphan)]) b')
           | _ \<Rightarrow> processOrphans e bflags rest b))"

section \<open>Processing a block\<close>

definition blockExists :: "bytes \<Rightarrow> BlockChain \<Rightarrow> bool cres" where
  "blockExists hash b =
     (if bi_HaveBlock (bc_Index b) hash then Inr True
      else if map_of (bc_blocks b) hash = None then Inr False
      else case dbFetchHeightByHash (bc_db b) hash of
             Inl NotInMainChainError \<Rightarrow> Inr False
           | Inl err \<Rightarrow> Inl err
           | Inr _ \<Rightarrow> Inr True)"

definition HaveBlock :: "bytes \<Rightarrow> BlockChain \<Rightarrow> bool cres" where
  "HaveBlock hash b = bindE (blockExists hash b) (\<lambda>exists. Inr (exists \<or> IsKnownOrphan hash b))"

text \<open>\<open>Timestamp.Sub\<close> and the division by \<open>time.Second\<close>: a \<open>Duration\<close> saturates.\<close>

definition durationSeconds :: "int \<Rightarrow> int \<Rightarrow> int" where
  "durationSeconds t u = (let d = max (- (2 ^ 63)) (min (2 ^ 63 - 1) ((t - u) * 10 ^ 9)) in sgn d * (\<bar>d\<bar> div 10 ^ 9))"

partial_function (option) easiestLoop :: "Retarget \<Rightarrow> int \<Rightarrow> int \<Rightarrow> int \<Rightarrow> int option" where
  "easiestLoop rt powLimit durationVal newTarget =
     (if durationVal > 0 \<and> newTarget < powLimit
      then easiestLoop rt powLimit (s64 (durationVal - maxRetargetTimespan rt)) (newTarget * RetargetAdjustmentFactor rt)
      else Some newTarget)"

definition calcEasiestDifficulty :: "environment \<Rightarrow> u32 \<Rightarrow> int \<Rightarrow> u32 option" where
  "calcEasiestDifficulty e bits durationVal =
     (let powLimit = PowLimit (cn_params (env_cn e)) in
      case easiestLoop (env_retarget e) powLimit durationVal (CompactToBig bits) of
        None \<Rightarrow> None
      | Some newTarget \<Rightarrow> Some (BigToCompact (if newTarget > powLimit then powLimit else newTarget)))"

definition checkAgainstCheckpoint :: "environment \<Rightarrow> BlockHeader \<Rightarrow> BehaviorFlags \<Rightarrow> BlockNode \<Rightarrow> unit cres option" where
  "checkAgainstCheckpoint e header bflags checkpointNode =
     (if bh_Timestamp header < nd_timestamp checkpointNode then Some (Inl (RuleError ErrCheckpointTimeTooOld))
      else if bflags AND BFFastAdd = BFFastAdd then Some (Inr ())
      else case calcEasiestDifficulty e (nd_bits checkpointNode) (durationSeconds (bh_Timestamp header) (nd_timestamp checkpointNode)) of
             None \<Rightarrow> None
           | Some required \<Rightarrow> Some (failIf (CompactToBig (bh_Bits header) > CompactToBig required) (RuleError ErrDifficultyTooLow)))"

text \<open>The checks before the search for the checkpoint, and what follows when the block is to be accepted.\<close>

definition preliminaryChecks :: "environment \<Rightarrow> Block \<Rightarrow> BehaviorFlags \<Rightarrow> int \<Rightarrow> BlockChain \<Rightarrow> unit cres" where
  "preliminaryChecks e blk bflags height b =
     (let t = env_testnet e; header = Header blk;
          blockHeight = (case fst (BlockByHash (bh_PrevBlock header) b) of Inl _ \<Rightarrow> height | Inr bb \<Rightarrow> s32 (blockHeightOf bb + 1));
          algo = (case GetCurrent t blockHeight of 0 \<Rightarrow> (if bh_Version header \<noteq> 514 then 2 else 514)
                  | Suc 0 \<Rightarrow> bh_Version header | _ \<Rightarrow> 0) in
      bindE (blockExists (hashOf e blk) b) (\<lambda>exists.
      bindE (failIf exists (RuleError ErrDuplicateBlock)) (\<lambda>_.
      bindE (failIf (IsKnownOrphan (hashOf e blk) b) (RuleError ErrDuplicateBlock)) (\<lambda>_.
      let pl = GetMinDiff t (GetAlgoName t algo blockHeight) blockHeight;
          pn = bi_LookupNode (bc_Index b) (bh_PrevBlock header);
          DoNotCheckPow = (pn = None \<or> GetLastWithAlgo t pn algo = None) in
      checkBlockSanity (env_cn e) blk (Some pl) (env_AdjustedTime e) bflags DoNotCheckPow blockHeight))))"

definition acceptWithOrphans :: "environment \<Rightarrow> Block \<Rightarrow> BehaviorFlags \<Rightarrow> BlockChain \<Rightarrow> ((bool \<times> bool) cres \<times> BlockChain) option" where
  "acceptWithOrphans e blk bflags b =
     (case maybeAcceptBlock e blk bflags b of
        (Inl err, b') \<Rightarrow> Some (Inl err, b')
      | (Inr isMainChain, b') \<Rightarrow>
          (case processOrphans e bflags [hashOf e blk] b' of
             None \<Rightarrow> None
           | Some (Inl err, b'') \<Rightarrow> Some (Inl err, b'')
           | Some (Inr _, b'') \<Rightarrow> Some (Inr (isMainChain, False), b'')))"

definition ProcessBlock ::
  "environment \<Rightarrow> Block \<Rightarrow> BehaviorFlags \<Rightarrow> int \<Rightarrow> BlockChain \<Rightarrow> ((bool \<times> bool) cres \<times> BlockChain) option" where
  "ProcessBlock e blk bflags height b0 =
     (case preliminaryChecks e blk bflags height b0 of
        Inl err \<Rightarrow> Some (Inl err, b0)
      | Inr _ \<Rightarrow>
          (case findPreviousCheckpoint e b0 of
             (Inl err, b) \<Rightarrow> Some (Inl err, b)
           | (Inr checkpointNode, b) \<Rightarrow>
               (case (case checkpointNode of None \<Rightarrow> Some (Inr ()) | Some n \<Rightarrow> checkAgainstCheckpoint e (Header blk) bflags n) of
                  None \<Rightarrow> None
                | Some (Inl err) \<Rightarrow> Some (Inl err, b)
                | Some (Inr _) \<Rightarrow>
                    (case blockExists (bh_PrevBlock (Header blk)) b of
                       Inl err \<Rightarrow> Some (Inl err, b)
                     | Inr False \<Rightarrow>
                         (case addOrphanBlock e blk b of
                            (Inl err, b') \<Rightarrow> Some (Inl err, b')
                          | (Inr _, b') \<Rightarrow> Some (Inr (False, True), b'))
                     | Inr True \<Rightarrow> acceptWithOrphans e blk bflags b))))"

end
