(* ===== verification/ChainInvariant.thy ===== *)
theory ChainInvariant
  imports ChainAccept
begin

text \<open>
  What stays true while blocks are processed. The operations on the chain are verified once, against an interface: a property of the chain that
  only depends on its core and that connecting, disconnecting and adding nodes keep. The interface is used for the pool
  of orphans, which accepting a block does not touch, and for the main chain: its view, the snapshot of the best state and the
  stored best state always describe the same tip. On top of it, \<open>ProcessBlock\<close> always returns, and the number of orphans is bounded.
\<close>

section \<open>Computations that keep a property\<close>

definition keeps :: "('s \<Rightarrow> bool) \<Rightarrow> ('s, 'a) stateful \<Rightarrow> ('a \<Rightarrow> bool) \<Rightarrow> bool" where
  "keeps P m Q \<longleftrightarrow> (\<forall>b. P b \<longrightarrow> P (snd (m b)) \<and> (\<forall>x. fst (m b) = Inr x \<longrightarrow> Q x))"

named_theorems keeps_rules

lemma keepsD: "keeps P m Q \<Longrightarrow> P b \<Longrightarrow> P (snd (m b))"
  by (simp add: keeps_def)

lemma keeps_bind: "keeps P m Q \<Longrightarrow> (\<And>x. Q x \<Longrightarrow> keeps P (f x) S) \<Longrightarrow> keeps P (bindC m f) S"
  unfolding keeps_def bindC_def by (fastforce split: prod.splits sum.splits)

lemma keeps_bind_any [keeps_rules]: "keeps P m (\<lambda>_. True) \<Longrightarrow> (\<And>x. keeps P (f x) S) \<Longrightarrow> keeps P (bindC m f) S"
  by (rule keeps_bind)

lemma keeps_lift [keeps_rules]: "(\<And>x. r = Inr x \<Longrightarrow> Q x) \<Longrightarrow> keeps P (liftC r) Q"
  by (simp add: keeps_def liftC_def)

lemma keeps_fail [keeps_rules]: "keeps P (failC err) Q"
  by (simp add: keeps_def liftC_def failC_def)

lemma keeps_get: "(\<And>b. P b \<Longrightarrow> Q (f b)) \<Longrightarrow> keeps P (getC f) Q"
  by (simp add: keeps_def getC_def)

lemma keeps_get_any [keeps_rules]: "keeps P (getC f) (\<lambda>_. True)"
  by (simp add: keeps_def getC_def)

lemma keeps_modify: "(\<And>b. P b \<Longrightarrow> P (f b)) \<Longrightarrow> keeps P (modifyC f) (\<lambda>_. True)"
  by (simp add: keeps_def modifyC_def)

lemma keeps_onError [keeps_rules]: "keeps P m Q \<Longrightarrow> (\<And>err. keeps P (h err) (\<lambda>_. True)) \<Longrightarrow> keeps P (onError h m) Q"
  unfolding keeps_def
proof (intro allI impI)
  fix b
  assume m: "\<forall>b. P b \<longrightarrow> P (snd (m b)) \<and> (\<forall>x. fst (m b) = Inr x \<longrightarrow> Q x)"
    and h: "\<And>err. \<forall>b. P b \<longrightarrow> P (snd (h err b)) \<and> (\<forall>x. fst (h err b) = Inr x \<longrightarrow> True)" and "P b"
  obtain r b' where r: "m b = (r, b')" by force
  with m \<open>P b\<close> have b': "P b'" and q: "\<forall>x. r = Inr x \<longrightarrow> Q x" by fastforce+
  obtain r2 b2 where h2: "h (projl r) b' = (r2, b2)" by force
  with h b' have "P b2" by (metis snd_conv)
  with r h2 b' q show "P (snd (onError h m b)) \<and> (\<forall>x. fst (onError h m b) = Inr x \<longrightarrow> Q x)"
    by (cases r; cases r2) (auto simp: onError_def)
qed

lemma keeps_fold [keeps_rules]: "(\<And>x. keeps P (f x) (\<lambda>_. True)) \<Longrightarrow> keeps P (foldC f xs) (\<lambda>_. True)"
  by (induction xs) (auto intro!: keeps_rules)

lemma keeps_if [keeps_rules]: "(c \<Longrightarrow> keeps P m Q) \<Longrightarrow> (\<not> c \<Longrightarrow> keeps P m' Q) \<Longrightarrow> keeps P (if c then m else m') Q"
  by simp

lemma keeps_prod [keeps_rules]: "(\<And>a c. x = (a, c) \<Longrightarrow> keeps P (f a c) Q) \<Longrightarrow> keeps P (case x of (a, c) \<Rightarrow> f a c) Q"
  by (cases x) simp

lemma keeps_weaken: "keeps P m Q \<Longrightarrow> (\<And>x. Q x \<Longrightarrow> S x) \<Longrightarrow> keeps P m S"
  by (auto simp: keeps_def)

lemma bindC_get [simp]: "bindC (getC f) g b = g (f b) b"
  by (simp add: bindC_def getC_def)

lemma failC_apply [simp]: "failC err b = (Inl err, b)"
  by (simp add: failC_def liftC_def)

lemma bindC_lift [simp]: "bindC (liftC (Inr x)) f = f x"
  by (simp add: bindC_def liftC_def fun_eq_iff)

section \<open>The core of the chain\<close>

text \<open>The caches, the checkpoint, the statuses and works of the nodes and the stored nodes and blocks are not in the core.\<close>

definition same_core :: "BlockChain \<Rightarrow> BlockChain \<Rightarrow> bool" where
  "same_core b b' \<longleftrightarrow> bc_db b' = bc_db b \<and> bi_index (bc_Index b') = bi_index (bc_Index b) \<and> bc_BestChain b' = bc_BestChain b
     \<and> bc_stateSnapshot b' = bc_stateSnapshot b \<and> bc_orphans b' = bc_orphans b \<and> bc_prevOrphans b' = bc_prevOrphans b
     \<and> bc_oldestOrphan b' = bc_oldestOrphan b"

definition quiet :: "'a onChain \<Rightarrow> bool" where
  "quiet m \<longleftrightarrow> (\<forall>b. same_core b (snd (m b)))"

named_theorems quiet_rules

lemma quiet_bind [quiet_rules]: "quiet m \<Longrightarrow> (\<And>x. quiet (f x)) \<Longrightarrow> quiet (bindC m f)"
  unfolding quiet_def bindC_def same_core_def by (auto split: prod.splits sum.splits) (metis snd_conv)+

lemma quiet_lift [quiet_rules]: "quiet (liftC r)" and quiet_get [quiet_rules]: "quiet (getC f)"
  by (simp_all add: quiet_def same_core_def liftC_def getC_def)

lemma quiet_ops [quiet_rules]:
  "quiet tipOf" "quiet (setFlags n fl)" "quiet flushToDB" "quiet (dbStoreBlock e blk)" "quiet (dbFetchBlockByNode n)"
  "quiet (deploymentStateB e pn i)" "quiet (withCaches m)" "quiet (warnUnknownRules e n)" "quiet (findPreviousCheckpoint e)"
  by (auto simp: quiet_def same_core_def tipOf_def setFlags_def modifyC_def bi_SetStatusFlags_def flushToDB_def dbStoreBlock_def
       dbFetchBlockByNode_def deploymentStateB_def withCaches_def warnUnknownRules_def findPreviousCheckpoint_def Let_def
       split: prod.splits option.splits sum.splits)

lemma quiet_isCurrent [quiet_rules]: "quiet (isCurrent e)"
  unfolding isCurrent_def Let_def by (auto intro!: quiet_rules)

lemma quiet_context: "quiet (checkBlockContext e blk pn fl)"
proof -
  have "quiet (checkBlockHeaderContext e h p fl)" for h p
    unfolding checkBlockHeaderContext_def Let_def by (cases p) (auto intro!: quiet_rules)
  then show ?thesis unfolding checkBlockContext_def Let_def by (auto intro!: quiet_rules)
qed

section \<open>Accepting a block keeps what connecting and disconnecting keep\<close>

lemma attachWalk_ok:
  assumes up: "\<And>m p. ok m \<Longrightarrow> nd_parent m = Some p \<Longrightarrow> ok p"
    and "\<forall>m. n = Some m \<longrightarrow> ok m" and "\<forall>m \<in> set as. ok m"
  shows "\<forall>m \<in> set (fst (attachWalk bi f n as)). ok m"
  using assms(2-)
proof (induction bi f n as rule: attachWalk.induct)
  case (1 bi f n as)
  show ?case
  proof (cases n)
    case (Some m)
    have "\<forall>x \<in> set (fst (attachWalk bi f (nd_parent m) (m # as))). ok x"
      if "Some m \<noteq> f" "\<not> KnownInvalid (bi_NodeStatus bi m)"
      by (rule "1.IH"[OF Some that]) (use Some "1.prems" up in auto)
    then show ?thesis using Some "1.prems"(2) by (subst attachWalk.simps) simp
  qed (use "1.prems"(2) in \<open>simp add: attachWalk.simps\<close>)
qed

lemma detachWalk_ok:
  assumes up: "\<And>m p. ok m \<Longrightarrow> nd_parent m = Some p \<Longrightarrow> ok p" and "\<forall>m. n = Some m \<longrightarrow> ok m"
  shows "\<forall>m \<in> set (detachWalk f n). ok m"
  using assms(2-)
proof (induction f n rule: detachWalk.induct)
  case (1 f n)
  show ?case
  proof (cases n)
    case (Some m)
    have "\<forall>x \<in> set (detachWalk f (nd_parent m)). ok x" if "Some m \<noteq> f"
      by (rule "1.IH"[OF Some that]) (use Some "1.prems" up in auto)
    then show ?thesis using Some "1.prems" by (subst detachWalk.simps) simp
  qed (simp add: detachWalk.simps)
qed

locale chain_invariant =
  fixes P :: "BlockChain \<Rightarrow> bool" and ok :: "BlockNode \<Rightarrow> bool"
  assumes core: "P b \<Longrightarrow> same_core b b' \<Longrightarrow> P b'"
    and tip_ok: "P b \<Longrightarrow> cv_tip (bc_BestChain b) = Some n \<Longrightarrow> ok n"
    and parent_ok: "ok n \<Longrightarrow> nd_parent n = Some p \<Longrightarrow> ok p"
    and connect: "P b \<Longrightarrow> ok n \<Longrightarrow> P (snd (connectBlock e n blk view stxos b))"
    and disconnect: "P b \<Longrightarrow> ok n \<Longrightarrow> P (snd (disconnectBlock e n blk view b))"
begin

lemma keeps_quiet: "quiet m \<Longrightarrow> keeps P m (\<lambda>_. True)"
  using core by (auto simp: keeps_def quiet_def)

lemma keeps_connect: "ok n \<Longrightarrow> keeps P (connectBlock e n blk view stxos) (\<lambda>_. True)"
  and keeps_disconnect: "ok n \<Longrightarrow> keeps P (disconnectBlock e n blk view) (\<lambda>_. True)"
  using connect disconnect by (auto simp: keeps_def)

lemmas rules = keeps_rules quiet_ops[THEN keeps_quiet] quiet_isCurrent[THEN keeps_quiet] keeps_connect keeps_disconnect

lemma keeps_nodes:
  assumes "ok node"
  shows "keeps P (getReorganizeNodes node) (\<lambda>(det, att). (\<forall>n \<in> set det. ok n) \<and> (\<forall>n \<in> set att. ok n))"
proof (cases "nd_parent node")
  case (Some p)
  let ?S = "\<lambda>(det, att). (\<forall>n \<in> set det. ok n) \<and> (\<forall>n \<in> set att. ok n)"
  have det: "\<forall>m \<in> set (detachWalk f (cv_tip c)). ok m" if "\<forall>n. cv_tip c = Some n \<longrightarrow> ok n" for c f
    using detachWalk_ok[of ok, OF parent_ok that] .
  have att: "\<forall>m \<in> set (fst (attachWalk bi f (Some node) [])). ok m" for bi f
    by (rule attachWalk_ok[of ok, OF parent_ok]) (use assms in auto)
  have tip: "keeps P (getC bc_BestChain) (\<lambda>c. \<forall>n. cv_tip c = Some n \<longrightarrow> ok n)"
    using tip_ok by (blast intro: keeps_get)
  have walk: "keeps P (case attachWalk bi (cv_findFork c (Some node)) (Some node) [] of (a, i) \<Rightarrow>
       if i then bindC (foldC (\<lambda>n. setFlags n statusInvalidAncestor) a) (\<lambda>_. liftC (Inr ([], [])))
       else liftC (Inr (detachWalk (cv_findFork c (Some node)) (cv_tip c), a))) ?S" if "\<forall>n. cv_tip c = Some n \<longrightarrow> ok n" for bi c
  proof (cases "attachWalk bi (cv_findFork c (Some node)) (Some node) []")
    case (Pair a i)
    with att[of bi "cv_findFork c (Some node)"] det[OF that] show ?thesis
      by (cases i) (auto intro!: keeps_bind[OF keeps_fold[OF quiet_ops(2)[THEN keeps_quiet]]] keeps_lift)
  qed
  show ?thesis
    unfolding getReorganizeNodes_def Let_def Some option.case
    by (intro keeps_bind[OF keeps_get_any] keeps_if keeps_bind[OF tip walk] keeps_bind[OF quiet_ops(2)[THEN keeps_quiet]] keeps_lift) auto
qed (simp add: getReorganizeNodes_def keeps_fail)

lemma keeps_detachCheck: "\<forall>n \<in> set ns. ok n \<Longrightarrow> keeps P (detachCheck e ns view) (\<lambda>(v, ds). \<forall>d \<in> set ds. ok (fst d))"
proof (induction ns arbitrary: view)
  case (Cons n ns)
  then have ih: "keeps P (detachCheck e ns v) (\<lambda>(v, ds). \<forall>d \<in> set ds. ok (fst d))" for v by simp
  have last: "keeps P (bindC (detachCheck e ns v) (\<lambda>(v', rest). liftC (Inr (v', (n, blk, stxos) # rest)))) (\<lambda>(v, ds). \<forall>d \<in> set ds. ok (fst d))"
    for v blk stxos by (intro keeps_bind[OF ih] keeps_prod keeps_lift) (use Cons.prems in auto)
  show ?case unfolding detachCheck.simps by (intro last rules TrueI)
qed (auto intro: keeps_lift)

lemma keeps_attachCheck: "\<forall>n \<in> set ns. ok n \<Longrightarrow> keeps P (attachCheck e ns view) (\<lambda>as. \<forall>a \<in> set as. ok (fst a))"
proof (induction ns arbitrary: view)
  case (Cons n ns)
  then have ih: "keeps P (attachCheck e ns v) (\<lambda>as. \<forall>a \<in> set as. ok (fst a))" for v by simp
  have last: "keeps P (bindC (attachCheck e ns v) (\<lambda>rest. liftC (Inr ((n, blk) # rest)))) (\<lambda>as. \<forall>a \<in> set as. ok (fst a))"
    for v blk by (intro keeps_bind[OF ih] keeps_lift) (use Cons.prems in auto)
  show ?case unfolding attachCheck.simps by (intro last rules TrueI)
qed (auto intro: keeps_lift)

lemma keeps_detachAll: "\<forall>d \<in> set ds. ok (fst d) \<Longrightarrow> keeps P (detachAll e ds view) (\<lambda>_. True)"
proof (induction e ds view rule: detachAll.induct)
  case (2 e n blk stxos rest view)
  then have ih: "keeps P (detachAll e rest v) (\<lambda>_. True)" for v by simp
  show ?case unfolding detachAll.simps by (intro rules ih TrueI) (use "2.prems" in simp)
qed (simp add: keeps_lift)

lemma keeps_attachAll: "\<forall>a \<in> set as. ok (fst a) \<Longrightarrow> keeps P (attachAll e as view) (\<lambda>_. True)"
proof (induction e as view rule: attachAll.induct)
  case (2 e n blk rest view)
  then have ih: "keeps P (attachAll e rest v) (\<lambda>_. True)" for v by simp
  show ?case unfolding attachAll.simps by (intro rules ih TrueI) (use "2.prems" in simp)
qed (simp add: keeps_lift)

lemma keeps_reorganize:
  assumes "\<forall>n \<in> set det. ok n" and "\<forall>n \<in> set att. ok n"
  shows "keeps P (reorganizeChain e det att) (\<lambda>_. True)"
proof -
  have second: "keeps P (bindC (attachCheck e att view) (\<lambda>as. bindC (detachAll e ds v0) (\<lambda>v1. bindC (attachAll e as v1) (\<lambda>_. liftC (Inr ())))))
      (\<lambda>_. True)" if "\<forall>d \<in> set ds. ok (fst d)" for view ds v0
    by (intro keeps_bind[OF keeps_attachCheck] keeps_bind[OF keeps_detachAll] keeps_bind[OF keeps_attachAll] keeps_lift that assms TrueI)
  have first: "keeps P (bindC (detachCheck e det v0) (\<lambda>(view, ds). bindC (attachCheck e att view) (\<lambda>as.
      bindC (detachAll e ds v0) (\<lambda>v1. bindC (attachAll e as v1) (\<lambda>_. liftC (Inr ())))))) (\<lambda>_. True)" for v0
    by (intro keeps_bind[OF keeps_detachCheck]) (use assms second in auto)
  show ?thesis
    unfolding reorganizeChain_def
    by (intro keeps_if keeps_bind[OF keeps_lift] keeps_bind[OF quiet_ops(1)[THEN keeps_quiet]] first keeps_lift TrueI)
qed

lemma keeps_connectBestChain:
  assumes "ok node"
  shows "keeps P (connectBestChain e node blk fl) (\<lambda>_. True)"
proof -
  have side: "keeps P (bindC (getC bc_Index) (\<lambda>bi. case causesReorganize node tip (bi_fields bi) of
      Inl err \<Rightarrow> failC err
    | Inr (heavier, nf) \<Rightarrow>
        bindC (modifyC (\<lambda>b. b\<lparr>bc_Index := (bc_Index b)\<lparr>bi_fields := nf\<rparr>\<rparr>)) (\<lambda>_.
        if \<not> heavier then bindC (getC bc_BestChain) (\<lambda>c. case cv_findFork c (Some node) of None \<Rightarrow> failC GoPanic | Some _ \<Rightarrow> liftC (Inr False))
        else bindC (getReorganizeNodes node) (\<lambda>(detachNodes, attachNodes).
             bindC (onError (\<lambda>_. flushToDB) (reorganizeChain e detachNodes attachNodes)) (\<lambda>_. bindC flushToDB (\<lambda>_. liftC (Inr True))))))) (\<lambda>_. True)" for tip
  proof -
    have fields: "keeps P (modifyC (\<lambda>b. b\<lparr>bc_Index := (bc_Index b)\<lparr>bi_fields := nf\<rparr>\<rparr>)) (\<lambda>_. True)" for nf
      by (rule keeps_quiet) (simp add: quiet_def same_core_def modifyC_def)
    have reorg: "keeps P (case x of (det, att) \<Rightarrow>
        bindC (onError (\<lambda>_. flushToDB) (reorganizeChain e det att)) (\<lambda>_. bindC flushToDB (\<lambda>_. liftC (Inr True)))) (\<lambda>_. True)"
      if "case x of (det, att) \<Rightarrow> (\<forall>n \<in> set det. ok n) \<and> (\<forall>n \<in> set att. ok n)" for x
      using that
      by (cases x) (auto intro!: keeps_bind[OF keeps_onError[OF keeps_reorganize quiet_ops(3)[THEN keeps_quiet]]]
           keeps_bind[OF quiet_ops(3)[THEN keeps_quiet]] keeps_lift)
    show ?thesis
      by (auto intro!: keeps_bind[OF keeps_get_any] keeps_bind[OF fields] keeps_if keeps_bind[OF keeps_nodes[OF assms] reorg]
           keeps_fail keeps_lift split: sum.split option.split)
  qed
  show ?thesis
    unfolding connectBestChain_def Let_def
    by (rule keeps_bind[OF quiet_ops(1)[THEN keeps_quiet]], rule keeps_if)
      (intro rules assms TrueI, rule side)
qed

end

text \<open>A second property that adding a node to the index establishes.\<close>

locale accepting = chain_invariant P ok for P ok +
  fixes P0 :: "BlockChain \<Rightarrow> bool" and okp :: "BlockNode \<Rightarrow> bool"
  assumes weaken: "P0 b \<Longrightarrow> P b"
    and core0: "P0 b \<Longrightarrow> same_core b b' \<Longrightarrow> P0 b'"
    and lookup: "P0 b \<Longrightarrow> bi_LookupNode (bc_Index b) h = Some p \<Longrightarrow> okp p"
    and add: "P0 b \<Longrightarrow> okp p \<Longrightarrow> P (snd (addNewNode e header p b))"
    and added: "okp p \<Longrightarrow> fst (addNewNode e header p b) = Inr n \<Longrightarrow> ok n"
begin

lemma maybeAccept:
  assumes "P0 b"
  shows "P (snd (maybeAcceptBlock e blk fl b))"
proof (cases "bi_LookupNode (bc_Index b) (bh_PrevBlock (Header blk))")
  case (Some p)
  let ?blk = "blk\<lparr>blockHeightOf := s32 (nd_height p + 1)\<rparr>"
  let ?ctx = "if previousOfAlgo e (bh_Version (Header blk)) p \<noteq> None then checkBlockContext e ?blk p fl else liftC (Inr ())"
  let ?rest = "bindC (addNewNode e (Header blk) p) (\<lambda>newNode. bindC flushToDB (\<lambda>_. connectBestChain e newNode ?blk fl))"
  have okp: "okp p" using lookup[OF assms Some] .
  have rest: "P (snd (?rest b'))" if "P0 b'" for b'
  proof -
    obtain n b2 where n: "addNewNode e (Header blk) p b' = (Inr n, b2)"
      by (cases "NewBlockNode (cn_sha (env_cn e)) (Header blk) (Some p) (bi_fields (bc_Index b'))") (simp add: addNewNode_def)
    then have "P b2" "ok n" using add[OF that okp, of e "Header blk"] added[OF okp, of e "Header blk" b' n] by auto
    then have "P (snd (bindC flushToDB (\<lambda>_. connectBestChain e n ?blk fl) b2))"
      by (intro keepsD[of P _ "\<lambda>_. True"] keeps_bind[OF quiet_ops(3)[THEN keeps_quiet]] keeps_connectBestChain)
    then show ?thesis by (simp add: bindC_def n)
  qed
  have "quiet ?ctx" by (simp add: quiet_context quiet_lift)
  have pre: "P (snd (bindC m f b'))" if "quiet m" "P0 b'" "\<And>x b'. P0 b' \<Longrightarrow> P (snd (f x b'))" for m :: "unit onChain" and f :: "unit \<Rightarrow> bool onChain" and b'
    using that core0[of b' "snd (m b')"] weaken by (auto simp: bindC_def quiet_def split: prod.splits sum.splits)
  have "P (snd (bindC ?ctx (\<lambda>_. bindC (dbStoreBlock e ?blk) (\<lambda>_. ?rest)) b))"
    by (intro pre rest assms quiet_ops \<open>quiet ?ctx\<close>)
  then show ?thesis using weaken[OF assms] Some
    by (simp add: maybeAcceptBlock_def Let_def)
qed (use weaken[OF assms] in \<open>simp add: maybeAcceptBlock_def\<close>)

end

section \<open>Accepting a block does not touch the pool of orphans\<close>

definition pool :: "BlockChain \<Rightarrow> (bytes \<times> orphanBlock) list \<times> (bytes \<times> orphanBlock list) list \<times> orphanBlock option" where
  "pool b = (bc_orphans b, bc_prevOrphans b, bc_oldestOrphan b)"

text \<open>The end of \<open>connectBlock\<close> and of \<open>disconnectBlock\<close>: the database, the tip, the snapshot.\<close>

definition moveTip :: "(DB \<Rightarrow> DB cres) \<Rightarrow> BlockNode \<Rightarrow> BestState \<Rightarrow> UtxoViewpoint \<Rightarrow> UtxoViewpoint onChain" where
  "moveTip f node state view =
     bindC (updateDB f) (\<lambda>_. bindC (setTipB (Some node)) (\<lambda>_. bindC (modifyC (\<lambda>b. b\<lparr>bc_stateSnapshot := state\<rparr>)) (\<lambda>_. liftC (Inr (commit view)))))"

text \<open>The serialized best state of a snapshot.\<close>

definition storedBest :: "BestState \<Rightarrow> int \<Rightarrow> bytes" where
  "storedBest state w = serializeBestChainState
     \<lparr>bcs_hash = bs_Hash state, bcs_height = word_of_int (bs_Height state), bcs_totalTxns = bs_TotalTxns state, bcs_workSum = w\<rparr>"

lemma chainState_puts:
  "dbPutBestState state workSum db = Inr db' \<Longrightarrow> \<exists>w. chainState db' = Some (storedBest state w)"
  "dbPutUtxoView ps view db = Inr db' \<Longrightarrow> chainState db' = chainState db"
  "chainState (dbPutBlockIndex h i db) = chainState db" "chainState (dbRemoveBlockIndex h i db) = chainState db"
  "chainState (dbPutSpendJournalEntry ps h stxos db) = chainState db" "chainState (dbRemoveSpendJournalEntry h db) = chainState db"
  by (auto simp: dbPutBestState_def storedBest_def dbPutUtxoView_def bindE_eq_Inr dbPutBlockIndex_def dbRemoveBlockIndex_def
       dbPutSpendJournalEntry_def dbRemoveSpendJournalEntry_def Let_def split: option.splits)

text \<open>Connecting and disconnecting change only caches before they move the tip.\<close>

lemma connect_moveTip:
  assumes core: "\<And>b b'. P b \<Longrightarrow> same_core b b' \<Longrightarrow> P b'"
    and move: "\<And>f state view. (\<forall>db db'. f db = Inr db' \<longrightarrow> (\<exists>w. chainState db' = Some (storedBest state w)))
       \<Longrightarrow> (\<exists>s w t n. state = newBestState node s w t n (CalcPastMedianTime node)) \<Longrightarrow> keeps P (moveTip f node state view) (\<lambda>_. True)"
  shows "keeps P (connectBlock e node blk view stxos) (\<lambda>_. True)"
proof -
  have q: "quiet m \<Longrightarrow> keeps P m (\<lambda>_. True)" for m :: "'x onChain"
    using core by (auto simp: keeps_def quiet_def)
  have db: "\<exists>w. chainState db' = Some (storedBest state w)"
    if "bindE (dbPutBestState state workSum db) (\<lambda>db1. bindE (dbPutUtxoView ps view (dbPutBlockIndex h i db1)) (\<lambda>db2. Inr (dbPutSpendJournalEntry ps h stxos db2))) = Inr db'"
    for state workSum db db' ps h i
    using that by (auto simp: bindE_eq_Inr chainState_puts(3-) dest!: chainState_puts(1,2))
  show ?thesis
    unfolding connectBlock_def Let_def moveTip_def[symmetric]
    by (intro keeps_bind[OF q[OF quiet_ops(1)]] keeps_if keeps_fail keeps_bind[OF keeps_lift] keeps_bind[OF q[OF quiet_isCurrent]]
         keeps_bind[OF keeps_if[OF q[OF quiet_ops(8)] keeps_lift]] keeps_bind[OF q[OF quiet_ops(3)]] keeps_bind[OF keeps_get_any] move allI impI db TrueI)
      (assumption | blast)+
qed

lemma disconnect_moveTip:
  assumes core: "\<And>b b'. P b \<Longrightarrow> same_core b b' \<Longrightarrow> P b'"
    and move: "\<And>f p state view. nd_parent node = Some p \<Longrightarrow> (\<forall>db db'. f db = Inr db' \<longrightarrow> (\<exists>w. chainState db' = Some (storedBest state w)))
       \<Longrightarrow> (\<exists>s w t n. state = newBestState p s w t n (CalcPastMedianTime p)) \<Longrightarrow> keeps P (moveTip f p state view) (\<lambda>_. True)"
  shows "keeps P (disconnectBlock e node blk view) (\<lambda>_. True)"
proof (cases "nd_parent node")
  case None
  have q: "quiet m \<Longrightarrow> keeps P m (\<lambda>_. True)" for m :: "'x onChain"
    using core by (auto simp: keeps_def quiet_def)
  show ?thesis unfolding disconnectBlock_def None option.case
    by (intro keeps_bind[OF q[OF quiet_ops(1)]] keeps_if keeps_fail)
next
  case (Some p)
  have q: "quiet m \<Longrightarrow> keeps P m (\<lambda>_. True)" for m :: "'x onChain"
    using core by (auto simp: keeps_def quiet_def)
  have db: "\<exists>w. chainState db' = Some (storedBest state w)"
    if "bindE (dbPutBestState state workSum db) (\<lambda>db1. bindE (dbPutUtxoView ps view (dbRemoveBlockIndex h i db1)) (\<lambda>db2.
          bindE (dbFetchSpendJournalEntry sh ps db2 blk) (\<lambda>_. Inr (dbRemoveSpendJournalEntry h db2)))) = Inr db'"
    for state workSum db db' ps sh h i
    using that by (auto simp: bindE_eq_Inr chainState_puts(3-) dest!: chainState_puts(1,2))
  show ?thesis
    unfolding disconnectBlock_def Let_def moveTip_def[symmetric] Some option.case
    by (intro keeps_bind[OF q[OF quiet_ops(1)]] keeps_if keeps_fail keeps_bind[OF q[OF quiet_ops(5)]]
         keeps_bind[OF q[OF quiet_ops(3)]] keeps_bind[OF keeps_get_any] move[OF Some] allI impI db TrueI)
      (assumption | blast)+
qed

lemma moveTip_pool: "keeps (\<lambda>b. pool b = q) (moveTip f node state view) (\<lambda>_. True)"
  unfolding keeps_def moveTip_def
  by (auto simp: bindC_def updateDB_def setTipB_def modifyC_def liftC_def pool_def split: sum.splits prod.splits)

lemma pool_core: "pool b = q \<Longrightarrow> same_core b b' \<Longrightarrow> pool b' = q"
  by (simp add: pool_def same_core_def)

interpretation pool: accepting "\<lambda>b. pool b = q" "\<lambda>_. True" "\<lambda>b. pool b = q" "\<lambda>_. True" for q
proof unfold_locales
  fix b b' assume "pool b = q" "same_core b b'" then show "pool b' = q" by (rule pool_core)
next
  fix b n e blk view stxos assume "pool b = q"
  then show "pool (snd (connectBlock e n blk view stxos b)) = q"
    by (rule keepsD[OF connect_moveTip, rotated 2]) (auto intro: moveTip_pool pool_core)
next
  fix b n e blk view assume "pool b = q"
  then show "pool (snd (disconnectBlock e n blk view b)) = q"
    by (rule keepsD[OF disconnect_moveTip, rotated 2]) (auto intro: moveTip_pool pool_core)
next
  fix b p e header assume "pool b = q"
  then show "pool (snd (addNewNode e header p b)) = q" by (simp add: addNewNode_def pool_def split: prod.splits)
qed auto

section \<open>The main chain\<close>

definition describes :: "BestState \<Rightarrow> BlockNode \<Rightarrow> bool" where
  "describes state t \<longleftrightarrow> bs_Hash state = nd_hash t \<and> bs_Height state = nd_height t \<and> bs_Version state = nd_version t
     \<and> bs_Bits state = nd_bits t \<and> bs_MedianTime state = CalcPastMedianTime t"

text \<open>The view, the snapshot and the stored best state are those of one tip.\<close>

definition consistent :: "BlockChain \<Rightarrow> bool" where
  "consistent b \<longleftrightarrow> (\<exists>t w. wf_node t \<and> bc_BestChain b = view_of (Some t) \<and> describes (bc_stateSnapshot b) t
     \<and> chainState (bc_db b) = Some (storedBest (bc_stateSnapshot b) w))"

text \<open>With \<open>k\<close> more blocks on any of them, the heights of the nodes still fit.\<close>

definition main_ok :: "nat \<Rightarrow> BlockChain \<Rightarrow> bool" where
  "main_ok k b \<longleftrightarrow> consistent b
     \<and> (\<forall>h n. bi_index (bc_Index b) h = Some n \<longrightarrow> wf_node n \<and> length (chainOf n) + k < 2 ^ 31 - 1)"

lemma tip_view: "cv_tip (view_of (Some t)) = Some t"
proof -
  have "cv_tip (view_of (Some t)) = last (view_of (Some t))" by (simp add: cv_tip_def view_of_def last_conv_nth)
  then show ?thesis by (simp add: view_of_def last_map)
qed

lemma main_ok_core: "main_ok k b \<Longrightarrow> same_core b b' \<Longrightarrow> main_ok k b'"
  by (simp add: main_ok_def consistent_def same_core_def)

lemma main_ok_mono: "main_ok k b \<Longrightarrow> j \<le> k \<Longrightarrow> main_ok j b"
  by (fastforce simp: main_ok_def)

lemma moveTip_main:
  assumes "wf_node n" and f: "\<forall>db db'. f db = Inr db' \<longrightarrow> (\<exists>w. chainState db' = Some (storedBest state w))"
    and "\<exists>s w t m. state = newBestState n s w t m (CalcPastMedianTime n)"
  shows "keeps (main_ok k) (moveTip f n state view) (\<lambda>_. True)"
proof -
  have "main_ok k (snd (moveTip f n state view b))" if b: "main_ok k b" for b
  proof (cases "f (bc_db b)")
    case (Inr db')
    from b obtain t where t: "wf_node t" "bc_BestChain b = view_of (Some t)" by (auto simp: main_ok_def consistent_def)
    with assms(1) have "cv_setTip (Some n) (bc_BestChain b) = Inr (view_of (Some n))"
      using setTip_view[of "Some t" "Some n"] by (simp add: wf_tip_def)
    with Inr have m: "snd (moveTip f n state view b) = b\<lparr>bc_db := db', bc_BestChain := view_of (Some n), bc_stateSnapshot := state\<rparr>"
      by (simp add: moveTip_def bindC_def updateDB_def setTipB_def modifyC_def liftC_def)
    have "describes state n" using assms(3) by (auto simp: describes_def newBestState_def)
    with b f[rule_format, OF Inr] assms(1) show ?thesis by (auto simp: m main_ok_def consistent_def)
  qed (simp add: b moveTip_def bindC_def updateDB_def)
  then show ?thesis by (simp add: keeps_def)
qed

lemma connect_main:
  assumes "wf_node n"
  shows "keeps (main_ok k) (connectBlock e n blk view stxos) (\<lambda>_. True)"
proof (rule connect_moveTip)
  show "main_ok k b \<Longrightarrow> same_core b b' \<Longrightarrow> main_ok k b'" for b b' by (rule main_ok_core)
qed (use moveTip_main[OF assms] in blast)

lemma disconnect_main:
  assumes "wf_node n"
  shows "keeps (main_ok k) (disconnectBlock e n blk view) (\<lambda>_. True)"
proof (rule disconnect_moveTip)
  show "main_ok k b \<Longrightarrow> same_core b b' \<Longrightarrow> main_ok k b'" for b b' by (rule main_ok_core)
qed (use moveTip_main wf_parent[OF assms] in blast)

lemma wf_child:
  assumes "wf_node p" and "nd_parent n = Some p" and "nd_height n = s32 (nd_height p + 1)" and "length (chainOf p) + 1 < 2 ^ 31 - 1"
  shows "wf_node n"
proof -
  have "nd_height n = int (length (chainOf p))" using assms(1,3,4) wf_height[OF assms(1)] by simp
  then show ?thesis
    using assms(1,4) by (auto simp: wf_node_def chainOf_Some[OF assms(2)] nth_append less_Suc_eq)
qed

lemma addNewNode_Inr: "\<exists>n. fst (addNewNode e header p b) = Inr n"
  by (simp add: addNewNode_def case_prod_beta Let_def)

lemma addNewNode_node:
  assumes "fst (addNewNode e header p b) = Inr n"
  shows "nd_parent n = Some p" "nd_height n = s32 (nd_height p + 1)"
    "bi_index (bc_Index (snd (addNewNode e header p b))) = (bi_index (bc_Index b))(nd_hash n \<mapsto> n)"
    "consistent (snd (addNewNode e header p b)) = consistent b"
  using assms by (auto simp: addNewNode_def NewBlockNode_def Let_def bi_AddNode_def bi_addNode_def consistent_def)

interpretation main: accepting "main_ok k" wf_node "main_ok (Suc k)" "\<lambda>p. wf_node p \<and> length (chainOf p) + Suc k < 2 ^ 31 - 1" for k
proof unfold_locales
  fix b n assume "main_ok k b" "cv_tip (bc_BestChain b) = Some n"
  then show "wf_node n" by (auto simp: main_ok_def consistent_def tip_view)
next
  fix b n e blk view stxos assume "main_ok k b" "wf_node n"
  then show "main_ok k (snd (connectBlock e n blk view stxos b))"
    using keepsD[OF connect_main] by blast
next
  fix b n e blk view assume "main_ok k b" "wf_node n"
  then show "main_ok k (snd (disconnectBlock e n blk view b))"
    using keepsD[OF disconnect_main] by blast
next
  fix b p e header assume b: "main_ok (Suc k) b" and p: "wf_node p \<and> length (chainOf p) + Suc k < 2 ^ 31 - 1"
  obtain n where n: "fst (addNewNode e header p b) = Inr n" using addNewNode_Inr by blast
  have "wf_node n" by (rule wf_child[of p]) (use p addNewNode_node(1,2)[OF n] in auto)
  moreover have "length (chainOf n) + k < 2 ^ 31 - 1" using p by (simp add: chainOf_Some[OF addNewNode_node(1)[OF n]])
  ultimately show "main_ok k (snd (addNewNode e header p b))"
    using main_ok_mono[OF b, of k] by (auto simp: main_ok_def addNewNode_node(3,4)[OF n])
next
  fix p e header b n assume p: "wf_node p \<and> length (chainOf p) + Suc k < 2 ^ 31 - 1" and n: "fst (addNewNode e header p b) = Inr n"
  show "wf_node n" by (rule wf_child[of p]) (use p addNewNode_node(1,2)[OF n] in auto)
next
  fix b b' assume "main_ok k b" "same_core b b'" then show "main_ok k b'" by (rule main_ok_core)
next
  fix b b' assume "main_ok (Suc k) b" "same_core b b'" then show "main_ok (Suc k) b'" by (rule main_ok_core)
next
  fix b assume "main_ok (Suc k) b" then show "main_ok k b" by (rule main_ok_mono) simp
next
  fix b h p assume "main_ok (Suc k) b" "bi_LookupNode (bc_Index b) h = Some p"
  then show "wf_node p \<and> length (chainOf p) + Suc k < 2 ^ 31 - 1" by (auto simp: main_ok_def bi_LookupNode_def)
qed (auto dest: wf_parent)

end
