(* ===== verification/ChainRun.thy ===== *)
theory ChainRun
  imports ChainInvariant ChainSupply
begin

text \<open>
  Sequences of blocks offered to the chain, each with its own clock: \<open>ProcessBlock\<close> returns every time, the pool of orphans is bounded, and the main chain stays
  consistent. What a block is checked against when it is accepted.
\<close>

section \<open>Counting the orphans\<close>

definition entries :: "('a \<times> 'b list) list \<Rightarrow> nat" where
  "entries m = sum_list (map (length \<circ> snd) m)"

lemma entries_update:
  "distinct (map fst m) \<Longrightarrow> entries (AList.update k v m) + (case map_of m k of None \<Rightarrow> 0 | Some w \<Rightarrow> length w) = entries m + length v"
  by (induction m) (auto simp: entries_def)

lemma entries_delete:
  "distinct (map fst m) \<Longrightarrow> entries (AList.delete k m) + (case map_of m k of None \<Rightarrow> 0 | Some w \<Rightarrow> length w) = entries m"
proof (induction m)
  case (Cons a m)
  have "AList.delete k m = m" if "k \<notin> fst ` set m" using that by (induction m) auto
  with Cons show ?case by (auto simp: entries_def delete_simps)
qed (simp add: entries_def)

definition listed :: "(bytes \<times> orphanBlock list) list \<Rightarrow> bytes \<Rightarrow> orphanBlock list" where
  "listed m h = (case map_of m h of None \<Rightarrow> [] | Some xs \<Rightarrow> xs)"

abbreviation waiting :: "BlockChain \<Rightarrow> nat" where "waiting b \<equiv> entries (bc_prevOrphans b)"

abbreviation parentHash :: "orphanBlock \<Rightarrow> bytes" where "parentHash x \<equiv> bh_PrevBlock (Header (ob_block x))"

text \<open>Every orphan is listed under the hash of its parent.\<close>

definition lists_ok :: "(bytes \<times> orphanBlock list) list \<Rightarrow> bool" where
  "lists_ok m \<longleftrightarrow> distinct (map fst m) \<and> (\<forall>h. \<forall>x \<in> set (listed m h). parentHash x = h)"

lemma listed_map:
  "listed (AList.update k xs m) h = (if h = k then xs else listed m h)"
  "listed (AList.delete k m) h = (if h = k then [] else listed m h)"
  by (simp_all add: listed_def update_conv' delete_conv')

lemma unlist_cases:
  fixes e x m
  defines "xs \<equiv> filter (\<lambda>y. hashOf e (ob_block y) \<noteq> hashOf e (ob_block x)) (listed m (parentHash x))"
  shows "unlistOrphan e x m = (if xs = [] then AList.delete (parentHash x) m else AList.update (parentHash x) xs m)"
  unfolding unlistOrphan_def Let_def xs_def listed_def length_0_conv ..

lemma listed_unlist:
  "listed (unlistOrphan e x m) h =
     (if h = parentHash x then filter (\<lambda>y. hashOf e (ob_block y) \<noteq> hashOf e (ob_block x)) (listed m h) else listed m h)"
  unfolding unlist_cases by (auto simp: listed_map)

lemma entries_unlist:
  assumes "lists_ok m"
  shows "entries (unlistOrphan e x m) + length (listed m (parentHash x)) = entries m + length (listed (unlistOrphan e x m) (parentHash x))"
proof -
  have "(case map_of m (parentHash x) of None \<Rightarrow> 0 | Some w \<Rightarrow> length w) = length (listed m (parentHash x))"
    by (simp add: listed_def split: option.split)
  then show ?thesis
    using entries_update[of m "parentHash x"] entries_delete[of m "parentHash x"] assms
    unfolding listed_unlist by (simp add: unlist_cases lists_ok_def)
qed

lemma unlist_ok:
  assumes "lists_ok m"
  shows "lists_ok (unlistOrphan e x m)" "entries (unlistOrphan e x m) \<le> entries m"
proof -
  have "distinct (map fst (unlistOrphan e x m))"
    unfolding unlist_cases using assms by (simp add: lists_ok_def distinct_update distinct_delete)
  with assms show "lists_ok (unlistOrphan e x m)" unfolding lists_ok_def listed_unlist by simp
  show "entries (unlistOrphan e x m) \<le> entries m"
    using entries_unlist[OF assms, of e x]
      length_filter_le[of "\<lambda>y. hashOf e (ob_block y) \<noteq> hashOf e (ob_block x)" "listed m (parentHash x)"]
    unfolding listed_unlist if_P[OF refl] by linarith
qed

lemma unlist_first:
  assumes "lists_ok m" and "map_of m h = Some (x # xs)"
  shows "entries (unlistOrphan e x m) < entries m"
proof -
  have l: "listed m h = x # xs" using assms(2) by (simp add: listed_def)
  then have h: "parentHash x = h" using assms(1) by (auto simp: lists_ok_def)
  have "length (listed (unlistOrphan e x m) h) < length (listed m h)"
    unfolding listed_unlist h l by (simp add: less_Suc_eq_le)
  then show ?thesis using entries_unlist[OF assms(1), of e x] unfolding h by simp
qed

lemma list_ok:
  assumes "lists_ok m"
  shows "lists_ok (listOrphan x m)" "entries (listOrphan x m) = Suc (entries m)"
proof -
  have eq: "listOrphan x m = AList.update (parentHash x) (listed m (parentHash x) @ [x]) m"
    unfolding listOrphan_def Let_def listed_def ..
  then have "listed (listOrphan x m) h = (if h = parentHash x then listed m h @ [x] else listed m h)" for h
    by (simp add: listed_map)
  with assms show "lists_ok (listOrphan x m)" by (simp add: lists_ok_def eq distinct_update)
  have "(case map_of m (parentHash x) of None \<Rightarrow> 0 | Some w \<Rightarrow> length w) = length (listed m (parentHash x))"
    by (simp add: listed_def split: option.split)
  then show "entries (listOrphan x m) = Suc (entries m)"
    using entries_update[of m "parentHash x" "listed m (parentHash x) @ [x]"] assms by (simp add: eq lists_ok_def)
qed

section \<open>The size of the pool\<close>

definition sized :: "environment \<Rightarrow> BlockChain \<Rightarrow> bool" where
  "sized e b \<longleftrightarrow> distinct (map fst (bc_orphans b)) \<and> (\<forall>(h, x) \<in> set (bc_orphans b). h = hashOf e (ob_block x))
     \<and> (length (bc_orphans b) \<le> maxOrphanBlocks
        \<or> length (bc_orphans b) = Suc maxOrphanBlocks \<and> bc_oldestOrphan b = None)"

lemma remove_orphans [simp]:
  "bc_prevOrphans (removeOrphanBlock e x b) = unlistOrphan e x (bc_prevOrphans b)"
  "bc_orphans (removeOrphanBlock e x b) = AList.delete (hashOf e (ob_block x)) (bc_orphans b)"
  "bc_oldestOrphan (removeOrphanBlock e x b) = bc_oldestOrphan b"
  by (simp_all add: removeOrphanBlock_def)

lemma delete_length: "length (AList.delete k m) \<le> length m"
  by (simp add: AList.delete_eq)

lemma delete_length_less: "k \<in> fst ` set m \<Longrightarrow> length (AList.delete k m) < length m"
  by (auto simp: AList.delete_eq intro: length_filter_less)

lemma delete_subset: "set (AList.delete k m) \<subseteq> set m"
  by (auto simp: AList.delete_eq)

lemma remove_sized: "sized e b \<Longrightarrow> sized e (removeOrphanBlock e x b)"
  using delete_length[of "hashOf e (ob_block x)" "bc_orphans b"] delete_subset[of "hashOf e (ob_block x)" "bc_orphans b"]
  by (auto simp: sized_def distinct_delete)

text \<open>An oldest orphan that is in the pool and has not expired.\<close>

definition oldest_in :: "environment \<Rightarrow> BlockChain \<Rightarrow> bool" where
  "oldest_in e b \<longleftrightarrow> (\<forall>x. bc_oldestOrphan b = Some x \<longrightarrow> (hashOf e (ob_block x), x) \<in> set (bc_orphans b) \<and> \<not> env_now e > ob_expiration x)"

lemma expire_orphans:
  "bc_orphans (expireOrphan e x b) = (if env_now e > ob_expiration x then AList.delete (hashOf e (ob_block x)) (bc_orphans b) else bc_orphans b)"
  "bc_prevOrphans (expireOrphan e x b) = (if env_now e > ob_expiration x then unlistOrphan e x (bc_prevOrphans b) else bc_prevOrphans b)"
  "env_now e > ob_expiration x \<Longrightarrow> bc_oldestOrphan (expireOrphan e x b) = bc_oldestOrphan b"
  "\<not> env_now e > ob_expiration x \<Longrightarrow> bc_oldestOrphan (expireOrphan e x b) \<in> {Some x, bc_oldestOrphan b} - {None}"
  by (auto simp: expireOrphan_def split: option.splits)

lemma expire_lists:
  "lists_ok (bc_prevOrphans b) \<Longrightarrow> lists_ok (bc_prevOrphans (fold (expireOrphan e) xs b)) \<and> waiting (fold (expireOrphan e) xs b) \<le> waiting b"
proof (induction xs arbitrary: b)
  case (Cons x xs)
  from Cons.prems have "lists_ok (bc_prevOrphans (expireOrphan e x b))" "waiting (expireOrphan e x b) \<le> waiting b"
    using unlist_ok by (simp_all add: expire_orphans)
  with Cons.IH[of "expireOrphan e x b"] show ?case by simp
qed simp

lemma expire_shrinks:
  "distinct (map fst (bc_orphans b)) \<Longrightarrow> set (bc_orphans (fold (expireOrphan e) xs b)) \<subseteq> set (bc_orphans b)
     \<and> length (bc_orphans (fold (expireOrphan e) xs b)) \<le> length (bc_orphans b) \<and> distinct (map fst (bc_orphans (fold (expireOrphan e) xs b)))"
proof (induction xs arbitrary: b)
  case (Cons x xs)
  let ?b = "expireOrphan e x b"
  have "set (bc_orphans ?b) \<subseteq> set (bc_orphans b)" "length (bc_orphans ?b) \<le> length (bc_orphans b)" "distinct (map fst (bc_orphans ?b))"
    using Cons.prems delete_subset[of _ "bc_orphans b"] delete_length[of _ "bc_orphans b"] by (auto simp: expire_orphans distinct_delete)
  with Cons.IH[of ?b] show ?case by (auto intro: order_trans)
qed simp

lemma expire_oldest:
  assumes "distinct (map (\<lambda>x. hashOf e (ob_block x)) xs)" and "\<forall>x \<in> set xs. (hashOf e (ob_block x), x) \<in> set (bc_orphans b)"
    and "oldest_in e b" and "distinct (map fst (bc_orphans b))"
    and "\<forall>(h, x) \<in> set (bc_orphans b). h = hashOf e (ob_block x) \<and> (x \<in> set xs \<or> bc_oldestOrphan b \<noteq> None)"
  shows "oldest_in e (fold (expireOrphan e) xs b)
    \<and> (bc_orphans (fold (expireOrphan e) xs b) = [] \<or> bc_oldestOrphan (fold (expireOrphan e) xs b) \<noteq> None)"
  using assms
proof (induction xs arbitrary: b)
  case Nil
  then show ?case by (cases "bc_orphans b") auto
next
  case (Cons x xs)
  let ?b = "expireOrphan e x b"
  have mem: "(k, y) \<in> set (AList.delete k' (bc_orphans b)) \<longleftrightarrow> (k, y) \<in> set (bc_orphans b) \<and> k \<noteq> k'" for k k' y
    by (auto simp: AList.delete_eq)
  have x: "(hashOf e (ob_block x), x) \<in> set (bc_orphans b)" using Cons.prems(2) by simp
  have rest: "\<forall>y \<in> set xs. hashOf e (ob_block y) \<noteq> hashOf e (ob_block x)" using Cons.prems(1) by (auto simp: image_iff)
  have "oldest_in e (fold (expireOrphan e) xs ?b)
    \<and> (bc_orphans (fold (expireOrphan e) xs ?b) = [] \<or> bc_oldestOrphan (fold (expireOrphan e) xs ?b) \<noteq> None)"
  proof (rule Cons.IH)
    show "distinct (map (\<lambda>x. hashOf e (ob_block x)) xs)" using Cons.prems(1) by simp
    show "\<forall>y \<in> set xs. (hashOf e (ob_block y), y) \<in> set (bc_orphans ?b)" using Cons.prems(2) rest by (simp add: expire_orphans mem)
    show "distinct (map fst (bc_orphans ?b))" using Cons.prems(4) by (simp add: expire_orphans distinct_delete)
    show "oldest_in e ?b"
    proof (cases "env_now e > ob_expiration x")
      case True
      have "hashOf e (ob_block y) \<noteq> hashOf e (ob_block x)" if "bc_oldestOrphan b = Some y" for y
      proof
        assume eq: "hashOf e (ob_block y) = hashOf e (ob_block x)"
        from that Cons.prems(3) have y: "(hashOf e (ob_block y), y) \<in> set (bc_orphans b)" "\<not> env_now e > ob_expiration y" by (auto simp: oldest_in_def)
        with x eq Cons.prems(4) have "y = x" by (metis eq_key_imp_eq_value)
        with y True show False by simp
      qed
      with True Cons.prems(3) show ?thesis by (simp add: oldest_in_def expire_orphans mem)
    next
      case False
      with x Cons.prems(3) expire_orphans(4)[OF False, of b] show ?thesis by (auto simp: oldest_in_def expire_orphans(1))
    qed
    show "\<forall>(h, y) \<in> set (bc_orphans ?b). h = hashOf e (ob_block y) \<and> (y \<in> set xs \<or> bc_oldestOrphan ?b \<noteq> None)"
    proof (cases "env_now e > ob_expiration x")
      case True
      with Cons.prems(5) show ?thesis by (fastforce simp: expire_orphans mem)
    next
      case False
      with Cons.prems(5) expire_orphans(4)[OF False, of b] show ?thesis by (fastforce simp: expire_orphans(1))
    qed
  qed
  then show ?case by simp
qed

lemma insert_orphans:
  "bc_orphans (insertOrphan e blk b) = AList.update (hashOf e blk) \<lparr>ob_block = blk, ob_expiration = env_now e + 60 * 60\<rparr> (bc_orphans b)"
  "bc_prevOrphans (insertOrphan e blk b) = listOrphan \<lparr>ob_block = blk, ob_expiration = env_now e + 60 * 60\<rparr> (bc_prevOrphans b)"
  "bc_oldestOrphan (insertOrphan e blk b) = bc_oldestOrphan b"
  by (simp_all add: insertOrphan_def Let_def)

lemma update_length: "length (AList.update k v m) \<le> Suc (length m)"
  by (induction m) auto

lemma set_update: "set (AList.update k v m) \<subseteq> insert (k, v) (set m)"
  by (induction m) auto

lemma insert_keys:
  assumes "distinct (map fst (bc_orphans b))" and "\<forall>(h, x) \<in> set (bc_orphans b). h = hashOf e (ob_block x)"
  shows "distinct (map fst (bc_orphans (insertOrphan e blk b)))"
    and "\<forall>(h, x) \<in> set (bc_orphans (insertOrphan e blk b)). h = hashOf e (ob_block x)"
    and "length (bc_orphans (insertOrphan e blk b)) \<le> Suc (length (bc_orphans b))"
  using assms update_length[of "hashOf e blk" _ "bc_orphans b"]
  by (auto simp: insert_orphans distinct_update dest!: subsetD[OF set_update])

text \<open>What the operations on the pool leave alone.\<close>

definition same_main :: "BlockChain \<Rightarrow> BlockChain \<Rightarrow> bool" where
  "same_main b b' \<longleftrightarrow> bc_db b' = bc_db b \<and> bc_Index b' = bc_Index b \<and> bc_BestChain b' = bc_BestChain b \<and> bc_stateSnapshot b' = bc_stateSnapshot b"

lemma same_main_trans: "same_main a b \<Longrightarrow> same_main b c \<Longrightarrow> same_main a c"
  by (simp add: same_main_def)

lemma same_main_pool:
  "same_main b (removeOrphanBlock e x b)" "same_main b (expireOrphan e x b)" "same_main b (insertOrphan e blk b)" "same_main b (b\<lparr>bc_oldestOrphan := y\<rparr>)"
  by (auto simp: same_main_def removeOrphanBlock_def expireOrphan_def insertOrphan_def Let_def)

lemma same_main_expire: "same_main b (fold (expireOrphan e) xs b)"
  by (induction xs arbitrary: b) (auto simp: same_main_def[of b b for b] intro: same_main_trans same_main_pool)

lemma sized_clock [simp]: "sized (e\<lparr>env_now := n, env_AdjustedTime := t\<rparr>) b = sized e b"
  by (simp add: sized_def hashOf_def)

lemma oldest_after:
  assumes "distinct (map fst (bc_orphans b))" and keys: "\<forall>(h, x) \<in> set (bc_orphans b). h = hashOf e (ob_block x)"
    and "bc_oldestOrphan b = None" and "bc_orphans (fold (expireOrphan e) (map snd (bc_orphans b)) b) \<noteq> []"
  shows "\<exists>x. bc_oldestOrphan (fold (expireOrphan e) (map snd (bc_orphans b)) b) = Some x
    \<and> hashOf e (ob_block x) \<in> fst ` set (bc_orphans (fold (expireOrphan e) (map snd (bc_orphans b)) b))"
proof -
  let ?b = "fold (expireOrphan e) (map snd (bc_orphans b)) b"
  have "map (\<lambda>x. hashOf e (ob_block x)) (map snd (bc_orphans b)) = map fst (bc_orphans b)" using keys by auto
  then have "distinct (map (\<lambda>x. hashOf e (ob_block x)) (map snd (bc_orphans b)))" using assms(1) by metis
  moreover have "\<forall>x \<in> set (map snd (bc_orphans b)). (hashOf e (ob_block x), x) \<in> set (bc_orphans b)" using keys by auto
  moreover have "\<forall>(h, x) \<in> set (bc_orphans b). h = hashOf e (ob_block x) \<and> (x \<in> set (map snd (bc_orphans b)) \<or> bc_oldestOrphan b \<noteq> None)"
    using keys by force
  ultimately have "oldest_in e ?b \<and> (bc_orphans ?b = [] \<or> bc_oldestOrphan ?b \<noteq> None)"
    by (intro expire_oldest) (simp_all add: assms(1,3) oldest_in_def)
  with assms(4) show ?thesis by (force simp: oldest_in_def)
qed

lemma add_orphan:
  assumes "sized e b" and "lists_ok (bc_prevOrphans b)"
  shows "sized e (snd (addOrphanBlock e blk b))" and "lists_ok (bc_prevOrphans (snd (addOrphanBlock e blk b)))"
    and "waiting (snd (addOrphanBlock e blk b)) \<le> Suc (waiting b)" and "same_main b (snd (addOrphanBlock e blk b))"
proof -
  define b1 where "b1 = fold (expireOrphan e) (map snd (bc_orphans b)) b"
  have dist: "distinct (map fst (bc_orphans b))" and keys: "\<forall>(h, x) \<in> set (bc_orphans b). h = hashOf e (ob_block x)"
    using assms(1) by (auto simp: sized_def)
  have b1: "set (bc_orphans b1) \<subseteq> set (bc_orphans b)" "length (bc_orphans b1) \<le> length (bc_orphans b)" "distinct (map fst (bc_orphans b1))"
    using expire_shrinks[OF dist] by (auto simp: b1_def)
  have keys1: "\<forall>(h, x) \<in> set (bc_orphans b1). h = hashOf e (ob_block x)" using b1(1) keys by blast
  have l1: "lists_ok (bc_prevOrphans b1)" "waiting b1 \<le> waiting b" using expire_lists[OF assms(2)] by (auto simp: b1_def)
  have m1: "same_main b b1" using same_main_expire by (simp add: b1_def)
  note old = oldest_after[OF dist keys, folded b1_def]
  define b2 where "b2 = (\<lambda>x. (removeOrphanBlock e x b1)\<lparr>bc_oldestOrphan := None\<rparr>)"
  have b2: "bc_orphans (b2 x) = AList.delete (hashOf e (ob_block x)) (bc_orphans b1)" "bc_oldestOrphan (b2 x) = None"
     "bc_prevOrphans (b2 x) = unlistOrphan e x (bc_prevOrphans b1)" for x
    by (simp_all add: b2_def)
  have keys2: "distinct (map fst (bc_orphans (b2 x)))" "\<forall>(h, y) \<in> set (bc_orphans (b2 x)). h = hashOf e (ob_block y)" for x
    using b1(3) keys1 delete_subset[of "hashOf e (ob_block x)" "bc_orphans b1"] by (auto simp: b2 distinct_delete)
  have result: "snd (addOrphanBlock e blk b) = (if length (bc_orphans b1) + 1 > maxOrphanBlocks
     then (case bc_oldestOrphan b1 of None \<Rightarrow> b1 | Some x \<Rightarrow> insertOrphan e blk (b2 x)) else insertOrphan e blk b1)"
    by (simp add: addOrphanBlock_def b1_def[symmetric] b2_def split: option.split)
  consider (none) "snd (addOrphanBlock e blk b) = b1" "bc_oldestOrphan b1 = None"
    | (full) x where "snd (addOrphanBlock e blk b) = insertOrphan e blk (b2 x)" "bc_oldestOrphan b1 = Some x" "length (bc_orphans b1) + 1 > maxOrphanBlocks"
    | (room) "snd (addOrphanBlock e blk b) = insertOrphan e blk b1" "length (bc_orphans b1) + 1 \<le> maxOrphanBlocks"
    using result by (auto split: if_splits option.splits)
  then have "sized e (snd (addOrphanBlock e blk b)) \<and> lists_ok (bc_prevOrphans (snd (addOrphanBlock e blk b)))
    \<and> waiting (snd (addOrphanBlock e blk b)) \<le> Suc (waiting b) \<and> same_main b (snd (addOrphanBlock e blk b))"
  proof cases
    case none
    then show ?thesis using assms(1) b1 keys1 l1 m1 by (auto simp: sized_def)
  next
    case (full x)
    have len: "length (bc_orphans (b2 x)) \<le> maxOrphanBlocks"
    proof (cases "bc_oldestOrphan b = None")
      case True
      have "bc_orphans b1 \<noteq> []" using full(3) by (auto simp: maxOrphanBlocks_def)
      from old[OF True this] full(2) have "length (bc_orphans (b2 x)) < length (bc_orphans b1)" by (auto simp: b2 intro: delete_length_less)
      with b1(2) assms(1) show ?thesis by (auto simp: sized_def)
    next
      case False
      with b1(2) assms(1) delete_length[of "hashOf e (ob_block x)" "bc_orphans b1"] show ?thesis by (auto simp: b2 sized_def)
    qed
    have "same_main b (insertOrphan e blk (b2 x))"
      using m1 unfolding b2_def by (blast intro: same_main_trans same_main_pool)
    with full(1) len insert_keys[OF keys2[of x], of blk] list_ok[OF unlist_ok(1)[OF l1(1), of e x]] unlist_ok(2)[OF l1(1), of e x] l1(2) show ?thesis
      by (auto simp: sized_def insert_orphans b2)
  next
    case room
    with insert_keys[OF b1(3) keys1, of blk] list_ok[OF l1(1)] l1(2) same_main_trans[OF m1 same_main_pool(3)] show ?thesis
      by (auto simp: sized_def insert_orphans)
  qed
  then show "sized e (snd (addOrphanBlock e blk b))" "lists_ok (bc_prevOrphans (snd (addOrphanBlock e blk b)))"
    "waiting (snd (addOrphanBlock e blk b)) \<le> Suc (waiting b)" "same_main b (snd (addOrphanBlock e blk b))" by auto
qed

section \<open>Processing blocks\<close>

text \<open>The loop of \<open>calcEasiestDifficulty\<close> ends if the timespan is positive.\<close>

definition retarget_ok :: "environment \<Rightarrow> bool" where
  "retarget_ok e \<longleftrightarrow> 0 < maxRetargetTimespan (env_retarget e) \<and> maxRetargetTimespan (env_retarget e) < 2 ^ 63"

lemma easiest_returns:
  assumes "0 < maxRetargetTimespan rt" and "maxRetargetTimespan rt < 2 ^ 63" and "d < 2 ^ 63"
  shows "\<exists>t. easiestLoop rt powLimit d t0 = Some t"
  using assms(3)
proof (induction "nat d" arbitrary: d t0 rule: less_induct)
  case less
  show ?case
  proof (cases "d > 0 \<and> t0 < powLimit")
    case True
    with assms less.prems have "s64 (d - maxRetargetTimespan rt) = d - maxRetargetTimespan rt" by (simp add: s64_def)
    with less.hyps[of "d - maxRetargetTimespan rt" "t0 * RetargetAdjustmentFactor rt"] True assms(1) less.prems show ?thesis
      by (subst easiestLoop.simps) simp
  qed (subst easiestLoop.simps, auto)
qed

lemma duration_bound: "durationSeconds t u < 2 ^ 63"
proof -
  define d where "d = max (- (2 ^ 63)) (min (2 ^ 63 - 1) ((t - u) * 10 ^ 9))"
  have "\<bar>d\<bar> \<le> 2 ^ 63" by (auto simp: d_def)
  then have "\<bar>d\<bar> div 10 ^ 9 \<le> 2 ^ 63 div 10 ^ 9" by (rule zdiv_mono1) simp
  then have "\<bar>d\<bar> div 10 ^ 9 < 2 ^ 63" by (rule order.strict_trans1) simp
  moreover have "0 \<le> \<bar>d\<bar> div 10 ^ 9" by (simp add: pos_imp_zdiv_nonneg_iff)
  moreover have "durationSeconds t u = sgn d * (\<bar>d\<bar> div 10 ^ 9)" unfolding durationSeconds_def Let_def d_def ..
  ultimately show ?thesis by (cases d rule: linorder_cases[of _ 0]) auto
qed

lemma checkpoint_check_returns:
  assumes "retarget_ok e"
  shows "\<exists>r. checkAgainstCheckpoint e h fl n = Some r"
proof -
  obtain t where "easiestLoop (env_retarget e) (PowLimit (cn_params (env_cn e))) (durationSeconds (bh_Timestamp h) (nd_timestamp n)) (CompactToBig (nd_bits n)) = Some t"
    using easiest_returns[OF _ _ duration_bound, of "env_retarget e"] assms unfolding retarget_ok_def by blast
  then show ?thesis by (simp add: checkAgainstCheckpoint_def calcEasiestDifficulty_def Let_def)
qed

text \<open>The calls of \<open>ProcessBlock\<close> one after the other, with the time and the adjusted time of each.\<close>

type_synonym call = "int \<times> int \<times> Block \<times> BehaviorFlags \<times> int"

fun processBlocks :: "environment \<Rightarrow> call list \<Rightarrow> BlockChain \<Rightarrow> BlockChain option" where
  "processBlocks e [] b = Some b"
| "processBlocks e ((now, adjusted, blk, fl, height) # cs) b =
     (case ProcessBlock (e\<lparr>env_now := now, env_AdjustedTime := adjusted\<rparr>) blk fl height b of
        None \<Rightarrow> None | Some (_, b') \<Rightarrow> processBlocks e cs b')"

text \<open>A property with a budget: accepting a block costs one unit of it, and the pool does not matter to it.\<close>

locale budget =
  fixes M :: "nat \<Rightarrow> BlockChain \<Rightarrow> bool"
  assumes mono: "M k b \<Longrightarrow> j \<le> k \<Longrightarrow> M j b"
    and outside: "M k b \<Longrightarrow> bc_db b' = bc_db b \<Longrightarrow> bi_index (bc_Index b') = bi_index (bc_Index b) \<Longrightarrow> bc_BestChain b' = bc_BestChain b
      \<Longrightarrow> bc_stateSnapshot b' = bc_stateSnapshot b \<Longrightarrow> M k b'"
    and accept: "M (Suc k) b \<Longrightarrow> M k (snd (maybeAcceptBlock e blk fl b))"
begin

definition sound :: "environment \<Rightarrow> nat \<Rightarrow> BlockChain \<Rightarrow> bool" where
  "sound e k b \<longleftrightarrow> M (waiting b + k) b \<and> lists_ok (bc_prevOrphans b) \<and> sized e b"

lemma M_pool: "M k b \<Longrightarrow> same_main b b' \<Longrightarrow> M k b'"
  using outside by (simp add: same_main_def)

lemma sound_accept:
  assumes "M (Suc (waiting b + k)) b" and "lists_ok (bc_prevOrphans b)" and "sized e b"
  shows "sound e k (snd (maybeAcceptBlock e blk fl b))"
proof -
  have "pool (snd (maybeAcceptBlock e blk fl b)) = pool b" by (rule pool.maybeAccept) simp
  with assms accept[OF assms(1)] show ?thesis by (simp add: sound_def pool_def sized_def)
qed

lemma orphans_return:
  "sound e k b \<Longrightarrow> \<exists>r b'. processOrphans e fl hs b = Some (r, b') \<and> sound e k b'"
proof (induction "2 * waiting b + length hs" arbitrary: b hs rule: less_induct)
  case less
  show ?case
  proof (cases hs)
    case Nil
    with less.prems show ?thesis by (simp add: processOrphans.simps)
  next
    case (Cons h rest)
    show ?thesis
    proof (cases "\<exists>x xs. map_of (bc_prevOrphans b) h = Some (x # xs)")
      case False
      then have "processOrphans e fl hs b = processOrphans e fl rest b"
        by (subst processOrphans.simps) (auto simp: Cons split: option.split list.split)
      with less.hyps[of b rest] less.prems Cons show ?thesis by simp
    next
      case True
      then obtain x xs where x: "map_of (bc_prevOrphans b) h = Some (x # xs)" by blast
      let ?b = "removeOrphanBlock e x b"
      obtain r b2 where r: "maybeAcceptBlock e (ob_block x) fl ?b = (r, b2)" by force
      have lists: "lists_ok (bc_prevOrphans b)" and "sized e b" and "M (waiting b + k) b" using less.prems by (auto simp: sound_def)
      then have w: "waiting ?b < waiting b" using unlist_first[OF lists x] by simp
      have "M (Suc (waiting ?b + k)) ?b"
        by (rule mono[OF M_pool[OF \<open>M (waiting b + k) b\<close> same_main_pool(1)]]) (use w in simp)
      then have b2: "sound e k b2"
        using sound_accept[of ?b k e "ob_block x" fl] unlist_ok(1)[OF lists] remove_sized[OF \<open>sized e b\<close>] r by simp
      have "waiting b2 = waiting ?b" using pool.maybeAccept[of ?b "pool ?b" e "ob_block x" fl] r by (simp add: pool_def)
      then have "\<exists>r' b'. processOrphans e fl (hs @ [hashOf e (ob_block x)]) b2 = Some (r', b') \<and> sound e k b'"
        using less.hyps[OF _ b2] w by simp
      with b2 r x Cons show ?thesis
        by (subst processOrphans.simps) (auto split: sum.split)
    qed
  qed
qed

lemma process_returns:
  assumes "sound e (Suc k) b" and "retarget_ok e"
  shows "\<exists>r b'. ProcessBlock e blk fl height b = Some (r, b') \<and> sound e k b'"
proof -
  have M: "M (Suc (waiting b + k)) b" and lists: "lists_ok (bc_prevOrphans b)" and size: "sized e b" using assms(1) by (auto simp: sound_def)
  obtain r1 b1 where b1: "findPreviousCheckpoint e b = (r1, b1)" by force
  have core: "same_core b b1" using quiet_ops(9)[of e] b1 by (metis quiet_def snd_conv)
  then have ok1: "M (Suc (waiting b1 + k)) b1" "lists_ok (bc_prevOrphans b1)" "sized e b1"
    using M lists size outside[OF M, of b1] by (auto simp: same_core_def sized_def)
  have s0: "sound e k b" using M lists size mono[OF M, of "waiting b + k"] by (simp add: sound_def)
  have s1: "sound e k b1" using ok1 mono[OF ok1(1), of "waiting b1 + k"] by (simp add: sound_def)
  have orphan: "sound e k (snd (addOrphanBlock e blk b1))"
    using add_orphan[OF ok1(3,2), of blk] M_pool[OF ok1(1), of "snd (addOrphanBlock e blk b1)"]
    by (auto simp: sound_def intro: mono)
  obtain r2 b2 where b2: "maybeAcceptBlock e blk fl b1 = (r2, b2)" by force
  then have s2: "sound e k b2" using sound_accept[OF ok1, of blk fl] by simp
  have accepted: "\<exists>r b'. acceptWithOrphans e blk fl b1 = Some (r, b') \<and> sound e k b'"
    using s2 orphans_return[OF s2, of fl "[hashOf e blk]"] by (auto simp: acceptWithOrphans_def b2 split: sum.split)
  obtain c where c: "(case r1 of Inr (Some n) \<Rightarrow> checkAgainstCheckpoint e (Header blk) fl n | _ \<Rightarrow> Some (Inr ())) = Some c"
    using checkpoint_check_returns[OF assms(2)] by (cases r1; cases "projr r1") (auto, blast)
  obtain r3 b3 where b3: "addOrphanBlock e blk b1 = (r3, b3)" by force
  show ?thesis
    using s0 s1 orphan accepted c
    by (auto simp: ProcessBlock_def b1 b3 split: sum.split option.split bool.split)
qed

lemma sound_clock: "sound (e\<lparr>env_now := n, env_AdjustedTime := t\<rparr>) k b = sound e k b"
  by (simp add: sound_def)

lemma run_returns:
  "sound e (length cs + k) b \<Longrightarrow> retarget_ok e \<Longrightarrow> \<exists>b'. processBlocks e cs b = Some b' \<and> sound e k b'"
proof (induction cs arbitrary: b)
  case (Cons c cs)
  obtain now adj blk fl height where c: "c = (now, adj, blk, fl, height)" by (cases c)
  let ?e = "e\<lparr>env_now := now, env_AdjustedTime := adj\<rparr>"
  have "sound ?e (Suc (length cs + k)) b" "retarget_ok ?e" using Cons.prems by (simp_all add: sound_clock retarget_ok_def)
  then obtain r b' where "ProcessBlock ?e blk fl height b = Some (r, b')" "sound ?e (length cs + k) b'" using process_returns by blast
  with Cons show ?case by (simp add: c sound_clock)
qed simp

end

interpretation blocks: budget main_ok
proof unfold_locales
  fix k b e blk fl assume "main_ok (Suc k) b"
  then show "main_ok k (snd (maybeAcceptBlock e blk fl b))" by (rule main.maybeAccept)
next
  fix k b j assume "main_ok k b" "j \<le> k" then show "main_ok j b" by (rule main_ok_mono)
qed (simp add: main_ok_def consistent_def)

interpretation calls: budget "\<lambda>_ _. True"
  by unfold_locales auto

definition emptyPool :: "BlockChain \<Rightarrow> bool" where
  "emptyPool b \<longleftrightarrow> bc_orphans b = [] \<and> bc_prevOrphans b = []"

lemma empty_sound: "emptyPool b \<Longrightarrow> lists_ok (bc_prevOrphans b) \<and> sized e b \<and> waiting b = 0"
  by (simp add: emptyPool_def lists_ok_def listed_def sized_def entries_def)

text \<open>C6: \<open>ProcessBlock\<close> returns. On a chain without orphans, any sequence of blocks can be offered to \<open>ProcessBlock\<close>, valid or not, in any order, with any
  flags, heights and clocks: each call returns, with a result or an error, although the loops over the orphans that a new block releases
  and over the checkpoint's difficulty have no bound in the code. The hypothesis is that the retarget timespan, an \<open>int64\<close>, is positive.\<close>

theorem ProcessBlock_returns:
  assumes "retarget_ok e" and "emptyPool b"
  shows "\<exists>b'. processBlocks e cs b = Some b'"
  using calls.run_returns[of e cs 0 b] assms empty_sound[OF assms(2), of e] by (auto simp: calls.sound_def)

text \<open>C7: the pool of orphans is bounded. After any sequence of blocks the pool holds at most one orphan more than \<open>maxOrphanBlocks\<close>, each under its own hash.\<close>

theorem orphan_pool_bounded:
  assumes "retarget_ok e" and "emptyPool b" and "processBlocks e cs b = Some b'"
  shows "length (bc_orphans b') \<le> maxOrphanBlocks + 1 \<and> distinct (map fst (bc_orphans b'))
    \<and> list_all (\<lambda>(h, x). h = hashOf e (ob_block x)) (bc_orphans b')"
  using calls.run_returns[of e cs 0 b] assms empty_sound[OF assms(2), of e] by (auto simp: calls.sound_def sized_def list_all_iff)

text \<open>The limit is exceeded when the recorded oldest orphan has left the pool: \<open>processOrphans\<close> does not reset it.\<close>

lemma stale_oldest:
  assumes "length (bc_orphans b) = maxOrphanBlocks" and "bc_oldestOrphan b = Some x" and "hashOf e (ob_block x) \<notin> fst ` set (bc_orphans b)"
    and "\<forall>(h, y) \<in> set (bc_orphans b). \<not> env_now e > ob_expiration y \<and> \<not> ob_expiration y < ob_expiration x"
    and "hashOf e blk \<notin> fst ` set (bc_orphans b)"
  shows "length (bc_orphans (snd (addOrphanBlock e blk b))) = Suc maxOrphanBlocks"
proof -
  have "fold (expireOrphan e) ys b = b" if "set ys \<subseteq> snd ` set (bc_orphans b)" for ys
    using that by (induction ys) (use assms(2,4) in \<open>force simp: expireOrphan_def\<close>)+
  then have f: "fold (expireOrphan e) (map snd (bc_orphans b)) b = b" by simp
  have l: "length (AList.update k v m) = Suc (length m)" if "k \<notin> fst ` set m" for k v and m :: "(bytes \<times> orphanBlock) list"
    using that by (induction m) auto
  show ?thesis using assms by (simp add: addOrphanBlock_def f insert_orphans l)
qed

text \<open>C4: the main chain stays consistent. Take a chain without orphans whose view, snapshot and stored best state describe one tip, and any sequence of blocks, fewer
  than the heights that are left. Whatever the blocks make the chain do, extending it, reorganizing it, rejecting them half way with an error, afterwards there is a tip such that
  the view of the main chain is the chain of this tip, the snapshot has its hash, height, version, bits and median time, and the stored best state
  is the serialization of the snapshot.\<close>

theorem main_chain_consistent:
  assumes "retarget_ok e" and "emptyPool b" and "consistent b"
    and "\<forall>h n. bi_index (bc_Index b) h = Some n \<longrightarrow> wf_node n \<and> length (chainOf n) + length cs < 2 ^ 31 - 1"
  shows "\<exists>b' t w. processBlocks e cs b = Some b' \<and> wf_node t \<and> bc_BestChain b' = view_of (Some t) \<and> describes (bc_stateSnapshot b') t
    \<and> chainState (bc_db b') = Some (storedBest (bc_stateSnapshot b') w)"
proof -
  have "blocks.sound e (length cs + 0) b" using assms(3,4) empty_sound[OF assms(2), of e] by (simp add: blocks.sound_def main_ok_def)
  from blocks.run_returns[OF this assms(1)] show ?thesis by (auto simp: blocks.sound_def main_ok_def consistent_def)
qed

section \<open>What an accepted block is checked against\<close>

text \<open>Nothing after the check of the context reads the parameters of the required difficulty.\<close>

abbreviation withDifficulty :: "environment \<Rightarrow> Retarget \<Rightarrow> (BlockNode \<Rightarrow> i32 \<Rightarrow> u32 cres) \<Rightarrow> environment" where
  "withDifficulty e rt bits \<equiv> e\<lparr>env_retarget := rt, env_plan9Bits := bits\<rparr>"

lemma env_difficulty:
  "env_cn (withDifficulty e rt bits) = env_cn e" "env_AdjustedTime (withDifficulty e rt bits) = env_AdjustedTime e"
  "env_addresses (withDifficulty e rt bits) = env_addresses e"
  by simp_all

lemma parts_difficulty:
  "hashOf (withDifficulty e rt bits) = hashOf e" "isCurrent (withDifficulty e rt bits) = isCurrent e"
  "warnUnknownRules (withDifficulty e rt bits) = warnUnknownRules e" "dbStoreBlock (withDifficulty e rt bits) = dbStoreBlock e"
  "addNewNode (withDifficulty e rt bits) = addNewNode e" "ContainsBlacklisted (withDifficulty e rt bits) = ContainsBlacklisted e"
  by (intro ext; unfold hashOf_def isCurrent_def warnUnknownRules_def dbStoreBlock_def addNewNode_def ContainsBlacklisted_def
       inputAddresses_def outputAddresses_def env_difficulty; rule refl)+

lemma connect_difficulty: "connectBlock (withDifficulty e rt bits) = connectBlock e"
  and disconnect_difficulty: "disconnectBlock (withDifficulty e rt bits) = disconnectBlock e"
  by (intro ext; unfold connectBlock_def disconnectBlock_def parts_difficulty env_difficulty; rule refl)+

lemma checks_difficulty:
  "detachCheck (withDifficulty e rt bits) ns = detachCheck e ns" "attachCheck (withDifficulty e rt bits) ns = attachCheck e ns"
proof (induction ns)
  case (Cons n ns)
  {
    case 1
    show ?case by (rule ext) (unfold detachCheck.simps parts_difficulty env_difficulty Cons.IH(1), rule refl)
  next
    case 2
    show ?case by (rule ext) (unfold attachCheck.simps env_difficulty Cons.IH(2), rule refl)
  }
qed (simp_all add: fun_eq_iff)

lemma all_difficulty:
  "attachAll (withDifficulty e rt bits) as = attachAll e as" "detachAll (withDifficulty e rt bits) ds = detachAll e ds"
proof -
  show "attachAll (withDifficulty e rt bits) as = attachAll e as"
  proof (induction as)
    case (Cons a as)
    then show ?case by (cases a, intro ext) (simp only: attachAll.simps connect_difficulty env_difficulty)
  qed (simp add: fun_eq_iff)
  show "detachAll (withDifficulty e rt bits) ds = detachAll e ds"
  proof (induction ds)
    case (Cons d ds)
    then show ?case by (cases d, intro ext) (simp only: detachAll.simps disconnect_difficulty env_difficulty)
  qed (simp add: fun_eq_iff)
qed

lemma best_difficulty: "connectBestChain (withDifficulty e rt bits) = connectBestChain e"
  by (intro ext) (unfold connectBestChain_def reorganizeChain_def connect_difficulty checks_difficulty all_difficulty env_difficulty, rule refl)

text \<open>C5: the required difficulty is not enforced. If both a block and its parent have version 514, or neither has, then what \<open>maybeAcceptBlock\<close> does with the block, to the
  last detail of the resulting chain, does not depend on how the required difficulty is calculated, before or after the hard fork: \<open>checkBlockContext\<close> is only
  called when exactly one of the two has version 514. None of the algorithms of the hard fork has version 514.\<close>

theorem difficulty_not_enforced:
  assumes "bi_LookupNode (bc_Index b) (bh_PrevBlock (Header blk)) = Some p" and "bh_Version (Header blk) = 514 \<longleftrightarrow> nd_version p = 514"
  shows "maybeAcceptBlock (e\<lparr>env_retarget := rt, env_plan9Bits := bits\<rparr>) blk fl b = maybeAcceptBlock e blk fl b"
proof -
  have "previousOfAlgo x (bh_Version (Header blk)) p = None" for x using assms(2) by (auto simp: previousOfAlgo_def)
  with assms(1) show ?thesis by (simp add: maybeAcceptBlock_def Let_def best_difficulty parts_difficulty)
qed

section \<open>A chain with the first block\<close>

definition genesisNode :: BlockNode where "genesisNode = BlockNode None (replicate 32 1) 0 2 0x1d00ffff 0 1588888000 []"

text \<open>The parameters of the main network.\<close>

definition mainRetarget :: Retarget where
  "mainRetarget = \<lparr>AveragingInterval = 10, AveragingTargetTimespan = 3000, MinActualTimespan = 2400, MaxActualTimespan = 3300,
     RetargetAdjustmentFactor = 2, maxRetargetTimespan = 60000\<rparr>"

definition someEnv :: environment where
  "someEnv = \<lparr>env_cn = mainLike 100000000, env_retarget = mainRetarget, env_now = 0, env_AdjustedTime = 0,
     env_plan9Bits = \<lambda>_ _. Inr 0, env_addresses = \<lambda>_. []\<rparr>"

definition genesisState :: BestState where
  "genesisState = newBestState genesisNode 285 1140 1 1 (CalcPastMedianTime genesisNode)"

definition genesisChain :: BlockChain where
  "genesisChain = \<lparr>bc_db = db0\<lparr>chainState := Some (storedBest genesisState (CalcWork 0x1d00ffff))\<rparr>, bc_blocks = [], bc_nodes = [],
     bc_Index = \<lparr>bi_index = [replicate 32 1 \<mapsto> genesisNode], bi_dirty = [],
       bi_fields = \<lparr>nw_workSum = (\<lambda>_. None)(genesisNode := Some (CalcWork 0x1d00ffff)), nw_status = (\<lambda>_. 0)(genesisNode := 3)\<rparr>\<rparr>,
     bc_BestChain = [Some genesisNode], bc_orphans = [], bc_prevOrphans = [], bc_oldestOrphan = None, bc_nextCheckpoint = None,
     bc_checkpointNode = None, bc_stateSnapshot = genesisState,
     bc_rules = \<lparr>warningCaches = newThresholdCaches 29, deploymentCaches = newThresholdCaches 3, unknownRulesWarned = False\<rparr>,
     bc_sigCache = None, bc_hashCache = None\<rparr>"

text \<open>A block on top of the first one, twice, and another one with the flag \<open>BFFastAdd\<close>.\<close>

definition someCalls :: "call list" where
  "someCalls = [(1588889000, 1588889000, orderBlock [txA], BFNone, 1), (1588889001, 1588889001, orderBlock [txA], BFNone, 1),
     (1588889002, 1588889002, orderBlock [], BFFastAdd, 1)]"

lemma someEnv_ok: "retarget_ok someEnv" by (simp add: retarget_ok_def someEnv_def mainRetarget_def)

lemma genesis_ok:
  "emptyPool genesisChain" "bi_LookupNode (bc_Index genesisChain) (replicate 32 1) = Some genesisNode"
  "wf_node genesisNode" "chainOf genesisNode = [genesisNode]" "consistent genesisChain"
proof -
  show c: "chainOf genesisNode = [genesisNode]" by (simp add: chainOf_None genesisNode_def)
  then show w: "wf_node genesisNode" by (simp add: wf_node_def) (simp add: genesisNode_def)
  show "emptyPool genesisChain" "bi_LookupNode (bc_Index genesisChain) (replicate 32 1) = Some genesisNode"
    by (simp_all add: emptyPool_def bi_LookupNode_def genesisChain_def)
  have "bc_BestChain genesisChain = view_of (Some genesisNode)" by (simp add: view_of_def c genesisChain_def)
  moreover have "describes (bc_stateSnapshot genesisChain) genesisNode"
    by (simp add: describes_def genesisChain_def genesisState_def newBestState_def)
  moreover have "chainState (bc_db genesisChain) = Some (storedBest (bc_stateSnapshot genesisChain) (CalcWork 0x1d00ffff))"
    by (simp add: genesisChain_def)
  ultimately show "consistent genesisChain" using w unfolding consistent_def by blast
qed

lemma genesis_index: "bi_index (bc_Index genesisChain) h = Some n \<Longrightarrow> n = genesisNode"
  by (simp add: genesisChain_def split: if_splits)

theorem ProcessBlock_returns_witness: "\<exists>b'. processBlocks someEnv someCalls genesisChain = Some b'"
  by (rule ProcessBlock_returns[OF someEnv_ok genesis_ok(1)])

theorem orphan_pool_bounded_witness:
  "\<exists>b'. processBlocks someEnv someCalls genesisChain = Some b' \<and> length (bc_orphans b') \<le> maxOrphanBlocks + 1"
proof -
  obtain b' where b: "processBlocks someEnv someCalls genesisChain = Some b'"
    using calls.run_returns[of someEnv someCalls 0 genesisChain] empty_sound[OF genesis_ok(1)] someEnv_ok by (auto simp: calls.sound_def)
  from orphan_pool_bounded[OF someEnv_ok genesis_ok(1) b] b show ?thesis by blast
qed

theorem main_chain_consistent_witness:
  "\<exists>b' t w. processBlocks someEnv someCalls genesisChain = Some b' \<and> wf_node t \<and> bc_BestChain b' = view_of (Some t)
    \<and> describes (bc_stateSnapshot b') t \<and> chainState (bc_db b') = Some (storedBest (bc_stateSnapshot b') w)"
  by (rule main_chain_consistent[OF someEnv_ok genesis_ok(1,5)])
    (auto dest!: genesis_index simp: genesis_ok(3,4) someCalls_def)

theorem difficulty_not_enforced_witness:
  "maybeAcceptBlock (someEnv\<lparr>env_retarget := mainRetarget\<lparr>AveragingTargetTimespan := 1\<rparr>, env_plan9Bits := \<lambda>_ _. Inl OtherError\<rparr>) (orderBlock [txA]) BFNone genesisChain
   = maybeAcceptBlock someEnv (orderBlock [txA]) BFNone genesisChain"
proof (rule difficulty_not_enforced[where p = genesisNode])
  show "bi_LookupNode (bc_Index genesisChain) (bh_PrevBlock (Header (orderBlock [txA]))) = Some genesisNode"
    using genesis_ok(2) by (simp add: orderBlock_def orderHeader_def)
  show "bh_Version (Header (orderBlock [txA])) = 514 \<longleftrightarrow> nd_version genesisNode = 514"
    by (simp add: orderBlock_def orderHeader_def genesisNode_def)
qed

end
