(* ===== verification/Spec2Isabelle.thy ===== *)
theory Spec2Isabelle
  imports ScriptStandard ScriptTransparency ScriptMultiSig ScriptDER ChainNode ChainSupply ChainRun
begin

text \<open>
  This development verifies the consensus core of \<open>pod\<close>, a node of the Parallelcoin network: what makes a transaction and a block valid, how a script is executed, and how the chain
  changes when blocks arrive. The code is Go, under \<open>src/pkg/chain\<close> and \<open>src/pkg/util\<close>. Functions keep their names; a prefix such as \<open>bi_\<close> or
  \<open>ue_\<close> tells methods with the same name apart.

  \<^bold>\<open>The parts of the program and their theories.\<close>

  \<^item> \<open>Prelude\<close>: errors as sums, readers of bytes, folds that may fail, lemmas on words and lists.
  \<^item> \<open>WireCommon\<close>, \<open>WireTx\<close>, \<open>WireBlock\<close> (\<open>wire/common.go\<close>, \<open>msgtx.go\<close>, \<open>blockheader.go\<close>, \<open>msgblock.go\<close>, \<open>invvect.go\<close>): the serialization of transactions and blocks, with round trips,
    exact sizes and the positions that \<open>DeserializeTxLoc\<close> reports.
  \<^item> \<open>ScriptBase\<close>, \<open>ScriptNum\<close>, \<open>ScriptStack\<close>, \<open>ScriptParse\<close>, \<open>ScriptSigHash\<close>, \<open>ScriptSigCache\<close>, \<open>ScriptOpcodes\<close>, \<open>ScriptEngine\<close>, \<open>ScriptBuilder\<close>, \<open>ScriptStandard\<close> (\<open>tx/script\<close>): numbers, stacks with their
    mutex, the parser, the digests that signatures sign, the cache of signatures, every opcode, the engine, the builder and the classes of scripts. \<open>ScriptSafety\<close> and \<open>ScriptEngine\<close> show that no script panics or
    blocks, that execution ends and that an invariant of the engine holds; \<open>ScriptTransparency\<close> that the cache of signatures is invisible, and \<open>ScriptConcurrent\<close> that it is so when other goroutines use it between any two calls of a script; \<open>ScriptMultiSig\<close> and \<open>ScriptDER\<close> that
    the multiple signature check and the encoding check agree with their specifications.
  \<^item> \<open>BigInt\<close>, \<open>ChainBase\<close>, \<open>ChainCompress\<close>, \<open>ChainStore\<close>, \<open>ChainUtxo\<close> (\<open>error.go\<close>, \<open>compress.go\<close>, \<open>chainio.go\<close>, \<open>utxoviewpoint.go\<close>): the stored forms of outputs, journals and best states, and the views
    of unspent outputs: disconnecting undoes connecting, and flushing a view refines the map from outpoints to coins.
  \<^item> \<open>ChainNode\<close>, \<open>ChainThreshold\<close> (\<open>blockindex.go\<close>, \<open>chainview.go\<close>, \<open>thresholdstate.go\<close>, \<open>versionbits.go\<close>): the tree of blocks, the view of the main chain and the fork point; the deployments of rule
    changes refine the state machine of BIP 9.
  \<^item> \<open>ChainMerkle\<close>, \<open>ChainScripts\<close>, \<open>ChainFork\<close>, \<open>ChainTxRules\<close>, \<open>ChainBlockRules\<close>, \<open>ChainSupply\<close> (\<open>merkle.go\<close>, \<open>scriptval.go\<close>, \<open>fork\<close>, \<open>hardfork\<close>, \<open>weight.go\<close>, \<open>validate.go\<close>): the rules for transactions and blocks up to \<open>checkConnectBlock\<close>. The
    theorem \<open>no_inflation\<close> composes them with the views: a connected block adds at most the subsidy to the total of all coins, if its transactions are in order;
    \<open>bip30_double_spend\<close> is a block that is not in order and adds more.
  \<^item> \<open>ChainProcess\<close>, \<open>ChainAccept\<close>, \<open>ChainInvariant\<close>, \<open>ChainRun\<close> (\<open>process.go\<close>, \<open>accept.go\<close>, \<open>checkpoints.go\<close>, \<open>blacklist.go\<close>, \<open>forkhalcyon.go\<close>, \<open>difficulty.go\<close>, \<open>chain.go\<close>): the chain as one record, from \<open>ProcessBlock\<close> down to the database. Every call
    returns, the main chain stays consistent through errors and reorganizations, and the pool of orphans is bounded.

  \<^bold>\<open>How state and effects are modelled.\<close> Structs are records. A method that changes its receiver returns it; pointers to nodes are the nodes, and their mutable fields (work, status) are maps
  in the index. Errors and panics are values (\<open>werror\<close>, the type \<open>res\<close> of the engine with \<open>Panic\<close> and \<open>Deadlock\<close>, \<open>cerror\<close> with \<open>GoPanic\<close>). Words have their width; \<open>int32\<close> and
  \<open>int64\<close> that the code adds up are integers with \<open>s32\<close> and \<open>s64\<close> at every operation that can wrap. A database transaction has all of its effects or none.

  \<^bold>\<open>Interfaces.\<close> \<open>codec\<close> and \<open>canonical_codec\<close> state what a codec promises and are interpreted for the codecs of the wire format; \<open>byte_stack\<close>, \<open>contract\<close>, \<open>verified_cache\<close>,
  \<open>simulation\<close> and \<open>condition_checker\<close> are the laws on which the proofs on stacks, opcodes, caches and deployments rest. For the chain they are \<open>chain_invariant\<close> and \<open>accepting\<close>: a property of the chain that connecting and disconnecting keep is kept by accepting any block, whatever happens;
  they are interpreted for the pool of orphans and for the main chain, and \<open>budget\<close>, over them, carries a property through any sequence of blocks.

  \<^bold>\<open>Parameters.\<close> The record \<open>crypto\<close> has the hash functions, the parser of public keys and the verification of signatures; \<open>powHashes\<close> the hashes of the proof of work; \<open>consensus\<close> the floating point formula
  of the subsidy and the addresses of the hard fork; \<open>environment\<close> the clocks, the difficulty after the hard fork (floating point) and the addresses in a script. Theorems state what they need of
  them; none is needed for the theorems on whole runs of the chain but a positive retarget timespan.

  \<^bold>\<open>Loops.\<close> The loop of the engine, the release of orphans and the easiest difficulty are partial functions with values in \<open>option\<close>; theorems show that they return. There is no fuel. The order of iteration over a Go map is a parameter where it matters (the eviction of the signature cache), and the order of
  insertion otherwise.

  \<^bold>\<open>Goroutines.\<close> \<open>ChainScripts\<close> has the parallel validation of the scripts of a block as a step relation: \<open>Validate\<close>, its goroutines, the channels between them and the shared cache of
  signatures. An atomic step is a rendezvous on a channel or an action of one goroutine, which is at most one call of the cache; the signature opcodes are given again in \<open>ScriptConcurrent\<close> as
  trees of the calls they make. Every run ends, with all goroutines returned, and accepts what \<open>checkBlockScripts\<close>, which handles the inputs in order, accepts. Everything else runs under the
  lock of the chain and is sequential; the release of that lock around notifications is not modelled.

  \<^bold>\<open>Not modelled.\<close> The user interface, RPC, wallet, databases, peers, mining, mempool and light client are glue, concurrent input and output, or third party interfaces around the core;
  the curve arithmetic and the floating point difficulty are parameters. Of the chain package, notifications, indexes, the creation of the chain from a database and the queries for locators
  are left out.
\<close>

end
